(* ===== verification/Prelude.thy ===== *)
theory Prelude
  imports Main
begin

text \<open>
  What the components share: the type of texts, and lemmas on lists and slices.

  A Rust \<open>&str\<close> is a sequence of Unicode scalar values. It is modelled as the list of its
  code points (\<open>uchar\<close> is a code point, a natural number). The code works with byte
  offsets into a text; every offset it computes lies on a character boundary, so the model
  counts characters instead of bytes: \<open>slice t s e\<close> is \<open>&t[s..e]\<close>.

  A UUID is a natural number: its \<open>Ord\<close> instance orders UUIDs as 128-bit numbers.
\<close>

type_synonym uchar = nat
type_synonym ustr = "uchar list"
type_synonym uuid = nat

section \<open>ASCII literals as code points\<close>

definition ascii :: "string \<Rightarrow> ustr" where
  "ascii s = map of_char s"

lemma ascii_Nil [simp]: "ascii [] = []"
  by (simp add: ascii_def)

lemma ascii_Cons [simp]: "ascii (c # s) = of_char c # ascii s"
  by (simp add: ascii_def)

lemma length_ascii [simp]: "length (ascii s) = length s"
  by (simp add: ascii_def)

section \<open>Slices\<close>

definition slice :: "ustr \<Rightarrow> nat \<Rightarrow> nat \<Rightarrow> ustr" where
  "slice t s e = take (e - s) (drop s t)"

lemma slice_append:
  "s \<le> m \<Longrightarrow> m \<le> e \<Longrightarrow> slice t s m @ slice t m e = slice t s e"
proof -
  assume "s \<le> m" "m \<le> e"
  then have e: "e - s = (m - s) + (e - m)" and m: "drop m t = drop (m - s) (drop s t)"
    by simp_all
  show ?thesis
    unfolding slice_def e m by (rule take_add [symmetric])
qed

lemma slice_empty [simp]: "slice t s s = []"
  by (simp add: slice_def)

lemma slice_full [simp]: "slice t 0 (length t) = t"
  by (simp add: slice_def)

lemma slice_mid: "slice (xs @ ys @ zs) (length xs) (length xs + length ys) = ys"
  by (simp add: slice_def)

section \<open>Lists\<close>

lemma length_dropWhile_less: "length (dropWhile P xs) < Suc (length xs)"
  by (simp add: length_dropWhile_le le_imp_less_Suc)

lemma length_le_1: "xs \<noteq> [] \<Longrightarrow> length xs \<le> 1 \<Longrightarrow> length xs = 1"
  by (cases xs) auto

lemma concat_snoc [simp]: "concat (xss @ [xs]) = concat xss @ xs"
  by simp

lemma foldl_snoc [simp]: "foldl f a (xs @ [x]) = f (foldl f a xs) x"
  by simp

text \<open>An invariant of a \<open>for\<close> loop, stated over the elements already consumed.\<close>

lemma foldl_invariant:
  assumes init: "I [] a"
    and step: "\<And>ys y zs s. xs = ys @ y # zs \<Longrightarrow> I ys s \<Longrightarrow> I (ys @ [y]) (f s y)"
  shows "I xs (foldl f a xs)"
proof -
  have "xs = ys @ zs \<Longrightarrow> I ys s \<Longrightarrow> I xs (foldl f s zs)" for ys zs s
  proof (induction zs arbitrary: ys s)
    case Nil
    then show ?case by simp
  next
    case (Cons z zs)
    then have "I (ys @ [z]) (f s z)"
      by (intro step) auto
    with Cons.IH [of "ys @ [z]" "f s z"] Cons.prems show ?case by simp
  qed
  from this [of "[]" xs a] init show ?thesis by simp
qed

text \<open>\<open>slice::chunks\<close>.\<close>

function chunks_of :: "nat \<Rightarrow> 'a list \<Rightarrow> 'a list list" where
  "chunks_of n xs = (if xs = [] \<or> n = 0 then [] else take n xs # chunks_of n (drop n xs))"
  by pat_completeness auto
termination
  by (relation "measure (\<lambda>(n, xs). length xs)") auto

declare chunks_of.simps [simp del]

lemma concat_chunks: "0 < n \<Longrightarrow> concat (chunks_of n xs) = xs"
  by (induction n xs rule: chunks_of.induct) (subst chunks_of.simps, auto)

section \<open>Strings: joining, splitting, decimals\<close>

text \<open>\<open>slice::join\<close>.\<close>

fun join :: "ustr \<Rightarrow> ustr list \<Rightarrow> ustr" where
  "join sep [] = []"
| "join sep [x] = x"
| "join sep (x # y # zs) = x @ sep @ join sep (y # zs)"

lemma join_Cons: "xs \<noteq> [] \<Longrightarrow> join sep (x # xs) = x @ sep @ join sep xs"
  by (cases xs) auto

lemma join_append:
  "xs \<noteq> [] \<Longrightarrow> ys \<noteq> [] \<Longrightarrow> join sep (xs @ ys) = join sep xs @ sep @ join sep ys"
  by (induction sep xs rule: join.induct) (auto simp: join_Cons)

text \<open>\<open>char::is_whitespace\<close>: the Unicode \<open>White_Space\<close> property.\<close>

definition is_whitespace :: "uchar \<Rightarrow> bool" where
  "is_whitespace c \<longleftrightarrow>
     0x09 \<le> c \<and> c \<le> 0x0D \<or> 0x2000 \<le> c \<and> c \<le> 0x200A \<or>
     c \<in> {0x20, 0x85, 0xA0, 0x1680, 0x2028, 0x2029, 0x202F, 0x205F, 0x3000}"

text \<open>\<open>str::trim\<close>.\<close>

definition trim :: "ustr \<Rightarrow> ustr" where
  "trim s = rev (dropWhile is_whitespace (rev (dropWhile is_whitespace s)))"

text \<open>
  \<open>str::split\<close> with a non-empty separator: the leftmost non-overlapping occurrences of the
  separator cut the text.
\<close>

function split_on :: "ustr \<Rightarrow> ustr \<Rightarrow> ustr \<Rightarrow> ustr list" where
  "split_on sep cur s =
     (if s = [] then [cur]
      else if sep \<noteq> [] \<and> take (length sep) s = sep
        then cur # split_on sep [] (drop (length sep) s)
      else split_on sep (cur @ [hd s]) (tl s))"
  by pat_completeness auto
termination
  by (relation "measure (\<lambda>(sep, cur, s). length s)") auto

declare split_on.simps [simp del]

definition split_str :: "ustr \<Rightarrow> ustr \<Rightarrow> ustr list" where
  "split_str sep s = split_on sep [] s"

lemma split_on_nonempty [simp]: "split_on sep cur s \<noteq> []"
  by (induction sep cur s rule: split_on.induct) (subst split_on.simps, simp)

lemma join_split_on: "join sep (split_on sep cur s) = cur @ s"
proof (induction sep cur s rule: split_on.induct)
  case (1 sep cur s)
  show ?case
  proof (cases "s = []")
    case True
    then show ?thesis by (subst split_on.simps) simp
  next
    case s: False
    show ?thesis
    proof (cases "sep \<noteq> [] \<and> take (length sep) s = sep")
      case True
      with 1 s have "join sep (split_on sep cur s) = cur @ sep @ drop (length sep) s"
        by (subst split_on.simps) (simp add: join_Cons)
      with True show ?thesis by (metis append_take_drop_id)
    next
      case False
      then have "split_on sep cur s = split_on sep (cur @ [hd s]) (tl s)"
        using s by (subst split_on.simps) auto
      with "1.IH"(2) [OF s False] s show ?thesis by simp
    qed
  qed
qed

lemma join_split_str [simp]: "join sep (split_str sep s) = s"
  by (simp add: split_str_def join_split_on)

text \<open>\<open>Display\<close> of an unsigned integer.\<close>

fun show_nat :: "nat \<Rightarrow> ustr" where
  "show_nat n = (if n < 10 then [0x30 + n] else show_nat (n div 10) @ [0x30 + n mod 10])"

declare show_nat.simps [simp del]

end
