(* ===== verification/Chunk_Word.thy ===== *)
theory Chunk_Word
  imports Prelude
begin

text \<open>
  The word-level scanner of \<open>crates/chunking/src/chunk_by_word.rs\<close>.

  \<open>word_chunk\<close> is \<open>WordChunk\<close>: a borrowed slice of the input (its text and where it
  starts) and its type. The \<open>while let Some((byte_pos, ch)) = iter.next()\<close> loop is
  \<open>word_loop\<close>: \<open>st\<close> is \<open>chunk_start\<close>, \<open>cur\<close> the characters scanned since
  \<open>chunk_start\<close>, and the last argument what the iterator has left.
\<close>

datatype word_type = Word | SentenceEnd | ParagraphEnd

record word_chunk =
  wc_start :: nat
  wc_text :: ustr
  wc_type :: word_type

definition wc_end :: "word_chunk \<Rightarrow> nat" where
  "wc_end w = wc_start w + length (wc_text w)"

definition is_sentence_ending :: "uchar \<Rightarrow> bool" where
  "is_sentence_ending c \<longleftrightarrow>
     c \<in> {0x2E, 0x3B, 0x21, 0x3F, 0x2026, 0x3002, 0xFF01, 0xFF1F}"

definition is_paragraph_ending :: "uchar \<Rightarrow> bool" where
  "is_paragraph_ending c \<longleftrightarrow> c = 0x0A \<or> c = 0x0D"

abbreviation is_space :: "uchar \<Rightarrow> bool" where
  "is_space c \<equiv> c = 0x20"

function (sequential) word_loop :: "nat \<Rightarrow> ustr \<Rightarrow> ustr \<Rightarrow> word_chunk list" where
  "word_loop st cur [] =
     (if cur = [] then [] else [\<lparr>wc_start = st, wc_text = cur, wc_type = Word\<rparr>])"
| "word_loop st cur (ch # it) =
     (if is_space ch then
        \<lparr>wc_start = st, wc_text = cur @ [ch], wc_type = Word\<rparr>
          # word_loop (st + length cur + 1) [] it
      else if is_sentence_ending ch then
        (let sp = takeWhile is_space it;
             it' = dropWhile is_space it;
             txt = cur @ [ch] @ sp;
             is_para_end = (case it' of [] \<Rightarrow> False | c # _ \<Rightarrow> is_paragraph_ending c)
         in \<lparr>wc_start = st, wc_text = txt,
             wc_type = (if is_para_end then ParagraphEnd else SentenceEnd)\<rparr>
              # word_loop (st + length txt) [] it')
      else word_loop st (cur @ [ch]) it)"
  by pat_completeness auto
termination
  by (relation "measure (\<lambda>(st, cur, it). length it)")
    (auto simp: length_dropWhile_le le_imp_less_Suc)

definition chunk_by_word :: "ustr \<Rightarrow> word_chunk list" where
  "chunk_by_word d = word_loop 0 [] d"

section \<open>The scanner loses nothing\<close>

lemma word_loop_concat: "concat (map wc_text (word_loop st cur it)) = cur @ it"
  by (induction st cur it rule: word_loop.induct) (simp_all add: Let_def)

lemma word_loop_nonempty: "w \<in> set (word_loop st cur it) \<Longrightarrow> wc_text w \<noteq> []"
  by (induction st cur it rule: word_loop.induct) (auto simp: Let_def split: if_splits)

text \<open>Consecutive chunks are adjacent slices: each starts where the one before ends.\<close>

fun wc_contig :: "nat \<Rightarrow> word_chunk list \<Rightarrow> bool" where
  "wc_contig s [] = True"
| "wc_contig s (w # ws) = (wc_start w = s \<and> wc_contig (wc_end w) ws)"

lemma word_loop_contig: "wc_contig st (word_loop st cur it)"
  by (induction st cur it rule: word_loop.induct) (simp_all add: Let_def wc_end_def)

lemma wc_contig_append:
  "wc_contig s (us @ vs) \<longleftrightarrow>
     wc_contig s us \<and> wc_contig (s + length (concat (map wc_text us))) vs"
  by (induction us arbitrary: s) (auto simp: wc_end_def add.assoc)

lemma chunk_by_word_concat [simp]: "concat (map wc_text (chunk_by_word d)) = d"
  by (simp add: chunk_by_word_def word_loop_concat)

text \<open>Hence every chunk is the slice of the input its offsets name.\<close>

lemma chunk_by_word_split:
  assumes "chunk_by_word d = us @ w # vs"
  shows "wc_start w = length (concat (map wc_text us))"
    and "d = concat (map wc_text us) @ wc_text w @ concat (map wc_text vs)"
proof -
  have "wc_contig 0 (us @ w # vs)"
    using word_loop_contig [of 0 "[]" d] assms by (simp add: chunk_by_word_def)
  then show "wc_start w = length (concat (map wc_text us))"
    by (simp add: wc_contig_append)
  show "d = concat (map wc_text us) @ wc_text w @ concat (map wc_text vs)"
    using chunk_by_word_concat [of d] assms by simp
qed

lemma chunk_by_word_slice:
  assumes "w \<in> set (chunk_by_word d)"
  shows "wc_text w = slice d (wc_start w) (wc_end w)" and "wc_end w \<le> length d"
proof -
  from assms obtain us vs where *: "chunk_by_word d = us @ w # vs"
    by (auto simp: in_set_conv_decomp)
  note d = chunk_by_word_split [OF *]
  show "wc_text w = slice d (wc_start w) (wc_end w)"
    by (subst d(2)) (simp add: wc_end_def d(1) slice_mid)
  show "wc_end w \<le> length d"
    by (subst d(2)) (simp add: wc_end_def d(1))
qed

section \<open>What a chunk looks like\<close>

text \<open>
  A chunk of type \<open>Word\<close> has no sentence-ending character and a space only at its end; the
  two other types are a body, one sentence-ending character and trailing spaces, and which of
  the two they are is decided by the character that follows them in the input.
\<close>

definition plain_body :: "ustr \<Rightarrow> bool" where
  "plain_body b \<longleftrightarrow> (\<forall>c \<in> set b. \<not> is_sentence_ending c \<and> \<not> is_space c)"

definition word_shape :: "ustr \<Rightarrow> word_chunk \<Rightarrow> bool" where
  "word_shape nx w \<longleftrightarrow>
     (case wc_type w of
        Word \<Rightarrow> (\<forall>c \<in> set (wc_text w). \<not> is_sentence_ending c) \<and> plain_body (butlast (wc_text w))
      | t \<Rightarrow> (\<exists>body c sp. wc_text w = body @ [c] @ sp \<and> plain_body body \<and> is_sentence_ending c \<and>
              (\<forall>x \<in> set sp. is_space x)) \<and>
            (t = ParagraphEnd \<longleftrightarrow> nx \<noteq> [] \<and> is_paragraph_ending (hd nx)))"

lemma space_not_ending [simp]: "\<not> is_sentence_ending 0x20"
  by (simp add: is_sentence_ending_def)

lemma word_shape_Word:
  "plain_body cur \<Longrightarrow> word_shape nx \<lparr>wc_start = s, wc_text = cur, wc_type = Word\<rparr>"
  "plain_body cur \<Longrightarrow> word_shape nx \<lparr>wc_start = s, wc_text = cur @ [0x20], wc_type = Word\<rparr>"
  by (auto simp: word_shape_def plain_body_def dest: in_set_butlastD)

lemma word_shape_end:
  assumes "plain_body cur" "is_sentence_ending c" "\<forall>x \<in> set sp. is_space x"
  shows "word_shape nx \<lparr>wc_start = s, wc_text = cur @ c # sp,
     wc_type = (if (case nx of [] \<Rightarrow> False | c # _ \<Rightarrow> is_paragraph_ending c)
                then ParagraphEnd else SentenceEnd)\<rparr>"
proof -
  have "\<exists>body c' sp'. cur @ c # sp = body @ c' # sp' \<and> plain_body body \<and>
      is_sentence_ending c' \<and> (\<forall>x \<in> set sp'. is_space x)"
    using assms by blast
  then show ?thesis by (cases nx) (simp_all add: word_shape_def)
qed

lemma word_loop_shape:
  assumes "plain_body cur" and "word_loop st cur it = us @ w # vs"
  shows "word_shape (concat (map wc_text vs)) w"
  using assms
proof (induction st cur it arbitrary: us rule: word_loop.induct)
  case (1 st cur)
  then show ?case by (cases us) (auto simp: word_shape_Word split: if_splits)
next
  case (2 st cur ch it)
  show ?case
  proof (cases "is_space ch")
    case True
    with 2 show ?thesis
      by (cases us) (auto simp: word_shape_Word plain_body_def word_loop_concat)
  next
    case sp: False
    show ?thesis
    proof (cases "is_sentence_ending ch")
      case False
      with 2 sp show ?thesis by (simp add: plain_body_def)
    next
      case True
      have "\<forall>x \<in> set (takeWhile is_space it). is_space x"
        by (auto dest: set_takeWhileD)
      with 2 sp True show ?thesis
        by (cases us) (auto simp: Let_def word_shape_end plain_body_def word_loop_concat)
    qed
  qed
qed

section \<open>Properties\<close>

text \<open>
  The word chunker is lossless: its chunks concatenate to the input, and each chunk is the
  non-empty slice of the input that its start and end offsets name.
\<close>

lemma chunk_by_word_lossless:
  "concat (map wc_text (chunk_by_word d)) = d \<and>
   list_all (\<lambda>w. wc_text w \<noteq> [] \<and> wc_end w \<le> length d \<and>
                 wc_text w = slice d (wc_start w) (wc_end w)) (chunk_by_word d)"
proof (intro conjI)
  show "concat (map wc_text (chunk_by_word d)) = d" by simp
  have "wc_text w \<noteq> []" if "w \<in> set (chunk_by_word d)" for w
    using that by (auto simp: chunk_by_word_def dest: word_loop_nonempty)
  then show "list_all (\<lambda>w. wc_text w \<noteq> [] \<and> wc_end w \<le> length d \<and>
      wc_text w = slice d (wc_start w) (wc_end w)) (chunk_by_word d)"
    by (auto simp: list_all_iff chunk_by_word_slice)
qed

text \<open>
  The type of a word chunk tells where it was cut. A \<open>Word\<close> has no sentence-ending
  character and at most a trailing space; a sentence or paragraph end is a body, one
  sentence-ending character and spaces, and it is a paragraph end exactly when the character
  that follows it in the input ends a paragraph.
\<close>

lemma chunk_by_word_types:
  assumes "chunk_by_word d = us @ w # vs"
  shows "word_shape (concat (map wc_text vs)) w"
  using word_loop_shape [of "[]" 0 d us w vs] assms
  by (simp add: chunk_by_word_def plain_body_def)

lemma chunk_by_word_types_witness:
  "word_shape [0x0A, 0x62] \<lparr>wc_start = 0, wc_text = [0x61, 0x2E, 0x20], wc_type = ParagraphEnd\<rparr>"
  using chunk_by_word_types [of "[0x61, 0x2E, 0x20, 0x0A, 0x62]" "[]"
      "\<lparr>wc_start = 0, wc_text = [0x61, 0x2E, 0x20], wc_type = ParagraphEnd\<rparr>"
      "[\<lparr>wc_start = 3, wc_text = [0x0A, 0x62], wc_type = Word\<rparr>]"]
  by (simp add: chunk_by_word_def is_sentence_ending_def is_paragraph_ending_def Let_def)

end
