(* ===== verification/Token_Counter.thy ===== *)
theory Token_Counter
  imports Prelude
begin

text \<open>
  Token counting: \<open>crates/chunking/src/token_counter.rs\<close> and the selection of a counter in
  \<open>crates/chunking/src/config.rs\<close>.

  The trait \<open>TokenCounter\<close> is a function from texts to sizes. Its HuggingFace and TikToken
  implementations call third-party tokenizers, so the chunkers take the counter as a
  parameter; the locale \<open>token_counter\<close> states the law the two-tier overflow checks of the
  chunkers rely on (the counts of the parts of a text bound the count of the text), and
  \<open>monotone_token_counter\<close> adds that a text counts at least as much as its prefixes. Both are
  interpreted on \<open>WordCounter\<close>, the counter the crate itself implements.
\<close>

type_synonym counter = "ustr \<Rightarrow> nat"

datatype token_count_mode = Span | PerWord

definition from_legacy_flag :: "bool \<Rightarrow> token_count_mode" where
  "from_legacy_flag legacy_per_word = (if legacy_per_word then PerWord else Span)"

section \<open>The interface\<close>

locale token_counter =
  fixes count_tokens :: "ustr \<Rightarrow> nat"
  assumes subadditive: "count_tokens (a @ b) \<le> count_tokens a + count_tokens b"

locale monotone_token_counter = token_counter +
  assumes prefix_mono: "count_tokens a \<le> count_tokens (a @ b)"

section \<open>The whitespace counter\<close>

text \<open>
  \<open>text.split_whitespace().count()\<close>: the number of maximal runs of other characters. The flag
  says whether the scan is inside such a run.
\<close>

fun count_runs :: "bool \<Rightarrow> ustr \<Rightarrow> nat" where
  "count_runs inside [] = 0"
| "count_runs inside (c # cs) =
     (if is_whitespace c then count_runs False cs
      else (if inside then 0 else 1) + count_runs True cs)"

definition word_counter :: counter where
  "word_counter s = count_runs False s"

lemma count_runs_flag:
  "count_runs True s \<le> count_runs False s" "count_runs b s \<le> count_runs False s"
  by (cases s; cases b; simp)+

lemma count_runs_append:
  "count_runs b (s @ t) \<le> count_runs b s + count_runs False t"
  "count_runs b s \<le> count_runs b (s @ t)"
  by (induction s arbitrary: b) (auto simp: count_runs_flag)

interpretation word_counter: monotone_token_counter word_counter
  by unfold_locales (simp_all add: word_counter_def count_runs_append)

lemma word_counter_Nil [simp]: "word_counter [] = 0"
  by (simp add: word_counter_def)

section \<open>Choosing a counter\<close>

text \<open>
  \<open>TokenCounterKind\<close>. The build features are the arguments \<open>hf\<close> and \<open>tk\<close> of \<open>effective\<close>;
  \<open>to_lowercase\<close> (Unicode case tables) and \<open>Path::exists\<close> (the file system) are arguments of
  \<open>resolve\<close>.
\<close>

datatype token_counter_kind =
    HuggingFace ustr
  | HuggingFaceFile ustr
  | TikToken
  | WordKind

definition hf_model :: "ustr \<Rightarrow> token_counter_kind option" where
  "hf_model hf_tokenizer =
     (let m = trim hf_tokenizer in if m = [] then None else Some (HuggingFace m))"

definition resolve_by_provider ::
  "(ustr \<Rightarrow> ustr) \<Rightarrow> (ustr \<Rightarrow> bool) \<Rightarrow> ustr \<Rightarrow> ustr \<Rightarrow> token_counter_kind" where
  "resolve_by_provider lower exists embedding_provider tokenizer_path =
     (let provider = lower (trim embedding_provider) in
      if provider \<in> {ascii ''onnx'', ascii ''fastembed''} then
        (let p = trim tokenizer_path in
         if p \<noteq> [] \<and> exists p then HuggingFaceFile p else WordKind)
      else if provider \<in> {[], ascii ''openai'', ascii ''openai_compatible''} then TikToken
      else if provider = ascii ''bedrock'' then TikToken
      else WordKind)"

definition resolve ::
  "(ustr \<Rightarrow> ustr) \<Rightarrow> (ustr \<Rightarrow> bool) \<Rightarrow> ustr \<Rightarrow> ustr \<Rightarrow> ustr \<Rightarrow> ustr \<Rightarrow> token_counter_kind" where
  "resolve lower exists counter_name hf_tokenizer embedding_provider tokenizer_path =
     (let tc = lower (trim counter_name);
          rest = (case hf_model hf_tokenizer of
                    Some k \<Rightarrow> k
                  | None \<Rightarrow> resolve_by_provider lower exists embedding_provider tokenizer_path)
      in if tc = ascii ''tiktoken'' then TikToken
         else if tc = ascii ''word'' then WordKind
         else if tc \<in> {ascii ''huggingface'', ascii ''hf''} then
           (case hf_model hf_tokenizer of Some k \<Rightarrow> k | None \<Rightarrow> rest)
         else rest)"

definition effective :: "bool \<Rightarrow> bool \<Rightarrow> token_counter_kind \<Rightarrow> token_counter_kind" where
  "effective hf tk k =
     (case k of
        WordKind \<Rightarrow> WordKind
      | HuggingFace m \<Rightarrow> (if hf then k else WordKind)
      | HuggingFaceFile p \<Rightarrow> (if hf then k else WordKind)
      | TikToken \<Rightarrow> (if tk then TikToken else WordKind))"

definition fit_token_budget :: "bool \<Rightarrow> bool \<Rightarrow> token_counter_kind \<Rightarrow> nat \<Rightarrow> nat" where
  "fit_token_budget hf tk k token_budget =
     (case effective hf tk k of
        WordKind \<Rightarrow> max (token_budget * 100 div 150) 1
      | _ \<Rightarrow> token_budget)"

text \<open>
  \<open>build\<close>: which counter a kind gives. The tokenizer back ends are the arguments \<open>from_pretrained\<close>,
  \<open>from_file\<close> and \<open>cl100k\<close>, whose loading can fail.
\<close>

datatype chunking_error = TokenizerError | InvalidChunkSize nat | StorageError | InvalidUtf8

definition build_counter ::
  "(ustr \<Rightarrow> chunking_error + counter) \<Rightarrow> (ustr \<Rightarrow> chunking_error + counter)
     \<Rightarrow> chunking_error + counter \<Rightarrow> bool \<Rightarrow> bool \<Rightarrow> token_counter_kind \<Rightarrow> chunking_error + counter" where
  "build_counter from_pretrained from_file cl100k hf tk k =
     (case k of
        WordKind \<Rightarrow> Inr word_counter
      | HuggingFace m \<Rightarrow> (if hf then from_pretrained m else Inr word_counter)
      | HuggingFaceFile p \<Rightarrow> (if hf then from_file p else Inr word_counter)
      | TikToken \<Rightarrow> (if tk then cl100k else Inr word_counter))"

text \<open>
  \<open>effective\<close> and \<open>build\<close> agree on when the whitespace counter is what runs, which is what
  makes the unit conversion of \<open>fit_token_budget\<close> the right one.
\<close>

lemma build_counter_effective:
  "effective hf tk k = WordKind \<Longrightarrow> build_counter fp ff cl hf tk k = Inr word_counter"
  by (auto simp: effective_def build_counter_def split: token_counter_kind.splits if_splits)

lemma hf_model_nonblank: "hf_model s = Some (HuggingFace m) \<Longrightarrow> m \<noteq> []"
  by (auto simp: hf_model_def Let_def split: if_splits)

section \<open>Properties\<close>

text \<open>
  The unit conversion of the token budget goes with the counter that runs. Whenever the
  effective kind is the whitespace counter, building the counter cannot fail and yields it, and
  the budget is two thirds of the token budget, rounded down and at least one; otherwise the
  budget is the token budget.
\<close>

lemma fit_budget_matches_counter:
  "(effective hf tk k = WordKind \<and> build_counter fp ff cl hf tk k = Inr word_counter \<and>
    fit_token_budget hf tk k budget = max (2 * budget div 3) 1) \<or>
   (effective hf tk k = k \<and> k \<noteq> WordKind \<and> fit_token_budget hf tk k budget = budget)"
proof (cases "effective hf tk k = WordKind")
  case True
  have "budget * 100 div 150 = 2 * budget div 3" by simp
  with True build_counter_effective [OF True] show ?thesis
    by (simp add: fit_token_budget_def)
next
  case False
  then show ?thesis
    by (cases k) (auto simp: effective_def fit_token_budget_def split: if_splits)
qed

end
