(* ===== verification/Chunk_Sentence.thy ===== *)
theory Chunk_Sentence
  imports Chunk_Word Token_Counter
begin

text \<open>
  The sentence chunker of \<open>crates/chunking/src/chunk_by_sentence.rs\<close> and the \<open>CutType\<close> of
  \<open>cut_type.rs\<close>.

  The \<open>for word_chunk in &words\<close> loop is a fold of \<open>sent_step\<close> over the words; the
  mutable locals of the Rust function are the fields of \<open>sent_state\<close>. Parameters stand for
  what the function gets from outside: \<open>alpha\<close> is \<open>char::is_alphabetic\<close> (a Unicode table),
  \<open>v4\<close> the sequence of ids that successive calls of \<open>Uuid::new_v4\<close> draw, \<open>count\<close> the token
  counter.
\<close>

datatype cut_type =
    CutParagraphEnd
  | CutSentenceEnd
  | CutSentenceCut
  | CutWord
  | CutDltRow
  | CutRowCut
  | CutRowEnd

definition cut_type_display :: "cut_type \<Rightarrow> string" where
  "cut_type_display c =
     (case c of
        CutParagraphEnd \<Rightarrow> ''paragraph_end''
      | CutSentenceEnd \<Rightarrow> ''sentence_end''
      | CutSentenceCut \<Rightarrow> ''sentence_cut''
      | CutWord \<Rightarrow> ''word''
      | CutDltRow \<Rightarrow> ''dlt_row''
      | CutRowCut \<Rightarrow> ''row_cut''
      | CutRowEnd \<Rightarrow> ''row_end'')"

lemma cut_type_display_inject: "cut_type_display c = cut_type_display c' \<longleftrightarrow> c = c'"
  by (cases c; cases c') (simp_all add: cut_type_display_def)

record sentence_chunk =
  sc_paragraph_id :: uuid
  sc_start :: nat
  sc_text :: ustr
  sc_size :: nat
  sc_cut :: cut_type

definition word_type_to_cut_type :: "word_type \<Rightarrow> cut_type" where
  "word_type_to_cut_type wt =
     (case wt of ParagraphEnd \<Rightarrow> CutParagraphEnd | SentenceEnd \<Rightarrow> CutSentenceEnd | Word \<Rightarrow> CutWord)"

record sent_state =
  ss_result :: "sentence_chunk list"
  ss_drawn :: nat
  ss_paragraph_id :: uuid
  ss_size :: nat
  ss_type :: word_type
  ss_start :: "nat option"
  ss_end :: nat

definition sent_init :: "(nat \<Rightarrow> uuid) \<Rightarrow> sent_state" where
  "sent_init v4 = \<lparr>ss_result = [], ss_drawn = 1, ss_paragraph_id = v4 0, ss_size = 0,
     ss_type = Word, ss_start = None, ss_end = 0\<rparr>"

text \<open>The closure \<open>emitted_size\<close> of the chunkers.\<close>

definition emitted_size :: "counter \<Rightarrow> token_count_mode \<Rightarrow> ustr \<Rightarrow> nat \<Rightarrow> nat" where
  "emitted_size count mode txt accumulated =
     (case mode of PerWord \<Rightarrow> accumulated | Span \<Rightarrow> count txt)"

text \<open>
  The two-tier overflow check: a suspected overflow (\<open>next > max\<close>) of a started span is
  confirmed against the exact count of the span in mode \<open>Span\<close>, and a false alarm re-baselines
  the accumulator. The result is \<open>(overflows, next_size)\<close>.
\<close>

definition check_overflow ::
  "counter \<Rightarrow> token_count_mode \<Rightarrow> nat option \<Rightarrow> bool \<Rightarrow> ustr option \<Rightarrow> nat \<Rightarrow> bool \<times> nat" where
  "check_overflow count mode mx suspected with_next next_size =
     (case (mx, with_next) of
        (Some m, Some txt) \<Rightarrow>
          (if suspected \<and> mode = Span \<and> count txt \<le> m then (False, count txt)
           else (suspected, next_size))
      | _ \<Rightarrow> (suspected, next_size))"

definition sent_step ::
  "(uchar \<Rightarrow> bool) \<Rightarrow> (nat \<Rightarrow> uuid) \<Rightarrow> ustr \<Rightarrow> nat option \<Rightarrow> counter \<Rightarrow> token_count_mode
     \<Rightarrow> sent_state \<Rightarrow> word_chunk \<Rightarrow> sent_state" where
  "sent_step alpha v4 d mx count mode st w =
     (let word_size = count (wc_text w);
          wts = (case wc_type w of
                   Word \<Rightarrow> (if \<exists>c \<in> set (wc_text w). alpha c then Word else ss_type st)
                 | t \<Rightarrow> t);
          next0 = ss_size st + word_size;
          suspected = (case mx of None \<Rightarrow> False | Some m \<Rightarrow> m < next0);
          (overflows, next_size) =
            check_overflow count mode mx suspected
              (map_option (\<lambda>s. slice d s (wc_end w)) (ss_start st)) next0
      in case (if overflows then ss_start st else None) of
           Some s \<Rightarrow>
             st\<lparr>ss_result := ss_result st @
                  [\<lparr>sc_paragraph_id = ss_paragraph_id st, sc_start = s,
                    sc_text = slice d s (ss_end st),
                    sc_size = emitted_size count mode (slice d s (ss_end st)) (ss_size st),
                    sc_cut = word_type_to_cut_type wts\<rparr>],
                ss_type := wts,
                ss_start := Some (wc_start w), ss_end := wc_end w, ss_size := word_size\<rparr>
         | None \<Rightarrow>
             (let start = (case ss_start st of None \<Rightarrow> wc_start w | Some s \<Rightarrow> s) in
              if wc_type w = Word then
                st\<lparr>ss_type := wts, ss_start := Some start, ss_end := wc_end w,
                   ss_size := next_size\<rparr>
              else
                (let para = (wc_type w = ParagraphEnd);
                     pid = (if para then v4 (ss_drawn st) else ss_paragraph_id st);
                     txt = slice d start (wc_end w)
                 in st\<lparr>ss_result := ss_result st @
                        [\<lparr>sc_paragraph_id = pid, sc_start = start, sc_text = txt,
                          sc_size = emitted_size count mode txt next_size,
                          sc_cut = word_type_to_cut_type wts\<rparr>],
                      ss_drawn := (if para then Suc (ss_drawn st) else ss_drawn st),
                      ss_paragraph_id := pid,
                      ss_type := wts, ss_start := None, ss_end := wc_end w, ss_size := 0\<rparr>)))"

definition sent_finish ::
  "ustr \<Rightarrow> counter \<Rightarrow> token_count_mode \<Rightarrow> sent_state \<Rightarrow> sentence_chunk list" where
  "sent_finish d count mode st =
     (case ss_start st of
        None \<Rightarrow> ss_result st
      | Some s \<Rightarrow>
          ss_result st @
            [\<lparr>sc_paragraph_id = ss_paragraph_id st, sc_start = s,
              sc_text = slice d s (ss_end st),
              sc_size = emitted_size count mode (slice d s (ss_end st)) (ss_size st),
              sc_cut = (if ss_type st = Word then CutSentenceCut
                        else word_type_to_cut_type (ss_type st))\<rparr>])"

definition chunk_by_sentence ::
  "(uchar \<Rightarrow> bool) \<Rightarrow> (nat \<Rightarrow> uuid) \<Rightarrow> ustr \<Rightarrow> nat option \<Rightarrow> counter \<Rightarrow> token_count_mode
     \<Rightarrow> sentence_chunk list" where
  "chunk_by_sentence alpha v4 d mx count mode =
     sent_finish d count mode
       (foldl (sent_step alpha v4 d mx count mode) (sent_init v4) (chunk_by_word d))"

section \<open>The loop as a partition of the words\<close>

text \<open>
  The abstract reading of the loop: the words seen so far are a list of groups, one per
  emitted sentence, followed by the words of the sentence under construction. A sentence
  carries the text of its group, whatever path emitted it.
\<close>

definition cat :: "word_chunk list \<Rightarrow> ustr" where
  "cat g = concat (map wc_text g)"

lemma cat_simps [simp]: "cat [] = []" "cat (g @ h) = cat g @ cat h" "cat [w] = wc_text w"
  by (simp_all add: cat_def)

lemma slice_group:
  assumes "chunk_by_word d = us @ g @ vs" and "g \<noteq> []"
  shows "slice d (wc_start (hd g)) (wc_end (last g)) = cat g"
proof -
  obtain x g1 where x: "g = x # g1" using assms(2) by (cases g) auto
  obtain y g2 where y: "g = g2 @ [y]" using assms(2) by (cases g rule: rev_cases) auto
  have s: "wc_start x = length (cat us)" and d: "d = cat us @ cat g @ cat vs"
    using chunk_by_word_split [of d us x "g1 @ vs"] assms(1) by (simp_all add: x cat_def)
  have "wc_start y = length (cat us) + length (cat g2)"
    using chunk_by_word_split(1) [of d "us @ g2" y vs] assms(1) by (simp add: y cat_def)
  then have "wc_end (last g) = length (cat us) + length (cat g)"
    by (simp add: wc_end_def y)
  moreover have "wc_start (hd g) = length (cat us)"
    using s x by simp
  ultimately show ?thesis by (subst d) (simp add: slice_mid)
qed

text \<open>What the counter must satisfy for the accumulated size to bound the exact one.\<close>

definition counting_ok :: "counter \<Rightarrow> token_count_mode \<Rightarrow> bool" where
  "counting_ok count mode \<longleftrightarrow> mode = PerWord \<or> token_counter count"

definition group_size :: "counter \<Rightarrow> token_count_mode \<Rightarrow> word_chunk list \<Rightarrow> nat" where
  "group_size count mode g =
     (case mode of PerWord \<Rightarrow> sum_list (map (\<lambda>w. count (wc_text w)) g) | Span \<Rightarrow> count (cat g))"

definition within :: "nat option \<Rightarrow> nat \<Rightarrow> word_chunk list \<Rightarrow> bool" where
  "within mx n g \<longleftrightarrow> (\<forall>m. mx = Some m \<longrightarrow> n \<le> m \<or> length g \<le> 1)"

definition sent_of ::
  "counter \<Rightarrow> token_count_mode \<Rightarrow> nat option \<Rightarrow> word_chunk list \<Rightarrow> sentence_chunk \<Rightarrow> bool" where
  "sent_of count mode mx g sc \<longleftrightarrow>
     g \<noteq> [] \<and> sc_start sc = wc_start (hd g) \<and> sc_text sc = cat g \<and>
     sc_size sc = group_size count mode g \<and>
     (counting_ok count mode \<longrightarrow> within mx (sc_size sc) g)"

definition cur_of ::
  "counter \<Rightarrow> token_count_mode \<Rightarrow> nat option \<Rightarrow> word_chunk list \<Rightarrow> sent_state \<Rightarrow> bool" where
  "cur_of count mode mx cur st \<longleftrightarrow>
     ss_start st = (if cur = [] then None else Some (wc_start (hd cur))) \<and>
     (cur \<noteq> [] \<longrightarrow> ss_end st = wc_end (last cur)) \<and>
     (cur = [] \<longrightarrow> ss_size st = 0) \<and>
     (mode = PerWord \<longrightarrow> ss_size st = group_size count PerWord cur) \<and>
     (counting_ok count mode \<longrightarrow> cur \<noteq> [] \<longrightarrow> group_size count mode cur \<le> ss_size st) \<and>
     within mx (ss_size st) cur"

definition sent_inv ::
  "counter \<Rightarrow> token_count_mode \<Rightarrow> nat option \<Rightarrow> word_chunk list \<Rightarrow> sent_state \<Rightarrow> bool" where
  "sent_inv count mode mx ws st \<longleftrightarrow>
     (\<exists>gs cur. ws = concat gs @ cur \<and> list_all2 (sent_of count mode mx) gs (ss_result st) \<and>
               cur_of count mode mx cur st)"

lemma within_mono: "within mx n g \<Longrightarrow> k \<le> n \<Longrightarrow> within mx k g"
  by (auto simp: within_def intro: order_trans)

lemma emitted_group:
  assumes "cur_of count mode mx cur st" and "cur \<noteq> []"
  shows "emitted_size count mode (cat cur) (ss_size st) = group_size count mode cur"
    and "counting_ok count mode \<Longrightarrow> within mx (group_size count mode cur) cur"
proof -
  show "emitted_size count mode (cat cur) (ss_size st) = group_size count mode cur"
    using assms by (cases mode) (simp_all add: emitted_size_def cur_of_def group_size_def)
  show "within mx (group_size count mode cur) cur" if "counting_ok count mode"
    using assms that by (auto simp: cur_of_def intro: within_mono)
qed

lemma group_size_single [simp]: "group_size count mode [w] = count (wc_text w)"
  by (cases mode) (simp_all add: group_size_def)

lemma group_size_snoc:
  "counting_ok count mode \<Longrightarrow>
     group_size count mode (g @ [w]) \<le> group_size count mode g + count (wc_text w)"
  by (cases mode) (auto simp: group_size_def counting_ok_def intro: token_counter.subadditive)

text \<open>One iteration, by what it does to the current group.\<close>

lemma check_overflow_false:
  assumes "check_overflow count mode mx susp txt n = (False, k)"
  shows "k = n \<and> \<not> susp \<or> (\<exists>t m. txt = Some t \<and> mx = Some m \<and> mode = Span \<and> k = count t \<and> k \<le> m)"
  using assms by (auto simp: check_overflow_def split: option.splits if_splits)

lemma check_overflow_None [simp]:
  "check_overflow count mode mx susp None n = (susp, n)"
  by (cases mx) (simp_all add: check_overflow_def)

lemma take_word_cur:
  assumes cur: "cur_of count mode mx cur st"
    and slice: "cur \<noteq> [] \<Longrightarrow> slice d (wc_start (hd cur)) (wc_end w) = cat (cur @ [w])"
    and chk: "check_overflow count mode mx
        (case mx of None \<Rightarrow> False | Some m \<Rightarrow> m < ss_size st + count (wc_text w))
        (map_option (\<lambda>s. slice d s (wc_end w)) (ss_start st)) (ss_size st + count (wc_text w))
        = (ov, k)"
    and stay: "ov \<Longrightarrow> ss_start st = None"
  shows "mode = PerWord \<Longrightarrow> k = group_size count PerWord (cur @ [w])"
    and "counting_ok count mode \<Longrightarrow> group_size count mode (cur @ [w]) \<le> k"
    and "within mx k (cur @ [w])"
proof -
  let ?n = "ss_size st + count (wc_text w)"
  have cases: "cur = [] \<and> k = count (wc_text w) \<or>
      cur \<noteq> [] \<and> k = ?n \<and> within mx ?n (cur @ [w]) \<or>
      cur \<noteq> [] \<and> mode = Span \<and> k = count (cat (cur @ [w])) \<and> within mx k (cur @ [w])"
  proof (cases "cur = []")
    case True
    with cur chk show ?thesis by (auto simp: cur_of_def)
  next
    case False
    with stay cur have "\<not> ov" by (auto simp: cur_of_def)
    with chk cur False slice show ?thesis
      by (auto simp: within_def cur_of_def dest!: check_overflow_false split: option.splits)
  qed
  show "k = group_size count PerWord (cur @ [w])" if "mode = PerWord"
    using cases cur that by (auto simp: cur_of_def group_size_def)
  show "group_size count mode (cur @ [w]) \<le> k" if ok: "counting_ok count mode"
  proof (cases "cur = []")
    case True
    with cases show ?thesis by simp
  next
    case False
    with cur ok have "group_size count mode cur \<le> ss_size st" by (simp add: cur_of_def)
    with cases False group_size_snoc [OF ok, of cur w] show ?thesis
      by (auto simp: group_size_def)
  qed
  show "within mx k (cur @ [w])"
    using cases by (auto simp: within_def)
qed

lemma sent_step_inv:
  assumes ws: "chunk_by_word d = ws @ w # zs" and inv: "sent_inv count mode mx ws st"
  shows "sent_inv count mode mx (ws @ [w]) (sent_step alpha v4 d mx count mode st w)"
proof -
  from inv obtain gs cur where ws': "ws = concat gs @ cur"
    and gs: "list_all2 (sent_of count mode mx) gs (ss_result st)"
    and cur: "cur_of count mode mx cur st"
    by (auto simp: sent_inv_def)
  have sl: "slice d (wc_start (hd cur)) (wc_end w) = cat (cur @ [w])" if "cur \<noteq> []"
    using slice_group [of d "concat gs" "cur @ [w]" zs] ws ws' that by simp
  have slw: "slice d (wc_start w) (wc_end w) = wc_text w"
    using slice_group [of d "concat gs @ cur" "[w]" zs] ws ws' by simp
  have slc: "slice d (wc_start (hd cur)) (wc_end (last cur)) = cat cur" if "cur \<noteq> []"
    using slice_group [of d "concat gs" cur "w # zs"] ws ws' that by simp
  obtain ov k where chk: "check_overflow count mode mx
        (case mx of None \<Rightarrow> False | Some m \<Rightarrow> m < ss_size st + count (wc_text w))
        (map_option (\<lambda>s. slice d s (wc_end w)) (ss_start st)) (ss_size st + count (wc_text w))
        = (ov, k)"
    by fastforce
  show ?thesis
  proof (cases "ov \<and> cur \<noteq> []")
    case True
    then have start: "ss_start st = Some (wc_start (hd cur))" and fin: "ss_end st = wc_end (last cur)"
      using cur by (auto simp: cur_of_def)
    have "sent_inv count mode mx (concat (gs @ [cur]) @ [w])
        (sent_step alpha v4 d mx count mode st w)"
      unfolding sent_inv_def
      apply (rule exI [of _ "gs @ [cur]"], rule exI [of _ "[w]"])
      using True chk gs emitted_group [OF cur] slc
      by (auto simp: sent_step_def Let_def start fin sent_of_def cur_of_def within_def
          list_all2_appendI)
    with ws' show ?thesis by simp
  next
    case False
    then have stay: "ov \<Longrightarrow> ss_start st = None" using cur by (auto simp: cur_of_def)
    note t = take_word_cur [OF cur sl chk stay]
    let ?g = "cur @ [w]"
    have start: "(case ss_start st of None \<Rightarrow> wc_start w | Some s \<Rightarrow> s) = wc_start (hd ?g)"
      using cur by (auto simp: cur_of_def)
    have txt_eq: "slice d (wc_start (hd ?g)) (wc_end w) = cat ?g"
      using sl slw by (cases "cur = []") auto
    have branch: "(if ov then ss_start st else None) = None"
      using stay by simp
    show ?thesis
    proof (cases "wc_type w = Word")
      case True
      have "sent_inv count mode mx (concat gs @ ?g) (sent_step alpha v4 d mx count mode st w)"
        unfolding sent_inv_def
        apply (rule exI [of _ gs], rule exI [of _ ?g])
        using True chk gs t
        by (auto simp: sent_step_def Let_def branch start cur_of_def)
      with ws' show ?thesis by simp
    next
      case False
      have size: "emitted_size count mode (cat ?g) k = group_size count mode ?g"
        using t(1) by (cases mode) (simp_all add: emitted_size_def group_size_def)
      have fit: "within mx (group_size count mode ?g) ?g" if "counting_ok count mode"
        using t(2,3) that by (blast intro: within_mono)
      have ok: "sent_of count mode mx ?g sc"
        if "sc_start sc = wc_start (hd ?g)" "sc_text sc = cat ?g"
          "sc_size sc = emitted_size count mode (cat ?g) k" for sc
        using that fit by (simp add: sent_of_def size del: cat_simps)
      obtain sc pid dr wts where
        step: "sent_step alpha v4 d mx count mode st w =
          st\<lparr>ss_result := ss_result st @ [sc], ss_drawn := dr, ss_paragraph_id := pid,
             ss_type := wts, ss_start := None, ss_end := wc_end w, ss_size := 0\<rparr>"
        and sc: "sent_of count mode mx ?g sc"
        using False chk ok
        by (simp add: sent_step_def Let_def branch start txt_eq del: cat_simps)
      have "sent_inv count mode mx (concat (gs @ [?g]) @ []) (sent_step alpha v4 d mx count mode st w)"
        unfolding sent_inv_def step
        apply (rule exI [of _ "gs @ [?g]"], rule exI [of _ "[]"])
        using gs sc by (simp add: cur_of_def within_def group_size_def list_all2_appendI)
      with ws' show ?thesis by simp
    qed
  qed
qed

text \<open>The whole function: a partition of the words into the emitted sentences.\<close>

lemma sent_init_inv: "sent_inv count mode mx [] (sent_init v4)"
  by (auto simp: sent_inv_def sent_init_def cur_of_def group_size_def within_def
      intro!: exI [of _ "[]"])

lemma sent_loop_inv:
  "sent_inv count mode mx (chunk_by_word d)
     (foldl (sent_step alpha v4 d mx count mode) (sent_init v4) (chunk_by_word d))"
  by (rule foldl_invariant [where I = "sent_inv count mode mx"])
    (auto intro: sent_init_inv sent_step_inv)

lemma chunk_by_sentence_groups:
  obtains gs where "concat gs = chunk_by_word d"
    and "list_all2 (sent_of count mode mx) gs (chunk_by_sentence alpha v4 d mx count mode)"
proof -
  let ?st = "foldl (sent_step alpha v4 d mx count mode) (sent_init v4) (chunk_by_word d)"
  obtain gs cur where ws: "chunk_by_word d = concat gs @ cur"
    and gs: "list_all2 (sent_of count mode mx) gs (ss_result ?st)"
    and cur: "cur_of count mode mx cur ?st"
    using sent_loop_inv [of count mode mx d alpha v4] unfolding sent_inv_def by blast
  show thesis
  proof (cases "cur = []")
    case True
    with cur ws gs that [of gs] show thesis
      by (simp add: chunk_by_sentence_def sent_finish_def cur_of_def)
  next
    case False
    then have "slice d (wc_start (hd cur)) (wc_end (last cur)) = cat cur"
      using slice_group [of d "concat gs" cur "[]"] ws by simp
    with False cur ws gs that [of "gs @ [cur]"] emitted_group [OF cur False] show thesis
      by (auto simp: chunk_by_sentence_def sent_finish_def cur_of_def sent_of_def
          list_all2_appendI)
  qed
qed

lemma concat_texts:
  "list_all2 (sent_of count mode mx) gs scs \<Longrightarrow> concat (map sc_text scs) = cat (concat gs)"
  by (induction gs scs rule: list_all2_induct) (auto simp: sent_of_def)

lemma chunk_by_sentence_concat:
  "concat (map sc_text (chunk_by_sentence alpha v4 d mx count mode)) = d"
  using chunk_by_sentence_groups [of d count mode mx alpha v4]
  by (metis cat_def chunk_by_word_concat concat_texts)

lemma sentence_is_group:
  assumes "sc \<in> set (chunk_by_sentence alpha v4 d mx count mode)"
  obtains g where "set g \<subseteq> set (chunk_by_word d)" and "sent_of count mode mx g sc"
proof -
  obtain gs where gs: "concat gs = chunk_by_word d"
    "list_all2 (sent_of count mode mx) gs (chunk_by_sentence alpha v4 d mx count mode)"
    by (rule chunk_by_sentence_groups)
  from gs(2) assms obtain g where "g \<in> set gs" "sent_of count mode mx g sc"
    by (auto simp: list_all2_conv_all_nth in_set_conv_nth) (metis nth_mem)
  then have "set g \<subseteq> set (concat gs)" by auto
  then have "set g \<subseteq> set (chunk_by_word d)" by (simp only: gs(1))
  with that \<open>sent_of count mode mx g sc\<close> show thesis by blast
qed

section \<open>Properties\<close>

text \<open>
  The sentence chunks partition the word chunks: each sentence carries the text of a
  non-empty run of consecutive words and starts where the first of them does, its size is the
  exact count of that text (or the sum of the word counts in per-word mode), and it exceeds the
  maximum only when the run is a single word.
\<close>

lemma chunk_by_sentence_partition:
  "\<exists>gs. concat gs = chunk_by_word d \<and>
        list_all2 (sent_of count mode mx) gs (chunk_by_sentence alpha v4 d mx count mode)"
  by (metis chunk_by_sentence_groups)

lemmas sentence_eval = chunk_by_sentence_def chunk_by_word_def Let_def sent_step_def sent_init_def
  sent_finish_def slice_def wc_end_def emitted_size_def check_overflow_def
  word_type_to_cut_type_def is_sentence_ending_def is_paragraph_ending_def word_counter_def
  is_whitespace_def

text \<open>
  A chunk cut by an overflow is labelled with the type of the word that did not fit. On
  \<open>a b c.\<close> with a budget of two words, the chunk \<open>a b \<close> has no sentence-ending character and
  is labelled a sentence end.
\<close>

lemma overflow_cut_type_of_next_word:
  "map (\<lambda>s. (sc_text s, sc_cut s))
     (chunk_by_sentence (\<lambda>c. 97 \<le> c \<and> c \<le> 122) id [97, 32, 98, 32, 99, 46] (Some 2) word_counter Span)
   = [([97, 32, 98, 32], CutSentenceEnd), ([99, 46], CutSentenceEnd)]"
  by (simp add: sentence_eval)

text \<open>
  The sentence that closes a paragraph carries the id of the paragraph after it. On
  \<open>x. a.\<close>, a line break and \<open>b.\<close>, the first two sentences are one paragraph, but the second
  one has the id of the third.
\<close>

lemma closing_sentence_has_next_paragraph_id:
  "map (\<lambda>s. (sc_cut s, sc_paragraph_id s))
     (chunk_by_sentence (\<lambda>c. 97 \<le> c \<and> c \<le> 122) id [120, 46, 32, 97, 46, 10, 98, 46] None word_counter Span)
   = [(CutSentenceEnd, 0), (CutParagraphEnd, 1), (CutSentenceEnd, 1)]"
  by (simp add: sentence_eval)

end
