(* ===== verification/Chunk_Paragraph.thy ===== *)
theory Chunk_Paragraph
  imports Chunk_Sentence
begin

text \<open>
  The paragraph chunker of \<open>crates/chunking/src/chunk_by_paragraph.rs\<close>.

  The \<open>for sentence in &sentences\<close> loop is a fold of \<open>para_step\<close>; the function's mutable
  locals are the fields of \<open>para_state\<close>. \<open>v5\<close> is \<open>Uuid::new_v5(&NAMESPACE_OID, _)\<close>. The
  \<open>expect\<close> calls on \<open>chunk_start\<close> are panics: they set \<open>ps_panic\<close>, which the invariant
  shows never happens.
\<close>

record paragraph_chunk =
  pc_text :: ustr
  pc_size :: nat
  pc_id :: uuid
  pc_paragraph_ids :: "uuid list"
  pc_index :: nat
  pc_cut :: cut_type

record para_state =
  ps_result :: "paragraph_chunk list"
  ps_index :: nat
  ps_paragraph_ids :: "uuid list"
  ps_last_cut :: cut_type
  ps_size :: nat
  ps_start :: "nat option"
  ps_end :: nat
  ps_panic :: bool

definition para_init :: para_state where
  "para_init = \<lparr>ps_result = [], ps_index = 0, ps_paragraph_ids = [], ps_last_cut = CutSentenceCut,
     ps_size = 0, ps_start = None, ps_end = 0, ps_panic = False\<rparr>"

text \<open>Emitting \<open>&data[chunk_start..chunk_end]\<close> with a cut type.\<close>

definition para_emit ::
  "(ustr \<Rightarrow> uuid) \<Rightarrow> ustr \<Rightarrow> counter \<Rightarrow> token_count_mode \<Rightarrow> cut_type \<Rightarrow> para_state \<Rightarrow> para_state" where
  "para_emit v5 d count mode ct st =
     (case ps_start st of
        None \<Rightarrow> st\<lparr>ps_panic := True\<rparr>
      | Some s \<Rightarrow>
          (let txt = slice d s (ps_end st) in
           st\<lparr>ps_result := ps_result st @
                [\<lparr>pc_text = txt, pc_size = emitted_size count mode txt (ps_size st),
                  pc_id = v5 txt, pc_paragraph_ids = ps_paragraph_ids st,
                  pc_index = ps_index st, pc_cut = ct\<rparr>],
              ps_paragraph_ids := [], ps_start := None, ps_index := Suc (ps_index st)\<rparr>))"

definition para_step ::
  "(ustr \<Rightarrow> uuid) \<Rightarrow> ustr \<Rightarrow> nat \<Rightarrow> bool \<Rightarrow> counter \<Rightarrow> token_count_mode
     \<Rightarrow> para_state \<Rightarrow> sentence_chunk \<Rightarrow> para_state" where
  "para_step v5 d mx batch count mode st s =
     (let sent_start = sc_start s;
          sent_end = sent_start + length (sc_text s);
          next0 = ps_size st + sc_size s;
          (overflows, next_size) =
            check_overflow count mode (Some mx) (0 < ps_size st \<and> mx < next0)
              (map_option (\<lambda>b. slice d b sent_end) (ps_start st)) next0;
          st1 = (if overflows then para_emit v5 d count mode (ps_last_cut st) st else st);
          st2 = st1\<lparr>ps_paragraph_ids := ps_paragraph_ids st1 @ [sc_paragraph_id s],
                    ps_start := Some (case ps_start st1 of None \<Rightarrow> sent_start | Some b \<Rightarrow> b),
                    ps_end := sent_end,
                    ps_size := (if overflows then sc_size s else next_size)\<rparr>;
          st3 = (if \<not> batch \<and> sc_cut s \<in> {CutParagraphEnd, CutSentenceCut}
                 then (para_emit v5 d count mode (sc_cut s) st2)\<lparr>ps_size := 0\<rparr> else st2)
      in st3\<lparr>ps_last_cut := sc_cut s\<rparr>)"

definition para_finish ::
  "(ustr \<Rightarrow> uuid) \<Rightarrow> ustr \<Rightarrow> counter \<Rightarrow> token_count_mode \<Rightarrow> para_state \<Rightarrow> para_state" where
  "para_finish v5 d count mode st =
     (if ps_start st = None then st
      else para_emit v5 d count mode
        (if ps_last_cut st = CutWord then CutSentenceCut else ps_last_cut st) st)"

definition chunk_by_paragraph_run ::
  "(uchar \<Rightarrow> bool) \<Rightarrow> (nat \<Rightarrow> uuid) \<Rightarrow> (ustr \<Rightarrow> uuid) \<Rightarrow> ustr \<Rightarrow> nat \<Rightarrow> bool \<Rightarrow> counter
     \<Rightarrow> token_count_mode \<Rightarrow> para_state" where
  "chunk_by_paragraph_run alpha v4 v5 d mx batch count mode =
     para_finish v5 d count mode
       (foldl (para_step v5 d mx batch count mode) para_init
         (chunk_by_sentence alpha v4 d (Some mx) count mode))"

definition chunk_by_paragraph ::
  "(uchar \<Rightarrow> bool) \<Rightarrow> (nat \<Rightarrow> uuid) \<Rightarrow> (ustr \<Rightarrow> uuid) \<Rightarrow> ustr \<Rightarrow> nat \<Rightarrow> bool \<Rightarrow> counter
     \<Rightarrow> token_count_mode \<Rightarrow> paragraph_chunk list" where
  "chunk_by_paragraph alpha v4 v5 d mx batch count mode =
     ps_result (chunk_by_paragraph_run alpha v4 v5 d mx batch count mode)"

section \<open>Sentences are adjacent slices\<close>

definition scat :: "sentence_chunk list \<Rightarrow> ustr" where
  "scat g = concat (map sc_text g)"

lemma scat_simps [simp]: "scat [] = []" "scat (g @ h) = scat g @ scat h" "scat [s] = sc_text s"
  by (simp_all add: scat_def)

lemma scat_Cons: "scat (s # g) = sc_text s @ scat g"
  by (simp add: scat_def)

lemma sentence_start:
  assumes "chunk_by_sentence alpha v4 d mx count mode = us @ s # vs"
  shows "sc_start s = length (scat us)"
proof -
  obtain gs where gs: "concat gs = chunk_by_word d"
    "list_all2 (sent_of count mode mx) gs (us @ s # vs)"
    using chunk_by_sentence_groups [of d count mode mx alpha v4] assms by metis
  from gs(2) obtain gu g gv where g: "gs = gu @ g # gv"
    "list_all2 (sent_of count mode mx) gu us" "sent_of count mode mx g s"
    by (auto simp: list_all2_append2 list_all2_Cons2)
  then obtain w g' where w: "g = w # g'" "sc_start s = wc_start w"
    by (cases g) (auto simp: sent_of_def)
  have "chunk_by_word d = concat gu @ w # g' @ concat gv"
    using gs(1) g(1) w(1) by simp
  from chunk_by_word_split(1) [OF this] have "wc_start w = length (cat (concat gu))"
    by (simp add: cat_def)
  with w(2) concat_texts [OF g(2)] show ?thesis by (simp add: scat_def)
qed

lemma sentence_slice:
  assumes "chunk_by_sentence alpha v4 d mx count mode = us @ g @ vs" and "g \<noteq> []"
  shows "slice d (sc_start (hd g)) (sc_start (last g) + length (sc_text (last g))) = scat g"
proof -
  obtain x g1 where x: "g = x # g1" using assms(2) by (cases g) auto
  obtain y g2 where y: "g = g2 @ [y]" using assms(2) by (cases g rule: rev_cases) auto
  have d: "d = scat us @ scat g @ scat vs"
    using chunk_by_sentence_concat [of alpha v4 d mx count mode] assms(1)
    by (simp add: scat_def)
  have "sc_start x = length (scat us)"
    using assms(1) x by (intro sentence_start [of alpha v4 d mx count mode us x "g1 @ vs"]) simp
  then have "sc_start (hd g) = length (scat us)" by (simp add: x)
  moreover have "sc_start y = length (scat us) + length (scat g2)"
    using sentence_start [of alpha v4 d mx count mode "us @ g2" y vs] assms(1) y by simp
  then have "sc_start (last g) + length (sc_text (last g)) = length (scat us) + length (scat g)"
    by (simp add: y)
  ultimately show ?thesis by (subst d) (simp add: slice_mid)
qed

section \<open>The loop as a partition of the sentences\<close>

definition psize :: "counter \<Rightarrow> token_count_mode \<Rightarrow> sentence_chunk list \<Rightarrow> nat" where
  "psize count mode g =
     (case mode of PerWord \<Rightarrow> sum_list (map sc_size g) | Span \<Rightarrow> count (scat g))"

text \<open>A chunk over the limit holds a sentence that is at least as large on its own.\<close>

definition pbudget :: "nat \<Rightarrow> nat \<Rightarrow> sentence_chunk list \<Rightarrow> bool" where
  "pbudget mx n g \<longleftrightarrow> n \<le> mx \<or> (\<exists>s \<in> set g. n \<le> sc_size s)"

text \<open>The sentence \<open>s\<close> does not fit into a chunk made of \<open>g\<close>.\<close>

definition overfull ::
  "counter \<Rightarrow> token_count_mode \<Rightarrow> nat \<Rightarrow> sentence_chunk list \<Rightarrow> sentence_chunk \<Rightarrow> bool" where
  "overfull count mode mx g s \<longleftrightarrow>
     (case mode of PerWord \<Rightarrow> mx < psize count PerWord g + sc_size s
      | Span \<Rightarrow> mx < count (scat g @ sc_text s))"

definition para_of ::
  "counter \<Rightarrow> token_count_mode \<Rightarrow> nat \<Rightarrow> sentence_chunk list \<Rightarrow> paragraph_chunk \<Rightarrow> bool" where
  "para_of count mode mx g pc \<longleftrightarrow>
     g \<noteq> [] \<and> pc_text pc = scat g \<and> pc_size pc = psize count mode g \<and>
     pc_paragraph_ids pc = map sc_paragraph_id g \<and>
     (counting_ok count mode \<longrightarrow> pbudget mx (pc_size pc) g)"

definition emitted ::
  "counter \<Rightarrow> token_count_mode \<Rightarrow> nat \<Rightarrow> sentence_chunk list list \<Rightarrow> para_state \<Rightarrow> bool" where
  "emitted count mode mx gs st \<longleftrightarrow>
     list_all2 (para_of count mode mx) gs (ps_result st) \<and> \<not> ps_panic st \<and>
     ps_index st = length (ps_result st) \<and>
     map pc_index (ps_result st) = [0 ..< length (ps_result st)]"

definition building :: "sentence_chunk list \<Rightarrow> para_state \<Rightarrow> bool" where
  "building cur st \<longleftrightarrow>
     ps_start st = (if cur = [] then None else Some (sc_start (hd cur))) \<and>
     (cur \<noteq> [] \<longrightarrow> ps_end st = sc_start (last cur) + length (sc_text (last cur))) \<and>
     ps_paragraph_ids st = map sc_paragraph_id cur"

definition sized ::
  "counter \<Rightarrow> token_count_mode \<Rightarrow> nat \<Rightarrow> sentence_chunk list \<Rightarrow> nat \<Rightarrow> bool" where
  "sized count mode mx cur n \<longleftrightarrow>
     (cur = [] \<longrightarrow> n = 0) \<and> (mode = PerWord \<longrightarrow> n = psize count PerWord cur) \<and>
     (counting_ok count mode \<longrightarrow> cur \<noteq> [] \<longrightarrow> psize count mode cur \<le> n) \<and>
     (cur \<noteq> [] \<longrightarrow> pbudget mx n cur)"

lemma pbudget_mono: "pbudget mx n g \<Longrightarrow> k \<le> n \<Longrightarrow> pbudget mx k g"
  by (auto simp: pbudget_def intro: order_trans)

lemma para_emit_ok:
  assumes em: "emitted count mode mx gs st" and b: "building cur st" and cur: "cur \<noteq> []"
    and sz: "sized count mode mx cur (ps_size st)"
    and sl: "slice d (sc_start (hd cur)) (sc_start (last cur) + length (sc_text (last cur))) = scat cur"
  shows "emitted count mode mx (gs @ [cur]) (para_emit v5 d count mode ct st)"
    and "building [] (para_emit v5 d count mode ct st)"
    and "ps_size (para_emit v5 d count mode ct st) = ps_size st"
proof -
  have start: "ps_start st = Some (sc_start (hd cur))" "ps_end st = sc_start (last cur) + length (sc_text (last cur))"
    "ps_paragraph_ids st = map sc_paragraph_id cur"
    using b cur by (auto simp: building_def)
  have size: "emitted_size count mode (scat cur) (ps_size st) = psize count mode cur"
    using sz by (cases mode) (simp_all add: emitted_size_def psize_def sized_def)
  have bud: "pbudget mx (psize count mode cur) cur" if "counting_ok count mode"
    using sz that cur by (auto simp: sized_def intro: pbudget_mono)
  show "emitted count mode mx (gs @ [cur]) (para_emit v5 d count mode ct st)"
    using em cur bud
    by (auto simp: para_emit_def start sl Let_def size emitted_def para_of_def list_all2_appendI)
  show "building [] (para_emit v5 d count mode ct st)"
    "ps_size (para_emit v5 d count mode ct st) = ps_size st"
    by (simp_all add: para_emit_def start Let_def building_def)
qed

text \<open>Sentence sizes as the sentence chunker reports them.\<close>

definition sizes_ok :: "counter \<Rightarrow> token_count_mode \<Rightarrow> sentence_chunk list \<Rightarrow> bool" where
  "sizes_ok count mode ss \<longleftrightarrow> (mode = Span \<longrightarrow> (\<forall>s \<in> set ss. sc_size s = count (sc_text s)))"

lemma sentence_sizes_ok: "sizes_ok count mode (chunk_by_sentence alpha v4 d mx count mode)"
  by (auto simp: sizes_ok_def sent_of_def group_size_def elim!: sentence_is_group)

lemma psize_snoc:
  "counting_ok count mode \<Longrightarrow> sizes_ok count mode [s] \<Longrightarrow>
     psize count mode (g @ [s]) \<le> psize count mode g + sc_size s"
  by (cases mode)
    (auto simp: psize_def counting_ok_def sizes_ok_def intro: token_counter.subadditive)

lemma psize_single: "sizes_ok count mode [s] \<Longrightarrow> psize count mode [s] = sc_size s"
  by (cases mode) (simp_all add: psize_def sizes_ok_def)

lemma sized_single: "sizes_ok count mode [s] \<Longrightarrow> sized count mode mx [s] (sc_size s)"
  by (cases mode) (auto simp: sized_def pbudget_def psize_def sizes_ok_def)

text \<open>The size after the check, and what an overflow means.\<close>

lemma para_check:
  assumes sz: "sized count mode mx cur (ps_size st)" and b: "building cur st"
    and so: "sizes_ok count mode [s]"
    and sl: "cur \<noteq> [] \<Longrightarrow>
      slice d (sc_start (hd cur)) (sc_start s + length (sc_text s)) = scat (cur @ [s])"
    and chk: "check_overflow count mode (Some mx)
        (0 < ps_size st \<and> mx < ps_size st + sc_size s)
        (map_option (\<lambda>b. slice d b (sc_start s + length (sc_text s))) (ps_start st))
        (ps_size st + sc_size s) = (ov, k)"
  shows "ov \<Longrightarrow> cur \<noteq> [] \<and> overfull count mode mx cur s"
    and "\<not> ov \<Longrightarrow> sized count mode mx (cur @ [s]) k"
proof -
  have start: "ps_start st = (if cur = [] then None else Some (sc_start (hd cur)))"
    using b by (simp add: building_def)
  show "cur \<noteq> [] \<and> overfull count mode mx cur s" if ov
  proof (cases "cur = []")
    case True
    with sz chk that start show ?thesis by (simp add: sized_def)
  next
    case False
    with sz chk that start sl show ?thesis
      by (cases mode) (auto simp: check_overflow_def overfull_def sized_def split: if_splits)
  qed
  show "sized count mode mx (cur @ [s]) k" if "\<not> ov"
  proof (cases "cur = []")
    case True
    with sz chk that start sized_single [OF so] show ?thesis
      by (simp add: sized_def)
  next
    case False
    from chk that have "k = ps_size st + sc_size s \<and> (ps_size st = 0 \<or> k \<le> mx) \<or>
        mode = Span \<and> k = count (scat (cur @ [s])) \<and> k \<le> mx"
      using False start sl by (auto simp: check_overflow_def split: if_splits)
    with False sz so psize_snoc [of count mode s cur] show ?thesis
      by (auto simp: sized_def pbudget_def psize_def)
  qed
qed

definition tight ::
  "counter \<Rightarrow> token_count_mode \<Rightarrow> nat \<Rightarrow> sentence_chunk list list \<Rightarrow> bool" where
  "tight count mode mx gs \<longleftrightarrow> successively (\<lambda>g h. overfull count mode mx g (hd h)) gs"

definition para_inv ::
  "counter \<Rightarrow> token_count_mode \<Rightarrow> nat \<Rightarrow> bool \<Rightarrow> sentence_chunk list \<Rightarrow> para_state \<Rightarrow> bool" where
  "para_inv count mode mx batch ss st \<longleftrightarrow>
     (\<exists>gs cur. ss = concat gs @ cur \<and> emitted count mode mx gs st \<and> building cur st \<and>
        sized count mode mx cur (ps_size st) \<and>
        (batch \<longrightarrow> (if cur = [] then gs = [] else tight count mode mx (gs @ [cur]))))"

lemma tight_snoc_extend:
  "cur \<noteq> [] \<Longrightarrow> tight count mode mx (gs @ [cur]) \<Longrightarrow> tight count mode mx (gs @ [cur @ [s]])"
  by (cases gs rule: rev_cases) (simp_all add: tight_def successively_append_iff)

lemma tight_snoc_new:
  "tight count mode mx (gs @ [cur]) \<Longrightarrow> overfull count mode mx cur s \<Longrightarrow>
     tight count mode mx ((gs @ [cur]) @ [[s]])"
  by (simp add: tight_def successively_append_iff)

lemma tight_single [simp]: "tight count mode mx [g]"
  by (simp add: tight_def)

lemma building_push:
  "building cur st \<Longrightarrow> building (cur @ [s])
     (st\<lparr>ps_paragraph_ids := ps_paragraph_ids st @ [sc_paragraph_id s],
         ps_start := Some (case ps_start st of None \<Rightarrow> sc_start s | Some b \<Rightarrow> b),
         ps_end := sc_start s + length (sc_text s), ps_size := n\<rparr>)"
  by (auto simp: building_def)

lemma building_cong:
  "building cur (st\<lparr>ps_last_cut := c\<rparr>) = building cur st"
  "building cur (st\<lparr>ps_size := n\<rparr>) = building cur st"
  by (simp_all add: building_def)

lemma emitted_cong:
  "emitted count mode mx gs (st\<lparr>ps_last_cut := c\<rparr>) = emitted count mode mx gs st"
  "emitted count mode mx gs (st\<lparr>ps_size := n\<rparr>) = emitted count mode mx gs st"
  "emitted count mode mx gs (st\<lparr>ps_paragraph_ids := i\<rparr>) = emitted count mode mx gs st"
  "emitted count mode mx gs (st\<lparr>ps_start := b\<rparr>) = emitted count mode mx gs st"
  "emitted count mode mx gs (st\<lparr>ps_end := e\<rparr>) = emitted count mode mx gs st"
  by (simp_all add: emitted_def)

lemma para_step_inv:
  assumes ss: "chunk_by_sentence alpha v4 d (Some mx) count mode = ss @ s # zs"
    and inv: "para_inv count mode mx batch ss st"
  shows "para_inv count mode mx batch (ss @ [s]) (para_step v5 d mx batch count mode st s)"
proof -
  let ?e = "sc_start s + length (sc_text s)"
  from inv obtain gs cur where ss': "ss = concat gs @ cur" and em: "emitted count mode mx gs st"
    and b: "building cur st" and sz: "sized count mode mx cur (ps_size st)"
    and tt: "batch \<Longrightarrow> if cur = [] then gs = [] else tight count mode mx (gs @ [cur])"
    by (auto simp: para_inv_def)
  have so: "sizes_ok count mode [s]"
    using sentence_sizes_ok [of count mode alpha v4 d "Some mx"] ss by (simp add: sizes_ok_def)
  have sl: "slice d (sc_start (hd cur)) ?e = scat (cur @ [s])" if "cur \<noteq> []"
    using sentence_slice [of alpha v4 d "Some mx" count mode "concat gs" "cur @ [s]" zs] ss ss' that
    by simp
  have slc: "slice d (sc_start (hd cur)) (sc_start (last cur) + length (sc_text (last cur))) = scat cur"
    if "cur \<noteq> []"
    using sentence_slice [of alpha v4 d "Some mx" count mode "concat gs" cur "s # zs"] ss ss' that
    by simp
  have sls: "slice d (sc_start s) ?e = sc_text s"
    using sentence_slice [of alpha v4 d "Some mx" count mode ss "[s]" zs] ss by simp
  obtain ov k where chk: "check_overflow count mode (Some mx)
        (0 < ps_size st \<and> mx < ps_size st + sc_size s)
        (map_option (\<lambda>b. slice d b ?e) (ps_start st)) (ps_size st + sc_size s) = (ov, k)"
    by fastforce
  note pc = para_check [OF sz b so sl chk]
  define st1 where "st1 = (if ov then para_emit v5 d count mode (ps_last_cut st) st else st)"
  define gs1 where "gs1 = (if ov then gs @ [cur] else gs)"
  define cur1 where "cur1 = (if ov then [] else cur)"
  define n where "n = (if ov then sc_size s else k)"
  define st2 where "st2 = st1\<lparr>ps_paragraph_ids := ps_paragraph_ids st1 @ [sc_paragraph_id s],
      ps_start := Some (case ps_start st1 of None \<Rightarrow> sc_start s | Some b \<Rightarrow> b),
      ps_end := ?e, ps_size := n\<rparr>"
  have em1: "emitted count mode mx gs1 st1" and b1: "building cur1 st1"
    using em b pc(1) para_emit_ok [OF em b _ sz slc]
    by (auto simp: st1_def gs1_def cur1_def)
  have em2: "emitted count mode mx gs1 st2" and b2: "building (cur1 @ [s]) st2"
    and sz2: "sized count mode mx (cur1 @ [s]) (ps_size st2)"
    using em1 building_push [OF b1] pc(2) sized_single [OF so]
    by (auto simp: st2_def emitted_cong n_def cur1_def)
  have tt2: "tight count mode mx (gs1 @ [cur1 @ [s]])" if batch
    using tt [OF that] pc(1) tight_snoc_extend tight_snoc_new
    by (auto simp: gs1_def cur1_def split: if_splits)
  have cat2: "ss @ [s] = concat gs1 @ cur1 @ [s]"
    by (simp add: ss' gs1_def cur1_def)
  have sl2: "slice d (sc_start (hd (cur1 @ [s])))
      (sc_start (last (cur1 @ [s])) + length (sc_text (last (cur1 @ [s])))) = scat (cur1 @ [s])"
    using sl sls by (cases "cur = []") (auto simp: cur1_def)
  have step: "para_step v5 d mx batch count mode st s =
      (if \<not> batch \<and> sc_cut s \<in> {CutParagraphEnd, CutSentenceCut}
       then (para_emit v5 d count mode (sc_cut s) st2)\<lparr>ps_size := 0\<rparr> else st2)\<lparr>ps_last_cut := sc_cut s\<rparr>"
    by (simp add: para_step_def Let_def chk st1_def st2_def n_def)
  show ?thesis
  proof (cases "\<not> batch \<and> sc_cut s \<in> {CutParagraphEnd, CutSentenceCut}")
    case True
    note e = para_emit_ok [OF em2 b2 _ sz2 sl2, of v5]
    have "sized count mode mx [] 0" by (simp add: sized_def psize_def)
    with True e cat2 show ?thesis
      unfolding para_inv_def step
      by (intro exI [of _ "gs1 @ [cur1 @ [s]]"] exI [of _ "[]"])
        (simp add: building_cong emitted_cong)
  next
    case False
    with em2 b2 sz2 tt2 cat2 show ?thesis
      unfolding para_inv_def step if_not_P [OF False]
      by (intro exI [of _ gs1] exI [of _ "cur1 @ [s]"])
        (simp add: building_cong emitted_cong)
  qed
qed

lemma para_loop_inv:
  "para_inv count mode mx batch (chunk_by_sentence alpha v4 d (Some mx) count mode)
     (foldl (para_step v5 d mx batch count mode) para_init
       (chunk_by_sentence alpha v4 d (Some mx) count mode))"
proof (rule foldl_invariant [where I = "para_inv count mode mx batch"])
  show "para_inv count mode mx batch [] para_init"
    by (auto simp: para_inv_def para_init_def emitted_def building_def sized_def psize_def
        intro!: exI [of _ "[]"])
qed (rule para_step_inv)

lemma chunk_by_paragraph_groups:
  obtains gs where "concat gs = chunk_by_sentence alpha v4 d (Some mx) count mode"
    and "emitted count mode mx gs (chunk_by_paragraph_run alpha v4 v5 d mx batch count mode)"
    and "batch \<Longrightarrow> tight count mode mx gs"
proof -
  let ?ss = "chunk_by_sentence alpha v4 d (Some mx) count mode"
  let ?st = "foldl (para_step v5 d mx batch count mode) para_init ?ss"
  obtain gs cur where ss: "?ss = concat gs @ cur" and em: "emitted count mode mx gs ?st"
    and b: "building cur ?st" and sz: "sized count mode mx cur (ps_size ?st)"
    and tt: "batch \<Longrightarrow> if cur = [] then gs = [] else tight count mode mx (gs @ [cur])"
    using para_loop_inv [of count mode mx batch alpha v4 d v5] unfolding para_inv_def by blast
  show thesis
  proof (cases "cur = []")
    case True
    with that [of gs] ss em b tt show thesis
      by (auto simp: chunk_by_paragraph_run_def para_finish_def building_def tight_def)
  next
    case False
    then have "slice d (sc_start (hd cur)) (sc_start (last cur) + length (sc_text (last cur))) = scat cur"
      using sentence_slice [of alpha v4 d "Some mx" count mode "concat gs" cur "[]"] ss by simp
    from para_emit_ok(1) [OF em b False sz this] False b that [of "gs @ [cur]"] ss tt
    show thesis
      by (simp add: chunk_by_paragraph_run_def para_finish_def building_def)
  qed
qed

lemma paragraph_texts:
  "list_all2 (para_of count mode mx) gs pcs \<Longrightarrow> concat (map pc_text pcs) = scat (concat gs)"
  by (induction gs pcs rule: list_all2_induct) (auto simp: para_of_def scat_def)

section \<open>Properties\<close>

text \<open>
  The paragraph chunks partition the sentence chunks in both modes: each carries the text
  and the paragraph ids of a non-empty run of consecutive sentences and is over the maximum only
  when one of these sentences is; the chunk indices are consecutive from 0, and the two
  \<open>expect\<close> calls never panic.
\<close>

lemma chunk_by_paragraph_partition:
  "(\<exists>gs. concat gs = chunk_by_sentence alpha v4 d (Some mx) count mode \<and>
         list_all2 (para_of count mode mx) gs (chunk_by_paragraph alpha v4 v5 d mx batch count mode)) \<and>
   map pc_index (chunk_by_paragraph alpha v4 v5 d mx batch count mode)
     = [0 ..< length (chunk_by_paragraph alpha v4 v5 d mx batch count mode)] \<and>
   \<not> ps_panic (chunk_by_paragraph_run alpha v4 v5 d mx batch count mode)"
proof -
  obtain gs where "concat gs = chunk_by_sentence alpha v4 d (Some mx) count mode"
    "emitted count mode mx gs (chunk_by_paragraph_run alpha v4 v5 d mx batch count mode)"
    using chunk_by_paragraph_groups [of alpha v4 d mx count mode v5 batch] by blast
  then show ?thesis by (auto simp: emitted_def chunk_by_paragraph_def)
qed

end
