(* ===== verification/Text_Chunker.thy ===== *)
theory Text_Chunker
  imports Chunk_Paragraph
begin

text \<open>
  The top of the chunking hierarchy: \<open>chunk_text\<close> of \<open>crates/chunking/src/text_chunker.rs\<close> and
  the row chunker \<open>chunk_by_row\<close> of \<open>chunk_by_row.rs\<close>. Both produce \<open>DocumentChunk\<close>s; \<open>v5\<close>
  is \<open>Uuid::new_v5\<close> in the OID namespace and \<open>show_uuid\<close> its \<open>Display\<close>.
\<close>

record document_chunk =
  dc_id :: uuid
  dc_text :: ustr
  dc_size :: nat
  dc_index :: nat
  dc_cut :: string
  dc_document_id :: uuid

definition indexed_id :: "(ustr \<Rightarrow> uuid) \<Rightarrow> (uuid \<Rightarrow> ustr) \<Rightarrow> uuid \<Rightarrow> nat \<Rightarrow> uuid" where
  "indexed_id v5 show_uuid doc i = v5 (show_uuid doc @ [0x2D] @ show_nat i)"

section \<open>chunk\_text\<close>

record text_state =
  ts_result :: "document_chunk list"
  ts_acc :: "paragraph_chunk list"
  ts_acc_size :: nat
  ts_index :: nat

definition text_init :: text_state where
  "text_init = \<lparr>ts_result = [], ts_acc = [], ts_acc_size = 0, ts_index = 0\<rparr>"

text \<open>Emitting the accumulated paragraphs, joined with a space.\<close>

definition text_flush ::
  "(ustr \<Rightarrow> uuid) \<Rightarrow> (uuid \<Rightarrow> ustr) \<Rightarrow> uuid \<Rightarrow> counter \<Rightarrow> token_count_mode \<Rightarrow> text_state \<Rightarrow> text_state" where
  "text_flush v5 show_uuid doc count mode st =
     (let chunk_text = join [0x20] (map pc_text (ts_acc st)) in
      st\<lparr>ts_result := ts_result st @
           [\<lparr>dc_id = indexed_id v5 show_uuid doc (ts_index st), dc_text = chunk_text,
             dc_size = emitted_size count mode chunk_text (ts_acc_size st),
             dc_index = ts_index st, dc_cut = cut_type_display (pc_cut (last (ts_acc st))),
             dc_document_id = doc\<rparr>],
         ts_index := Suc (ts_index st), ts_acc := [], ts_acc_size := 0\<rparr>)"

definition text_step ::
  "(ustr \<Rightarrow> uuid) \<Rightarrow> (uuid \<Rightarrow> ustr) \<Rightarrow> uuid \<Rightarrow> nat \<Rightarrow> counter \<Rightarrow> token_count_mode
     \<Rightarrow> text_state \<Rightarrow> paragraph_chunk \<Rightarrow> text_state" where
  "text_step v5 show_uuid doc mx count mode st para =
     (if ts_acc_size st + pc_size para \<le> mx then
        st\<lparr>ts_acc := ts_acc st @ [para], ts_acc_size := ts_acc_size st + pc_size para\<rparr>
      else if ts_acc st = [] then
        st\<lparr>ts_result := ts_result st @
             [\<lparr>dc_id = pc_id para, dc_text = pc_text para,
               dc_size = emitted_size count mode (pc_text para) (pc_size para),
               dc_index = ts_index st, dc_cut = cut_type_display (pc_cut para),
               dc_document_id = doc\<rparr>],
           ts_index := Suc (ts_index st)\<rparr>
      else
        (text_flush v5 show_uuid doc count mode st)\<lparr>ts_acc := [para], ts_acc_size := pc_size para\<rparr>)"

definition chunk_text ::
  "(uchar \<Rightarrow> bool) \<Rightarrow> (nat \<Rightarrow> uuid) \<Rightarrow> (ustr \<Rightarrow> uuid) \<Rightarrow> (uuid \<Rightarrow> ustr) \<Rightarrow> uuid \<Rightarrow> ustr \<Rightarrow> nat
     \<Rightarrow> counter \<Rightarrow> token_count_mode \<Rightarrow> document_chunk list" where
  "chunk_text alpha v4 v5 show_uuid doc d mx count mode =
     (let st = foldl (text_step v5 show_uuid doc mx count mode) text_init
                 (chunk_by_paragraph alpha v4 v5 d mx True count mode)
      in ts_result (if ts_acc st = [] then st else text_flush v5 show_uuid doc count mode st))"

section \<open>Two paragraph chunks never fit together\<close>

definition text_ok :: "counter \<Rightarrow> token_count_mode \<Rightarrow> bool" where
  "text_ok count mode \<longleftrightarrow> mode = PerWord \<or> monotone_token_counter count"

lemma text_ok_counting_ok: "text_ok count mode \<Longrightarrow> counting_ok count mode"
  by (auto simp: text_ok_def counting_ok_def intro: monotone_token_counter.axioms)

context monotone_token_counter
begin

lemma overfull_extend:
  "mx < count_tokens (a @ b) \<Longrightarrow> mx < count_tokens a + count_tokens (b @ c)"
  using subadditive [of a b] prefix_mono [of b c] by linarith

end

lemma overfull_sum:
  assumes ok: "text_ok count mode" and "overfull count mode mx g (hd h)" and "h \<noteq> []"
  shows "mx < psize count mode g + psize count mode h"
proof (cases mode)
  case PerWord
  with assms show ?thesis by (cases h) (simp_all add: overfull_def psize_def)
next
  case Span
  with ok have "monotone_token_counter count" by (simp add: text_ok_def)
  from monotone_token_counter.overfull_extend [OF this] Span assms show ?thesis
    by (cases h) (simp_all add: overfull_def psize_def scat_Cons)
qed

definition apart :: "nat \<Rightarrow> paragraph_chunk list \<Rightarrow> bool" where
  "apart mx ps \<longleftrightarrow> successively (\<lambda>p q. mx < pc_size p + pc_size q) ps"

lemma tight_apart:
  assumes "text_ok count mode" "list_all2 (para_of count mode mx) gs ps" "tight count mode mx gs"
  shows "apart mx ps"
  using assms(2,3)
proof (induction gs ps rule: list_all2_induct)
  case Nil
  then show ?case by (simp add: apart_def)
next
  case (Cons g gs p ps)
  show ?case
  proof (cases gs)
    case Nil
    with Cons show ?thesis by (simp add: apart_def)
  next
    case (Cons h hs)
    with Cons.hyps obtain q qs where q: "ps = q # qs" "para_of count mode mx h q"
      by (auto simp: list_all2_Cons1)
    have "mx < pc_size p + pc_size q"
      using Cons.prems Cons.hyps(1) Cons q overfull_sum [OF assms(1), of mx g h]
      by (auto simp: tight_def para_of_def)
    with Cons.IH Cons.prems Cons q show ?thesis by (auto simp: tight_def apart_def)
  qed
qed

lemma chunk_by_paragraph_apart:
  assumes "text_ok count mode"
  shows "apart mx (chunk_by_paragraph alpha v4 v5 d mx True count mode)"
proof -
  obtain gs where
    "emitted count mode mx gs (chunk_by_paragraph_run alpha v4 v5 d mx True count mode)"
    "tight count mode mx gs"
    using chunk_by_paragraph_groups [of alpha v4 d mx count mode v5 True] by blast
  then show ?thesis
    using tight_apart [OF assms] by (auto simp: emitted_def chunk_by_paragraph_def)
qed

lemma paragraph_sizes:
  assumes "p \<in> set (chunk_by_paragraph alpha v4 v5 d mx batch count mode)"
  shows "mode = Span \<Longrightarrow> pc_size p = count (pc_text p)"
proof -
  obtain gs where
    "emitted count mode mx gs (chunk_by_paragraph_run alpha v4 v5 d mx batch count mode)"
    using chunk_by_paragraph_groups [of alpha v4 d mx count mode v5 batch] by blast
  with assms show "mode = Span \<Longrightarrow> pc_size p = count (pc_text p)"
    by (auto simp: emitted_def chunk_by_paragraph_def list_all2_conv_all_nth in_set_conv_nth
        para_of_def psize_def)
qed

section \<open>Hence each document chunk is one paragraph chunk\<close>

definition text_inv :: "paragraph_chunk list \<Rightarrow> text_state \<Rightarrow> bool" where
  "text_inv ps st \<longleftrightarrow>
     (ts_acc st = [] \<or> ps \<noteq> [] \<and> ts_acc st = [last ps]) \<and>
     ts_acc_size st = sum_list (map pc_size (ts_acc st)) \<and>
     map (\<lambda>c. (dc_text c, dc_size c, dc_cut c)) (ts_result st) @
       map (\<lambda>p. (pc_text p, pc_size p, cut_type_display (pc_cut p))) (ts_acc st) =
       map (\<lambda>p. (pc_text p, pc_size p, cut_type_display (pc_cut p))) ps \<and>
     ts_index st = length (ts_result st) \<and>
     map dc_index (ts_result st) = [0 ..< length (ts_result st)]"

lemma text_flush_inv:
  assumes "text_inv ps st" and "ts_acc st \<noteq> []"
    and "\<forall>p \<in> set ps. mode = Span \<longrightarrow> pc_size p = count (pc_text p)"
  shows "text_inv ps (text_flush v5 show_uuid doc count mode st)"
  using assms by (cases mode) (auto simp: text_inv_def text_flush_def Let_def emitted_size_def)

lemma text_step_inv:
  assumes ap: "apart mx (ps @ p # zs)"
    and sz: "\<forall>q \<in> set (ps @ [p]). mode = Span \<longrightarrow> pc_size q = count (pc_text q)"
    and inv: "text_inv ps st"
  shows "text_inv (ps @ [p]) (text_step v5 show_uuid doc mx count mode st p)"
proof (cases "ts_acc st = []")
  case True
  with inv sz show ?thesis
    by (cases mode) (auto simp: text_inv_def text_step_def emitted_size_def)
next
  case False
  with inv have acc: "ps \<noteq> []" "ts_acc st = [last ps]" "ts_acc_size st = pc_size (last ps)"
    by (auto simp: text_inv_def)
  have big: "mx < pc_size (last ps) + pc_size p"
    using ap acc(1) by (cases ps rule: rev_cases) (auto simp: apart_def successively_append_iff)
  have "text_inv ps (text_flush v5 show_uuid doc count mode st)"
    using text_flush_inv [OF inv False] sz by simp
  with big acc show ?thesis
    by (auto simp: text_step_def text_inv_def text_flush_def Let_def)
qed

lemma chunk_text_paragraphs:
  assumes ok: "text_ok count mode"
    and ps_def: "ps = chunk_by_paragraph alpha v4 v5 d mx True count mode"
  shows "map (\<lambda>c. (dc_text c, dc_size c, dc_cut c)) (chunk_text alpha v4 v5 show_uuid doc d mx count mode)
       = map (\<lambda>p. (pc_text p, pc_size p, cut_type_display (pc_cut p))) ps"
    and "map dc_index (chunk_text alpha v4 v5 show_uuid doc d mx count mode) = [0 ..< length ps]"
proof -
  let ?st = "foldl (text_step v5 show_uuid doc mx count mode) text_init ps"
  have sz: "\<forall>q \<in> set ps. mode = Span \<longrightarrow> pc_size q = count (pc_text q)"
    unfolding ps_def using paragraph_sizes by blast
  have inv: "text_inv ps ?st"
  proof (rule foldl_invariant [where I = text_inv])
    show "text_inv [] text_init" by (simp add: text_inv_def text_init_def)
  next
    fix ys y zs s
    assume "ps = ys @ y # zs" and "text_inv ys s"
    then show "text_inv (ys @ [y]) (text_step v5 show_uuid doc mx count mode s y)"
      using chunk_by_paragraph_apart [OF ok, of mx alpha v4 v5 d] sz
      by (intro text_step_inv [of _ _ _ zs]) (auto simp: ps_def)
  qed
  define st where "st = (if ts_acc ?st = [] then ?st else text_flush v5 show_uuid doc count mode ?st)"
  have "text_inv ps st" and "ts_acc st = []"
    using inv text_flush_inv [OF inv _ sz] by (auto simp: st_def text_flush_def Let_def)
  moreover have "chunk_text alpha v4 v5 show_uuid doc d mx count mode = ts_result st"
    by (simp add: chunk_text_def st_def ps_def Let_def)
  ultimately show
    "map (\<lambda>c. (dc_text c, dc_size c, dc_cut c)) (chunk_text alpha v4 v5 show_uuid doc d mx count mode)
       = map (\<lambda>p. (pc_text p, pc_size p, cut_type_display (pc_cut p))) ps"
    "map dc_index (chunk_text alpha v4 v5 show_uuid doc d mx count mode) = [0 ..< length ps]"
    by (auto simp: text_inv_def dest: arg_cong [where f = length])
qed

lemma chunk_by_paragraph_concat:
  "concat (map pc_text (chunk_by_paragraph alpha v4 v5 d mx batch count mode)) = d"
proof -
  obtain gs where "concat gs = chunk_by_sentence alpha v4 d (Some mx) count mode"
    "emitted count mode mx gs (chunk_by_paragraph_run alpha v4 v5 d mx batch count mode)"
    using chunk_by_paragraph_groups [of alpha v4 d mx count mode v5 batch] by blast
  then show ?thesis
    using paragraph_texts chunk_by_sentence_concat
    by (fastforce simp: emitted_def chunk_by_paragraph_def scat_def)
qed

text \<open>An oversized chunk is no larger than one word of the input.\<close>

lemma paragraph_budget:
  assumes ok: "counting_ok count mode"
    and p: "p \<in> set (chunk_by_paragraph alpha v4 v5 d mx batch count mode)" and big: "mx < pc_size p"
  shows "\<exists>w \<in> set (chunk_by_word d). pc_size p \<le> count (wc_text w)"
proof -
  obtain gs where gs: "concat gs = chunk_by_sentence alpha v4 d (Some mx) count mode"
    "emitted count mode mx gs (chunk_by_paragraph_run alpha v4 v5 d mx batch count mode)"
    using chunk_by_paragraph_groups [of alpha v4 d mx count mode v5 batch] by blast
  from gs(2) p obtain g where g: "g \<in> set gs" "para_of count mode mx g p"
    by (auto simp: emitted_def chunk_by_paragraph_def list_all2_conv_all_nth in_set_conv_nth)
      (metis nth_mem)
  with ok big obtain s where s: "s \<in> set g" "pc_size p \<le> sc_size s"
    by (auto simp: para_of_def pbudget_def)
  with g(1) have "s \<in> set (concat gs)" by auto
  then have "s \<in> set (chunk_by_sentence alpha v4 d (Some mx) count mode)" by (simp only: gs(1))
  then obtain h where h: "set h \<subseteq> set (chunk_by_word d)" "sent_of count mode (Some mx) h s"
    by (rule sentence_is_group)
  with ok s(2) big have "length h = 1"
    by (cases h) (auto simp: sent_of_def within_def)
  then obtain w where "h = [w]" by (cases h) auto
  with h s(2) show ?thesis by (auto simp: sent_of_def)
qed

section \<open>chunk\_by\_row\<close>

record row_state =
  rs_result :: "document_chunk list"
  rs_index :: nat
  rs_list :: "ustr list"
  rs_size :: nat

definition comma_sep :: ustr where
  "comma_sep = [0x2C, 0x20]"

definition row_sep :: ustr where
  "row_sep = [0x0A, 0x0A]"

definition row_emit ::
  "(ustr \<Rightarrow> uuid) \<Rightarrow> (uuid \<Rightarrow> ustr) \<Rightarrow> uuid \<Rightarrow> counter \<Rightarrow> cut_type \<Rightarrow> row_state \<Rightarrow> row_state" where
  "row_emit v5 show_uuid doc count ct st =
     (let chunk_text = join comma_sep (rs_list st) in
      st\<lparr>rs_result := rs_result st @
           [\<lparr>dc_id = indexed_id v5 show_uuid doc (rs_index st), dc_text = chunk_text,
             dc_size = count chunk_text, dc_index = rs_index st,
             dc_cut = cut_type_display ct, dc_document_id = doc\<rparr>],
         rs_index := Suc (rs_index st), rs_list := [], rs_size := 0\<rparr>)"

definition pair_step ::
  "(ustr \<Rightarrow> uuid) \<Rightarrow> (uuid \<Rightarrow> ustr) \<Rightarrow> uuid \<Rightarrow> nat \<Rightarrow> counter \<Rightarrow> row_state \<Rightarrow> ustr \<Rightarrow> row_state" where
  "pair_step v5 show_uuid doc mx count st pair =
     (let pair_size = count pair;
          st1 = (if mx < rs_size st + pair_size \<and> rs_list st \<noteq> []
                 then row_emit v5 show_uuid doc count CutRowCut st else st)
      in st1\<lparr>rs_list := rs_list st1 @ [pair], rs_size := rs_size st1 + pair_size\<rparr>)"

definition row_step ::
  "(ustr \<Rightarrow> uuid) \<Rightarrow> (uuid \<Rightarrow> ustr) \<Rightarrow> uuid \<Rightarrow> nat \<Rightarrow> counter \<Rightarrow> row_state \<Rightarrow> ustr \<Rightarrow> row_state" where
  "row_step v5 show_uuid doc mx count st row =
     (if row = [] then st
      else
        (let st1 = foldl (pair_step v5 show_uuid doc mx count)
                     (st\<lparr>rs_list := [], rs_size := 0\<rparr>) (split_str comma_sep row)
         in if rs_list st1 = [] then st1 else row_emit v5 show_uuid doc count CutRowEnd st1))"

definition row_init :: row_state where
  "row_init = \<lparr>rs_result = [], rs_index = 0, rs_list = [], rs_size = 0\<rparr>"

definition chunk_by_row ::
  "(ustr \<Rightarrow> uuid) \<Rightarrow> (uuid \<Rightarrow> ustr) \<Rightarrow> uuid \<Rightarrow> ustr \<Rightarrow> nat \<Rightarrow> counter \<Rightarrow> document_chunk list" where
  "chunk_by_row v5 show_uuid doc d mx count =
     rs_result (foldl (row_step v5 show_uuid doc mx count) row_init (split_str row_sep d))"

text \<open>A row chunk stands for a group of pairs; only a single pair may exceed the limit.\<close>

definition row_chunk_of ::
  "uuid \<Rightarrow> nat \<Rightarrow> counter \<Rightarrow> cut_type \<Rightarrow> ustr list \<Rightarrow> document_chunk \<Rightarrow> bool" where
  "row_chunk_of doc mx count ct g c \<longleftrightarrow>
     g \<noteq> [] \<and> dc_text c = join comma_sep g \<and> dc_size c = count (join comma_sep g) \<and>
     dc_cut c = cut_type_display ct \<and> dc_document_id c = doc \<and>
     (sum_list (map count g) \<le> mx \<or> length g = 1)"

text \<open>While a row is read: the chunks cut so far in this row, then the pairs kept back.\<close>

definition row_inv ::
  "uuid \<Rightarrow> nat \<Rightarrow> counter \<Rightarrow> document_chunk list \<Rightarrow> ustr list \<Rightarrow> row_state \<Rightarrow> bool" where
  "row_inv doc mx count old ps st \<longleftrightarrow>
     (\<exists>gs cs. ps = concat gs @ rs_list st \<and> rs_result st = old @ cs \<and>
        list_all2 (row_chunk_of doc mx count CutRowCut) gs cs \<and>
        rs_size st = sum_list (map count (rs_list st)) \<and>
        (rs_size st \<le> mx \<or> length (rs_list st) \<le> 1) \<and>
        (ps \<noteq> [] \<longrightarrow> rs_list st \<noteq> []))"

definition row_indexed :: "row_state \<Rightarrow> bool" where
  "row_indexed st \<longleftrightarrow> rs_index st = length (rs_result st) \<and>
     map dc_index (rs_result st) = [0 ..< length (rs_result st)]"

lemma row_emit_indexed: "row_indexed st \<Longrightarrow> row_indexed (row_emit v5 show_uuid doc count ct st)"
  by (simp add: row_indexed_def row_emit_def Let_def)

lemma pair_step_indexed: "row_indexed st \<Longrightarrow> row_indexed (pair_step v5 show_uuid doc mx count st p)"
  using row_emit_indexed [of st v5 show_uuid doc count CutRowCut]
  by (auto simp: pair_step_def Let_def row_indexed_def)

lemma pair_step_inv:
  assumes "row_inv doc mx count old ps st"
  shows "row_inv doc mx count old (ps @ [p]) (pair_step v5 show_uuid doc mx count st p)"
proof -
  from assms obtain gs cs where *: "ps = concat gs @ rs_list st" "rs_result st = old @ cs"
    "list_all2 (row_chunk_of doc mx count CutRowCut) gs cs"
    "rs_size st = sum_list (map count (rs_list st))"
    "rs_size st \<le> mx \<or> length (rs_list st) \<le> 1"
    unfolding row_inv_def by blast
  show ?thesis
  proof (cases "mx < rs_size st + count p \<and> rs_list st \<noteq> []")
    case True
    then have one: "rs_size st \<le> mx \<or> length (rs_list st) = 1"
      using *(5) by (cases "rs_list st") auto
    then have "row_chunk_of doc mx count CutRowCut (rs_list st) c"
      if "dc_text c = join comma_sep (rs_list st)" "dc_size c = count (join comma_sep (rs_list st))"
        "dc_cut c = cut_type_display CutRowCut" "dc_document_id c = doc" for c
      using that True *(4) by (auto simp: row_chunk_of_def)
    with True * show ?thesis
      unfolding row_inv_def
      by (intro exI [of _ "gs @ [rs_list st]"])
        (auto simp: pair_step_def row_emit_def Let_def list_all2_appendI)
  next
    case False
    with * show ?thesis
      unfolding row_inv_def
      by (intro exI [of _ gs] exI [of _ cs]) (auto simp: pair_step_def Let_def)
  qed
qed

definition pair_group :: "nat \<Rightarrow> counter \<Rightarrow> uuid \<Rightarrow> document_chunk \<Rightarrow> bool" where
  "pair_group mx count doc c \<longleftrightarrow>
     dc_size c = count (dc_text c) \<and> dc_document_id c = doc \<and>
     (\<exists>g. g \<noteq> [] \<and> dc_text c = join comma_sep g \<and> (sum_list (map count g) \<le> mx \<or> length g = 1))"

lemma row_chunk_of_group: "row_chunk_of doc mx count ct g c \<Longrightarrow> pair_group mx count doc c"
  by (auto simp: row_chunk_of_def pair_group_def)

lemma row_chunk_of_cut: "row_chunk_of doc mx count CutRowCut g c \<Longrightarrow> dc_cut c = ''row_cut''"
  by (simp add: row_chunk_of_def cut_type_display_def)

definition row_chunks_of ::
  "uuid \<Rightarrow> nat \<Rightarrow> counter \<Rightarrow> ustr \<Rightarrow> document_chunk list \<Rightarrow> bool" where
  "row_chunks_of doc mx count row cs \<longleftrightarrow>
     cs \<noteq> [] \<and> join comma_sep (map dc_text cs) = row \<and>
     (\<forall>c \<in> set (butlast cs). dc_cut c = ''row_cut'') \<and> dc_cut (last cs) = ''row_end'' \<and>
     (\<forall>c \<in> set cs. pair_group mx count doc c)"

lemma split_str_nonempty [simp]: "split_str sep s \<noteq> []"
  by (simp add: split_str_def)

lemma join_groups:
  "list_all2 (row_chunk_of doc mx count ct) gs cs \<Longrightarrow> g \<noteq> [] \<Longrightarrow>
     join comma_sep (map dc_text cs @ [join comma_sep g]) = join comma_sep (concat gs @ g)"
proof (induction gs cs rule: list_all2_induct)
  case Nil
  then show ?case by simp
next
  case (Cons h hs c cs)
  then show ?case by (simp add: join_Cons join_append row_chunk_of_def)
qed

lemma row_step_chunks:
  assumes row: "row \<noteq> []" and idx: "row_indexed st"
  shows "row_indexed (row_step v5 show_uuid doc mx count st row)"
    and "\<exists>cs. rs_result (row_step v5 show_uuid doc mx count st row) = rs_result st @ cs \<and>
      row_chunks_of doc mx count row cs"
proof -
  let ?base = "st\<lparr>rs_list := [], rs_size := 0\<rparr>"
  let ?st = "foldl (pair_step v5 show_uuid doc mx count) ?base (split_str comma_sep row)"
  have "row_indexed ?st \<and> row_inv doc mx count (rs_result st) (split_str comma_sep row) ?st"
  proof (rule foldl_invariant
      [where I = "\<lambda>ps st'. row_indexed st' \<and> row_inv doc mx count (rs_result st) ps st'"])
    show "row_indexed ?base \<and> row_inv doc mx count (rs_result st) [] ?base"
      using idx by (auto simp: row_inv_def row_indexed_def intro: exI [of _ "[]"])
  qed (blast intro: pair_step_inv pair_step_indexed)
  then obtain gs cs where *: "row_indexed ?st" "split_str comma_sep row = concat gs @ rs_list ?st"
    "rs_result ?st = rs_result st @ cs" "list_all2 (row_chunk_of doc mx count CutRowCut) gs cs"
    "rs_size ?st = sum_list (map count (rs_list ?st))" "rs_size ?st \<le> mx \<or> length (rs_list ?st) \<le> 1"
    "rs_list ?st \<noteq> []"
    unfolding row_inv_def using split_str_nonempty by blast
  have step: "row_step v5 show_uuid doc mx count st row = row_emit v5 show_uuid doc count CutRowEnd ?st"
    using row *(7) by (simp add: row_step_def)
  show "row_indexed (row_step v5 show_uuid doc mx count st row)"
    unfolding step using *(1) by (rule row_emit_indexed)
  obtain c where c: "rs_result (row_emit v5 show_uuid doc count CutRowEnd ?st) = rs_result st @ cs @ [c]"
    "dc_text c = join comma_sep (rs_list ?st)" "dc_size c = count (dc_text c)"
    "dc_cut c = ''row_end''" "dc_document_id c = doc"
    using *(3) by (auto simp: row_emit_def Let_def cut_type_display_def)
  have one: "sum_list (map count (rs_list ?st)) \<le> mx \<or> length (rs_list ?st) = 1"
    using *(5-7) length_le_1 by metis
  have last: "pair_group mx count doc c"
    using one c(2,3,5) *(7) by (auto simp: pair_group_def)
  have "\<forall>c' \<in> set cs. \<exists>g. row_chunk_of doc mx count CutRowCut g c'"
    using *(4) by (metis in_set_conv_nth list_all2_conv_all_nth)
  then have "\<forall>c' \<in> set cs. pair_group mx count doc c' \<and> dc_cut c' = ''row_cut''"
    by (metis row_chunk_of_group row_chunk_of_cut)
  moreover have "join comma_sep (map dc_text (cs @ [c])) = row"
    using join_groups [OF *(4,7)] c(2) *(2) by (metis join_split_str list.simps(8,9) map_append)
  ultimately have "row_chunks_of doc mx count row (cs @ [c])"
    using last c(4) by (simp add: row_chunks_of_def)
  with c(1) show "\<exists>cs. rs_result (row_step v5 show_uuid doc mx count st row) = rs_result st @ cs \<and>
      row_chunks_of doc mx count row cs"
    unfolding step by blast
qed

lemma chunk_by_row_rows:
  "map dc_index (chunk_by_row v5 show_uuid doc d mx count)
     = [0 ..< length (chunk_by_row v5 show_uuid doc d mx count)] \<and>
   (\<exists>css. chunk_by_row v5 show_uuid doc d mx count = concat css \<and>
      list_all2 (row_chunks_of doc mx count) (filter (\<lambda>r. r \<noteq> []) (split_str row_sep d)) css)"
proof -
  let ?I = "\<lambda>rows st. row_indexed st \<and> (\<exists>css. rs_result st = concat css \<and>
      list_all2 (row_chunks_of doc mx count) (filter (\<lambda>r. r \<noteq> []) rows) css)"
  have "?I (split_str row_sep d)
      (foldl (row_step v5 show_uuid doc mx count) row_init (split_str row_sep d))"
  proof (rule foldl_invariant [where I = ?I])
    show "?I [] row_init" by (auto simp: row_init_def row_indexed_def intro: exI [of _ "[]"])
  next
    fix ys y zs s
    assume inv: "?I ys s"
    show "?I (ys @ [y]) (row_step v5 show_uuid doc mx count s y)"
    proof (cases "y = []")
      case True
      with inv show ?thesis by (simp add: row_step_def)
    next
      case False
      from inv obtain css where css: "rs_result s = concat css"
        "list_all2 (row_chunks_of doc mx count) (filter (\<lambda>r. r \<noteq> []) ys) css" by blast
      from inv have idx: "row_indexed s" by simp
      obtain cs where cs: "rs_result (row_step v5 show_uuid doc mx count s y) = rs_result s @ cs"
        "row_chunks_of doc mx count y cs"
        using row_step_chunks(2) [OF False idx] by blast
      have "rs_result (row_step v5 show_uuid doc mx count s y) = concat (css @ [cs]) \<and>
          list_all2 (row_chunks_of doc mx count) (filter (\<lambda>r. r \<noteq> []) (ys @ [y])) (css @ [cs])"
        using css cs False by (simp add: list_all2_appendI)
      with row_step_chunks(1) [OF False idx] show ?thesis by blast
    qed
  qed
  then show ?thesis by (auto simp: chunk_by_row_def row_indexed_def)
qed

section \<open>Properties\<close>

text \<open>
  C6: Chunking a document loses nothing: whatever the document and the budget, the texts of the
  chunks of \<open>chunk_text\<close> concatenate to the document, under a counter that is subadditive and
  monotone on prefixes (or in per-word mode under any counter). In particular the join of
  several paragraphs with a space never happens.
\<close>

theorem chunk_text_lossless:
  assumes "text_ok count mode"
  shows "concat (map dc_text (chunk_text alpha v4 v5 show_uuid doc d mx count mode)) = d"
proof -
  have "map dc_text (chunk_text alpha v4 v5 show_uuid doc d mx count mode)
      = map pc_text (chunk_by_paragraph alpha v4 v5 d mx True count mode)"
    using arg_cong [OF chunk_text_paragraphs(1) [OF assms refl, of alpha v4 v5 show_uuid doc d mx],
        of "map fst"]
    by (simp add: comp_def)
  then show ?thesis by (simp only: chunk_by_paragraph_concat)
qed

theorem chunk_text_lossless_witness:
  "concat (map dc_text (chunk_text (\<lambda>c. True) id length show_nat 7 [97, 98, 46, 32, 99] 1 word_counter Span))
     = [97, 98, 46, 32, 99]"
  by (rule chunk_text_lossless) (simp add: text_ok_def word_counter.monotone_token_counter_axioms)

text \<open>
  C25: The budget is respected: a chunk larger than the maximum is no larger than some single
  word of the document (a word is never split).
\<close>

theorem chunk_text_budget:
  assumes "text_ok count mode"
    and "c \<in> set (chunk_text alpha v4 v5 show_uuid doc d mx count mode)" and "mx < dc_size c"
  shows "\<exists>w \<in> set (chunk_by_word d). dc_size c \<le> count (wc_text w)"
proof -
  have "(dc_text c, dc_size c, dc_cut c)
      \<in> set (map (\<lambda>c. (dc_text c, dc_size c, dc_cut c)) (chunk_text alpha v4 v5 show_uuid doc d mx count mode))"
    using assms(2) by auto
  then obtain p where "p \<in> set (chunk_by_paragraph alpha v4 v5 d mx True count mode)" "dc_size c = pc_size p"
    by (auto simp: chunk_text_paragraphs(1) [OF assms(1) refl])
  with paragraph_budget [OF text_ok_counting_ok [OF assms(1)], of p alpha v4 v5 d mx True] assms(3)
  show ?thesis by auto
qed

text \<open>
  Every document chunk is one paragraph chunk of the batched paragraph chunker, in order:
  same text, same size, same cut type, and the chunk indices count from 0.
\<close>

lemma chunk_text_exact:
  assumes "text_ok count mode"
  shows "let cs = chunk_text alpha v4 v5 show_uuid doc d mx count mode;
             ps = chunk_by_paragraph alpha v4 v5 d mx True count mode
         in map dc_index cs = [0 ..< length ps] \<and> map dc_text cs = map pc_text ps \<and>
            map dc_size cs = map pc_size ps \<and> map dc_cut cs = map (cut_type_display \<circ> pc_cut) ps"
proof -
  let ?f = "\<lambda>c. (dc_text c, dc_size c, dc_cut c)"
  let ?cs = "chunk_text alpha v4 v5 show_uuid doc d mx count mode"
  let ?ps = "chunk_by_paragraph alpha v4 v5 d mx True count mode"
  have eq: "map ?f ?cs = map (\<lambda>p. (pc_text p, pc_size p, cut_type_display (pc_cut p))) ?ps"
    by (rule chunk_text_paragraphs(1) [OF assms refl])
  have "map dc_text ?cs = map fst (map ?f ?cs)" "map dc_size ?cs = map (fst \<circ> snd) (map ?f ?cs)"
    "map dc_cut ?cs = map (snd \<circ> snd) (map ?f ?cs)"
    by (simp_all add: comp_def)
  then show ?thesis
    unfolding eq Let_def using chunk_text_paragraphs(2) [OF assms refl] by (simp add: comp_def)
qed

lemma chunk_text_exact_witness:
  "map dc_index (chunk_text (\<lambda>c. True) id length show_nat 7 [97, 98, 99] 2 length PerWord)
     = [0 ..< length (chunk_by_paragraph (\<lambda>c. True) id length [97, 98, 99] 2 True length PerWord)]"
  using chunk_text_exact [of length PerWord "\<lambda>c. True" id length show_nat 7 "[97, 98, 99]" 2]
  by (simp add: text_ok_def Let_def)

lemmas chunk_eval = chunk_text_def chunk_by_paragraph_def chunk_by_paragraph_run_def text_step_def
  text_flush_def text_init_def para_init_def para_step_def para_emit_def para_finish_def
  cut_type_display_def sentence_eval

lemma chunk_text_example:
  "chunk_text (\<lambda>c. True) id length show_nat 7 [97, 98, 99] 2 length PerWord =
     [\<lparr>dc_id = 3, dc_text = [97, 98, 99], dc_size = 3, dc_index = 0, dc_cut = ''sentence_cut'',
       dc_document_id = 7\<rparr>]"
  by (simp add: chunk_eval)

theorem chunk_text_budget_witness:
  "\<exists>w \<in> set (chunk_by_word [97, 98, 99]). 3 \<le> length (wc_text w)"
  using chunk_text_budget [of length PerWord
      "\<lparr>dc_id = 3, dc_text = [97, 98, 99], dc_size = 3, dc_index = 0, dc_cut = ''sentence_cut'',
        dc_document_id = 7\<rparr>" "\<lambda>c. True" id length show_nat 7 "[97, 98, 99]" 2]
  by (simp add: text_ok_def chunk_text_example)

text \<open>
  The id of a chunk that is over the budget and comes first is derived from its text alone:
  the same oversized text in two documents gives two chunks with the same id, whatever the
  document ids are.
\<close>

lemma oversized_chunk_id_ignores_document:
  "map dc_id (chunk_text alpha v4 v5 show_uuid doc [97, 98, 99] 2 length PerWord) =
   map dc_id (chunk_text alpha v4 v5 show_uuid doc' [97, 98, 99] 2 length PerWord)"
  by (simp add: chunk_eval)

text \<open>
  The row chunker keeps rows apart. Its chunks are the concatenation of one group per
  non-empty row; joining the texts of a group with a comma gives the row back, every chunk of
  the group but the last is labelled \<open>row_cut\<close> and the last \<open>row_end\<close>, a chunk of more than one
  pair stays within the maximum, and the indices count from 0 over the whole input.
\<close>

lemma chunk_by_row_groups:
  "map dc_index (chunk_by_row v5 show_uuid doc d mx count)
     = [0 ..< length (chunk_by_row v5 show_uuid doc d mx count)] \<and>
   (\<exists>css. chunk_by_row v5 show_uuid doc d mx count = concat css \<and>
      list_all2 (row_chunks_of doc mx count) (filter (\<lambda>r. r \<noteq> []) (split_str row_sep d)) css)"
  by (rule chunk_by_row_rows)

end
