(* ===== verification/Retry.thy ===== *)
theory Retry
  imports Prelude
begin

text \<open>
  Retry policies of \<open>crates/core/src/pipeline.rs\<close>. A \<open>Duration\<close> is a number of nanoseconds;
  multiplicities are \<open>u32\<close>, so \<open>checked_pow\<close> overflows at \<open>2 ^ 32\<close>.
\<close>

datatype retry_delay =
    Constant nat
  | Exponential nat nat

datatype retry_policy =
    NoRetry
  | Limited nat retry_delay

definition u32_max :: nat where
  "u32_max = 2 ^ 32 - 1"

definition exponential :: "nat \<Rightarrow> retry_delay" where
  "exponential base = Exponential base 2"

definition checked_pow :: "nat \<Rightarrow> nat \<Rightarrow> nat option" where
  "checked_pow b e = (if b ^ e \<le> u32_max then Some (b ^ e) else None)"

definition delay_compute :: "retry_delay \<Rightarrow> nat \<Rightarrow> nat" where
  "delay_compute d retry_index =
     (case d of
        Constant n \<Rightarrow> n
      | Exponential base factor \<Rightarrow>
          base * (case checked_pow factor retry_index of None \<Rightarrow> u32_max | Some m \<Rightarrow> m))"

text \<open>\<open>max_attempts\<close> of \<open>Limited\<close> is a \<open>NonZeroU32\<close>.\<close>

definition max_attempts :: "retry_policy \<Rightarrow> nat" where
  "max_attempts p = (case p of NoRetry \<Rightarrow> 1 | Limited n _ \<Rightarrow> n)"

definition retry_delay_of :: "retry_policy \<Rightarrow> nat \<Rightarrow> nat option" where
  "retry_delay_of p retry_index =
     (case p of NoRetry \<Rightarrow> None | Limited _ d \<Rightarrow> Some (delay_compute d retry_index))"

definition policy_ok :: "retry_policy \<Rightarrow> bool" where
  "policy_ok p \<longleftrightarrow> 0 < max_attempts p"

lemma delay_compute_bound:
  "delay_compute (Exponential base factor) i \<le> base * u32_max"
  by (simp add: delay_compute_def checked_pow_def)

lemma delay_compute_mono:
  assumes "0 < factor" and "i \<le> j"
  shows "delay_compute (Exponential base factor) i \<le> delay_compute (Exponential base factor) j"
proof -
  have "factor ^ i \<le> factor ^ j" using assms by (simp add: power_increasing)
  then show ?thesis by (simp add: delay_compute_def checked_pow_def)
qed

end
