(* ===== verification/Progress.thy ===== *)
theory Progress
  imports Complex_Main Prelude
begin

text \<open>
  Hierarchical progress: \<open>crates/core/src/progress.rs\<close>.

  A \<open>ProgressTree\<close> is the list of its intervals and a \<open>ProgressToken\<close> the index of its
  interval. Widths and fractions are \<open>f64\<close>s in the code and rational numbers here, so the
  sums are exact.
\<close>

record interval =
  iv_width :: rat
  iv_progress :: rat

type_synonym progress_tree = "interval list"

datatype core_error =
    RuntimeError ustr
  | ThreadPoolBuild ustr
  | TaskAborted ustr
  | MissingContextField ustr
  | InvalidProgressSplit ustr

definition clamp01 :: "rat \<Rightarrow> rat" where
  "clamp01 f = max 0 (min 1 f)"

definition progress_new :: progress_tree where
  "progress_new = [\<lparr>iv_width = 1, iv_progress = 0\<rparr>]"

definition progress_set :: "progress_tree \<Rightarrow> nat \<Rightarrow> rat \<Rightarrow> progress_tree" where
  "progress_set t i f = t[i := (t ! i)\<lparr>iv_progress := clamp01 f\<rparr>]"

definition fraction :: "progress_tree \<Rightarrow> nat \<Rightarrow> rat" where
  "fraction t i = iv_progress (t ! i)"

definition width :: "progress_tree \<Rightarrow> nat \<Rightarrow> rat" where
  "width t i = iv_width (t ! i)"

definition is_complete :: "progress_tree \<Rightarrow> nat \<Rightarrow> bool" where
  "is_complete t i \<longleftrightarrow> 1 \<le> fraction t i"

definition contribution :: "interval \<Rightarrow> rat" where
  "contribution iv = iv_width iv * iv_progress iv"

definition root_fraction :: "progress_tree \<Rightarrow> rat" where
  "root_fraction t = clamp01 (sum_list (map contribution t))"

definition progress_split ::
  "progress_tree \<Rightarrow> nat \<Rightarrow> nat list \<Rightarrow> core_error + progress_tree \<times> nat list" where
  "progress_split t i weights =
     (if weights = [] then Inl (InvalidProgressSplit (ascii ''weights must not be empty''))
      else if 0 \<in> set weights then 
        Inl (InvalidProgressSplit (ascii ''weight at index '' @
          show_nat (length (takeWhile (\<lambda>w. w \<noteq> 0) weights)) @ ascii '' must be positive''))
      else
        (let total_w = of_nat (sum_list weights);
             child = (\<lambda>w. \<lparr>iv_width = (of_nat w / total_w) * width t i, iv_progress = 0\<rparr>)
         in Inr (t[i := \<lparr>iv_width = 0, iv_progress = 0\<rparr>] @ map child weights,
                 [length t ..< length t + length weights])))"

definition subtoken :: "progress_tree \<Rightarrow> nat \<Rightarrow> rat \<Rightarrow> progress_tree \<times> nat" where
  "subtoken t i frac_width =
     (let child_width = clamp01 frac_width * width t i;
          remaining = max (width t i - child_width) 0
      in (t[i := (t ! i)\<lparr>iv_width := remaining\<rparr>] @ [\<lparr>iv_width = child_width, iv_progress = 0\<rparr>],
          length t))"

section \<open>The widths of a tree always add up to the whole\<close>

definition interval_ok :: "interval \<Rightarrow> bool" where
  "interval_ok iv \<longleftrightarrow> 0 \<le> iv_width iv \<and> 0 \<le> iv_progress iv \<and> iv_progress iv \<le> 1"

definition tree_wf :: "progress_tree \<Rightarrow> bool" where
  "tree_wf t \<longleftrightarrow> (\<forall>iv \<in> set t. interval_ok iv) \<and> sum_list (map iv_width t) = 1"

lemma clamp01_bounds [simp]: "0 \<le> clamp01 f" "clamp01 f \<le> 1"
  by (simp_all add: clamp01_def)

lemma clamp01_id: "0 \<le> f \<Longrightarrow> f \<le> 1 \<Longrightarrow> clamp01 f = f"
  by (simp add: clamp01_def)

lemma sum_list_update_rat:
  fixes f :: "'a \<Rightarrow> rat"
  assumes "i < length xs"
  shows "sum_list (map f (xs[i := x])) = sum_list (map f xs) - f (xs ! i) + f x"
proof -
  have "xs = take i xs @ xs ! i # drop (Suc i) xs"
    using assms by (rule id_take_nth_drop)
  then show ?thesis
    using assms by (subst upd_conv_take_nth_drop) (simp_all add: algebra_simps,
        metis (no_types) add.left_commute list.simps(9) map_append sum_list.Cons sum_list_append)
qed

lemma tree_wf_new: "tree_wf progress_new"
  by (simp add: tree_wf_def progress_new_def interval_ok_def)

lemma tree_wf_nth: "tree_wf t \<Longrightarrow> i < length t \<Longrightarrow> interval_ok (t ! i)"
  by (simp add: tree_wf_def)

lemma tree_wf_set:
  assumes "tree_wf t" and "i < length t"
  shows "tree_wf (progress_set t i f)"
  using assms tree_wf_nth [OF assms]
  by (auto simp: tree_wf_def progress_set_def sum_list_update_rat interval_ok_def
      dest!: set_update_subset_insert [THEN subsetD])

lemma children_width:
  fixes w :: rat
  assumes "weights \<noteq> []" and "0 \<notin> set weights"
  shows "(\<Sum>k\<leftarrow>weights. of_nat k / of_nat (sum_list weights) * w) = w"
proof -
  have "sum_list weights \<noteq> 0"
    using assms by (cases weights) auto
  then have nz: "(of_nat (sum_list weights) :: rat) \<noteq> 0" by simp
  have "(\<Sum>k\<leftarrow>ws. of_nat k / c * w) = of_nat (sum_list ws) / c * w" for ws and c :: rat
    by (induction ws) (simp_all add: add_divide_distrib ring_distribs)
  with nz show ?thesis by simp
qed

lemma tree_wf_split:
  assumes "tree_wf t" and i: "i < length t" and ok: "progress_split t i weights = Inr (t', ids)"
  shows "tree_wf t'"
proof -
  let ?child = "\<lambda>w. \<lparr>iv_width = of_nat w / of_nat (sum_list weights) * width t i, iv_progress = 0\<rparr>"
  have ws: "weights \<noteq> []" "0 \<notin> set weights"
    and t': "t' = t[i := \<lparr>iv_width = 0, iv_progress = 0\<rparr>] @ map ?child weights"
    using ok by (auto simp: progress_split_def Let_def split: if_splits)
  have "0 \<le> width t i"
    using tree_wf_nth [OF assms(1) i] by (simp add: interval_ok_def width_def)
  then have "\<forall>iv \<in> set t'. interval_ok iv"
    using assms(1) by (auto simp: t' tree_wf_def interval_ok_def
        dest!: set_update_subset_insert [THEN subsetD])
  moreover have "sum_list (map iv_width t') = 1"
    using assms(1) i children_width [OF ws, of "width t i"]
    by (simp add: t' tree_wf_def sum_list_update_rat comp_def width_def)
  ultimately show ?thesis by (simp add: tree_wf_def)
qed

lemma tree_wf_subtoken:
  assumes "tree_wf t" and i: "i < length t"
  shows "tree_wf (fst (subtoken t i f))"
proof -
  have w: "0 \<le> width t i"
    using tree_wf_nth [OF assms] by (simp add: interval_ok_def width_def)
  then have "clamp01 f * width t i \<le> width t i"
    by (simp add: mult_left_le_one_le)
  with w assms tree_wf_nth [OF assms] show ?thesis
    by (auto simp: tree_wf_def subtoken_def Let_def sum_list_update_rat interval_ok_def width_def
        dest!: set_update_subset_insert [THEN subsetD])
qed

lemma contribution_bounds:
  "interval_ok iv \<Longrightarrow> 0 \<le> contribution iv \<and> contribution iv \<le> iv_width iv"
  by (simp add: interval_ok_def contribution_def mult_left_le)

lemma root_sum:
  assumes "tree_wf t"
  shows "root_fraction t = sum_list (map contribution t)"
proof -
  have "\<forall>iv \<in> set t. 0 \<le> contribution iv \<and> contribution iv \<le> iv_width iv"
    using assms by (auto simp: tree_wf_def contribution_bounds)
  then have "0 \<le> sum_list (map contribution t)"
    and "sum_list (map contribution t) \<le> sum_list (map iv_width t)"
    by (auto intro!: sum_list_nonneg sum_list_mono)
  with assms show ?thesis by (simp add: root_fraction_def tree_wf_def clamp01_id)
qed

lemma root_fraction_set:
  assumes "tree_wf t" and "i < length t"
  shows "root_fraction (progress_set t i f)
    = root_fraction t + width t i * (clamp01 f - fraction t i)"
  using root_sum [OF assms(1)] root_sum [OF tree_wf_set [OF assms]] assms(2)
  by (simp add: progress_set_def sum_list_update_rat contribution_def width_def fraction_def
      algebra_simps)

section \<open>Trees that operations can build\<close>

inductive progress_tree_reachable :: "progress_tree \<Rightarrow> bool" where
  reach_new: "progress_tree_reachable progress_new"
| reach_set: "progress_tree_reachable t \<Longrightarrow> i < length t \<Longrightarrow>
    progress_tree_reachable (progress_set t i f)"
| reach_split: "progress_tree_reachable t \<Longrightarrow> i < length t \<Longrightarrow>
    progress_split t i weights = Inr (t', ids) \<Longrightarrow> progress_tree_reachable t'"
| reach_subtoken: "progress_tree_reachable t \<Longrightarrow> i < length t \<Longrightarrow>
    progress_tree_reachable (fst (subtoken t i f))"

lemma reachable_tree_wf: "progress_tree_reachable t \<Longrightarrow> tree_wf t"
  by (induction rule: progress_tree_reachable.induct)
    (blast intro: tree_wf_new tree_wf_set tree_wf_split tree_wf_subtoken)+

text \<open>The tree of a run: the root split among its tasks.\<close>

lemma split_new:
  assumes "weights \<noteq> []" and "0 \<notin> set weights"
  obtains t where "progress_split progress_new 0 weights = Inr (t, [1 ..< 1 + length weights])"
    and "length t = 1 + length weights" and "tree_wf t" and "fraction t 0 = 0" and "width t 0 = 0"
    and "\<And>k. k < length weights \<Longrightarrow>
      fraction t (Suc k) = 0 \<and> width t (Suc k) = of_nat (weights ! k) / of_nat (sum_list weights)"
proof -
  obtain t ids where t: "progress_split progress_new 0 weights = Inr (t, ids)"
    using assms by (simp add: progress_split_def Let_def)
  have "tree_wf t" by (rule tree_wf_split [OF tree_wf_new _ t]) (simp add: progress_new_def)
  moreover have "t = \<lparr>iv_width = 0, iv_progress = 0\<rparr> #
      map (\<lambda>w. \<lparr>iv_width = of_nat w / of_nat (sum_list weights), iv_progress = 0\<rparr>) weights"
    and "ids = [1 ..< 1 + length weights]"
    using t assms by (auto simp: progress_split_def Let_def progress_new_def width_def)
  ultimately show thesis using t that by (simp add: fraction_def width_def)
qed

end
