(* ===== verification/Pipeline_Exec.thy ===== *)
theory Pipeline_Exec
  imports Retry Progress
begin

text \<open>
  The pipeline executor: \<open>crates/core/src/pipeline.rs\<close>, with the tasks of \<open>task.rs\<close>, the
  sentinels of \<open>sentinels.rs\<close> and the status interface of \<open>exec_status.rs\<close>.

  The model is generic in the values \<open>'v\<close> that flow through a pipeline and in the state \<open>'s\<close>
  of the world its tasks act on (databases, the network, the cancellation flag). A call that
  the code awaits is a function from the world to the world and a result.

  \<^item> A value is a \<open>'v pval\<close>: the code recognises the two sentinel types by downcasting.
  \<^item> A task is one of the eight variants of \<open>Task\<close>. A synchronous iterator is the list of
    what its \<open>next\<close> calls do, a stream the list of what its polls do; both are finite.
  \<^item> The errors of tasks are their display strings. A panic of the code is the error
    \<open>Panicked\<close>: it unwinds through the executor like an error, but no event follows it.
  \<^item> \<open>xs_events\<close> is what the watcher is told and how long the executor sleeps, in order.
\<close>

section \<open>Values, tasks, errors\<close>

datatype 'v pval = Plain 'v | DroppedSentinel | PassthroughSentinel

definition is_dropped :: "'v pval \<Rightarrow> bool" where
  "is_dropped v \<longleftrightarrow> (case v of DroppedSentinel \<Rightarrow> True | _ \<Rightarrow> False)"

definition is_passthrough :: "'v pval \<Rightarrow> bool" where
  "is_passthrough v \<longleftrightarrow> (case v of PassthroughSentinel \<Rightarrow> True | _ \<Rightarrow> False)"

type_synonym task_error = ustr

text \<open>One poll of a stream: it is not ready yet, or it yields an item or an error.\<close>

datatype 'v poll = Parked | Ready "task_error + 'v pval"

type_synonym ('v, 's) val_iter = "('s \<Rightarrow> 's \<times> 'v pval) list"
type_synonym ('v, 's) val_stream = "('s \<Rightarrow> 's \<times> 'v poll) list"

text \<open>
  What a task sees of its \<open>TaskContext\<close>: the identity of the run, the data item it descends
  from and the index of its progress token.
\<close>

record 'v pipeline_ctx =
  pc_user_id :: "uuid option"
  pc_tenant_id :: "uuid option"
  pc_dataset_id :: "uuid option"
  pc_user_label :: "ustr option"
  pc_current_data :: "'v pval option"
  pc_run_id :: "uuid option"

record 'v task_ctx =
  tc_pipeline :: "'v pipeline_ctx option"
  tc_progress :: nat

definition with_progress :: "'v task_ctx \<Rightarrow> nat \<Rightarrow> 'v task_ctx" where
  "with_progress c i = c\<lparr>tc_progress := i\<rparr>"

definition with_current_data :: "'v task_ctx \<Rightarrow> 'v pval \<Rightarrow> 'v task_ctx" where
  "with_current_data c v =
     (case tc_pipeline c of
        None \<Rightarrow> c
      | Some p \<Rightarrow> c\<lparr>tc_pipeline := Some (p\<lparr>pc_current_data := Some v\<rparr>)\<rparr>)"

definition with_run_id :: "'v task_ctx \<Rightarrow> uuid \<Rightarrow> 'v task_ctx" where
  "with_run_id c r =
     (case tc_pipeline c of
        None \<Rightarrow> c
      | Some p \<Rightarrow> c\<lparr>tc_pipeline := Some (p\<lparr>pc_run_id := Some r\<rparr>)\<rparr>)"

definition ctx_dataset :: "'v task_ctx \<Rightarrow> uuid option" where
  "ctx_dataset c = Option.bind (tc_pipeline c) pc_dataset_id"

datatype ('v, 's) task =
    Sync "'v pval \<Rightarrow> 'v task_ctx \<Rightarrow> 's \<Rightarrow> 's \<times> (task_error + 'v pval)"
  | Async "'v pval \<Rightarrow> 'v task_ctx \<Rightarrow> 's \<Rightarrow> 's \<times> (task_error + 'v pval)"
  | SyncIter "'v pval \<Rightarrow> 'v task_ctx \<Rightarrow> 's \<Rightarrow> 's \<times> (task_error + ('v, 's) val_iter)"
  | AsyncStream "'v pval \<Rightarrow> 'v task_ctx \<Rightarrow> 's \<Rightarrow> 's \<times> (task_error + ('v, 's) val_stream)"
  | SyncBatch "'v pval list \<Rightarrow> 'v task_ctx \<Rightarrow> 's \<Rightarrow> 's \<times> (task_error + 'v pval)"
  | AsyncBatch "'v pval list \<Rightarrow> 'v task_ctx \<Rightarrow> 's \<Rightarrow> 's \<times> (task_error + 'v pval)"
  | SyncIterBatch "'v pval list \<Rightarrow> 'v task_ctx \<Rightarrow> 's \<Rightarrow> 's \<times> (task_error + ('v, 's) val_iter)"
  | AsyncStreamBatch "'v pval list \<Rightarrow> 'v task_ctx \<Rightarrow> 's \<Rightarrow> 's \<times> (task_error + ('v, 's) val_stream)"

definition is_batch :: "('v, 's) task \<Rightarrow> bool" where
  "is_batch t \<longleftrightarrow>
     (case t of SyncBatch _ \<Rightarrow> True | AsyncBatch _ \<Rightarrow> True | SyncIterBatch _ \<Rightarrow> True
      | AsyncStreamBatch _ \<Rightarrow> True | _ \<Rightarrow> False)"

datatype ('v, 's) resolved =
    Single "'v pval"
  | Iter "('v, 's) val_iter"
  | Stream "('v, 's) val_stream"

text \<open>
  \<open>Task::call\<close> and \<open>Task::call_batch\<close> followed by \<open>resolve_call\<close>. \<open>None\<close> is the panic on a
  task of the other kind.
\<close>

definition resolve_call ::
  "('a \<Rightarrow> ('v, 's) resolved) \<Rightarrow> 's \<times> (task_error + 'a) \<Rightarrow> 's \<times> (task_error + ('v, 's) resolved)" where
  "resolve_call f r = (fst r, map_sum id f (snd r))"

definition call_task ::
  "('v, 's) task \<Rightarrow> 'v pval \<Rightarrow> 'v task_ctx \<Rightarrow> 's
     \<Rightarrow> ('s \<times> (task_error + ('v, 's) resolved)) option" where
  "call_task t input ctx s =
     (case t of
        Sync f \<Rightarrow> Some (resolve_call Single (f input ctx s))
      | Async f \<Rightarrow> Some (resolve_call Single (f input ctx s))
      | SyncIter f \<Rightarrow> Some (resolve_call Iter (f input ctx s))
      | AsyncStream f \<Rightarrow> Some (resolve_call Stream (f input ctx s))
      | _ \<Rightarrow> None)"

definition call_batch ::
  "('v, 's) task \<Rightarrow> 'v pval list \<Rightarrow> 'v task_ctx \<Rightarrow> 's
     \<Rightarrow> ('s \<times> (task_error + ('v, 's) resolved)) option" where
  "call_batch t items ctx s =
     (case t of
        SyncBatch f \<Rightarrow> Some (resolve_call Single (f items ctx s))
      | AsyncBatch f \<Rightarrow> Some (resolve_call Single (f items ctx s))
      | SyncIterBatch f \<Rightarrow> Some (resolve_call Iter (f items ctx s))
      | AsyncStreamBatch f \<Rightarrow> Some (resolve_call Stream (f items ctx s))
      | _ \<Rightarrow> None)"

text \<open>A rate limiter is its \<open>acquire\<close>.\<close>

record ('v, 's) task_info =
  ti_task :: "('v, 's) task"
  ti_name :: "ustr option"
  ti_batch_size :: "nat option"
  ti_weight :: nat
  ti_enriches :: bool
  ti_rate_limiter :: "('s \<Rightarrow> 's) option"

datatype exec_error =
    TaskFailed nat nat task_error
  | Cancelled
  | NoTasks
  | InvalidConfig ustr
  | Panicked

section \<open>Events and state\<close>

datatype run_status = RunInitiated | RunStarted | RunCompleted | RunErrored

record run_info =
  ri_run_id :: uuid
  ri_pipeline_id :: uuid
  ri_pipeline_name :: ustr
  ri_user_id :: "uuid option"
  ri_tenant_id :: "uuid option"
  ri_dataset_id :: "uuid option"
  ri_data_ids :: "uuid list"
  ri_status :: run_status

datatype task_status =
    TaskStarted
  | TaskRetrying nat task_error
  | TaskSucceeded
  | TaskGaveUp nat task_error

datatype pipeline_status =
    PipelineStarted nat
  | PipelineSucceeded nat
  | PipelineFailed nat ustr
  | PipelineCancelled
  | ItemSkipped ustr

datatype event =
    OnPipeline uuid pipeline_status
  | OnTask uuid nat "ustr option" nat task_status
  | OnRunInitiated run_info
  | OnRunStarted run_info
  | OnRunCompleted run_info nat
  | OnRunErrored run_info ustr
  | OnTaskStarted run_info ustr nat
  | OnTaskCompleted run_info ustr nat
  | OnTaskErrored run_info ustr task_error
  | Slept nat

record 's exec_state =
  xs_world :: 's
  xs_events :: "event list"
  xs_progress :: progress_tree

definition emit :: "event list \<Rightarrow> 's exec_state \<Rightarrow> 's exec_state" where
  "emit es st = st\<lparr>xs_events := xs_events st @ es\<rparr>"

definition with_world :: "'s \<Rightarrow> 's exec_state \<Rightarrow> 's exec_state" where
  "with_world w st = st\<lparr>xs_world := w\<rparr>"

definition acquire :: "('s \<Rightarrow> 's) option \<Rightarrow> 's exec_state \<Rightarrow> 's exec_state" where
  "acquire rl st = (case rl of None \<Rightarrow> st | Some f \<Rightarrow> with_world (f (xs_world st)) st)"

text \<open>
  \<open>ExecStatusManager\<close>: queries and marks per data item, pipeline name and dataset. The results
  of the marks are ignored by the executor, so a mark is a change of the world.
\<close>

record 's exec_status =
  es_is_completed :: "ustr \<Rightarrow> ustr \<Rightarrow> uuid option \<Rightarrow> 's \<Rightarrow> 's \<times> (task_error + bool)"
  es_mark_completed :: "ustr \<Rightarrow> ustr \<Rightarrow> uuid option \<Rightarrow> 's \<Rightarrow> 's"
  es_mark_failed :: "ustr \<Rightarrow> ustr \<Rightarrow> uuid option \<Rightarrow> task_error \<Rightarrow> 's \<Rightarrow> 's"
  es_stamp_provenance :: "ustr \<Rightarrow> ustr \<Rightarrow> ustr \<Rightarrow> uuid option \<Rightarrow> ustr option \<Rightarrow> 's \<Rightarrow> 's"

definition noop_exec_status :: "'s exec_status" where
  "noop_exec_status = \<lparr>es_is_completed = (\<lambda>_ _ _ s. (s, Inr False)),
     es_mark_completed = (\<lambda>_ _ _ s. s), es_mark_failed = (\<lambda>_ _ _ _ s. s),
     es_stamp_provenance = (\<lambda>_ _ _ _ _ s. s)\<rparr>"

text \<open>
  \<open>ProvenanceInputs\<close>, and the provenance operations on values: what a value carries, and the
  stamping of a value (\<open>stamp_tree_dyn\<close> under the run's visited set, which is part of the
  world). \<open>ph_stamp_shared\<close> stamps through an \<open>Arc\<close>, which does nothing when the \<open>Arc\<close> is
  shared.
\<close>

record prov_inputs =
  pi_pipeline_name :: ustr
  pi_task_name :: ustr
  pi_user_label :: "ustr option"
  pi_node_set :: "ustr option"
  pi_content_hash :: "ustr option"
  pi_task_rank :: nat

record ('v, 's) prov_hooks =
  ph_node_set :: "'v pval \<Rightarrow> ustr option"
  ph_content_hash :: "'v pval \<Rightarrow> ustr option"
  ph_meta_node_set :: "'v pval \<Rightarrow> ustr option"
  ph_stamp_boxed :: "prov_inputs \<Rightarrow> 'v pval \<Rightarrow> 's \<Rightarrow> 's \<times> 'v pval"
  ph_stamp_shared :: "prov_inputs \<Rightarrow> 'v pval \<Rightarrow> 's \<Rightarrow> 's \<times> 'v pval"
  ph_clear_visited :: "'s \<Rightarrow> 's"

text \<open>
  \<open>futures::future::join_all\<close>: it polls the futures of a chunk in an order of its own, so what they do
  to the state interleaves. A future is what its item does when it runs alone; the state after
  \<open>join_all\<close> and the results are the parameter's to give, and there are none when a future panics.
\<close>

type_synonym ('v, 's) item_future = "'s exec_state \<Rightarrow> 's exec_state \<times> (exec_error + 'v pval list)"

type_synonym ('v, 's) join_all =
  "('v, 's) item_future list \<Rightarrow> 's exec_state \<Rightarrow> 's exec_state \<times> (exec_error + 'v pval list) list option"

record ('v, 's) exec_env =
  ee_policy :: retry_policy
  ee_default_batch_size :: nat
  ee_pipeline_id :: uuid
  ee_pipeline_name :: "ustr option"
  ee_total_tasks :: nat
  ee_ctx :: "'v task_ctx"
  ee_cancelled :: "'s \<Rightarrow> bool"
  ee_exec_status :: "'s exec_status"
  ee_prov :: "('v, 's) prov_hooks"
  ee_data_id_fn :: "('v pval \<Rightarrow> ustr option) option"
  ee_run_info :: run_info
  ee_subtokens :: "nat list"
  ee_rate_limiter :: "('s \<Rightarrow> 's) option"
  ee_join_all :: "('v, 's) join_all"

definition name_or_empty :: "ustr option \<Rightarrow> ustr" where
  "name_or_empty n = (case n of None \<Rightarrow> [] | Some s \<Rightarrow> s)"

definition cancelled :: "('v, 's) exec_env \<Rightarrow> 's exec_state \<Rightarrow> bool" where
  "cancelled env st = ee_cancelled env (xs_world st)"

text \<open>\<open>env.task_subtokens[i].set(1.0)\<close>.\<close>

definition complete_token :: "('v, 's) exec_env \<Rightarrow> nat \<Rightarrow> 's exec_state \<Rightarrow> 's exec_state" where
  "complete_token env i st =
     st\<lparr>xs_progress := progress_set (xs_progress st) (ee_subtokens env ! i) 1\<rparr>"

text \<open>Stamping needs a pipeline context.\<close>

definition stamp_with ::
  "(prov_inputs \<Rightarrow> 'v pval \<Rightarrow> 's \<Rightarrow> 's \<times> 'v pval) \<Rightarrow> ('v, 's) exec_env \<Rightarrow> prov_inputs
     \<Rightarrow> 'v pval \<Rightarrow> 's exec_state \<Rightarrow> 's exec_state \<times> 'v pval" where
  "stamp_with f env prov v st =
     (case tc_pipeline (ee_ctx env) of
        None \<Rightarrow> (st, v)
      | Some _ \<Rightarrow> (let (w, v') = f prov v (xs_world st) in (with_world w st, v')))"

definition stamp_boxed_item where
  "stamp_boxed_item env = stamp_with (ph_stamp_boxed (ee_prov env)) env"

definition stamp_single_output where
  "stamp_single_output env = stamp_with (ph_stamp_shared (ee_prov env)) env"

section \<open>One task call, with retries\<close>

type_synonym ('s, 'a) exec_result = "'s exec_state \<times> (exec_error + 'a)"

text \<open>What follows a successful attempt: stamping of a single output, then the audit record.\<close>

definition after_success ::
  "('v, 's) exec_env \<Rightarrow> ustr option \<Rightarrow> ustr option \<Rightarrow> prov_inputs \<Rightarrow> ('v, 's) resolved
     \<Rightarrow> 's exec_state \<Rightarrow> 's exec_state \<times> ('v, 's) resolved" where
  "after_success env task_name data_id prov resolved st =
     (let (st1, resolved1) =
            (case resolved of
               Single v \<Rightarrow> (let (st', v') = stamp_single_output env prov v st in (st', Single v'))
             | _ \<Rightarrow> (st, resolved));
          node_set = (case resolved1 of Single v \<Rightarrow> ph_meta_node_set (ee_prov env) v | _ \<Rightarrow> None)
      in (case data_id of
            None \<Rightarrow> st1
          | Some d \<Rightarrow>
              with_world
                (es_stamp_provenance (ee_exec_status env) d (name_or_empty (ee_pipeline_name env))
                  (name_or_empty task_name) (Option.bind (tc_pipeline (ee_ctx env)) pc_user_id)
                  node_set (xs_world st1)) st1,
          resolved1))"

text \<open>
  The \<open>for attempt in 1..=max_attempts\<close> loop; the number is how many attempts are left after
  this one.
\<close>

fun attempts ::
  "('v, 's) exec_env \<Rightarrow> ('v, 's) task \<Rightarrow> 'v pval \<Rightarrow> nat \<Rightarrow> ustr option \<Rightarrow> ustr option \<Rightarrow> prov_inputs
     \<Rightarrow> ('s \<Rightarrow> 's) option \<Rightarrow> 'v task_ctx \<Rightarrow> nat \<Rightarrow> 's exec_state \<Rightarrow> ('s, ('v, 's) resolved) exec_result"
where
  "attempts env task input i task_name data_id prov rl ctx left st =
     (let st1 = acquire rl st;
          attempt = max_attempts (ee_policy env) - left
      in case call_task task input ctx (xs_world st1) of
           None \<Rightarrow> (st1, Inl Panicked)
         | Some (w, Inr resolved) \<Rightarrow>
             (let (st2, resolved2) = after_success env task_name data_id prov resolved (with_world w st1)
              in (st2, Inr resolved2))
         | Some (w, Inl e) \<Rightarrow>
             (case left of
                0 \<Rightarrow>
                  (emit [OnTask (ee_pipeline_id env) i task_name (ee_total_tasks env)
                           (TaskGaveUp (max_attempts (ee_policy env)) e),
                         OnTaskErrored (ee_run_info env) (name_or_empty task_name) e]
                     (with_world w st1),
                   Inl (TaskFailed i (max_attempts (ee_policy env)) e))
              | Suc left' \<Rightarrow>
                  attempts env task input i task_name data_id prov rl ctx left'
                    (emit (OnTask (ee_pipeline_id env) i task_name (ee_total_tasks env)
                             (TaskRetrying attempt e)
                           # (case retry_delay_of (ee_policy env) (attempt - 1) of
                                None \<Rightarrow> [] | Some d \<Rightarrow> [Slept d]))
                       (with_world w st1))))"

declare attempts.simps [simp del]

definition call_with_retry ::
  "('v, 's) exec_env \<Rightarrow> ('v, 's) task \<Rightarrow> 'v pval \<Rightarrow> nat \<Rightarrow> ustr option \<Rightarrow> ustr option \<Rightarrow> prov_inputs
     \<Rightarrow> ('s \<Rightarrow> 's) option \<Rightarrow> 's exec_state \<Rightarrow> ('s, ('v, 's) resolved) exec_result" where
  "call_with_retry env task input i task_name data_id prov rl st =
     attempts env task input i task_name data_id prov rl
       (with_progress (ee_ctx env) (ee_subtokens env ! i)) (max_attempts (ee_policy env) - 1) st"

section \<open>Consuming what a task yields\<close>

text \<open>A \<open>for\<close> loop that appends the outputs of each item and stops at the first error.\<close>

fun for_each ::
  "('a \<Rightarrow> 's exec_state \<Rightarrow> ('s, 'b list) exec_result) \<Rightarrow> 'a list \<Rightarrow> 's exec_state
     \<Rightarrow> ('s, 'b list) exec_result" where
  "for_each f [] st = (st, Inr [])"
| "for_each f (x # xs) st =
     (case f x st of
        (st1, Inl e) \<Rightarrow> (st1, Inl e)
      | (st1, Inr ys) \<Rightarrow>
          (case for_each f xs st1 of
             (st2, Inl e) \<Rightarrow> (st2, Inl e)
           | (st2, Inr zs) \<Rightarrow> (st2, Inr (ys @ zs))))"

text \<open>Dispatching a batch in a loop: the outputs so far, then those of the batch.\<close>

definition append_outputs :: "'b list \<Rightarrow> ('s, 'b list) exec_result \<Rightarrow> ('s, 'b list) exec_result" where
  "append_outputs out r = (fst r, map_sum id (\<lambda>ys. out @ ys) (snd r))"

type_synonym ('v, 's) dispatcher =
  "'v pval list \<Rightarrow> prov_inputs \<Rightarrow> 's exec_state \<Rightarrow> ('s, 'v pval list) exec_result"

text \<open>
  \<open>complete_batch_progress(tail, first_index, env)\<close>, as what happens to the outputs of the loop.
\<close>

definition complete_batch_progress ::
  "('v, 's) exec_env \<Rightarrow> ('v, 's) task_info list \<Rightarrow> nat \<Rightarrow> 's exec_state \<Rightarrow> 's exec_state" where
  "complete_batch_progress env tail i st =
     (case tail of
        [] \<Rightarrow> st
      | next # _ \<Rightarrow> if is_batch (ti_task next) then complete_token env i st else st)"

definition finish_batches ::
  "('v, 's) dispatcher \<Rightarrow> ('s exec_state \<Rightarrow> 's exec_state) \<Rightarrow> prov_inputs \<Rightarrow> 'v pval list
     \<Rightarrow> 'v pval list \<Rightarrow> 's exec_state \<Rightarrow> ('s, 'v pval list) exec_result" where
  "finish_batches dispatch fin prov batch out st =
     (case (if batch = [] then (st, Inr out) else append_outputs out (dispatch batch prov st)) of
        (st1, Inl e) \<Rightarrow> (st1, Inl e)
      | (st1, Inr ys) \<Rightarrow> (fin st1, Inr ys))"

text \<open>
  \<open>process_iter\<close>: the loop keeps the outputs so far and the batch under construction.
\<close>

fun process_iter ::
  "('v, 's) exec_env \<Rightarrow> ('v, 's) dispatcher \<Rightarrow> ('s exec_state \<Rightarrow> 's exec_state) \<Rightarrow> nat \<Rightarrow> prov_inputs
     \<Rightarrow> 'v pval list \<Rightarrow> 'v pval list \<Rightarrow> ('v, 's) val_iter \<Rightarrow> 's exec_state
     \<Rightarrow> ('s, 'v pval list) exec_result" where
  "process_iter env dispatch fin bs prov batch out [] st =
     finish_batches dispatch fin prov batch out st"
| "process_iter env dispatch fin bs prov batch out (next # iter) st =
     (let (w, item) = next (xs_world st); st1 = with_world w st in
      if cancelled env st1 then (st1, Inl Cancelled)
      else if is_dropped item then process_iter env dispatch fin bs prov batch out iter st1
      else
        (let (st2, item') = stamp_boxed_item env prov item st1; batch' = batch @ [item'] in
         if bs \<le> length batch' then
           (case append_outputs out (dispatch batch' prov st2) of
              (st3, Inl e) \<Rightarrow> (st3, Inl e)
            | (st3, Inr out') \<Rightarrow> process_iter env dispatch fin bs prov [] out' iter st3)
         else process_iter env dispatch fin bs prov batch' out iter st2))"

text \<open>
  \<open>process_stream\<close>: cancellation wins over a ready item, and is looked at again whenever the
  stream was not ready. An error of the stream is charged to the producer.
\<close>

fun process_stream ::
  "('v, 's) exec_env \<Rightarrow> ('v, 's) dispatcher \<Rightarrow> ('s exec_state \<Rightarrow> 's exec_state) \<Rightarrow> nat \<Rightarrow> nat \<Rightarrow> prov_inputs
     \<Rightarrow> 'v pval list \<Rightarrow> 'v pval list \<Rightarrow> ('v, 's) val_stream \<Rightarrow> 's exec_state
     \<Rightarrow> ('s, 'v pval list) exec_result" where
  "process_stream env dispatch fin bs producer prov batch out [] st =
     (if cancelled env st then (st, Inl Cancelled)
      else finish_batches dispatch fin prov batch out st)"
| "process_stream env dispatch fin bs producer prov batch out (poll # stream) st =
     (if cancelled env st then (st, Inl Cancelled)
      else
        (let (w, polled) = poll (xs_world st); st1 = with_world w st in
         case polled of
           Parked \<Rightarrow> process_stream env dispatch fin bs producer prov batch out stream st1
         | Ready (Inl e) \<Rightarrow> (st1, Inl (TaskFailed producer 1 e))
         | Ready (Inr item) \<Rightarrow>
             if is_dropped item then
               process_stream env dispatch fin bs producer prov batch out stream st1
             else
               (let (st2, item') = stamp_boxed_item env prov item st1; batch' = batch @ [item'] in
                if bs \<le> length batch' then
                  (case append_outputs out (dispatch batch' prov st2) of
                     (st3, Inl e) \<Rightarrow> (st3, Inl e)
                   | (st3, Inr out') \<Rightarrow>
                       process_stream env dispatch fin bs producer prov [] out' stream st3)
                else process_stream env dispatch fin bs producer prov batch' out stream st2)))"

section \<open>The depth-first executor\<close>

definition data_id_of :: "('v, 's) exec_env \<Rightarrow> 'v pval \<Rightarrow> ustr option" where
  "data_id_of env v = Option.bind (ee_data_id_fn env) (\<lambda>f. f v)"

text \<open>Incremental deduplication at the first task: has this item been completed before?\<close>

definition skip_check ::
  "('v, 's) exec_env \<Rightarrow> 'v pval \<Rightarrow> nat \<Rightarrow> 's exec_state \<Rightarrow> ('s, bool) exec_result" where
  "skip_check env input i st =
     (case (if i = 0 then data_id_of env input else None) of
        None \<Rightarrow> (st, Inr False)
      | Some d \<Rightarrow>
          (case es_is_completed (ee_exec_status env) d (name_or_empty (ee_pipeline_name env))
                  (ctx_dataset (ee_ctx env)) (xs_world st) of
             (w, Inl e) \<Rightarrow> (with_world w st, Inl (TaskFailed 0 0 e))
           | (w, Inr False) \<Rightarrow> (with_world w st, Inr False)
           | (w, Inr True) \<Rightarrow>
               (emit [OnPipeline (ee_pipeline_id env) (ItemSkipped d)] (with_world w st), Inr True)))"

definition prov_of :: "('v, 's) exec_env \<Rightarrow> ('v, 's) task_info \<Rightarrow> 'v pval \<Rightarrow> nat \<Rightarrow> prov_inputs" where
  "prov_of env info input i =
     \<lparr>pi_pipeline_name = name_or_empty (ee_pipeline_name env),
      pi_task_name = name_or_empty (ti_name info),
      pi_user_label = Option.bind (tc_pipeline (ee_ctx env)) pc_user_label,
      pi_node_set = ph_node_set (ee_prov env) input,
      pi_content_hash = ph_content_hash (ee_prov env) input,
      pi_task_rank = i + 1\<rparr>"

definition batch_prov_of ::
  "('v, 's) exec_env \<Rightarrow> ('v, 's) task_info \<Rightarrow> nat \<Rightarrow> prov_inputs \<Rightarrow> prov_inputs" where
  "batch_prov_of env info i prov =
     prov\<lparr>pi_task_name := name_or_empty (ti_name info), pi_task_rank := i + 1\<rparr>"

definition effective_limiter :: "('v, 's) exec_env \<Rightarrow> ('v, 's) task_info \<Rightarrow> ('s \<Rightarrow> 's) option" where
  "effective_limiter env info =
     (case ti_rate_limiter info of None \<Rightarrow> ee_rate_limiter env | Some rl \<Rightarrow> Some rl)"

text \<open>The accumulation size is the consuming task's.\<close>

definition next_batch_size :: "('v, 's) exec_env \<Rightarrow> ('v, 's) task_info list \<Rightarrow> nat" where
  "next_batch_size env rest =
     (case rest of
        [] \<Rightarrow> ee_default_batch_size env
      | info # _ \<Rightarrow>
          (case ti_batch_size info of None \<Rightarrow> ee_default_batch_size env | Some n \<Rightarrow> n))"

definition task_begins ::
  "('v, 's) exec_env \<Rightarrow> ('v, 's) task_info \<Rightarrow> nat \<Rightarrow> 's exec_state \<Rightarrow> 's exec_state" where
  "task_begins env info i =
     emit [OnTask (ee_pipeline_id env) i (ti_name info) (ee_total_tasks env) TaskStarted,
           OnTaskStarted (ee_run_info env) (name_or_empty (ti_name info)) i]"

definition task_ends ::
  "('v, 's) exec_env \<Rightarrow> ('v, 's) task_info \<Rightarrow> nat \<Rightarrow> 's exec_state \<Rightarrow> 's exec_state" where
  "task_ends env info i st =
     complete_token env i
       (emit [OnTask (ee_pipeline_id env) i (ti_name info) (ee_total_tasks env) TaskSucceeded,
              OnTaskCompleted (ee_run_info env) (name_or_empty (ti_name info)) 1] st)"

definition passthrough_refused :: task_error where
  "passthrough_refused = ascii ''task returned PassthroughSentinel but enriches=false''"

function (sequential) execute_from ::
  "('v, 's) exec_env \<Rightarrow> ('v, 's) task_info list \<Rightarrow> nat \<Rightarrow> 'v pval \<Rightarrow> 's exec_state
     \<Rightarrow> ('s, 'v pval list) exec_result"
and dispatch_batch ::
  "('v, 's) exec_env \<Rightarrow> ('v, 's) task_info list \<Rightarrow> nat \<Rightarrow> 'v pval list \<Rightarrow> prov_inputs \<Rightarrow> 's exec_state
     \<Rightarrow> ('s, 'v pval list) exec_result"
where
  "execute_from env [] i input st = (st, Inr [input])"
| "execute_from env (info # rest) i input st =
     (if cancelled env st then (st, Inl Cancelled)
      else
        (case skip_check env input i st of
           (st1, Inl e) \<Rightarrow> (st1, Inl e)
         | (st1, Inr True) \<Rightarrow> (st1, Inr [])
         | (st1, Inr False) \<Rightarrow>
             (let prov = prov_of env info input i in
              case call_with_retry env (ti_task info) input i (ti_name info) (data_id_of env input)
                     prov (effective_limiter env info) (task_begins env info i st1) of
                (st2, Inl e) \<Rightarrow> (st2, Inl e)
              | (st2, Inr resolved) \<Rightarrow>
                  (let st3 = task_ends env info i st2; bs = next_batch_size env rest in
                   case resolved of
                     Single v \<Rightarrow>
                       if is_passthrough v then
                         (if ti_enriches info then execute_from env rest (Suc i) input st3
                          else (st3, Inl (TaskFailed i 1 passthrough_refused)))
                       else if is_dropped v then (st3, Inr [])
                       else execute_from env rest (Suc i) v st3
                   | Iter it \<Rightarrow>
                       process_iter env (\<lambda>b p s. dispatch_batch env rest (Suc i) b p s)
                         (complete_batch_progress env rest (Suc i)) bs prov [] [] it st3
                   | Stream str \<Rightarrow>
                       process_stream env (\<lambda>b p s. dispatch_batch env rest (Suc i) b p s)
                         (complete_batch_progress env rest (Suc i)) bs i prov [] [] str st3))))"
| "dispatch_batch env [] i batch prov st = (st, Inr batch)"
| "dispatch_batch env (info # rest) i batch prov st =
     (if is_batch (ti_task info) then
        if cancelled env st then (st, Inl Cancelled)
        else
          (let rl = effective_limiter env info; st1 = acquire rl st in
           if rl \<noteq> None \<and> cancelled env st1 then (st1, Inl Cancelled)
           else
             (case call_batch (ti_task info) batch
                     (with_progress (ee_ctx env) (ee_subtokens env ! i)) (xs_world st1) of
                None \<Rightarrow> (st1, Inl Panicked)
              | Some (w, Inl e) \<Rightarrow> (with_world w st1, Inl (TaskFailed i 1 e))
              | Some (w, Inr resolved) \<Rightarrow>
                  (let bprov = batch_prov_of env info i prov;
                       st2 = with_world w st1; bs = next_batch_size env rest in
                   case resolved of
                     Single v \<Rightarrow>
                       (let (st3, v') = stamp_single_output env bprov v st2
                        in execute_from env rest (Suc i) v' st3)
                   | Iter it \<Rightarrow>
                       process_iter env (\<lambda>b p s. dispatch_batch env rest (Suc i) b p s)
                         (complete_batch_progress env rest (Suc i)) bs bprov [] [] it st2
                   | Stream str \<Rightarrow>
                       process_stream env (\<lambda>b p s. dispatch_batch env rest (Suc i) b p s)
                         (complete_batch_progress env rest (Suc i)) bs i bprov [] [] str st2)))
      else for_each (\<lambda>item s. execute_from env (info # rest) i item s) batch st)"
  by pat_completeness auto
termination
  by (relation "measure (\<lambda>x. case x of Inl (env, tasks, _) \<Rightarrow> 2 * length tasks
        | Inr (env, tail, _) \<Rightarrow> Suc (2 * length tail))") auto

declare execute_from.simps [simp del] dispatch_batch.simps [simp del]

section \<open>A run\<close>

record ('v, 's) pipeline =
  pl_id :: uuid
  pl_name :: "ustr option"
  pl_tasks :: "('v, 's) task_info list"
  pl_retry_policy :: retry_policy
  pl_batch_size :: nat
  pl_data_id_fn :: "('v pval \<Rightarrow> ustr option) option"
  pl_concurrency :: nat
  pl_rate_limiter :: "('s \<Rightarrow> 's) option"

definition pipeline_new :: "uuid \<Rightarrow> ('v, 's) pipeline" where
  "pipeline_new i = \<lparr>pl_id = i, pl_name = None, pl_tasks = [], pl_retry_policy = NoRetry,
     pl_batch_size = 32, pl_data_id_fn = None, pl_concurrency = 1, pl_rate_limiter = None\<rparr>"

definition task_info_new :: "('v, 's) task \<Rightarrow> ('v, 's) task_info" where
  "task_info_new t = \<lparr>ti_task = t, ti_name = None, ti_batch_size = None, ti_weight = 1,
     ti_enriches = False, ti_rate_limiter = None\<rparr>"

text \<open>
  One data item: run it through the whole chain in its own context, then mark it. \<open>Err(_)\<close> of
  any other kind (a cancellation) leaves it unmarked, and so does a panic.
\<close>

definition execute_one_item ::
  "('v, 's) pipeline \<Rightarrow> ('v, 's) exec_env \<Rightarrow> 'v pval \<Rightarrow> 's exec_state
     \<Rightarrow> ('s, 'v pval list) exec_result" where
  "execute_one_item p env input st =
     (let data_id = Option.bind (pl_data_id_fn p) (\<lambda>f. f input);
          item_env = env\<lparr>ee_ctx := with_current_data (ee_ctx env) input\<rparr>;
          (st1, result) = execute_from item_env (pl_tasks p) 0 input st;
          name = name_or_empty (pl_name p); ds = ctx_dataset (ee_ctx env);
          es = ee_exec_status env
      in (case (data_id, result) of
            (Some d, Inr _) \<Rightarrow> with_world (es_mark_completed es d name ds (xs_world st1)) st1
          | (Some d, Inl (TaskFailed _ _ e)) \<Rightarrow>
              with_world (es_mark_failed es d name ds e (xs_world st1)) st1
          | _ \<Rightarrow> st1,
          result))"

definition execute_items_seq ::
  "('v, 's) pipeline \<Rightarrow> ('v, 's) exec_env \<Rightarrow> 'v pval list \<Rightarrow> 's exec_state
     \<Rightarrow> ('s, 'v pval list) exec_result" where
  "execute_items_seq p env inputs st = for_each (execute_one_item p env) inputs st"

text \<open>
  A chunk: \<open>join_all\<close> over its items, then the results are read in order and the first error wins.
  A panic unwinds through \<open>join_all\<close>.
\<close>

fun first_error :: "(exec_error + 'b list) list \<Rightarrow> exec_error + 'b list" where
  "first_error [] = Inr []"
| "first_error (Inl e # rs) = Inl e"
| "first_error (Inr ys # rs) = map_sum id (\<lambda>zs. ys @ zs) (first_error rs)"

definition run_chunk ::
  "('v, 's) pipeline \<Rightarrow> ('v, 's) exec_env \<Rightarrow> 'v pval list \<Rightarrow> 's exec_state
     \<Rightarrow> ('s, 'v pval list) exec_result" where
  "run_chunk p env chunk st =
     (case ee_join_all env (map (execute_one_item p env) chunk) st of
        (st1, None) \<Rightarrow> (st1, Inl Panicked)
      | (st1, Some rs) \<Rightarrow> (st1, first_error rs))"

definition execute_items_par ::
  "('v, 's) pipeline \<Rightarrow> ('v, 's) exec_env \<Rightarrow> 'v pval list \<Rightarrow> 's exec_state
     \<Rightarrow> ('s, 'v pval list) exec_result" where
  "execute_items_par p env inputs st = for_each (run_chunk p env) (chunks_of (pl_concurrency p) inputs) st"

definition deterministic_pipeline_id ::
  "(ustr \<Rightarrow> uuid) \<Rightarrow> (uuid \<Rightarrow> ustr) \<Rightarrow> ustr option \<Rightarrow> uuid option \<Rightarrow> uuid option \<Rightarrow> uuid option" where
  "deterministic_pipeline_id v5 show_uuid name user_id dataset_id =
     (let part = (\<lambda>u. case u of None \<Rightarrow> [] | Some x \<Rightarrow> show_uuid x) in
      case name of
        None \<Rightarrow> None
      | Some n \<Rightarrow> if n = [] then None else Some (v5 (part user_id @ n @ part dataset_id)))"

text \<open>\<open>Display\<close> of \<open>ExecutionError\<close>; a panic is not displayed.\<close>

definition show_exec_error :: "exec_error \<Rightarrow> ustr" where
  "show_exec_error e =
     (case e of
        TaskFailed i n src \<Rightarrow>
          ascii ''task '' @ show_nat i @ ascii '' failed after '' @ show_nat n @
          ascii '' attempt(s): '' @ src
      | Cancelled \<Rightarrow> ascii ''pipeline was cancelled''
      | NoTasks \<Rightarrow> ascii ''pipeline has no tasks''
      | InvalidConfig reason \<Rightarrow> ascii ''invalid pipeline configuration: '' @ reason
      | Panicked \<Rightarrow> [])"

definition show_core_error :: "core_error \<Rightarrow> ustr" where
  "show_core_error e =
     (case e of
        RuntimeError m \<Rightarrow> ascii ''Runtime error: '' @ m
      | ThreadPoolBuild m \<Rightarrow> ascii ''Thread pool build error: '' @ m
      | TaskAborted reason \<Rightarrow> ascii ''CPU task aborted: '' @ reason
      | MissingContextField f \<Rightarrow> ascii ''Required TaskContext field is missing: '' @ f
      | InvalidProgressSplit reason \<Rightarrow> ascii ''invalid progress split: '' @ reason)"

text \<open>What a run gets from its surroundings: UUIDs, cancellation, item status, provenance, \<open>join_all\<close>.\<close>

record ('v, 's) services =
  sv_v5 :: "ustr \<Rightarrow> uuid"
  sv_show_uuid :: "uuid \<Rightarrow> ustr"
  sv_parse_uuid :: "ustr \<Rightarrow> uuid option"
  sv_cancelled :: "'s \<Rightarrow> bool"
  sv_exec_status :: "'s exec_status"
  sv_prov :: "('v, 's) prov_hooks"
  sv_join_all :: "('v, 's) join_all"

definition run_info_of ::
  "('v, 's) services \<Rightarrow> uuid \<Rightarrow> ('v, 's) pipeline \<Rightarrow> 'v pval list \<Rightarrow> 'v task_ctx \<Rightarrow> run_info" where
  "run_info_of sv run_id p inputs ctx =
     (let user = Option.bind (tc_pipeline ctx) pc_user_id; ds = ctx_dataset ctx in
      \<lparr>ri_run_id = run_id,
       ri_pipeline_id =
         (case deterministic_pipeline_id (sv_v5 sv) (sv_show_uuid sv) (pl_name p) user ds of
            None \<Rightarrow> pl_id p | Some i \<Rightarrow> i),
       ri_pipeline_name = name_or_empty (pl_name p), ri_user_id = user,
       ri_tenant_id = Option.bind (tc_pipeline ctx) pc_tenant_id, ri_dataset_id = ds,
       ri_data_ids =
         (case pl_data_id_fn p of
            None \<Rightarrow> []
          | Some f \<Rightarrow> List.map_filter (sv_parse_uuid sv) (List.map_filter f inputs)),
       ri_status = RunInitiated\<rparr>)"

text \<open>The announcement of how a run ended, one arm of the final \<open>match\<close> per case.\<close>

definition announce_end ::
  "run_info \<Rightarrow> exec_error + 'a list \<Rightarrow> 's exec_state \<Rightarrow> 's exec_state" where
  "announce_end ri result st =
     (case result of
        Inr outputs \<Rightarrow>
          emit [OnPipeline (ri_pipeline_id ri) (PipelineSucceeded (length outputs)),
                OnRunCompleted (ri\<lparr>ri_status := RunCompleted\<rparr>) (length outputs)] st
      | Inl Panicked \<Rightarrow> st
      | Inl Cancelled \<Rightarrow>
          emit [OnPipeline (ri_pipeline_id ri) PipelineCancelled,
                OnRunErrored (ri\<lparr>ri_status := RunErrored\<rparr>) (ascii ''pipeline was cancelled'')] st
      | Inl e \<Rightarrow>
          emit [OnPipeline (ri_pipeline_id ri)
                  (PipelineFailed (case e of TaskFailed i _ _ \<Rightarrow> i | _ \<Rightarrow> 0) (show_exec_error e)),
                OnRunErrored (ri\<lparr>ri_status := RunErrored\<rparr>) (show_exec_error e)] st)"

definition exec_env_of ::
  "('v, 's) services \<Rightarrow> ('v, 's) pipeline \<Rightarrow> 'v task_ctx \<Rightarrow> run_info \<Rightarrow> nat list \<Rightarrow> ('v, 's) exec_env" where
  "exec_env_of sv p ctx ri tokens =
     \<lparr>ee_policy = pl_retry_policy p, ee_default_batch_size = pl_batch_size p,
      ee_pipeline_id = ri_pipeline_id ri, ee_pipeline_name = pl_name p,
      ee_total_tasks = length (pl_tasks p), ee_ctx = ctx, ee_cancelled = sv_cancelled sv,
      ee_exec_status = sv_exec_status sv, ee_prov = sv_prov sv, ee_data_id_fn = pl_data_id_fn p,
      ee_run_info = ri, ee_subtokens = tokens, ee_rate_limiter = pl_rate_limiter p,
      ee_join_all = sv_join_all sv\<rparr>"

definition run_items ::
  "('v, 's) pipeline \<Rightarrow> ('v, 's) exec_env \<Rightarrow> 'v pval list \<Rightarrow> 's exec_state
     \<Rightarrow> ('s, 'v pval list) exec_result" where
  "run_items p env inputs st =
     (if pl_concurrency p \<le> 1 then execute_items_seq p env inputs st
      else execute_items_par p env inputs st)"

definition execute_unscoped ::
  "('v, 's) services \<Rightarrow> uuid \<Rightarrow> ('v, 's) pipeline \<Rightarrow> 'v pval list \<Rightarrow> 'v task_ctx \<Rightarrow> 's exec_state
     \<Rightarrow> ('s, 'v pval list) exec_result" where
  "execute_unscoped sv run_id p inputs ctx0 st =
     (if pl_tasks p = [] then (st, Inl NoTasks)
      else if pl_batch_size p = 0 then (st, Inl (InvalidConfig (ascii ''batch_size must be > 0'')))
      else if pl_concurrency p = 0 then (st, Inl (InvalidConfig (ascii ''concurrency must be > 0'')))
      else
        (let ri0 = run_info_of sv run_id p inputs ctx0;
             ctx = with_run_id ctx0 run_id;
             st1 = (case tc_pipeline ctx of
                      None \<Rightarrow> st
                    | Some _ \<Rightarrow> with_world (ph_clear_visited (sv_prov sv) (xs_world st)) st);
             ri = ri0\<lparr>ri_status := RunStarted\<rparr>;
             st2 = emit [OnRunInitiated ri0,
                         OnPipeline (ri_pipeline_id ri) (PipelineStarted (length (pl_tasks p))),
                         OnRunStarted ri] st1
         in case progress_split (xs_progress st2) (tc_progress ctx) (map ti_weight (pl_tasks p)) of
              Inl e \<Rightarrow> (st2, Inl (InvalidConfig (show_core_error e)))
            | Inr (tree, tokens) \<Rightarrow>
                (let (st3, result) = run_items p (exec_env_of sv p ctx ri tokens) inputs
                                       (st2\<lparr>xs_progress := tree\<rparr>)
                 in (announce_end ri result st3, result))))"

end
