(* ===== verification/Pipeline_Sample.thy ===== *)
theory Pipeline_Sample
  imports Pipeline_Exec
begin

text \<open>
  The instance on which the properties are evaluated: the world is a counter of task calls, and
  an item whose text is \<open>done\<close> counts as completed.
\<close>

definition sample_prov :: "(ustr, nat) prov_hooks" where
  "sample_prov = \<lparr>ph_node_set = (\<lambda>_. None), ph_content_hash = (\<lambda>_. None),
     ph_meta_node_set = (\<lambda>_. None), ph_stamp_boxed = (\<lambda>_ v s. (s, v)),
     ph_stamp_shared = (\<lambda>_ v s. (s, v)), ph_clear_visited = id\<rparr>"

definition sample_status :: "nat exec_status" where
  "sample_status = noop_exec_status\<lparr>es_is_completed := (\<lambda>d _ _ s. (s, Inr (d = [1])))\<rparr>"

definition sample_ctx :: "ustr task_ctx" where
  "sample_ctx = \<lparr>tc_pipeline = None, tc_progress = 0\<rparr>"

text \<open>A \<open>join_all\<close> whose futures never wait: each runs to its end when it is first polled.\<close>

fun join_in_turn :: "('v, 's) join_all" where
  "join_in_turn [] st = (st, Some [])"
| "join_in_turn (f # fs) st =
     (let (st1, r) = f st in
      if r = Inl Panicked then (st1, None)
      else (let (st2, rs) = join_in_turn fs st1 in (st2, map_option ((#) r) rs)))"

definition sample_services :: "(ustr, nat) services" where
  "sample_services = \<lparr>sv_v5 = length, sv_show_uuid = show_nat, sv_parse_uuid = (\<lambda>_. None),
     sv_cancelled = (\<lambda>_. False), sv_exec_status = sample_status, sv_prov = sample_prov,
     sv_join_all = join_in_turn\<rparr>"

text \<open>A task that fails twice and then succeeds, and one that splits a text into letters.\<close>

definition flaky :: "(ustr, nat) task" where
  "flaky = Sync (\<lambda>v c s. (Suc s, if s < 2 then Inl [s] else Inr v))"

definition letters :: "(ustr, nat) task" where
  "letters = SyncIter (\<lambda>v c s. (Suc s,
     Inr (case v of Plain t \<Rightarrow> map (\<lambda>x. \<lambda>s. (s, Plain [x])) t | _ \<Rightarrow> [])))"

definition sample_pipeline :: "(ustr, nat) task_info list \<Rightarrow> (ustr, nat) pipeline" where
  "sample_pipeline ts = (pipeline_new 5)\<lparr>pl_tasks := ts, pl_retry_policy := Limited 3 (Constant 7),
     pl_data_id_fn := Some (\<lambda>v. case v of Plain t \<Rightarrow> Some t | _ \<Rightarrow> None)\<rparr>"

definition sample_state :: "nat exec_state" where
  "sample_state = \<lparr>xs_world = 0, xs_events = [], xs_progress = progress_new\<rparr>"

definition sample_info :: run_info where
  "sample_info = \<lparr>ri_run_id = 9, ri_pipeline_id = 5, ri_pipeline_name = [], ri_user_id = None,
     ri_tenant_id = None, ri_dataset_id = None, ri_data_ids = [], ri_status = RunStarted\<rparr>"

definition sample_env :: "(ustr, nat) task_info list \<Rightarrow> (ustr, nat) exec_env" where
  "sample_env ts = exec_env_of sample_services (sample_pipeline ts) sample_ctx sample_info [1, 2]"

lemmas sample_defs = sample_env_def exec_env_of_def sample_services_def sample_pipeline_def
  sample_ctx_def sample_info_def sample_state_def sample_prov_def sample_status_def
  pipeline_new_def task_info_new_def noop_exec_status_def

definition sample_inputs :: prov_inputs where
  "sample_inputs = \<lparr>pi_pipeline_name = [], pi_task_name = [], pi_user_label = None,
     pi_node_set = None, pi_content_hash = None, pi_task_rank = 1\<rparr>"

end
