(* ===== verification/Pipeline_Props.thy ===== *)
theory Pipeline_Props
  imports Pipeline_Sample
begin

text \<open>
  What the executor guarantees whatever its tasks do. The locale \<open>exec_relation\<close> collects what
  is needed of a relation between the states before and after for the executor to respect it;
  the three interpretations give the event log, the progress tree and invariants of the world.
\<close>

section \<open>Relations the executor respects\<close>

text \<open>The events that running items can produce: no event of the run's own lifecycle.\<close>

definition item_event :: "event \<Rightarrow> bool" where
  "item_event e \<longleftrightarrow>
     (case e of
        OnPipeline _ (ItemSkipped _) \<Rightarrow> True
      | OnTask _ _ _ _ _ \<Rightarrow> True
      | OnTaskStarted _ _ _ \<Rightarrow> True
      | OnTaskCompleted _ _ _ \<Rightarrow> True
      | OnTaskErrored _ _ _ \<Rightarrow> True
      | Slept _ \<Rightarrow> True
      | _ \<Rightarrow> False)"

locale exec_relation =
  fixes R :: "'s exec_state \<Rightarrow> 's exec_state \<Rightarrow> bool"
  assumes R_refl: "R st st"
    and R_trans: "R st1 st2 \<Longrightarrow> R st2 st3 \<Longrightarrow> R st1 st3"
    and emits: "list_all item_event es \<Longrightarrow> R st (emit es st)"
    and world: "R st (with_world w st)"
    and token: "R st (st\<lparr>xs_progress := progress_set (xs_progress st) k 1\<rparr>)"
begin

lemma acquire_R: "R st (acquire rl st)"
  by (cases rl) (simp_all add: acquire_def R_refl world)

lemma complete_token_R: "R st (complete_token env i st)"
  by (simp add: complete_token_def token)

lemma complete_batch_progress_R: "R st (complete_batch_progress env tail i st)"
  by (cases tail) (simp_all add: complete_batch_progress_def R_refl complete_token_R)

lemma stamp_R: "stamp_with f env prov v st = (st', v') \<Longrightarrow> R st st'"
  by (auto simp: stamp_with_def R_refl world split: option.splits prod.splits)

lemma after_success_R:
  "after_success env name d prov r st = (st', r') \<Longrightarrow> R st st'"
  unfolding after_success_def Let_def stamp_single_output_def
  by (auto split: resolved.splits prod.splits option.splits intro: R_trans world stamp_R R_refl)

lemma attempts_R: "R st (fst (attempts env task input i name d prov rl ctx left st))"
proof (induction env task input i name d prov rl ctx left st rule: attempts.induct)
  case (1 env task input i name d prov rl ctx left st)
  let ?st1 = "acquire rl st"
  have 0: "R st ?st1" by (rule acquire_R)
  show ?case
  proof (cases "call_task task input ctx (xs_world ?st1)")
    case None
    with 0 show ?thesis by (subst attempts.simps) (simp add: Let_def)
  next
    case (Some p)
    obtain w r where p: "p = (w, r)" by (cases p)
    have 1: "R st (with_world w ?st1)" using 0 world R_trans by blast
    have ev: "list_all item_event (OnTask a b c n (TaskRetrying k e) #
        (case q of None \<Rightarrow> [] | Some d \<Rightarrow> [Slept d]))" for a b c n k e q
      by (cases q) (simp_all add: item_event_def)
    show ?thesis
    proof (cases r)
      case (Inr res)
      obtain st2 res2 where "after_success env name d prov res (with_world w ?st1) = (st2, res2)"
        by fastforce
      with Some p Inr 1 show ?thesis
        by (subst attempts.simps) (auto simp: Let_def intro: R_trans after_success_R)
    next
      case (Inl e)
      show ?thesis
      proof (cases left)
        case 0
        with Some p Inl 1 show ?thesis
          by (subst attempts.simps)
            (auto simp: Let_def intro!: R_trans [OF 1] emits simp: item_event_def)
      next
        case (Suc left')
        note IH = "1.IH" [OF refl refl Some p [symmetric] Inl Suc]
        from R_trans [OF 1 R_trans [OF emits [OF ev] IH]] show ?thesis
          by (subst attempts.simps) (simp add: Let_def Some p Inl Suc)
      qed
    qed
  qed
qed

lemma call_with_retry_R: "R st (fst (call_with_retry env task input i name d prov rl st))"
  by (simp add: call_with_retry_def attempts_R)

lemma for_each_R:
  assumes "\<And>x s. R s (fst (f x s))"
  shows "R st (fst (for_each f xs st))"
proof (induction xs arbitrary: st)
  case Nil
  show ?case by (simp add: R_refl)
next
  case (Cons x xs)
  obtain st1 r where f: "f x st = (st1, r)" by fastforce
  with assms [of st x] have 1: "R st st1" by simp
  with Cons.IH [of st1] have "R st (fst (for_each f xs st1))" by (blast intro: R_trans)
  with f 1 show ?case by (auto split: sum.splits prod.splits)
qed

lemma finish_batches_R:
  assumes d: "\<And>b p s. R s (fst (dispatch b p s))" and f: "\<And>s. R s (fin s)"
  shows "R st (fst (finish_batches dispatch fin prov batch out st))"
proof (cases "batch = []")
  case True
  then show ?thesis by (simp add: finish_batches_def f)
next
  case False
  obtain st1 r where 1: "dispatch batch prov st = (st1, r)" by fastforce
  with d [of st batch prov] have "R st st1" by simp
  with False 1 show ?thesis
    by (cases r) (auto simp: finish_batches_def append_outputs_def intro: R_trans f)
qed

lemma process_iter_R:
  assumes d: "\<And>b p s. R s (fst (dispatch b p s))" and f: "\<And>s. R s (fin s)"
  shows "R st (fst (process_iter env dispatch fin bs prov batch out iter st))"
proof (induction iter arbitrary: st batch out)
  case Nil
  show ?case by (simp add: finish_batches_R [OF d f])
next
  case (Cons nx iter)
  obtain w item where nx: "nx (xs_world st) = (w, item)" by fastforce
  obtain st2 item' where s: "stamp_boxed_item env prov item (with_world w st) = (st2, item')" by fastforce
  have 1: "R st (with_world w st)" by (rule world)
  have 2: "R st st2"
    using s by (auto simp: stamp_boxed_item_def intro: R_trans [OF 1] stamp_R)
  obtain st3 r where dd: "dispatch (batch @ [item']) prov st2 = (st3, r)" by fastforce
  have 3: "R st st3" using R_trans [OF 2] d [of st2 "batch @ [item']" prov] dd by simp
  show ?case
    using R_trans [OF 1 Cons.IH] R_trans [OF 2 Cons.IH] R_trans [OF 3 Cons.IH] 1 3
    by (cases r) (simp_all add: nx s dd append_outputs_def Let_def)
qed

lemma process_stream_R:
  assumes d: "\<And>b p s. R s (fst (dispatch b p s))" and f: "\<And>s. R s (fin s)"
  shows "R st (fst (process_stream env dispatch fin bs pr prov batch out str st))"
proof (induction str arbitrary: st batch out)
  case Nil
  show ?case by (simp add: finish_batches_R [OF d f] R_refl)
next
  case (Cons nx str)
  obtain w polled where nx: "nx (xs_world st) = (w, polled)" by fastforce
  have 1: "R st (with_world w st)" by (rule world)
  show ?case
  proof (cases "\<exists>item. polled = Ready (Inr item)")
    case False
    then have "polled = Parked \<or> (\<exists>e. polled = Ready (Inl e))"
      by (metis poll.exhaust sum.exhaust)
    then show ?thesis
      using R_trans [OF 1 Cons.IH] 1 by (auto simp: nx Let_def R_refl)
  next
    case True
    then obtain item where item: "polled = Ready (Inr item)" by blast
    obtain st2 item' where s: "stamp_boxed_item env prov item (with_world w st) = (st2, item')"
      by fastforce
    have 2: "R st st2"
      using s by (auto simp: stamp_boxed_item_def intro: R_trans [OF 1] stamp_R)
    obtain st3 r where dd: "dispatch (batch @ [item']) prov st2 = (st3, r)" by fastforce
    have 3: "R st st3" using R_trans [OF 2] d [of st2 "batch @ [item']" prov] dd by simp
    show ?thesis
      using R_trans [OF 1 Cons.IH] R_trans [OF 2 Cons.IH] R_trans [OF 3 Cons.IH] 3
      by (cases r) (simp_all add: nx item s dd append_outputs_def Let_def R_refl)
  qed
qed

lemma skip_check_R: "R st (fst (skip_check env input i st))"
proof -
  have "R st (emit [OnPipeline a (ItemSkipped b)] (with_world w st))" for a b w
    by (rule R_trans [OF world emits]) (simp add: item_event_def)
  then show ?thesis
    by (auto simp: skip_check_def R_refl world split: option.split sum.split prod.split bool.split)
qed

lemma task_begins_R: "R st (task_begins env info i st)"
  by (simp add: task_begins_def emits item_event_def)

lemma task_ends_R: "R st (task_ends env info i st)"
  unfolding task_ends_def by (rule R_trans [OF emits complete_token_R]) (simp add: item_event_def)

lemma execute_from_R:
  "R st (fst (execute_from env tasks i input st))"
  "R st (fst (dispatch_batch env tasks i batch prov st))"
proof (induction env tasks i input st and env tasks i batch prov st
    rule: execute_from_dispatch_batch.induct)
  case (1 env i input st)
  show ?case by (simp add: execute_from.simps R_refl)
next
  case (2 env info rest i input st)
  show ?case
  proof (cases "cancelled env st")
    case True
    then show ?thesis by (simp add: execute_from.simps R_refl)
  next
    case nc: False
    obtain st1 r1 where sk: "skip_check env input i st = (st1, r1)" by fastforce
    have 1: "R st st1" using skip_check_R [of st env input i] sk by simp
    show ?thesis
    proof (cases "r1 = Inr False")
      case False
      then have "(\<exists>e. r1 = Inl e) \<or> r1 = Inr True" by (cases r1) auto
      with nc sk 1 show ?thesis by (auto simp: execute_from.simps)
    next
      case r1: True
      let ?prov = "prov_of env info input i"
      obtain st2 r2 where call: "call_with_retry env (ti_task info) input i (ti_name info)
          (data_id_of env input) ?prov (effective_limiter env info) (task_begins env info i st1) = (st2, r2)"
        by fastforce
      have 2: "R st st2"
        using R_trans [OF R_trans [OF 1 task_begins_R] call_with_retry_R] call by (metis fst_conv)
      show ?thesis
      proof (cases r2)
        case (Inl e)
        with nc sk r1 call 2 show ?thesis by (simp add: execute_from.simps Let_def)
      next
        case (Inr res)
        let ?st3 = "task_ends env info i st2"
        have 3: "R st ?st3" by (rule R_trans [OF 2 task_ends_R])
        note IH = "2.IH" [OF nc sk [symmetric] r1 refl refl call [symmetric] Inr refl refl]
        show ?thesis
        proof (cases res)
          case (Single v)
          with nc sk r1 call Inr 3 IH(1,2) show ?thesis
            by (auto simp: execute_from.simps Let_def intro: R_trans)
        next
          case (Iter it)
          then have "R ?st3 (fst (process_iter env (\<lambda>b p s. dispatch_batch env rest (Suc i) b p s)
              (complete_batch_progress env rest (Suc i)) (next_batch_size env rest) ?prov [] [] it ?st3))"
            by (intro process_iter_R IH(3) complete_batch_progress_R)
          with R_trans [OF 3] nc sk r1 call Inr Iter show ?thesis
            by (simp add: execute_from.simps Let_def)
        next
          case (Stream str)
          then have "R ?st3 (fst (process_stream env (\<lambda>b p s. dispatch_batch env rest (Suc i) b p s)
              (complete_batch_progress env rest (Suc i)) (next_batch_size env rest) i ?prov [] [] str ?st3))"
            by (intro process_stream_R IH(4) complete_batch_progress_R)
          with R_trans [OF 3] nc sk r1 call Inr Stream show ?thesis
            by (simp add: execute_from.simps Let_def)
        qed
      qed
    qed
  qed
next
  case (3 env i batch prov st)
  show ?case by (simp add: dispatch_batch.simps R_refl)
next
  case (4 env info rest i batch prov st)
  show ?case
  proof (cases "is_batch (ti_task info)")
    case False
    then show ?thesis
      using for_each_R [OF "4.IH"(4) [OF False], where st = st and xs = batch] by (simp add: dispatch_batch.simps)
  next
    case b: True
    let ?rl = "effective_limiter env info"
    let ?st1 = "acquire ?rl st"
    have 1: "R st ?st1" by (rule acquire_R)
    show ?thesis
    proof (cases "cancelled env st \<or> (?rl \<noteq> None \<and> cancelled env ?st1)")
      case True
      with b 1 show ?thesis by (auto simp: dispatch_batch.simps Let_def R_refl)
    next
      case nc: False
      then have nc1: "\<not> cancelled env st" and nc2: "\<not> (?rl \<noteq> None \<and> cancelled env ?st1)" by auto
      let ?call = "call_batch (ti_task info) batch (with_progress (ee_ctx env) (ee_subtokens env ! i))
          (xs_world ?st1)"
      show ?thesis
      proof (cases ?call)
        case None
        with b nc1 nc2 1 show ?thesis by (simp add: dispatch_batch.simps Let_def)
      next
        case (Some q)
        obtain w r where q: "q = (w, r)" by fastforce
        have 2: "R st (with_world w ?st1)" by (rule R_trans [OF 1 world])
        show ?thesis
        proof (cases r)
          case (Inl e)
          with Some q b nc1 nc2 1 2 show ?thesis by (simp add: dispatch_batch.simps Let_def)
        next
          case (Inr res)
          let ?bp = "batch_prov_of env info i prov"
          let ?st2 = "with_world w ?st1"
          note IH = "4.IH"(1-3) [OF b nc1 refl refl nc2 Some q [symmetric] Inr refl refl refl]
          show ?thesis
          proof (cases res)
            case (Single v)
            obtain st3 v' where s: "stamp_single_output env ?bp v ?st2 = (st3, v')" by fastforce
            have 3: "R st st3"
              using s by (auto simp: stamp_single_output_def intro: R_trans [OF 2] stamp_R)
            from R_trans [OF 3 IH(1) [OF Single s [symmetric]]] Some q Inr Single s b nc1 nc2 1
            show ?thesis by (simp add: dispatch_batch.simps Let_def)
          next
            case (Iter it)
            then have "R ?st2 (fst (process_iter env (\<lambda>b p s. dispatch_batch env rest (Suc i) b p s)
                (complete_batch_progress env rest (Suc i)) (next_batch_size env rest) ?bp [] [] it ?st2))"
              by (intro process_iter_R IH(2) complete_batch_progress_R)
            with R_trans [OF 2] Some q Inr Iter b nc1 nc2 1 show ?thesis
              by (simp add: dispatch_batch.simps Let_def)
          next
            case (Stream str)
            then have "R ?st2 (fst (process_stream env (\<lambda>b p s. dispatch_batch env rest (Suc i) b p s)
                (complete_batch_progress env rest (Suc i)) (next_batch_size env rest) i ?bp [] [] str ?st2))"
              by (intro process_stream_R IH(3) complete_batch_progress_R)
            with R_trans [OF 2] Some q Inr Stream b nc1 nc2 1 show ?thesis
              by (simp add: dispatch_batch.simps Let_def)
          qed
        qed
      qed
    qed
  qed
qed

lemma execute_one_item_R: "R st (fst (execute_one_item p env input st))"
proof -
  let ?e = "env\<lparr>ee_ctx := with_current_data (ee_ctx env) input\<rparr>"
  obtain st1 r where x: "execute_from ?e (pl_tasks p) 0 input st = (st1, r)" by fastforce
  with execute_from_R(1) [of st ?e "pl_tasks p" 0 input] have 1: "R st st1" by simp
  then have "R st (with_world w st1)" for w by (blast intro: R_trans world)
  with 1 x show ?thesis
    by (auto simp: execute_one_item_def Let_def split: option.split sum.split exec_error.split)
qed

end

text \<open>
  What running items can do to the state, step by step. A chunk's futures do such steps and nothing
  else, and so does whatever polls them: this is the first law of \<open>join_all\<close>. The second is the order of
  its results, where the interleaving cannot matter: futures whose results do not depend on the state.
\<close>

inductive item_steps :: "'s exec_state \<Rightarrow> 's exec_state \<Rightarrow> bool" where
  no_step: "item_steps st st"
| emit_step: "item_steps st st' \<Longrightarrow> list_all item_event es \<Longrightarrow> item_steps st (emit es st')"
| world_step: "item_steps st st' \<Longrightarrow> item_steps st (with_world w st')"
| token_step: "item_steps st st' \<Longrightarrow> item_steps st (st'\<lparr>xs_progress := progress_set (xs_progress st') k 1\<rparr>)"

lemma item_steps_trans: "item_steps st2 st3 \<Longrightarrow> item_steps st1 st2 \<Longrightarrow> item_steps st1 st3"
  by (induction rule: item_steps.induct) (auto intro: item_steps.intros)

interpretation steps: exec_relation item_steps
  by unfold_locales (auto intro: item_steps.intros item_steps_trans)

definition join_law :: "('v, 's) join_all \<Rightarrow> bool" where
  "join_law ja \<longleftrightarrow>
     (\<forall>fs st. (\<forall>f \<in> set fs. \<forall>s. item_steps s (fst (f s))) \<longrightarrow> item_steps st (fst (ja fs st))) \<and>
     (\<forall>fs rs st. list_all2 (\<lambda>f r. r \<noteq> Inl Panicked \<and> (\<forall>s. snd (f s) = r)) fs rs \<longrightarrow> snd (ja fs st) = Some rs)"

text \<open>The futures that never wait are an instance.\<close>

lemma join_in_turn_law: "join_law join_in_turn"
  unfolding join_law_def
proof (intro conjI allI impI)
  fix fs :: "('v, 's) item_future list" and st :: "'s exec_state"
  assume "\<forall>f \<in> set fs. \<forall>s. item_steps s (fst (f s))"
  then show "item_steps st (fst (join_in_turn fs st))"
  proof (induction fs arbitrary: st)
    case (Cons f fs)
    obtain st1 r where f: "f st = (st1, r)" by fastforce
    obtain st2 rs where rest: "join_in_turn fs st1 = (st2, rs)" by fastforce
    have "item_steps st (fst (f st))" using Cons.prems by simp
    then have "item_steps st st1" by (simp add: f)
    moreover have "item_steps st1 st2" using Cons.prems Cons.IH [of st1] rest by simp
    ultimately have "item_steps st st1" "item_steps st1 st2" by blast+
    with f rest show ?case by (auto intro: item_steps_trans)
  qed (simp add: no_step)
next
  fix fs :: "('v, 's) item_future list" and rs and st :: "'s exec_state"
  assume "list_all2 (\<lambda>f r. r \<noteq> Inl Panicked \<and> (\<forall>s. snd (f s) = r)) fs rs"
  then show "snd (join_in_turn fs st) = Some rs"
  proof (induction arbitrary: st rule: list_all2_induct)
    case (Cons f fs r rs)
    obtain st1 where "f st = (st1, r)" using Cons(1) by (metis prod.collapse)
    with Cons(1) Cons.IH [of st1] show ?case by (simp split: prod.split) (metis snd_conv)
  qed simp
qed

text \<open>A run needs the laws only where its items share chunks.\<close>

definition joins :: "('v, 's) join_all \<Rightarrow> ('v, 's) pipeline \<Rightarrow> bool" where
  "joins ja p \<longleftrightarrow> pl_concurrency p \<le> 1 \<or> join_law ja"

lemma run_chunk_steps:
  assumes "join_law (ee_join_all env)"
  shows "item_steps st (fst (run_chunk p env chunk st))"
proof -
  have "\<forall>f \<in> set (map (execute_one_item p env) chunk). \<forall>s. item_steps s (fst (f s))"
    using steps.execute_one_item_R by auto
  then have "item_steps st (fst (ee_join_all env (map (execute_one_item p env) chunk) st))"
    using assms unfolding join_law_def by blast
  then show ?thesis by (auto simp: run_chunk_def split: prod.split option.split)
qed

context exec_relation
begin

lemma item_steps_R: "item_steps st st' \<Longrightarrow> R st st'"
  by (induction rule: item_steps.induct) (auto intro: R_refl R_trans emits world token)

lemma run_items_R:
  assumes "joins (ee_join_all env) p"
  shows "R st (fst (run_items p env inputs st))"
proof (cases "pl_concurrency p \<le> 1")
  case True
  then show ?thesis by (simp add: run_items_def execute_items_seq_def for_each_R execute_one_item_R)
next
  case False
  with assms have "R s (fst (run_chunk p env c s))" for c s
    by (intro item_steps_R run_chunk_steps) (simp add: joins_def)
  with False show ?thesis by (simp add: run_items_def execute_items_par_def for_each_R)
qed

end

section \<open>The event log and the progress tree\<close>

definition logs_items :: "'s exec_state \<Rightarrow> 's exec_state \<Rightarrow> bool" where
  "logs_items st st' \<longleftrightarrow> (\<exists>es. xs_events st' = xs_events st @ es \<and> list_all item_event es)"

interpretation log: exec_relation logs_items
proof
  fix st1 st2 st3 :: "'s exec_state"
  assume "logs_items st1 st2" "logs_items st2 st3"
  then obtain es fs where "xs_events st2 = xs_events st1 @ es" "xs_events st3 = xs_events st2 @ fs"
    "list_all item_event es" "list_all item_event fs"
    unfolding logs_items_def by blast
  then show "logs_items st1 st3" by (auto simp: logs_items_def)
qed (auto simp: logs_items_def emit_def with_world_def)

definition progresses :: "'s exec_state \<Rightarrow> 's exec_state \<Rightarrow> bool" where
  "progresses st st' \<longleftrightarrow>
     map iv_width (xs_progress st') = map iv_width (xs_progress st) \<and>
     (tree_wf (xs_progress st) \<longrightarrow>
        tree_wf (xs_progress st') \<and> root_fraction (xs_progress st) \<le> root_fraction (xs_progress st'))"

lemma progresses_token: "progresses st (st\<lparr>xs_progress := progress_set (xs_progress st) k 1\<rparr>)"
proof (cases "k < length (xs_progress st)")
  case True
  let ?t = "xs_progress st"
  have w: "map iv_width (progress_set ?t k 1) = map iv_width ?t"
    using True by (simp add: progress_set_def map_update list_update_same_conv)
  have "root_fraction ?t \<le> root_fraction (progress_set ?t k 1)" if wf: "tree_wf ?t"
  proof -
    have "0 \<le> width ?t k" "fraction ?t k \<le> 1"
      using tree_wf_nth [OF wf True] by (simp_all add: interval_ok_def width_def fraction_def)
    then have "0 \<le> width ?t k * (clamp01 1 - fraction ?t k)" by (simp add: clamp01_def)
    then show ?thesis by (simp add: root_fraction_set [OF wf True])
  qed
  with w tree_wf_set [of ?t k 1] True show ?thesis by (simp add: progresses_def)
next
  case False
  then have "progress_set (xs_progress st) k 1 = xs_progress st"
    by (simp add: progress_set_def list_update_beyond)
  then show ?thesis by (simp add: progresses_def)
qed

interpretation prog: exec_relation progresses
proof
  show "progresses st (st\<lparr>xs_progress := progress_set (xs_progress st) k 1\<rparr>)" for st :: "'s exec_state" and k
    by (rule progresses_token)
qed (auto simp: progresses_def emit_def with_world_def)

section \<open>The shape of a run\<close>

definition started_info where
  "started_info sv run_id p inputs ctx = run_info_of sv run_id p inputs ctx\<lparr>ri_status := RunStarted\<rparr>"

definition start_events where
  "start_events sv run_id p inputs ctx =
     [OnRunInitiated (run_info_of sv run_id p inputs ctx),
      OnPipeline (ri_pipeline_id (started_info sv run_id p inputs ctx))
        (PipelineStarted (length (pl_tasks p))),
      OnRunStarted (started_info sv run_id p inputs ctx)]"

definition end_events :: "run_info \<Rightarrow> exec_error + 'a list \<Rightarrow> event list" where
  "end_events ri result =
     (case result of
        Inr outputs \<Rightarrow>
          [OnPipeline (ri_pipeline_id ri) (PipelineSucceeded (length outputs)),
           OnRunCompleted (ri\<lparr>ri_status := RunCompleted\<rparr>) (length outputs)]
      | Inl e \<Rightarrow>
          [OnPipeline (ri_pipeline_id ri)
             (if e = Cancelled then PipelineCancelled
              else PipelineFailed (case e of TaskFailed i _ _ \<Rightarrow> i | _ \<Rightarrow> 0) (show_exec_error e)),
           OnRunErrored (ri\<lparr>ri_status := RunErrored\<rparr>) (show_exec_error e)])"

definition runnable :: "('v, 's) pipeline \<Rightarrow> bool" where
  "runnable p \<longleftrightarrow> pl_tasks p \<noteq> [] \<and> 0 < pl_batch_size p \<and> 0 < pl_concurrency p"

lemma announce_end_events:
  "result \<noteq> Inl Panicked \<Longrightarrow>
     xs_events (announce_end ri result st) = xs_events st @ end_events ri result"
  by (auto simp: announce_end_def end_events_def emit_def show_exec_error_def
      split: sum.split exec_error.split)

lemma announce_end_progress [simp]: "xs_progress (announce_end ri result st) = xs_progress st"
  by (simp add: announce_end_def emit_def split: sum.split exec_error.split)

lemma split_ok:
  "pl_tasks p \<noteq> [] \<Longrightarrow> 0 \<notin> set (map ti_weight (pl_tasks p)) \<Longrightarrow>
     \<exists>tree tokens. progress_split t i (map ti_weight (pl_tasks p)) = Inr (tree, tokens)"
  by (simp add: progress_split_def Let_def)

lemma execute_unscoped_ok:
  assumes "runnable p" and "0 \<notin> set (map ti_weight (pl_tasks p))"
    and run: "execute_unscoped sv run_id p inputs ctx st = (st', result)"
  obtains st1 st2 tree tokens
  where "progress_split (xs_progress st) (tc_progress ctx) (map ti_weight (pl_tasks p)) = Inr (tree, tokens)"
    and "xs_progress st1 = tree"
    and "xs_events st1 = xs_events st @ start_events sv run_id p inputs ctx"
    and "run_items p (exec_env_of sv p (with_run_id ctx run_id) (started_info sv run_id p inputs ctx) tokens)
      inputs st1 = (st2, result)"
    and "st' = announce_end (started_info sv run_id p inputs ctx) result st2"
proof -
  have tp: "tc_progress (with_run_id ctx run_id) = tc_progress ctx"
    by (simp add: with_run_id_def split: option.split)
  obtain tree tokens where sp: "progress_split (xs_progress st) (tc_progress ctx)
      (map ti_weight (pl_tasks p)) = Inr (tree, tokens)"
    using split_ok assms(1,2) unfolding runnable_def by blast
  define st1 where "st1 = (emit (start_events sv run_id p inputs ctx)
    (case tc_pipeline (with_run_id ctx run_id) of None \<Rightarrow> st
     | Some _ \<Rightarrow> with_world (ph_clear_visited (sv_prov sv) (xs_world st)) st))\<lparr>xs_progress := tree\<rparr>"
  have ev: "xs_events st1 = xs_events st @ start_events sv run_id p inputs ctx"
    by (simp add: st1_def emit_def with_world_def split: option.split)
  have pg: "xs_progress (emit es (case c of None \<Rightarrow> st | Some _ \<Rightarrow> with_world w st)) = xs_progress st"
    for es w and c :: "'c option"
    by (simp add: emit_def with_world_def split: option.split)
  obtain st2 where r: "run_items p (exec_env_of sv p (with_run_id ctx run_id)
      (started_info sv run_id p inputs ctx) tokens) inputs st1 = (st2, result)"
    and st': "st' = announce_end (started_info sv run_id p inputs ctx) result st2"
    using run assms(1) sp
    by (auto simp: execute_unscoped_def Let_def runnable_def started_info_def start_events_def
        st1_def pg tp split: prod.splits)
  show thesis by (rule that [OF sp _ ev r st']) (simp add: st1_def)
qed

text \<open>
  What follows the events of the items: the end of the run, or nothing, where a panic unwinds past
  it or a weight of zero keeps the run from its items.
\<close>

definition closing_events ::
  "('v, 's) services \<Rightarrow> uuid \<Rightarrow> ('v, 's) pipeline \<Rightarrow> 'v pval list \<Rightarrow> 'v task_ctx \<Rightarrow> exec_error + 'a list \<Rightarrow> event list" where
  "closing_events sv run_id p inputs ctx result =
     (if result = Inl Panicked \<or> 0 \<in> set (map ti_weight (pl_tasks p)) then []
      else end_events (started_info sv run_id p inputs ctx) result)"

lemma weighted_run_events:
  assumes "runnable p" and "joins (sv_join_all sv) p" and "0 \<notin> set (map ti_weight (pl_tasks p))"
    and "execute_unscoped sv run_id p inputs ctx st = (st', result)"
  shows "\<exists>mid. list_all item_event mid \<and>
    xs_events st' = xs_events st @ start_events sv run_id p inputs ctx @ mid @
      closing_events sv run_id p inputs ctx result"
proof -
  obtain st1 st2 tree tokens
    where ev: "xs_events st1 = xs_events st @ start_events sv run_id p inputs ctx"
      and r: "run_items p (exec_env_of sv p (with_run_id ctx run_id)
        (started_info sv run_id p inputs ctx) tokens) inputs st1 = (st2, result)"
      and st': "st' = announce_end (started_info sv run_id p inputs ctx) result st2"
    by (rule execute_unscoped_ok [OF assms(1,3,4)])
  have "logs_items st1 st2"
    using log.run_items_R [of "exec_env_of sv p (with_run_id ctx run_id)
        (started_info sv run_id p inputs ctx) tokens" p st1 inputs] r assms(2) by (simp add: exec_env_of_def)
  then obtain mid where mid: "xs_events st2 = xs_events st1 @ mid" "list_all item_event mid"
    by (auto simp: logs_items_def)
  have "xs_events st' = xs_events st2 @ closing_events sv run_id p inputs ctx result"
    using assms(3) announce_end_events [of result "started_info sv run_id p inputs ctx" st2]
    by (cases "result = Inl Panicked") (simp_all add: st' closing_events_def announce_end_def)
  with ev mid show ?thesis by auto
qed

lemma weightless_run:
  assumes "runnable p" and "0 \<in> set (map ti_weight (pl_tasks p))"
    and "execute_unscoped sv run_id p inputs ctx st = (st', result)"
  shows "(\<exists>reason. result = Inl (InvalidConfig reason)) \<and>
    xs_events st' = xs_events st @ start_events sv run_id p inputs ctx"
proof -
  have "\<exists>e. progress_split t i (map ti_weight (pl_tasks p)) = Inl e" for t i
    using assms(1,2) by (simp add: progress_split_def runnable_def)
  then obtain e where e: "progress_split t i (map ti_weight (pl_tasks p)) = Inl (e t i)" for t i
    by metis
  have ev: "xs_events (case c of None \<Rightarrow> st | Some _ \<Rightarrow> with_world w st) = xs_events st"
    for w and c :: "'c option"
    by (simp add: with_world_def split: option.split)
  show ?thesis
    using assms(1,3) e
    by (auto simp: execute_unscoped_def Let_def runnable_def start_events_def started_info_def
        emit_def ev)
qed

lemma run_events:
  assumes "runnable p" and "joins (sv_join_all sv) p"
    and "execute_unscoped sv run_id p inputs ctx st = (st', result)"
  shows "\<exists>mid. list_all item_event mid \<and>
    xs_events st' = xs_events st @ start_events sv run_id p inputs ctx @ mid @
      closing_events sv run_id p inputs ctx result"
proof (cases "0 \<in> set (map ti_weight (pl_tasks p))")
  case True
  with weightless_run [OF assms(1) True assms(3)] show ?thesis by (auto simp: closing_events_def)
qed (rule weighted_run_events [OF assms(1,2) _ assms(3)])

lemma refused_run:
  assumes "\<not> runnable p" and "execute_unscoped sv run_id p inputs ctx st = (st', result)"
  shows "st' = st \<and> (\<exists>e. result = Inl e \<and> e \<noteq> Panicked)"
  using assms by (auto simp: execute_unscoped_def runnable_def split: if_splits)

lemma run_lifecycle_events:
  assumes "runnable p" and "joins (sv_join_all sv) p" and "0 \<notin> set (map ti_weight (pl_tasks p))"
    and "execute_unscoped sv run_id p inputs ctx st = (st', result)" and "result \<noteq> Inl Panicked"
  shows "\<exists>mid. list_all item_event mid \<and>
    xs_events st' = xs_events st @ start_events sv run_id p inputs ctx @ mid @
      end_events (started_info sv run_id p inputs ctx) result"
  using run_events [OF assms(1,2,4)] assms(3,5) by (simp add: closing_events_def)

text \<open>
  C1: Every call of the executor is bracketed in the event log. A pipeline without tasks, with a batch
  size or a concurrency of zero is refused and leaves no event. Every other run announces that it is
  initiated and started; then come only events of single items and tasks, in whatever order the items of
  a chunk interleave; then exactly one pair of terminal events, which says completed with the number of
  outputs, cancelled, or failed with the index of the failing task and the error that is returned. The
  terminal pair is missing in two cases, and in no other: a task has weight 0 (then no item event comes
  either), or a task panicked. Of \<open>join_all\<close> it is asked that it does nothing but run the items.
\<close>

theorem run_lifecycle:
  assumes "joins (sv_join_all sv) p" and "execute_unscoped sv run_id p inputs ctx st = (st', result)"
  shows "if runnable p
    then (\<exists>mid. list_all item_event mid \<and> (0 \<in> set (map ti_weight (pl_tasks p)) \<longrightarrow> mid = []) \<and>
      xs_events st' = xs_events st @ start_events sv run_id p inputs ctx @ mid @
        (if result = Inl Panicked \<or> 0 \<in> set (map ti_weight (pl_tasks p)) then []
         else end_events (started_info sv run_id p inputs ctx) result))
    else st' = st \<and> (\<exists>e. result = Inl e \<and> e \<noteq> Panicked)"
proof (cases "runnable p")
  case True
  show ?thesis
  proof (cases "0 \<in> set (map ti_weight (pl_tasks p))")
    case w: True
    with weightless_run [OF True w assms(2)] True show ?thesis by auto
  next
    case False
    with run_events [OF True assms] True show ?thesis by (simp add: closing_events_def)
  qed
next
  case False
  with refused_run [OF False assms(2)] show ?thesis by simp
qed

text \<open>
  Progress never runs backwards: from the moment the run's token is split among the tasks,
  the widths stay as they are, the tree stays well-formed and the root fraction at the end of
  the run is at least what it was after the split.
\<close>

lemma run_progress_monotone:
  assumes "runnable p" and "0 \<notin> set (map ti_weight (pl_tasks p))"
    and "execute_unscoped sv run_id p inputs ctx st = (st', result)" and "joins (sv_join_all sv) p"
    and "tree_wf (xs_progress st)" and "tc_progress ctx < length (xs_progress st)"
  shows "\<exists>tree tokens.
    progress_split (xs_progress st) (tc_progress ctx) (map ti_weight (pl_tasks p)) = Inr (tree, tokens) \<and>
    map iv_width (xs_progress st') = map iv_width tree \<and> tree_wf (xs_progress st') \<and>
    root_fraction tree \<le> root_fraction (xs_progress st')"
proof -
  obtain st1 st2 tree tokens
    where sp: "progress_split (xs_progress st) (tc_progress ctx) (map ti_weight (pl_tasks p)) = Inr (tree, tokens)"
      and tree: "xs_progress st1 = tree"
      and r: "run_items p (exec_env_of sv p (with_run_id ctx run_id)
        (started_info sv run_id p inputs ctx) tokens) inputs st1 = (st2, result)"
      and st': "st' = announce_end (started_info sv run_id p inputs ctx) result st2"
    by (rule execute_unscoped_ok [OF assms(1-3)])
  have "progresses st1 st2"
    using prog.run_items_R [of "exec_env_of sv p (with_run_id ctx run_id)
        (started_info sv run_id p inputs ctx) tokens" p st1 inputs] r assms(4) by (simp add: exec_env_of_def)
  with tree_wf_split [OF assms(5,6) sp] sp tree st' show ?thesis
    by (auto simp: progresses_def)
qed

text \<open>
  C39: A task of weight 0 leaves the run open. Such a pipeline passes the guards, announces that
  the run is initiated and started, and then returns a configuration error without any terminal
  event.
\<close>

theorem zero_weight_leaves_run_open:
  assumes "runnable p" and "0 \<in> set (map ti_weight (pl_tasks p))"
    and "execute_unscoped sv run_id p inputs ctx st = (st', result)"
  shows "(\<exists>reason. result = Inl (InvalidConfig reason)) \<and>
    xs_events st' = xs_events st @ start_events sv run_id p inputs ctx"
  by (rule weightless_run [OF assms])

section \<open>Sequential and concurrent runs\<close>

lemma append_outputs_simps [simp]:
  "append_outputs us (st, Inl e) = (st, Inl e)"
  "append_outputs us (st, Inr ys) = (st, Inr (us @ ys))"
  by (simp_all add: append_outputs_def)

lemma append_outputs_append [simp]:
  "append_outputs us (append_outputs vs r) = append_outputs (us @ vs) r"
  "append_outputs [] r = r"
  by (cases r; cases "snd r"; auto simp: append_outputs_def)+

lemma for_each_Cons:
  "for_each f (x # xs) st =
     (case f x st of (st1, Inl e) \<Rightarrow> (st1, Inl e)
      | (st1, Inr ys) \<Rightarrow> append_outputs ys (for_each f xs st1))"
  by (auto simp: append_outputs_def split: prod.split sum.split)

lemma for_each_append:
  "for_each f (xs @ ys) st =
     (case for_each f xs st of
        (st1, Inl e) \<Rightarrow> (st1, Inl e)
      | (st1, Inr out) \<Rightarrow> append_outputs out (for_each f ys st1))"
proof (induction xs arbitrary: st)
  case Nil
  show ?case by simp
next
  case (Cons x xs)
  show ?case
    by (auto simp: for_each_Cons Cons.IH simp del: for_each.simps(2) split: prod.split sum.split)
qed

section \<open>Witnesses\<close>

lemmas run_eval = execute_unscoped_def run_items_def execute_items_seq_def execute_one_item_def
  execute_from.simps dispatch_batch.simps skip_check_def data_id_of_def call_with_retry_def
  attempts.simps after_success_def stamp_single_output_def stamp_boxed_item_def stamp_with_def
  call_task_def call_batch_def resolve_call_def finish_batches_def append_outputs_def cancelled_def Let_def
  runnable_def is_dropped_def is_passthrough_def is_batch_def next_batch_size_def

lemma sample_run:
  "snd (execute_unscoped sample_services 9 (sample_pipeline [task_info_new letters]) [Plain [7, 8]]
     sample_ctx sample_state) = Inr [Plain [7], Plain [8]]"
  by (simp add: run_eval sample_defs letters_def progress_split_def acquire_def effective_limiter_def
      max_attempts_def with_run_id_def with_current_data_def)

lemma sample_runnable:
  "runnable (sample_pipeline [task_info_new t])"
  "ti_weight (task_info_new t) = 1"
  "pl_tasks (sample_pipeline ts) = ts"
  by (simp_all add: runnable_def sample_defs)

theorem run_lifecycle_witness:
  "\<exists>(st' :: nat exec_state) mid. list_all item_event mid \<and>
    xs_events st' = xs_events sample_state @
      start_events sample_services 9 (sample_pipeline [task_info_new letters]) [Plain [7, 8]] sample_ctx @ mid @
      end_events (started_info sample_services 9 (sample_pipeline [task_info_new letters]) [Plain [7, 8]] sample_ctx)
        (Inr [Plain [7 :: uchar], Plain [8]])"
proof -
  obtain st' where run: "execute_unscoped sample_services 9 (sample_pipeline [task_info_new letters])
      [Plain [7, 8]] sample_ctx sample_state = (st', Inr [Plain [7], Plain [8]])"
    using sample_run by (metis prod.collapse)
  have "joins (sv_join_all sample_services) (sample_pipeline [task_info_new letters])"
    by (simp add: joins_def sample_defs)
  from run_lifecycle [OF this run] show ?thesis
    by (auto simp: sample_runnable intro!: exI [of _ st'])
qed

theorem zero_weight_leaves_run_open_witness:
  "\<exists>reason. snd (execute_unscoped sample_services 9
     (sample_pipeline [(task_info_new letters)\<lparr>ti_weight := 0\<rparr>]) [] sample_ctx sample_state)
     = Inl (InvalidConfig reason)"
  using zero_weight_leaves_run_open [of "sample_pipeline [(task_info_new letters)\<lparr>ti_weight := 0\<rparr>]"
      sample_services 9 "[]" sample_ctx sample_state, OF _ _ prod.collapse [symmetric]]
  by (simp add: runnable_def sample_pipeline_def pipeline_new_def)

section \<open>Where batch tasks differ\<close>

text \<open>
  A batch task cannot drop its result: the sentinel it returns goes on as a value and ends
  up among the outputs, while the same value from a single-value task discards the item.
\<close>

lemma batch_drop_leaks:
  "snd (dispatch_batch (sample_env []) [task_info_new (SyncBatch (\<lambda>b c s. (s, Inr DroppedSentinel)))] 1
     [Plain [7]] prov sample_state) = Inr [DroppedSentinel] \<and>
   snd (dispatch_batch (sample_env []) [task_info_new (Sync (\<lambda>v c s. (s, Inr DroppedSentinel)))] 1
     [Plain [7]] prov sample_state) = Inr []"
  by (simp add: run_eval sample_defs acquire_def effective_limiter_def max_attempts_def)

text \<open>
  A batch task after a single-value task panics: the value is not a batch, the executor calls
  the task with it as if it were not a batch task, and no event marks the end of the run.
\<close>

lemma batch_after_single_panics:
  "snd (execute_unscoped sample_services 9
     (sample_pipeline [task_info_new (Sync (\<lambda>v c s. (s, Inr v))),
                       task_info_new (SyncBatch (\<lambda>b c s. (s, Inr (hd b))))])
     [Plain [7]] sample_ctx sample_state) = Inl Panicked"
  by (simp add: run_eval sample_defs progress_split_def acquire_def effective_limiter_def
      max_attempts_def with_run_id_def with_current_data_def)

end
