(* ===== verification/Pipeline_Refine.thy ===== *)
theory Pipeline_Refine
  imports Pipeline_Props
begin

text \<open>
  Functional behaviour of the executor: retries as a function of the outcomes of the attempts,
  items that were completed before, and pure pipelines as flat maps over lists.
\<close>

section \<open>Retries\<close>

text \<open>The world before the \<open>k\<close>-th attempt's limiter, and what that attempt gives.\<close>

definition attempt ::
  "('v, 's) task \<Rightarrow> 'v pval \<Rightarrow> ('s \<Rightarrow> 's) option \<Rightarrow> 'v task_ctx \<Rightarrow> 's
     \<Rightarrow> 's \<times> (task_error + ('v, 's) resolved)" where
  "attempt task input rl ctx w =
     the (call_task task input ctx (case rl of None \<Rightarrow> w | Some f \<Rightarrow> f w))"

definition world_at where
  "world_at task input rl ctx k w = ((\<lambda>w. fst (attempt task input rl ctx w)) ^^ k) w"

definition outcome_at where
  "outcome_at task input rl ctx k w = snd (attempt task input rl ctx (world_at task input rl ctx k w))"

lemma world_at_simps [simp]:
  "world_at task input rl ctx 0 w = w"
  "world_at task input rl ctx (Suc k) w = fst (attempt task input rl ctx (world_at task input rl ctx k w))"
  by (simp_all add: world_at_def)

text \<open>What the watcher is told about the attempt with this index, and the sleep after it.\<close>

definition retry_event :: "('v, 's) exec_env \<Rightarrow> nat \<Rightarrow> ustr option \<Rightarrow> nat \<Rightarrow> task_error \<Rightarrow> event list" where
  "retry_event env i name k e =
     OnTask (ee_pipeline_id env) i name (ee_total_tasks env) (TaskRetrying (Suc k) e)
     # (case retry_delay_of (ee_policy env) k of None \<Rightarrow> [] | Some d \<Rightarrow> [Slept d])"

definition retry_events ::
  "('v, 's) exec_env \<Rightarrow> nat \<Rightarrow> ustr option \<Rightarrow> task_error list \<Rightarrow> event list" where
  "retry_events env i name es =
     concat (map (\<lambda>k. retry_event env i name k (es ! k)) [0 ..< length es])"

lemma retry_events_snoc:
  "retry_events env i name (es @ [e]) = retry_events env i name es @ retry_event env i name (length es) e"
proof -
  have "map (\<lambda>k. retry_event env i name k ((es @ [e]) ! k)) [0 ..< length es]
      = map (\<lambda>k. retry_event env i name k (es ! k)) [0 ..< length es]"
    by (rule map_cong) (auto simp: nth_append)
  then show ?thesis by (simp add: retry_events_def del: map_eq_conv)
qed

lemma with_world_acquire [simp]: "with_world w (acquire rl st) = with_world w st"
  by (simp add: acquire_def with_world_def split: option.split)

lemma call_is_attempt:
  "\<not> is_batch task \<Longrightarrow>
     call_task task input ctx (xs_world (acquire rl st)) = Some (attempt task input rl ctx (xs_world st))"
  by (cases task; cases rl) (simp_all add: is_batch_def call_task_def attempt_def acquire_def with_world_def)

lemma attempts_success:
  assumes "\<not> is_batch task" and "snd (attempt task input rl ctx (xs_world st)) = Inr res"
  shows "attempts env task input i name d prov rl ctx left st =
    (let (st2, res2) = after_success env name d prov res
        (with_world (fst (attempt task input rl ctx (xs_world st))) st)
     in (st2, Inr res2))"
  using assms(2)
  by (subst attempts.simps) (auto simp: Let_def call_is_attempt [OF assms(1)] split: prod.split sum.split)

lemma attempts_step:
  assumes "\<not> is_batch task" and "snd (attempt task input rl ctx (xs_world st)) = Inl e"
    and "left = Suc left'" and "max_attempts (ee_policy env) - left = Suc k"
  shows "attempts env task input i name d prov rl ctx left st =
    attempts env task input i name d prov rl ctx left'
      (emit (retry_event env i name k e)
        (with_world (fst (attempt task input rl ctx (xs_world st))) st))"
  using assms(2-4)
  by (subst attempts.simps)
    (auto simp: Let_def call_is_attempt [OF assms(1)] retry_event_def split: prod.split sum.split)

lemma attempts_give_up:
  assumes "\<not> is_batch task" and "snd (attempt task input rl ctx (xs_world st)) = Inl e"
  shows "attempts env task input i name d prov rl ctx 0 st =
    (emit [OnTask (ee_pipeline_id env) i name (ee_total_tasks env)
             (TaskGaveUp (max_attempts (ee_policy env)) e),
           OnTaskErrored (ee_run_info env) (name_or_empty name) e]
       (with_world (fst (attempt task input rl ctx (xs_world st))) st),
     Inl (TaskFailed i (max_attempts (ee_policy env)) e))"
  using assms(2)
  by (subst attempts.simps) (auto simp: Let_def call_is_attempt [OF assms(1)] split: prod.split sum.split)

lemma attempts_retrying:
  assumes nb: "\<not> is_batch task" and n: "max_attempts (ee_policy env) = Suc n" and k: "k \<le> n"
    and fails: "\<And>j. j < k \<Longrightarrow> outcome_at task input rl ctx j (xs_world st) = Inl (es ! j)"
    and len: "length es = k"
  shows "attempts env task input i name d prov rl ctx n st =
    attempts env task input i name d prov rl ctx (n - k)
      (emit (retry_events env i name es) (with_world (world_at task input rl ctx k (xs_world st)) st))"
  using k fails len
proof (induction k arbitrary: es)
  case 0
  then show ?case by (simp add: retry_events_def emit_def with_world_def)
next
  case (Suc k)
  obtain es' e where es: "es = es' @ [e]" "length es' = k"
    using Suc.prems(3) by (cases es rule: rev_cases) auto
  let ?st = "emit (retry_events env i name es') (with_world (world_at task input rl ctx k (xs_world st)) st)"
  have "attempts env task input i name d prov rl ctx n st
      = attempts env task input i name d prov rl ctx (n - k) ?st"
    using Suc.prems es by (intro Suc.IH) (auto simp: nth_append less_Suc_eq)
  also have "\<dots> = attempts env task input i name d prov rl ctx (n - Suc k)
      (emit (retry_event env i name k e)
        (with_world (fst (attempt task input rl ctx (xs_world ?st))) ?st))"
    using Suc.prems(1) Suc.prems(2) [of k] es n
    by (intro attempts_step [OF nb])
      (auto simp: outcome_at_def emit_def with_world_def nth_append)
  also have "emit (retry_event env i name k e)
        (with_world (fst (attempt task input rl ctx (xs_world ?st))) ?st)
      = emit (retry_events env i name es) (with_world (world_at task input rl ctx (Suc k) (xs_world st)) st)"
    using es by (simp add: retry_events_snoc emit_def with_world_def)
  finally show ?case .
qed

text \<open>
  The state the loop has reached when the first \<open>length es\<close> attempts failed with the errors \<open>es\<close>.
\<close>

definition after_failures where
  "after_failures env task input i name rl ctx es st =
     emit (retry_events env i name es) (with_world (world_at task input rl ctx (length es) (xs_world st)) st)"

lemma after_failures_world [simp]:
  "xs_world (after_failures env task input i name rl ctx es st)
     = world_at task input rl ctx (length es) (xs_world st)"
  by (simp add: after_failures_def emit_def with_world_def)

text \<open>
  C21: A call succeeds at its first successful attempt. If the attempts before it failed and the
  policy allows one more, the result is that attempt's, the world has seen exactly these
  attempts, and the log has one retry event per failure, each with its delay.
\<close>

theorem retry_succeeds:
  assumes "\<not> is_batch task" and "length es < max_attempts (ee_policy env)"
    and "ctx = with_progress (ee_ctx env) (ee_subtokens env ! i)"
    and "\<And>j. j < length es \<Longrightarrow> outcome_at task input rl ctx j (xs_world st) = Inl (es ! j)"
    and "outcome_at task input rl ctx (length es) (xs_world st) = Inr res"
  shows "call_with_retry env task input i name d prov rl st =
    (let st1 = with_world (world_at task input rl ctx (Suc (length es)) (xs_world st))
                 (after_failures env task input i name rl ctx es st);
         (st2, res2) = after_success env name d prov res st1
     in (st2, Inr res2))"
proof -
  obtain n where n: "max_attempts (ee_policy env) = Suc n" "length es \<le> n"
    using assms(2) by (cases "max_attempts (ee_policy env)") auto
  have "call_with_retry env task input i name d prov rl st
      = attempts env task input i name d prov rl ctx (n - length es)
          (after_failures env task input i name rl ctx es st)"
    unfolding call_with_retry_def after_failures_def assms(3) [symmetric]
    using attempts_retrying [OF assms(1) n assms(4) refl] n by simp
  with attempts_success [OF assms(1), of input rl ctx "after_failures env task input i name rl ctx es st"]
    assms(5)
  show ?thesis by (simp add: outcome_at_def Let_def)
qed

text \<open>
  A call gives up only after the number of attempts of the policy: if all of them fail, the
  error is the last one, charged to the task with that number, after one retry event for each
  failure but the last.
\<close>

lemma retry_gives_up:
  assumes "\<not> is_batch task" and "max_attempts (ee_policy env) = Suc (length es)"
    and "ctx = with_progress (ee_ctx env) (ee_subtokens env ! i)"
    and "\<And>j. j \<le> length es \<Longrightarrow> outcome_at task input rl ctx j (xs_world st) = Inl ((es @ [e]) ! j)"
  shows "call_with_retry env task input i name d prov rl st =
    (emit [OnTask (ee_pipeline_id env) i name (ee_total_tasks env) (TaskGaveUp (Suc (length es)) e),
           OnTaskErrored (ee_run_info env) (name_or_empty name) e]
       (with_world (world_at task input rl ctx (Suc (length es)) (xs_world st))
         (after_failures env task input i name rl ctx es st)),
     Inl (TaskFailed i (Suc (length es)) e))"
proof -
  have "outcome_at task input rl ctx j (xs_world st) = Inl (es ! j)" if "j < length es" for j
    using assms(4) [of j] that by (simp add: nth_append)
  then have "call_with_retry env task input i name d prov rl st
      = attempts env task input i name d prov rl ctx 0 (after_failures env task input i name rl ctx es st)"
    unfolding call_with_retry_def after_failures_def assms(3) [symmetric]
    using attempts_retrying [OF assms(1,2) order_refl _ refl] assms(2) by simp
  with attempts_give_up [OF assms(1), of input rl ctx "after_failures env task input i name rl ctx es st" e]
    assms(2) assms(4) [of "length es"]
  show ?thesis by (simp add: outcome_at_def)
qed

section \<open>Pure pipelines are flat maps\<close>

text \<open>
  The specification of a task whose outputs depend on its input alone: it gives one value or a
  list of values.
\<close>

datatype 'v kernel = One "'v pval \<Rightarrow> 'v pval" | Many "'v pval \<Rightarrow> 'v pval list"

fun stream_emits :: "('v, 's) val_stream \<Rightarrow> 'v pval list \<Rightarrow> bool" where
  "stream_emits [] ys = (ys = [])"
| "stream_emits (p # str) ys =
     ((\<forall>s. snd (p s) = Parked) \<and> stream_emits str ys \<or>
      (\<exists>z zs. ys = z # zs \<and> (\<forall>s. snd (p s) = Ready (Inr z)) \<and> stream_emits str zs))"

definition gives :: "('v, 's) resolved \<Rightarrow> 'v kernel \<Rightarrow> 'v pval \<Rightarrow> bool" where
  "gives r k v \<longleftrightarrow>
     (case (k, r) of
        (One f, Single u) \<Rightarrow> u = f v
      | (Many f, Iter it) \<Rightarrow> list_all2 (\<lambda>nx y. \<forall>s. snd (nx s) = y) it (f v)
      | (Many f, Stream str) \<Rightarrow> stream_emits str (f v)
      | _ \<Rightarrow> False)"

text \<open>A task that always succeeds and gives what the kernel says, whatever the world is.\<close>

definition runs_as :: "('v, 's) task_info \<Rightarrow> 'v kernel \<Rightarrow> bool" where
  "runs_as info k \<longleftrightarrow>
     (\<forall>v c s. \<exists>w r. call_task (ti_task info) v c s = Some (w, Inr r) \<and> gives r k v) \<and>
     (ti_enriches info \<or> (\<forall>f v. k = One f \<longrightarrow> \<not> is_passthrough (f v)))"

fun flow :: "'v kernel list \<Rightarrow> 'v pval \<Rightarrow> 'v pval list" where
  "flow [] v = [v]"
| "flow (One f # ks) v =
     (if is_passthrough (f v) then flow ks v else if is_dropped (f v) then [] else flow ks (f v))"
| "flow (Many f # ks) v = concat (map (flow ks) (filter (\<lambda>u. \<not> is_dropped u) (f v)))"

text \<open>No cancellation, no deduplication, and stamping leaves the value the same.\<close>

definition quiet :: "('v, 's) exec_env \<Rightarrow> bool" where
  "quiet env \<longleftrightarrow> (\<forall>s. \<not> ee_cancelled env s) \<and> ee_data_id_fn env = None \<and>
     (\<forall>p v s. snd (ph_stamp_boxed (ee_prov env) p v s) = v \<and>
              snd (ph_stamp_shared (ee_prov env) p v s) = v)"

lemma quiet_stamp:
  assumes "quiet env"
  shows "snd (stamp_boxed_item env prov v st) = v" "snd (stamp_single_output env prov v st) = v"
  using assms by (auto simp: quiet_def stamp_boxed_item_def stamp_single_output_def stamp_with_def
      split: option.split prod.split) (metis snd_conv)+

lemma after_success_snd:
  assumes "quiet env"
  shows "snd (after_success env name d prov r st) = r"
proof (cases r)
  case (Single v)
  obtain st' where "stamp_single_output env prov v st = (st', v)"
    using quiet_stamp(2) [OF assms] by (metis prod.collapse)
  with Single show ?thesis by (simp add: after_success_def)
qed (simp_all add: after_success_def)

lemma runs_as_call:
  assumes "quiet env" and "runs_as info k"
  obtains st2 r where "call_with_retry env (ti_task info) v i name d prov rl st = (st2, Inr r)"
    and "gives r k v"
proof -
  let ?ctx = "with_progress (ee_ctx env) (ee_subtokens env ! i)"
  have nb: "\<not> is_batch (ti_task info)"
    using assms(2) by (cases "ti_task info") (auto simp: runs_as_def is_batch_def call_task_def)
  from assms(2) obtain w r where "call_task (ti_task info) v ?ctx (xs_world (acquire rl st)) = Some (w, Inr r)"
    and g: "gives r k v"
    unfolding runs_as_def by blast
  then have "snd (attempt (ti_task info) v rl ?ctx (xs_world st)) = Inr r"
    by (simp add: call_is_attempt [OF nb])
  from attempts_success [OF nb this]
  have "\<exists>st2. call_with_retry env (ti_task info) v i name d prov rl st = (st2, Inr r)"
    using after_success_snd [OF assms(1)]
    by (simp add: call_with_retry_def Let_def split_beta)
  with g that show thesis by blast
qed

text \<open>Batches: the accumulation loops only cut the list that goes downstream.\<close>

definition dispatches :: "('v, 's) dispatcher \<Rightarrow> ('v pval \<Rightarrow> 'v pval list) \<Rightarrow> bool" where
  "dispatches dispatch g \<longleftrightarrow>
     (\<forall>b p s. \<exists>s'. dispatch b p s = (s', Inr (concat (map g b))))"

lemma finish_batches_flow:
  assumes "dispatches dispatch g"
  shows "\<exists>st'. finish_batches dispatch fin prov batch out st = (st', Inr (out @ concat (map g batch)))"
proof -
  obtain s' where "dispatch batch prov st = (s', Inr (concat (map g batch)))"
    using assms unfolding dispatches_def by blast
  then show ?thesis by (simp add: finish_batches_def)
qed

lemma process_iter_flow:
  assumes q: "quiet env" and d: "dispatches dispatch g"
    and "list_all2 (\<lambda>nx y. \<forall>s. snd (nx s) = y) it ys"
  shows "\<exists>st'. process_iter env dispatch fin bs prov batch out it st =
    (st', Inr (out @ concat (map g (batch @ filter (\<lambda>u. \<not> is_dropped u) ys))))"
  using assms(3)
proof (induction arbitrary: batch out st rule: list_all2_induct)
  case Nil
  show ?case using finish_batches_flow [OF d, of fin prov batch out st] by simp
next
  case (Cons nx it y ys)
  have nc: "\<not> cancelled env s" for s using q by (simp add: quiet_def cancelled_def)
  obtain w where w: "nx (xs_world st) = (w, y)" using Cons(1) by (metis prod.collapse)
  obtain st2 where s: "stamp_boxed_item env prov y (with_world w st) = (st2, y)"
    using quiet_stamp(1) [OF q] by (metis prod.collapse)
  obtain st3 where d3: "dispatch (batch @ [y]) prov st2 = (st3, Inr (concat (map g (batch @ [y]))))"
    using d unfolding dispatches_def by blast
  show ?case
    using Cons.IH [of batch out "with_world w st"] Cons.IH [of "batch @ [y]" out st2]
      Cons.IH [of "[]" "out @ concat (map g (batch @ [y]))" st3]
    by (simp add: w s d3 nc Let_def)
qed

lemma process_stream_flow:
  assumes q: "quiet env" and d: "dispatches dispatch g" and "stream_emits str ys"
  shows "\<exists>st'. process_stream env dispatch fin bs pr prov batch out str st =
    (st', Inr (out @ concat (map g (batch @ filter (\<lambda>u. \<not> is_dropped u) ys))))"
  using assms(3)
proof (induction str arbitrary: ys batch out st)
  case Nil
  then show ?case
    using finish_batches_flow [OF d, of fin prov batch out st] q by (simp add: quiet_def cancelled_def)
next
  case (Cons p str)
  have nc: "\<not> cancelled env s" for s using q by (simp add: quiet_def cancelled_def)
  obtain w r where p: "p (xs_world st) = (w, r)" by fastforce
  from Cons.prems consider "r = Parked" "stream_emits str ys"
    | z zs where "ys = z # zs" "r = Ready (Inr z)" "stream_emits str zs"
    using p by (metis snd_conv stream_emits.simps(2))
  then show ?case
  proof cases
    case 1
    then show ?thesis using Cons.IH [of ys batch out "with_world w st"] by (simp add: p nc Let_def)
  next
    case 2
    obtain st2 where s: "stamp_boxed_item env prov z (with_world w st) = (st2, z)"
      using quiet_stamp(1) [OF q] by (metis prod.collapse)
    obtain st3 where d3: "dispatch (batch @ [z]) prov st2 = (st3, Inr (concat (map g (batch @ [z]))))"
      using d unfolding dispatches_def by blast
    show ?thesis
      using Cons.IH [OF 2(3), of batch out "with_world w st"] Cons.IH [OF 2(3), of "batch @ [z]" out st2]
        Cons.IH [OF 2(3), of "[]" "out @ concat (map g (batch @ [z]))" st3]
      by (simp add: p s d3 nc 2 Let_def)
  qed
qed

lemma for_each_flow:
  assumes "\<And>x s. \<exists>s'. f x s = (s', Inr (g x))"
  shows "\<exists>st'. for_each f xs st = (st', Inr (concat (map g xs)))"
proof (induction xs arbitrary: st)
  case Nil
  show ?case by simp
next
  case (Cons x xs)
  obtain s' where "f x st = (s', Inr (g x))" using assms by blast
  moreover obtain st' where "for_each f xs s' = (st', Inr (concat (map g xs)))"
    using Cons.IH by blast
  ultimately show ?case by simp
qed

lemma quiet_skip: "quiet env \<Longrightarrow> skip_check env v i st = (st, Inr False)"
  by (simp add: skip_check_def data_id_of_def quiet_def)

lemma pure_flow:
  assumes q: "quiet env" and r: "list_all2 runs_as infos ks"
  shows "\<exists>st'. execute_from env infos i v st = (st', Inr (flow ks v))"
    and "dispatches (\<lambda>b p s. dispatch_batch env infos i b p s) (flow ks)"
  using r
proof (induction arbitrary: i v st rule: list_all2_induct)
  case Nil
  {
    case 1
    show ?case by (simp add: execute_from.simps)
  next
    case 2
    show ?case by (simp add: dispatches_def dispatch_batch.simps)
  }
next
  case (Cons info infos k ks)
  have ex: "\<exists>st'. execute_from env (info # infos) i v st = (st', Inr (flow (k # ks) v))" for i v st
  proof -
    let ?prov = "prov_of env info v i"
    obtain st2 r where call: "call_with_retry env (ti_task info) v i (ti_name info) (data_id_of env v)
        ?prov (effective_limiter env info) (task_begins env info i st) = (st2, Inr r)"
      and g: "gives r k v"
      by (rule runs_as_call [OF q Cons.hyps(1)])
    have nc: "\<not> cancelled env st" using q by (simp add: quiet_def cancelled_def)
    note unfold = execute_from.simps(2) nc quiet_skip [OF q] call Let_def
    show ?thesis
    proof (cases k)
      case (One f)
      then have "r = Single (f v)" using g by (cases r) (simp_all add: gives_def)
      moreover have "ti_enriches info" if "is_passthrough (f v)"
        using Cons.hyps(1) One that by (auto simp: runs_as_def)
      ultimately show ?thesis
        using Cons.IH(1) by (simp add: unfold One)
    next
      case (Many f)
      show ?thesis
      proof (cases r)
        case (Single u)
        then show ?thesis using g Many by (simp add: gives_def)
      next
        case (Iter it)
        then have "list_all2 (\<lambda>nx y. \<forall>s. snd (nx s) = y) it (f v)" using g Many by (simp add: gives_def)
        from process_iter_flow [OF q Cons.IH(2) this, where batch = "[]" and out = "[]"]
        obtain st' where "process_iter env (dispatch_batch env infos (Suc i))
            (complete_batch_progress env infos (Suc i)) (next_batch_size env infos) ?prov [] [] it
            (task_ends env info i st2) = (st', Inr (flow (k # ks) v))"
          unfolding Many by simp blast
        with Iter show ?thesis by (simp add: unfold)
      next
        case (Stream str)
        then have "stream_emits str (f v)" using g Many by (simp add: gives_def)
        from process_stream_flow [OF q Cons.IH(2) this, where batch = "[]" and out = "[]"]
        obtain st' where "process_stream env (dispatch_batch env infos (Suc i))
            (complete_batch_progress env infos (Suc i)) (next_batch_size env infos) i ?prov [] [] str
            (task_ends env info i st2) = (st', Inr (flow (k # ks) v))"
          unfolding Many by simp blast
        with Stream show ?thesis by (simp add: unfold)
      qed
    qed
  qed
  {
    case 1
    show ?case by (rule ex)
  next
    case 2
    have nb: "\<not> is_batch (ti_task info)"
      using Cons.hyps(1) by (cases "ti_task info") (auto simp: runs_as_def is_batch_def call_task_def)
    show ?case
      using for_each_flow [of "\<lambda>x s. execute_from env (info # infos) i x s", OF ex]
      by (simp add: dispatches_def dispatch_batch.simps nb)
  }
qed

text \<open>
  C4: A pipeline of pure tasks is the flat map of its tasks. Every combination of single-value,
  iterator and stream tasks, whatever the batch sizes (of the run or of a task), the names,
  weights and limiters, returns exactly the outputs of the list semantics, in order; a dropped
  item contributes nothing and a passed-through item goes on unchanged.
\<close>

theorem pure_pipeline_is_flat_map:
  assumes "quiet env" and "list_all2 runs_as infos ks"
  shows "snd (execute_from env infos i v st) = Inr (flow ks v)"
  using pure_flow(1) [OF assms] by (metis snd_conv)

text \<open>One item of a run of pure tasks.\<close>

lemma pure_item:
  assumes "quiet env" and "list_all2 runs_as (pl_tasks p) ks"
  shows "snd (execute_one_item p env v st) = Inr (flow ks v)"
proof -
  let ?e = "env\<lparr>ee_ctx := with_current_data (ee_ctx env) v\<rparr>"
  have "quiet ?e" using assms(1) by (simp add: quiet_def)
  from pure_flow(1) [OF this assms(2), of 0 v st] show ?thesis
    by (auto simp: execute_one_item_def Let_def split: prod.split)
qed

lemma first_error_ok: "first_error (map (\<lambda>v. Inr (f v)) vs) = Inr (concat (map f vs))"
  by (induction vs) simp_all


lemma ctx_dataset_current [simp]: "ctx_dataset (with_current_data c v) = ctx_dataset c"
  by (simp add: ctx_dataset_def with_current_data_def split: option.split)

text \<open>
  An item that the status manager reports as completed is skipped: no task runs, the item
  has no outputs, the only event says so, and the item is marked completed once more.
\<close>

lemma completed_item_is_skipped:
  assumes "pl_tasks p \<noteq> []" and "pl_data_id_fn p = Some f" and "ee_data_id_fn env = Some f"
    and "f input = Some d" and "\<not> cancelled env st" and "ee_pipeline_name env = pl_name p"
    and "es_is_completed (ee_exec_status env) d (name_or_empty (pl_name p)) (ctx_dataset (ee_ctx env))
      (xs_world st) = (w, Inr True)"
  shows "execute_one_item p env input st =
    (st\<lparr>xs_world := es_mark_completed (ee_exec_status env) d (name_or_empty (pl_name p))
           (ctx_dataset (ee_ctx env)) w,
        xs_events := xs_events st @ [OnPipeline (ee_pipeline_id env) (ItemSkipped d)]\<rparr>,
     Inr [])"
proof -
  obtain info rest where "pl_tasks p = info # rest" using assms(1) by (cases "pl_tasks p") auto
  with assms(2-) show ?thesis
    by (simp add: execute_one_item_def execute_from.simps skip_check_def data_id_of_def Let_def
        cancelled_def emit_def with_world_def)
qed

section \<open>Witnesses\<close>

lemma flaky_simps [simp]:
  "\<not> is_batch flaky"
  "attempt flaky v None c s = (Suc s, if s < 2 then Inl [s] else Inr (Single v))"
  by (simp_all add: flaky_def is_batch_def attempt_def call_task_def resolve_call_def)

lemma flaky_world: "world_at flaky v None c k s = s + k"
  by (induction k) simp_all

theorem retry_succeeds_witness:
  "snd (call_with_retry (sample_env []) flaky (Plain [7]) 0 None None sample_inputs None sample_state)
     = Inr (Single (Plain [7]))"
proof -
  have "call_with_retry (sample_env []) flaky (Plain [7]) 0 None None sample_inputs None sample_state =
    (let (st2, res2) = after_success (sample_env []) None None sample_inputs (Single (Plain [7]))
           (with_world (world_at flaky (Plain [7]) None
              (with_progress (ee_ctx (sample_env [])) (ee_subtokens (sample_env []) ! 0))
              (Suc (length [[0], [1 :: nat]])) (xs_world sample_state))
             (after_failures (sample_env []) flaky (Plain [7]) 0 None None
              (with_progress (ee_ctx (sample_env [])) (ee_subtokens (sample_env []) ! 0))
              [[0], [1]] sample_state))
     in (st2, Inr res2))"
    by (subst retry_succeeds [where es = "[[0], [1]]" and res = "Single (Plain [7])"])
      (auto simp: flaky_world outcome_at_def sample_defs max_attempts_def nth_Cons' less_Suc_eq)
  then show ?thesis
    by (simp add: after_success_def stamp_single_output_def stamp_with_def sample_defs)
qed

lemma letters_runs_as:
  "runs_as (task_info_new letters) (Many (\<lambda>v. case v of Plain t \<Rightarrow> map (\<lambda>x. Plain [x]) t | _ \<Rightarrow> []))"
  by (auto simp: runs_as_def task_info_new_def letters_def call_task_def resolve_call_def gives_def
      list_all2_conv_all_nth split: pval.split)

theorem pure_pipeline_is_flat_map_witness:
  "snd (execute_from (sample_env []\<lparr>ee_data_id_fn := None\<rparr>) [task_info_new letters, task_info_new letters]
     0 (Plain [7, 8]) sample_state) = Inr [Plain [7], Plain [8]]"
proof -
  let ?k = "Many (\<lambda>v. case v of Plain t \<Rightarrow> map (\<lambda>x. Plain [x]) t | _ \<Rightarrow> [])"
  have "snd (execute_from (sample_env []\<lparr>ee_data_id_fn := None\<rparr>)
      [task_info_new letters, task_info_new letters] 0 (Plain [7, 8]) sample_state)
      = Inr (flow [?k, ?k] (Plain [7, 8]))"
  proof (rule pure_pipeline_is_flat_map)
    show "quiet (sample_env []\<lparr>ee_data_id_fn := None\<rparr>)" by (simp add: quiet_def sample_defs)
  qed (simp add: letters_runs_as)
  then show ?thesis by (simp add: is_dropped_def)
qed

text \<open>The items of a chunk in the opposite order: the last one ends first.\<close>

definition join_backwards :: "('v, 's) join_all" where
  "join_backwards fs st = map_prod id (map_option rev) (join_in_turn (rev fs) st)"

lemma join_backwards_law: "join_law join_backwards"
  unfolding join_law_def
proof (intro conjI allI impI)
  fix fs :: "('v, 's) item_future list" and st :: "'s exec_state"
  assume "\<forall>f \<in> set fs. \<forall>s. item_steps s (fst (f s))"
  then have "\<forall>f \<in> set (rev fs). \<forall>s. item_steps s (fst (f s))" by simp
  then have "item_steps st (fst (join_in_turn (rev fs) st))"
    using join_in_turn_law unfolding join_law_def by blast
  then show "item_steps st (fst (join_backwards fs st))" by (simp add: join_backwards_def)
next
  fix fs :: "('v, 's) item_future list" and rs and st :: "'s exec_state"
  assume "list_all2 (\<lambda>f r. r \<noteq> Inl Panicked \<and> (\<forall>s. snd (f s) = r)) fs rs"
  then have "list_all2 (\<lambda>f r. r \<noteq> Inl Panicked \<and> (\<forall>s. snd (f s) = r)) (rev fs) (rev rs)"
    by (rule iffD2 [OF list_all2_rev])
  then have "snd (join_in_turn (rev fs) st) = Some (rev rs)"
    using join_in_turn_law unfolding join_law_def by blast
  then show "snd (join_backwards fs st) = Some rs" by (simp add: join_backwards_def)
qed


end
