(* ===== verification/Run_Info.thy ===== *)
theory Run_Info
  imports Complex_Main Prelude
begin

text \<open>
  JSON values (\<open>serde_json::Value\<close>, whose objects keep insertion order) and the \<open>run_info\<close>
  documents of \<open>crates/core/src/pipeline_run_registry/data_info.rs\<close>.
\<close>

datatype json =
    JNull
  | JBool bool
  | JNum rat
  | JStr ustr
  | JArr "json list"
  | JObj "(string \<times> json) list"

text \<open>The status of a row of a run's trail, \<open>PipelineRunStatus\<close> of \<open>crates/database\<close>.\<close>

datatype db_status = Initiated | Started | Completed | Errored

text \<open>\<open>Value::get\<close> with a string key, and \<open>Value::as_array\<close>.\<close>

definition json_get :: "json \<Rightarrow> string \<Rightarrow> json option" where
  "json_get v k = (case v of JObj kvs \<Rightarrow> map_of kvs k | _ \<Rightarrow> None)"

definition json_array :: "json \<Rightarrow> json list option" where
  "json_array v = (case v of JArr xs \<Rightarrow> Some xs | _ \<Rightarrow> None)"

definition data_info :: "(uuid \<Rightarrow> ustr) \<Rightarrow> uuid list \<Rightarrow> json" where
  "data_info show_uuid data_ids =
     (if data_ids = [] then JStr (ascii ''None'')
      else JArr (map (\<lambda>i. JStr (show_uuid i)) data_ids))"

definition run_info_for_running :: "(uuid \<Rightarrow> ustr) \<Rightarrow> uuid list \<Rightarrow> json" where
  "run_info_for_running show_uuid data_ids = JObj [(''data'', data_info show_uuid data_ids)]"

definition run_info_for_errored :: "(uuid \<Rightarrow> ustr) \<Rightarrow> uuid list \<Rightarrow> ustr \<Rightarrow> json" where
  "run_info_for_errored show_uuid data_ids err =
     JObj [(''data'', data_info show_uuid data_ids), (''error'', JStr err)]"

definition run_info_for_initiated :: json where
  "run_info_for_initiated = JObj []"

text \<open>The data ids can be read back from the document, given that \<open>show_uuid\<close> is injective.\<close>

definition data_ids_of :: "(ustr \<Rightarrow> uuid) \<Rightarrow> json \<Rightarrow> uuid list option" where
  "data_ids_of parse v =
     (case json_get v ''data'' of
        Some (JStr s) \<Rightarrow> (if s = ascii ''None'' then Some [] else None)
      | Some (JArr xs) \<Rightarrow> Some (map (\<lambda>x. case x of JStr s \<Rightarrow> parse s | _ \<Rightarrow> 0) xs)
      | _ \<Rightarrow> None)"

lemma json_get_simps [simp]:
  "json_get (JObj []) k = None"
  "json_get (JObj ((k', v) # kvs)) k = (if k = k' then Some v else json_get (JObj kvs) k)"
  by (simp_all add: json_get_def)

end
