(* ===== verification/Run_Registry.thy ===== *)
theory Run_Registry
  imports "HOL-Library.AList" Run_Info Pipeline_Exec
begin

text \<open>
  The in-memory run registry: \<open>crates/core/src/pipeline_run_registry/default_impl.rs\<close>, with the
  types of \<open>types.rs\<close> and the watcher of \<open>scoped_watcher.rs\<close>.

  The registry is a state machine: its locks make each block of code that holds one a step, and
  the tasks it spawns take steps of their own. Slots hold the sending ends of two channels; the
  spawned finisher and the watchers hold clones of them, so channels are objects of their own
  (\<open>rg_chans\<close>, never removed) and a slot names its channel.

  \<open>tokio\<close>'s watch channel is a parameter: \<open>send\<close> is \<open>watch::Sender::send\<close>. The law used,
  \<open>watch_law\<close>, is its documentation: with no receiver the value is not stored. A broadcast
  channel is the list of what was sent on it. Writes to the repository cannot fail a run: of its own
  rows the model records each that the registry tries to append, and of a watcher's rows those whose
  writes succeed (\<open>lost\<close> says which do not). Times are numbers.
\<close>

section \<open>Channels\<close>

datatype run_phase = Pending | Running | PhaseCompleted | PhaseErrored ustr

datatype run_event_kind =
    EvStarted
  | EvYield
  | EvCompleted
  | EvErrored ustr
  | EvAlreadyCompleted

record watch =
  wt_value :: run_phase
  wt_receivers :: nat

definition watch_law :: "(run_phase \<Rightarrow> watch \<Rightarrow> watch) \<Rightarrow> bool" where
  "watch_law send \<longleftrightarrow>
     (\<forall>v w. send v w = (if wt_receivers w = 0 then w else w\<lparr>wt_value := v\<rparr>))"

record channel =
  ch_phase :: watch
  ch_sent :: "run_event_kind list"

text \<open>The receiver half of the new watch channel is dropped at once.\<close>

definition new_channel :: channel where
  "new_channel = \<lparr>ch_phase = \<lparr>wt_value = Pending, wt_receivers = 0\<rparr>, ch_sent = []\<rparr>"

definition set_phase :: "(run_phase \<Rightarrow> watch \<Rightarrow> watch) \<Rightarrow> run_phase \<Rightarrow> channel \<Rightarrow> channel" where
  "set_phase send p c = c\<lparr>ch_phase := send p (ch_phase c)\<rparr>"

definition publish :: "run_event_kind \<Rightarrow> channel \<Rightarrow> channel" where
  "publish k c = c\<lparr>ch_sent := ch_sent c @ [k]\<rparr>"

section \<open>Slots and the registry\<close>

record run_handle =
  rh_run_id :: uuid
  rh_task_run_id :: uuid
  rh_user_id :: "uuid option"
  rh_dataset_id :: "uuid option"
  rh_pipeline_name :: ustr
  rh_started_at :: nat

record run_spec =
  rs_run_id :: "uuid option"
  rs_pipeline_name :: ustr
  rs_user_id :: "uuid option"
  rs_dataset_id :: "uuid option"
  rs_data_ids :: "uuid list"

record run_slot =
  sl_chan :: nat
  sl_finished_at :: "nat option"
  sl_abort_handle :: "nat option"
  sl_meta :: run_handle
  sl_data_ids :: "uuid list"

record registry_config =
  cf_max_runs :: nat
  cf_retention :: nat
  cf_abort_row :: bool

definition default_config :: registry_config where
  "default_config = \<lparr>cf_max_runs = 4096, cf_retention = 3600, cf_abort_row = True\<rparr>"

record run_row =
  rr_run_id :: uuid
  rr_pipeline_id :: uuid
  rr_pipeline_name :: ustr
  rr_dataset_id :: "uuid option"
  rr_status :: db_status
  rr_run_info :: "json option"
  rr_user_id :: "uuid option"

text \<open>
  A spawned run: what its task captured, and how far it is. \<open>JobReturned\<close> and \<open>JobAborted\<close>
  wait for the finisher, which ends in \<open>JobReported\<close>.
\<close>

datatype job_state = JobSpawned | JobRunning | JobReturned run_phase | JobAborted | JobReported

record job =
  jb_run_id :: uuid
  jb_chan :: nat
  jb_spec :: run_spec
  jb_state :: job_state

record registry =
  rg_runs :: "(uuid \<times> run_slot) list"
  rg_order :: "uuid list"
  rg_chans :: "channel list"
  rg_rows :: "run_row list"
  rg_jobs :: "job list"

datatype registry_error =
    UnknownRun uuid
  | RunAborted
  | RegistryShutdown
  | Repository ustr
  | RegistryFull

definition registry_new :: registry where
  "registry_new = \<lparr>rg_runs = [], rg_order = [], rg_chans = [], rg_rows = [], rg_jobs = []\<rparr>"

definition slot_of :: "registry \<Rightarrow> uuid \<Rightarrow> run_slot option" where
  "slot_of rg i = map_of (rg_runs rg) i"

definition on_channel :: "(channel \<Rightarrow> channel) \<Rightarrow> nat \<Rightarrow> registry \<Rightarrow> registry" where
  "on_channel f k rg = rg\<lparr>rg_chans := (rg_chans rg)[k := f (rg_chans rg ! k)]\<rparr>"

definition put_slot :: "uuid \<Rightarrow> run_slot \<Rightarrow> registry \<Rightarrow> registry" where
  "put_slot i sl rg = rg\<lparr>rg_runs := AList.update i sl (rg_runs rg)\<rparr>"

text \<open>
  What the writes to the repository need from outside: \<open>uuid5(OID, name)\<close> and the display of a
  UUID.
\<close>

record row_env =
  re_v5 :: "ustr \<Rightarrow> uuid"
  re_show :: "uuid \<Rightarrow> ustr"

definition row_of ::
  "row_env \<Rightarrow> uuid \<Rightarrow> ustr \<Rightarrow> uuid option \<Rightarrow> uuid option \<Rightarrow> db_status \<Rightarrow> json option \<Rightarrow> run_row" where
  "row_of re run name dataset user status info =
     \<lparr>rr_run_id = run, rr_pipeline_id = re_v5 re name, rr_pipeline_name = name,
      rr_dataset_id = dataset, rr_status = status, rr_run_info = info, rr_user_id = user\<rparr>"

definition add_row :: "run_row \<Rightarrow> registry \<Rightarrow> registry" where
  "add_row r rg = rg\<lparr>rg_rows := rg_rows rg @ [r]\<rparr>"

text \<open>The row and the event that go with a terminal phase.\<close>

definition terminal_row ::
  "row_env \<Rightarrow> uuid \<Rightarrow> ustr \<Rightarrow> uuid option \<Rightarrow> uuid option \<Rightarrow> uuid list \<Rightarrow> run_phase \<Rightarrow> run_row" where
  "terminal_row re run name dataset user data_ids phase =
     (case phase of
        PhaseCompleted \<Rightarrow>
          row_of re run name dataset user Completed (Some (run_info_for_running (re_show re) data_ids))
      | PhaseErrored m \<Rightarrow>
          row_of re run name dataset user Errored (Some (run_info_for_errored (re_show re) data_ids m))
      | _ \<Rightarrow> row_of re run name dataset user Errored None)"

definition terminal_event :: "run_phase \<Rightarrow> run_event_kind" where
  "terminal_event phase =
     (case phase of
        PhaseCompleted \<Rightarrow> EvCompleted
      | PhaseErrored m \<Rightarrow> EvErrored m
      | _ \<Rightarrow> EvErrored (ascii ''unexpected terminal phase''))"

text \<open>What \<open>work.await\<close> returned: nothing, or the display of its error.\<close>

definition phase_of_work :: "ustr option \<Rightarrow> run_phase" where
  "phase_of_work err = (case err of None \<Rightarrow> PhaseCompleted | Some m \<Rightarrow> PhaseErrored m)"

section \<open>Retention and capacity\<close>

definition expired :: "registry_config \<Rightarrow> nat \<Rightarrow> run_slot \<Rightarrow> bool" where
  "expired cf now sl \<longleftrightarrow>
     (case sl_finished_at sl of None \<Rightarrow> False | Some fa \<Rightarrow> cf_retention cf < now - fa)"

definition run_retention :: "registry_config \<Rightarrow> nat \<Rightarrow> registry \<Rightarrow> registry" where
  "run_retention cf now rg =
     (let gone = map fst (filter (\<lambda>(i, sl). expired cf now sl) (rg_runs rg)) in
      rg\<lparr>rg_runs := filter (\<lambda>(i, sl). i \<notin> set gone) (rg_runs rg),
         rg_order := filter (\<lambda>i. i \<notin> set gone) (rg_order rg)\<rparr>)"

definition finished :: "registry \<Rightarrow> uuid \<Rightarrow> bool" where
  "finished rg i \<longleftrightarrow> (case slot_of rg i of None \<Rightarrow> False | Some sl \<Rightarrow> sl_finished_at sl \<noteq> None)"

fun remove_first :: "('a \<Rightarrow> bool) \<Rightarrow> 'a list \<Rightarrow> ('a \<times> 'a list) option" where
  "remove_first P [] = None"
| "remove_first P (x # xs) =
     (if P x then Some (x, xs) else map_option (\<lambda>(y, ys). (y, x # ys)) (remove_first P xs))"

definition ensure_capacity :: "registry_config \<Rightarrow> registry \<Rightarrow> registry_error + registry" where
  "ensure_capacity cf rg =
     (if length (rg_runs rg) < cf_max_runs cf then Inr rg
      else
        (case remove_first (finished rg) (rg_order rg) of
           None \<Rightarrow> Inl RegistryFull
         | Some (i, order) \<Rightarrow>
             Inr (rg\<lparr>rg_runs := AList.delete i (rg_runs rg), rg_order := order\<rparr>)))"

section \<open>Registering and finishing\<close>

definition handle_of :: "uuid \<Rightarrow> nat \<Rightarrow> run_spec \<Rightarrow> run_handle" where
  "handle_of run now spec =
     \<lparr>rh_run_id = run, rh_task_run_id = run, rh_user_id = rs_user_id spec,
      rh_dataset_id = rs_dataset_id spec, rh_pipeline_name = rs_pipeline_name spec,
      rh_started_at = now\<rparr>"

definition create_slot ::
  "(run_phase \<Rightarrow> watch \<Rightarrow> watch) \<Rightarrow> nat \<Rightarrow> uuid \<Rightarrow> run_spec \<Rightarrow> registry \<Rightarrow> registry" where
  "create_slot send now run spec rg =
     (case slot_of rg run of
        Some sl \<Rightarrow>
          on_channel (set_phase send Pending) (sl_chan sl)
            (put_slot run (sl\<lparr>sl_meta := handle_of run now spec, sl_data_ids := rs_data_ids spec\<rparr>) rg)
      | None \<Rightarrow>
          (put_slot run
             \<lparr>sl_chan = length (rg_chans rg), sl_finished_at = None, sl_abort_handle = None,
              sl_meta = handle_of run now spec, sl_data_ids = rs_data_ids spec\<rparr> rg)
            \<lparr>rg_chans := rg_chans rg @ [new_channel], rg_order := rg_order rg @ [run]\<rparr>)"

definition finish_slot ::
  "(run_phase \<Rightarrow> watch \<Rightarrow> watch) \<Rightarrow> nat \<Rightarrow> uuid \<Rightarrow> run_phase \<Rightarrow> registry \<Rightarrow> registry" where
  "finish_slot send now run phase rg =
     (case slot_of rg run of
        None \<Rightarrow> rg
      | Some sl \<Rightarrow>
          on_channel (publish (terminal_event phase) \<circ> set_phase send phase) (sl_chan sl)
            (put_slot run (sl\<lparr>sl_finished_at := Some now\<rparr>) rg))"

text \<open>
  \<open>run_work_inline\<close> up to \<open>work.await\<close>, and from there on. The snapshot of the slot is taken
  before the work runs.
\<close>

definition inline_begin ::
  "(run_phase \<Rightarrow> watch \<Rightarrow> watch) \<Rightarrow> row_env \<Rightarrow> uuid \<Rightarrow> registry
     \<Rightarrow> registry \<times> (run_handle \<times> uuid list) option" where
  "inline_begin send re run rg =
     (case slot_of rg run of
        None \<Rightarrow> (rg, None)
      | Some sl \<Rightarrow>
          (let m = sl_meta sl in
           (add_row (row_of re run (rh_pipeline_name m) (rh_dataset_id m) (rh_user_id m) Started
                       (Some (run_info_for_running (re_show re) (sl_data_ids sl))))
              (on_channel (publish EvStarted \<circ> set_phase send Running) (sl_chan sl) rg),
            Some (m, sl_data_ids sl))))"

definition inline_end ::
  "(run_phase \<Rightarrow> watch \<Rightarrow> watch) \<Rightarrow> row_env \<Rightarrow> nat \<Rightarrow> uuid \<Rightarrow> (run_handle \<times> uuid list) option
     \<Rightarrow> run_phase \<Rightarrow> registry \<Rightarrow> registry" where
  "inline_end send re now run snap phase rg =
     finish_slot send now run phase
       (case snap of
          None \<Rightarrow> rg
        | Some (m, data_ids) \<Rightarrow>
            add_row (terminal_row re run (rh_pipeline_name m) (rh_dataset_id m) (rh_user_id m)
                       data_ids phase) rg)"

text \<open>
  \<open>register_inline\<close>: \<open>work\<close> is what happens to the registry while the work future is awaited, and
  what the future returns. \<open>fresh\<close> is the id drawn when the spec has none.
\<close>

definition register_inline ::
  "(run_phase \<Rightarrow> watch \<Rightarrow> watch) \<Rightarrow> row_env \<Rightarrow> registry_config \<Rightarrow> uuid \<Rightarrow> nat \<Rightarrow> nat \<Rightarrow> run_spec
     \<Rightarrow> (registry \<Rightarrow> registry \<times> ustr option) \<Rightarrow> registry \<Rightarrow> registry \<times> (registry_error + uuid \<times> run_phase)"
where
  "register_inline send re cf fresh now later spec work rg =
     (case ensure_capacity cf rg of
        Inl e \<Rightarrow> (rg, Inl e)
      | Inr rg1 \<Rightarrow>
          (let run = (case rs_run_id spec of None \<Rightarrow> fresh | Some i \<Rightarrow> i);
               (rg2, snap) = inline_begin send re run (create_slot send now run spec rg1);
               (rg3, err) = work rg2;
               phase = phase_of_work err
           in (inline_end send re later run snap phase rg3, Inr (run, phase))))"

definition register_background ::
  "(run_phase \<Rightarrow> watch \<Rightarrow> watch) \<Rightarrow> registry_config \<Rightarrow> uuid \<Rightarrow> nat \<Rightarrow> run_spec \<Rightarrow> registry
     \<Rightarrow> registry \<times> (registry_error + run_handle)" where
  "register_background send cf fresh now spec rg =
     (case ensure_capacity cf rg of
        Inl e \<Rightarrow> (rg, Inl e)
      | Inr rg1 \<Rightarrow>
          (let run = (case rs_run_id spec of None \<Rightarrow> fresh | Some i \<Rightarrow> i);
               rg2 = create_slot send now run spec rg1
           in (case slot_of rg2 run of
                 None \<Rightarrow> rg2
               | Some sl \<Rightarrow>
                   (put_slot run (sl\<lparr>sl_abort_handle := Some (length (rg_jobs rg2))\<rparr>) rg2)
                     \<lparr>rg_jobs := rg_jobs rg2 @
                        [\<lparr>jb_run_id = run, jb_chan = sl_chan sl, jb_spec = spec, jb_state = JobSpawned\<rparr>]\<rparr>,
               Inr (handle_of run now spec))))"

text \<open>The spawned task: its \<open>STARTED\<close> row, then the work, then its terminal row.\<close>

definition set_job :: "nat \<Rightarrow> job_state \<Rightarrow> registry \<Rightarrow> registry" where
  "set_job k s rg = rg\<lparr>rg_jobs := (rg_jobs rg)[k := (rg_jobs rg ! k)\<lparr>jb_state := s\<rparr>]\<rparr>"

definition job_begin :: "row_env \<Rightarrow> nat \<Rightarrow> registry \<Rightarrow> registry" where
  "job_begin re k rg =
     (let j = rg_jobs rg ! k; sp = jb_spec j in
      if jb_state j \<noteq> JobSpawned then rg
      else
        add_row (row_of re (jb_run_id j) (rs_pipeline_name sp) (rs_dataset_id sp) (rs_user_id sp) Started
                   (Some (run_info_for_running (re_show re) (rs_data_ids sp))))
          (set_job k JobRunning rg))"

definition job_end :: "row_env \<Rightarrow> nat \<Rightarrow> ustr option \<Rightarrow> registry \<Rightarrow> registry" where
  "job_end re k err rg =
     (let j = rg_jobs rg ! k; sp = jb_spec j; phase = phase_of_work err in
      if jb_state j \<noteq> JobRunning then rg
      else
        add_row (terminal_row re (jb_run_id j) (rs_pipeline_name sp) (rs_dataset_id sp) (rs_user_id sp)
                   (rs_data_ids sp) phase)
          (set_job k (JobReturned phase) rg))"

text \<open>The finisher: it reports on the channel it cloned, and nowhere else.\<close>

definition job_report :: "(run_phase \<Rightarrow> watch \<Rightarrow> watch) \<Rightarrow> nat \<Rightarrow> registry \<Rightarrow> registry" where
  "job_report send k rg =
     (let j = rg_jobs rg ! k;
          tell = (\<lambda>phase. on_channel (publish (terminal_event phase) \<circ> set_phase send phase) (jb_chan j)
                            (set_job k JobReported rg))
      in case jb_state j of
           JobReturned phase \<Rightarrow> tell phase
         | JobAborted \<Rightarrow> tell (PhaseErrored (ascii ''task was aborted or panicked''))
         | _ \<Rightarrow> rg)"

section \<open>Observing, aborting, shutting down\<close>

definition publish_already_completed :: "uuid \<Rightarrow> registry \<Rightarrow> registry \<times> bool" where
  "publish_already_completed run rg =
     (case slot_of rg run of
        None \<Rightarrow> (rg, False)
      | Some sl \<Rightarrow> (on_channel (publish EvAlreadyCompleted) (sl_chan sl) rg, True))"

definition watcher_for :: "registry \<Rightarrow> uuid \<Rightarrow> nat option" where
  "watcher_for rg run = map_option sl_chan (slot_of rg run)"

text \<open>\<open>subscribe\<close>: a subscriber that comes before the producer leaves a placeholder slot.\<close>

definition subscribe :: "nat \<Rightarrow> uuid \<Rightarrow> registry \<Rightarrow> registry \<times> nat" where
  "subscribe now run rg =
     (case slot_of rg run of
        Some sl \<Rightarrow> (rg, sl_chan sl)
      | None \<Rightarrow>
          ((put_slot run
              \<lparr>sl_chan = length (rg_chans rg), sl_finished_at = None, sl_abort_handle = None,
               sl_meta = \<lparr>rh_run_id = run, rh_task_run_id = run, rh_user_id = None,
                          rh_dataset_id = None, rh_pipeline_name = [], rh_started_at = now\<rparr>,
               sl_data_ids = []\<rparr> rg)
             \<lparr>rg_chans := rg_chans rg @ [new_channel], rg_order := rg_order rg @ [run]\<rparr>,
           length (rg_chans rg)))"

definition snapshot_status :: "registry \<Rightarrow> uuid \<Rightarrow> run_phase option" where
  "snapshot_status rg run =
     map_option (\<lambda>sl. wt_value (ch_phase (rg_chans rg ! sl_chan sl))) (slot_of rg run)"

text \<open>\<open>AbortHandle::abort\<close> stops the task of the handle if it has not returned.\<close>

definition abort_job :: "nat \<Rightarrow> registry \<Rightarrow> registry" where
  "abort_job k rg =
     (if jb_state (rg_jobs rg ! k) \<in> {JobSpawned, JobRunning} then set_job k JobAborted rg else rg)"

definition abort_run ::
  "(run_phase \<Rightarrow> watch \<Rightarrow> watch) \<Rightarrow> row_env \<Rightarrow> registry_config \<Rightarrow> nat \<Rightarrow> uuid \<Rightarrow> registry
     \<Rightarrow> registry \<times> (registry_error + unit)" where
  "abort_run send re cf now run rg =
     (case slot_of rg run of
        None \<Rightarrow> (rg, Inl (UnknownRun run))
      | Some sl \<Rightarrow>
          (let m = sl_meta sl;
               rg1 = (case sl_abort_handle sl of None \<Rightarrow> rg | Some k \<Rightarrow> abort_job k rg);
               rg2 = (if cf_abort_row cf
                      then add_row (row_of re run (rh_pipeline_name m) (rh_dataset_id m) (rh_user_id m)
                             Errored (Some (run_info_for_errored (re_show re) (sl_data_ids sl) (ascii ''abort''))))
                             rg1
                      else rg1);
               msg = ascii ''aborted'';
               rg3 = on_channel (publish (EvErrored msg) \<circ> set_phase send (PhaseErrored msg)) (sl_chan sl) rg2
           in (put_slot run (sl\<lparr>sl_finished_at := Some now\<rparr>) rg3, Inr ())))"

definition shutdown ::
  "(run_phase \<Rightarrow> watch \<Rightarrow> watch) \<Rightarrow> row_env \<Rightarrow> registry_config \<Rightarrow> nat \<Rightarrow> registry \<Rightarrow> registry" where
  "shutdown send re cf now rg =
     (let in_flight = map fst (filter (\<lambda>(i, sl). sl_finished_at sl = None) (rg_runs rg));
          rg1 = foldl (\<lambda>r i. fst (abort_run send re cf now i r)) rg in_flight
      in rg1\<lparr>rg_runs := []\<rparr>)"

text \<open>
  \<open>new_with_orphan_reset\<close>: both recovery steps are tried, on the repository's state \<open>'d\<close>, whatever
  the other gives; the first error is returned once both have been tried.
\<close>

definition new_with_orphan_reset ::
  "('d \<Rightarrow> 'd \<times> (ustr + nat)) \<Rightarrow> ('d \<Rightarrow> 'd \<times> (ustr + nat)) \<Rightarrow> bool \<Rightarrow> 'd
     \<Rightarrow> 'd \<times> (registry_error + registry)" where
  "new_with_orphan_reset reset_orphans release_all_claims sweep_claims db =
     (let (db1, orphan_reset) = reset_orphans db;
          (db2, claim_sweep) = (if sweep_claims then release_all_claims db1 else (db1, Inr 0))
      in (db2,
          case (orphan_reset, claim_sweep) of
            (Inl e, _) \<Rightarrow> Inl (Repository e)
          | (Inr _, Inl e) \<Rightarrow> Inl (Repository e)
          | (Inr _, Inr _) \<Rightarrow> Inr registry_new))"

section \<open>The scoped watcher\<close>

definition core_to_db_status :: "run_status \<Rightarrow> db_status" where
  "core_to_db_status s =
     (case s of RunInitiated \<Rightarrow> Initiated | RunStarted \<Rightarrow> Started | RunCompleted \<Rightarrow> Completed
      | RunErrored \<Rightarrow> Errored)"

definition info_row :: "run_info \<Rightarrow> db_status \<Rightarrow> json option \<Rightarrow> run_row" where
  "info_row ri status info =
     \<lparr>rr_run_id = ri_run_id ri, rr_pipeline_id = ri_pipeline_id ri,
      rr_pipeline_name = ri_pipeline_name ri, rr_dataset_id = ri_dataset_id ri,
      rr_status = status, rr_run_info = info, rr_user_id = ri_user_id ri\<rparr>"

text \<open>
  A watcher writes at most one row of each status for its run. A write that fails is logged, and nothing
  else comes of it: \<open>lost\<close> names the statuses whose writes fail.
\<close>

definition write_row :: "(db_status \<Rightarrow> bool) \<Rightarrow> run_row \<Rightarrow> run_row list \<Rightarrow> run_row list" where
  "write_row lost r rows = (if lost (rr_status r) then rows else rows @ [r])"

definition log_row :: "(db_status \<Rightarrow> bool) \<Rightarrow> run_row \<Rightarrow> registry \<Rightarrow> registry" where
  "log_row lost r rg = rg\<lparr>rg_rows := write_row lost r (rg_rows rg)\<rparr>"

text \<open>
  \<open>ScopedRunWatcher\<close> on the channel \<open>k\<close>: the row first, then the live event, whether the row was
  written or not. An initiated run has no live event, and the callbacks for tasks do nothing.
\<close>

definition scoped_watch ::
  "(run_phase \<Rightarrow> watch \<Rightarrow> watch) \<Rightarrow> row_env \<Rightarrow> (db_status \<Rightarrow> bool) \<Rightarrow> nat \<Rightarrow> event \<Rightarrow> registry \<Rightarrow> registry" where
  "scoped_watch send re lost k e rg =
     (case e of
        OnRunInitiated ri \<Rightarrow> log_row lost (info_row ri Initiated (Some run_info_for_initiated)) rg
      | OnRunStarted ri \<Rightarrow>
          on_channel (publish EvStarted \<circ> set_phase send Running) k
            (log_row lost (info_row ri (core_to_db_status (ri_status ri))
               (Some (run_info_for_running (re_show re) (ri_data_ids ri)))) rg)
      | OnRunCompleted ri n \<Rightarrow>
          on_channel (publish EvCompleted \<circ> set_phase send PhaseCompleted) k
            (log_row lost (info_row ri Completed
               (Some (run_info_for_running (re_show re) (ri_data_ids ri)))) rg)
      | OnRunErrored ri m \<Rightarrow>
          on_channel (publish (EvErrored m) \<circ> set_phase send (PhaseErrored m)) k
            (log_row lost (info_row ri Errored
               (Some (run_info_for_errored (re_show re) (ri_data_ids ri) m))) rg)
      | _ \<Rightarrow> rg)"

definition watch_run ::
  "(run_phase \<Rightarrow> watch \<Rightarrow> watch) \<Rightarrow> row_env \<Rightarrow> (db_status \<Rightarrow> bool) \<Rightarrow> nat \<Rightarrow> event list \<Rightarrow> registry \<Rightarrow> registry" where
  "watch_run send re lost k es rg = foldl (\<lambda>r e. scoped_watch send re lost k e r) rg es"

text \<open>
  \<open>DbPipelineWatcher\<close> (\<open>db_watcher.rs\<close>) writes the same rows and has no channel; its state is the
  trail itself.
\<close>

definition db_watch :: "row_env \<Rightarrow> (db_status \<Rightarrow> bool) \<Rightarrow> event \<Rightarrow> run_row list \<Rightarrow> run_row list" where
  "db_watch re lost e rows =
     (case e of
        OnRunInitiated ri \<Rightarrow> write_row lost (info_row ri Initiated (Some run_info_for_initiated)) rows
      | OnRunStarted ri \<Rightarrow>
          write_row lost (info_row ri (core_to_db_status (ri_status ri))
                    (Some (run_info_for_running (re_show re) (ri_data_ids ri)))) rows
      | OnRunCompleted ri n \<Rightarrow>
          write_row lost (info_row ri Completed (Some (run_info_for_running (re_show re) (ri_data_ids ri)))) rows
      | OnRunErrored ri m \<Rightarrow>
          write_row lost (info_row ri Errored (Some (run_info_for_errored (re_show re) (ri_data_ids ri) m))) rows
      | _ \<Rightarrow> rows)"

section \<open>Deterministic ids\<close>

text \<open>\<open>ids.rs\<close>; \<open>uuid5\<close> in the OID namespace and the UUID display are parameters.\<close>

definition pipeline_id_of :: "row_env \<Rightarrow> uuid \<Rightarrow> uuid \<Rightarrow> ustr \<Rightarrow> uuid" where
  "pipeline_id_of re user_id dataset_id name = re_v5 re (re_show re user_id @ name @ re_show re dataset_id)"

definition pipeline_run_id_of :: "row_env \<Rightarrow> uuid \<Rightarrow> uuid \<Rightarrow> uuid" where
  "pipeline_run_id_of re pipeline_id dataset_id =
     re_v5 re (re_show re pipeline_id @ ascii ''_'' @ re_show re dataset_id)"

end
