(* ===== verification/Registry_Props.thy ===== *)
theory Registry_Props
  imports Run_Registry
begin

text \<open>
  The registry as a transition system: the steps are its operations, the moves of the tasks it
  spawned and the callbacks of the watchers it handed out, in any order. The invariants hold in
  every reachable registry.
\<close>

inductive reg_step ::
  "(run_phase \<Rightarrow> watch \<Rightarrow> watch) \<Rightarrow> row_env \<Rightarrow> registry_config \<Rightarrow> registry \<Rightarrow> registry \<Rightarrow> bool"
  for send re cf where
  retention: "reg_step send re cf rg (run_retention cf now rg)"
| inline_start: "ensure_capacity cf rg = Inr rg1 \<Longrightarrow>
    reg_step send re cf rg (fst (inline_begin send re run (create_slot send now run spec rg1)))"
| inline_finish: "reg_step send re cf rg (inline_end send re now run snap phase rg)"
| background: "reg_step send re cf rg (fst (register_background send cf fresh now spec rg))"
| job_starts: "k < length (rg_jobs rg) \<Longrightarrow> reg_step send re cf rg (job_begin re k rg)"
| job_returns: "k < length (rg_jobs rg) \<Longrightarrow> reg_step send re cf rg (job_end re k err rg)"
| job_reports: "k < length (rg_jobs rg) \<Longrightarrow> reg_step send re cf rg (job_report send k rg)"
| already: "reg_step send re cf rg (fst (publish_already_completed run rg))"
| watcher: "watcher_for rg run = Some k \<Longrightarrow> reg_step send re cf rg (scoped_watch send re lost k e rg)"
| subscription: "reg_step send re cf rg (fst (subscribe now run rg))"
| abortion: "reg_step send re cf rg (fst (abort_run send re cf now run rg))"
| shutting_down: "reg_step send re cf rg (shutdown send re cf now rg)"

inductive_cases reg_stepE: "reg_step send re cf rg rg'"

inductive reg_reachable ::
  "(run_phase \<Rightarrow> watch \<Rightarrow> watch) \<Rightarrow> row_env \<Rightarrow> registry_config \<Rightarrow> registry \<Rightarrow> bool"
  for send re cf where
  reach_new: "reg_reachable send re cf registry_new"
| reach_step: "reg_reachable send re cf rg \<Longrightarrow> reg_step send re cf rg rg' \<Longrightarrow>
    reg_reachable send re cf rg'"

section \<open>Well-formedness\<close>

definition slot_ok :: "registry \<Rightarrow> uuid \<Rightarrow> run_slot \<Rightarrow> bool" where
  "slot_ok rg i sl \<longleftrightarrow>
     i \<in> set (rg_order rg) \<and> sl_chan sl < length (rg_chans rg) \<and>
     (\<forall>k. sl_abort_handle sl = Some k \<longrightarrow> k < length (rg_jobs rg))"

definition chan_quiet :: "channel \<Rightarrow> bool" where
  "chan_quiet c \<longleftrightarrow> wt_value (ch_phase c) = Pending \<and> wt_receivers (ch_phase c) = 0"

definition reg_wf :: "registry \<Rightarrow> bool" where
  "reg_wf rg \<longleftrightarrow>
     distinct (map fst (rg_runs rg)) \<and> (\<forall>(i, sl) \<in> set (rg_runs rg). slot_ok rg i sl) \<and>
     (\<forall>j \<in> set (rg_jobs rg). jb_chan j < length (rg_chans rg)) \<and>
     (\<forall>c \<in> set (rg_chans rg). chan_quiet c)"

named_theorems reg_wf_intros \<open>operations preserve well-formedness\<close>

lemma reg_wf_new: "reg_wf registry_new"
  by (simp add: reg_wf_def registry_new_def)

lemma slot_in: "slot_of rg i = Some sl \<Longrightarrow> (i, sl) \<in> set (rg_runs rg)"
  by (auto simp: slot_of_def dest: map_of_SomeD)

lemma slot_wf: "reg_wf rg \<Longrightarrow> slot_of rg i = Some sl \<Longrightarrow> slot_ok rg i sl"
  by (auto simp: reg_wf_def dest!: slot_in)

lemma reg_wf_cong:
  assumes "reg_wf rg" and "rg_runs rg' = rg_runs rg" and "set (rg_order rg) \<subseteq> set (rg_order rg')"
    and "length (rg_chans rg') = length (rg_chans rg)" and "length (rg_jobs rg') = length (rg_jobs rg)"
    and "\<forall>c \<in> set (rg_chans rg'). chan_quiet c"
    and "\<forall>j \<in> set (rg_jobs rg'). jb_chan j < length (rg_chans rg)"
  shows "reg_wf rg'"
  using assms by (fastforce simp: reg_wf_def slot_ok_def)

lemma set_update_cases: "x \<in> set (xs[k := f (xs ! k)]) \<Longrightarrow> x \<in> set xs \<or> (\<exists>y \<in> set xs. x = f y)"
  by (cases "k < length xs")
    (auto simp: list_update_beyond dest!: set_update_subset_insert [THEN subsetD])

lemma on_channel_wf:
  assumes "reg_wf rg" and "\<And>c. chan_quiet c \<Longrightarrow> chan_quiet (f c)"
  shows "reg_wf (on_channel f k rg)"
  by (rule reg_wf_cong [OF assms(1)])
    (use assms in \<open>auto simp: on_channel_def reg_wf_def dest!: set_update_cases\<close>)

lemma publish_wf [reg_wf_intros]: "reg_wf rg \<Longrightarrow> reg_wf (on_channel (publish e) k rg)"
  by (rule on_channel_wf) (simp_all add: publish_def chan_quiet_def)

lemma set_phase_wf [reg_wf_intros]:
  "watch_law send \<Longrightarrow> reg_wf rg \<Longrightarrow> reg_wf (on_channel (set_phase send p) k rg)"
  by (rule on_channel_wf) (simp_all add: set_phase_def watch_law_def chan_quiet_def)

lemma publish_phase_wf [reg_wf_intros]:
  "watch_law send \<Longrightarrow> reg_wf rg \<Longrightarrow> reg_wf (on_channel (publish e \<circ> set_phase send p) k rg)"
  by (rule on_channel_wf) (simp_all add: set_phase_def publish_def watch_law_def chan_quiet_def)

lemma add_row_wf [reg_wf_intros]: "reg_wf rg \<Longrightarrow> reg_wf (add_row r rg)"
  by (rule reg_wf_cong) (auto simp: add_row_def reg_wf_def)

lemma log_row_wf [reg_wf_intros]: "reg_wf rg \<Longrightarrow> reg_wf (log_row lost r rg)"
  by (rule reg_wf_cong) (auto simp: log_row_def reg_wf_def)

lemma set_job_wf [reg_wf_intros]: "reg_wf rg \<Longrightarrow> reg_wf (set_job k s rg)"
  by (rule reg_wf_cong) (auto simp: set_job_def reg_wf_def dest!: set_update_cases)

lemma set_alist_update: "(j, w) \<in> set (AList.update i v xs) \<Longrightarrow> (j, w) = (i, v) \<or> (j, w) \<in> set xs"
  by (induction xs) (auto split: if_splits)

lemma put_slot_wf: "reg_wf rg \<Longrightarrow> slot_ok rg i sl \<Longrightarrow> reg_wf (put_slot i sl rg)"
  by (auto simp: reg_wf_def put_slot_def slot_ok_def AList.distinct_update dest!: set_alist_update)

lemma put_slot_same:
  "reg_wf rg \<Longrightarrow> slot_of rg i = Some sl \<Longrightarrow> sl_chan sl' = sl_chan sl \<Longrightarrow>
     sl_abort_handle sl' = sl_abort_handle sl \<Longrightarrow> reg_wf (put_slot i sl' rg)"
  by (rule put_slot_wf) (auto dest: slot_wf simp: slot_ok_def)

text \<open>A new slot comes with its own channel.\<close>

lemma new_slot_wf:
  assumes "reg_wf rg" and "sl_chan sl = length (rg_chans rg)" and "sl_abort_handle sl = None"
  shows "reg_wf ((put_slot i sl rg)\<lparr>rg_chans := rg_chans rg @ [new_channel], rg_order := rg_order rg @ [i]\<rparr>)"
proof -
  let ?rg = "rg\<lparr>rg_chans := rg_chans rg @ [new_channel], rg_order := rg_order rg @ [i]\<rparr>"
  have "reg_wf ?rg"
    using assms(1) by (fastforce simp: reg_wf_def slot_ok_def new_channel_def chan_quiet_def)
  then have "reg_wf (put_slot i sl ?rg)"
    using assms(2,3) by (intro put_slot_wf) (simp_all add: slot_ok_def)
  then show ?thesis by (cases rg) (simp add: put_slot_def)
qed

lemma filter_runs_wf:
  "reg_wf rg \<Longrightarrow> reg_wf (rg\<lparr>rg_runs := filter (\<lambda>(i, sl). i \<notin> A) (rg_runs rg),
     rg_order := filter (\<lambda>i. i \<notin> A) (rg_order rg)\<rparr>)"
  by (auto simp: reg_wf_def slot_ok_def distinct_map_filter split: prod.splits)

lemma retention_wf: "reg_wf rg \<Longrightarrow> reg_wf (run_retention cf now rg)"
  unfolding run_retention_def Let_def by (rule filter_runs_wf)

lemma remove_first_Some:
  "remove_first P xs = Some (y, ys) \<Longrightarrow> \<exists>us vs. xs = us @ y # vs \<and> ys = us @ vs \<and> P y \<and> (\<forall>u \<in> set us. \<not> P u)"
proof (induction xs arbitrary: y ys)
  case (Cons x xs)
  show ?case
  proof (cases "P x")
    case True
    with Cons.prems have "x # xs = [] @ y # ys \<and> ys = [] @ ys \<and> P y" by auto
    then show ?thesis by fastforce
  next
    case False
    with Cons.prems obtain zs where "remove_first P xs = Some (y, zs)" "ys = x # zs" by auto
    with Cons.IH [of y zs] False obtain us vs
      where "xs = us @ y # vs" "ys = (x # us) @ vs" "P y" "\<forall>u \<in> set (x # us). \<not> P u" by auto
    then have "x # xs = (x # us) @ y # vs \<and> ys = (x # us) @ vs \<and> P y \<and> (\<forall>u \<in> set (x # us). \<not> P u)"
      by simp
    then show ?thesis by blast
  qed
qed simp

lemma capacity_wf:
  assumes "reg_wf rg" and "ensure_capacity cf rg = Inr rg'"
  shows "reg_wf rg'"
proof (cases "length (rg_runs rg) < cf_max_runs cf")
  case True
  with assms show ?thesis by (simp add: ensure_capacity_def)
next
  case False
  with assms(2) obtain i order where rf: "remove_first (finished rg) (rg_order rg) = Some (i, order)"
    and rg': "rg' = rg\<lparr>rg_runs := AList.delete i (rg_runs rg), rg_order := order\<rparr>"
    by (auto simp: ensure_capacity_def split: option.splits)
  have "set (rg_order rg) - {i} \<subseteq> set order" using remove_first_Some [OF rf] by auto
  with assms(1) show ?thesis
    by (auto simp: rg' reg_wf_def slot_ok_def AList.delete_eq distinct_map_filter split: prod.splits)
qed

lemma create_slot_wf:
  assumes "watch_law send" and "reg_wf rg"
  shows "reg_wf (create_slot send now run spec rg)"
proof (cases "slot_of rg run")
  case None
  with new_slot_wf [OF assms(2)] show ?thesis by (simp add: create_slot_def)
next
  case (Some sl)
  then show ?thesis
    using put_slot_same [OF assms(2) Some] by (simp add: create_slot_def set_phase_wf [OF assms(1)])
qed

lemma finish_slot_wf:
  assumes "watch_law send" and "reg_wf rg"
  shows "reg_wf (finish_slot send now run phase rg)"
  using put_slot_same [OF assms(2)]
  by (simp add: finish_slot_def assms publish_phase_wf split: option.split)

lemma inline_wf:
  assumes "watch_law send" and "reg_wf rg"
  shows "reg_wf (fst (inline_begin send re run rg))"
    and "reg_wf (inline_end send re now run snap phase rg)"
  using assms
  by (simp_all add: inline_begin_def inline_end_def Let_def add_row_wf publish_phase_wf finish_slot_wf
      split: option.split prod.split)

lemma background_wf:
  assumes "watch_law send" and "reg_wf rg"
  shows "reg_wf (fst (register_background send cf fresh now spec rg))"
proof (cases "ensure_capacity cf rg")
  case (Inl e)
  with assms show ?thesis by (simp add: register_background_def)
next
  case (Inr rg1)
  let ?run = "case rs_run_id spec of None \<Rightarrow> fresh | Some i \<Rightarrow> i"
  let ?rg2 = "create_slot send now ?run spec rg1"
  have wf: "reg_wf ?rg2" by (rule create_slot_wf [OF assms(1) capacity_wf [OF assms(2) Inr]])
  show ?thesis
  proof (cases "slot_of ?rg2 ?run")
    case None
    with Inr wf show ?thesis by (simp add: register_background_def Let_def)
  next
    case (Some sl)
    let ?j = "\<lparr>jb_run_id = ?run, jb_chan = sl_chan sl, jb_spec = spec, jb_state = JobSpawned\<rparr>"
    let ?rg3 = "?rg2\<lparr>rg_jobs := rg_jobs ?rg2 @ [?j]\<rparr>"
    have sl: "slot_ok ?rg2 ?run sl" by (rule slot_wf [OF wf Some])
    then have "reg_wf ?rg3"
      using wf by (fastforce simp: reg_wf_def slot_ok_def)
    then have "reg_wf (put_slot ?run (sl\<lparr>sl_abort_handle := Some (length (rg_jobs ?rg2))\<rparr>) ?rg3)"
      by (rule put_slot_wf) (use sl in \<open>simp add: slot_ok_def\<close>)
    with Inr Some show ?thesis
      by (cases ?rg2) (simp add: register_background_def Let_def put_slot_def)
  qed
qed

lemma job_wf:
  assumes "watch_law send" and "reg_wf rg"
  shows "reg_wf (job_begin re k rg)" "reg_wf (job_end re k err rg)" "reg_wf (job_report send k rg)"
  using assms
  by (simp_all add: job_begin_def job_end_def job_report_def Let_def reg_wf_intros split: job_state.split)

lemma observe_wf:
  assumes "watch_law send" and "reg_wf rg"
  shows "reg_wf (fst (publish_already_completed run rg))" "reg_wf (scoped_watch send re lost k e rg)"
    "reg_wf (fst (subscribe now run rg))"
  using assms
  by (simp_all add: publish_already_completed_def scoped_watch_def subscribe_def reg_wf_intros
      new_slot_wf split: option.split event.split)

lemma abort_wf:
  assumes "watch_law send" and "reg_wf rg"
  shows "reg_wf (fst (abort_run send re cf now run rg))"
proof (cases "slot_of rg run")
  case None
  with assms show ?thesis by (simp add: abort_run_def)
next
  case (Some sl)
  define rg1 where "rg1 = (case sl_abort_handle sl of None \<Rightarrow> rg | Some k \<Rightarrow> abort_job k rg)"
  have 1: "reg_wf rg1"
    using assms by (simp add: rg1_def abort_job_def set_job_wf split: option.split)
  have "slot_ok rg1 run sl"
    using slot_wf [OF assms(2) Some]
    by (simp add: rg1_def abort_job_def set_job_def slot_ok_def split: option.split)
  then have s: "slot_ok (on_channel f c (if b then add_row r rg1 else rg1)) run (sl\<lparr>sl_finished_at := t\<rparr>)"
    for f c b r t
    by (simp add: slot_ok_def on_channel_def add_row_def)
  have "reg_wf (if b then add_row r rg1 else rg1)" for b r
    using 1 by (simp add: add_row_wf)
  then show ?thesis
    using Some by (simp add: abort_run_def Let_def rg1_def [symmetric] put_slot_wf
        publish_phase_wf [OF assms(1)] s)
qed

lemma shutdown_wf:
  assumes "watch_law send" and "reg_wf rg"
  shows "reg_wf (shutdown send re cf now rg)"
proof -
  have "reg_wf (foldl (\<lambda>r i. fst (abort_run send re cf now i r)) rg ids)" for ids
    using assms(2) by (induction ids arbitrary: rg) (simp_all add: abort_wf [OF assms(1)])
  then show ?thesis by (simp add: shutdown_def Let_def reg_wf_def)
qed

lemma reachable_wf:
  assumes "watch_law send" and "reg_reachable send re cf rg"
  shows "reg_wf rg"
  using assms(2)
proof (induction rule: reg_reachable.induct)
  case reach_new
  show ?case by (rule reg_wf_new)
next
  case (reach_step rg rg')
  note wf = \<open>reg_wf rg\<close>
  from reach_step.hyps(2) show ?case
    by (cases rule: reg_step.cases)
      (simp_all add: retention_wf inline_wf background_wf job_wf [OF assms(1)] observe_wf [OF assms(1)] abort_wf
        shutdown_wf create_slot_wf assms(1) wf capacity_wf [OF wf])
qed

section \<open>Properties\<close>

definition tokio_send :: "run_phase \<Rightarrow> watch \<Rightarrow> watch" where
  "tokio_send v w = (if wt_receivers w = 0 then w else w\<lparr>wt_value := v\<rparr>)"

definition sample_spec :: run_spec where
  "sample_spec = \<lparr>rs_run_id = None, rs_pipeline_name = [99], rs_user_id = None, rs_dataset_id = Some 4,
     rs_data_ids = [5]\<rparr>"

definition sample_rows :: row_env where
  "sample_rows = \<lparr>re_v5 = length, re_show = show_nat\<rparr>"

text \<open>
  C36: The status a caller can read never moves. In every reachable registry, whatever has run,
  completed, failed or been aborted, \<open>snapshot_status\<close> says pending for every known run: the
  registry keeps no receiver of the watch channels, and such a channel does not store what is
  sent.
\<close>

theorem snapshot_is_always_pending:
  assumes "watch_law send" and "reg_reachable send re cf rg"
  shows "snapshot_status rg run = (case slot_of rg run of None \<Rightarrow> None | Some _ \<Rightarrow> Some Pending)"
proof (cases "slot_of rg run")
  case (Some sl)
  have wf: "reg_wf rg" by (rule reachable_wf [OF assms])
  then have "sl_chan sl < length (rg_chans rg)" using slot_wf [OF wf Some] by (simp add: slot_ok_def)
  with wf have "wt_value (ch_phase (rg_chans rg ! sl_chan sl)) = Pending"
    by (simp add: reg_wf_def chan_quiet_def)
  with Some show ?thesis by (simp add: snapshot_status_def)
qed (simp add: snapshot_status_def)

definition sample_slot :: run_slot where
  "sample_slot = \<lparr>sl_chan = 0, sl_finished_at = None, sl_abort_handle = Some 0,
     sl_meta = handle_of 7 0 sample_spec, sl_data_ids = [5]\<rparr>"

lemma sample_background:
  "0 < cf_max_runs cf \<Longrightarrow>
   fst (register_background send cf 7 0 sample_spec registry_new) =
     \<lparr>rg_runs = [(7, sample_slot)], rg_order = [7], rg_chans = [new_channel], rg_rows = [],
      rg_jobs = [\<lparr>jb_run_id = 7, jb_chan = 0, jb_spec = sample_spec, jb_state = JobSpawned\<rparr>]\<rparr>"
  by (simp add: register_background_def ensure_capacity_def registry_new_def create_slot_def
      slot_of_def put_slot_def sample_spec_def sample_slot_def Let_def)

text \<open>The same run once its task has returned and the finisher has reported.\<close>

lemma sample_background_done:
  assumes "0 < cf_max_runs cf"
  shows "job_report send 0 (job_end re 0 err (job_begin re 0
      (fst (register_background send cf 7 0 sample_spec registry_new)))) =
    \<lparr>rg_runs = [(7, sample_slot)], rg_order = [7],
     rg_chans = [publish (terminal_event (phase_of_work err))
                   (set_phase send (phase_of_work err) new_channel)],
     rg_rows = [row_of re 7 [99] (Some 4) None Started (Some (run_info_for_running (re_show re) [5])),
                terminal_row re 7 [99] (Some 4) None [5] (phase_of_work err)],
     rg_jobs = [\<lparr>jb_run_id = 7, jb_chan = 0, jb_spec = sample_spec, jb_state = JobReported\<rparr>]\<rparr>"
  unfolding sample_background [OF assms]
  by (simp add: job_begin_def job_end_def job_report_def set_job_def add_row_def on_channel_def Let_def)
     (simp add: sample_spec_def)

lemma sample_law: "watch_law tokio_send" by (simp add: watch_law_def tokio_send_def)

text \<open>The steps of a background run, up to its report.\<close>

lemma sample_reachable:
  "reg_reachable tokio_send re cf (fst (register_background tokio_send cf 7 0 sample_spec registry_new))"
  "0 < cf_max_runs cf \<Longrightarrow> reg_reachable tokio_send re cf (job_report tokio_send 0 (job_end re 0 err (job_begin re 0
     (fst (register_background tokio_send cf 7 0 sample_spec registry_new)))))"
proof -
  let ?rg = "fst (register_background tokio_send cf 7 0 sample_spec registry_new)"
  show r: "reg_reachable tokio_send re cf ?rg"
    by (rule reach_step [OF reach_new background])
  assume cap: "0 < cf_max_runs cf"
  have len: "length (rg_jobs ?rg) = 1" by (simp add: sample_background [OF cap])
  have j: "length (rg_jobs (job_begin re k rg)) = length (rg_jobs rg)"
    "length (rg_jobs (job_end re k err rg)) = length (rg_jobs rg)" for re k err rg
    by (simp_all add: job_begin_def job_end_def set_job_def add_row_def Let_def)
  show "reg_reachable tokio_send re cf (job_report tokio_send 0 (job_end re 0 err (job_begin re 0 ?rg)))"
    by (intro reach_step [OF _ job_reports] reach_step [OF _ job_returns] reach_step [OF _ job_starts] r)
      (simp_all add: len j)
qed

theorem snapshot_is_always_pending_witness:
  "snapshot_status (job_report tokio_send 0 (job_end sample_rows 0 None (job_begin sample_rows 0
     (fst (register_background tokio_send default_config 7 0 sample_spec registry_new))))) 7 = Some Pending"
proof -
  have cap: "0 < cf_max_runs default_config" by (simp add: default_config_def)
  let ?rg = "job_report tokio_send 0 (job_end sample_rows 0 None (job_begin sample_rows 0
     (fst (register_background tokio_send default_config 7 0 sample_spec registry_new))))"
  have "slot_of ?rg 7 = Some sample_slot"
    by (simp add: sample_background_done [OF cap] slot_of_def)
  then show ?thesis
    using snapshot_is_always_pending [OF sample_law sample_reachable(2) [OF cap, of sample_rows None],
        of 7] by simp
qed

section \<open>Slots that are not given back\<close>

text \<open>The slot of \<open>run\<close> is there and not finished; retention and eviction are for finished slots.\<close>

definition occupies :: "registry \<Rightarrow> uuid \<Rightarrow> bool" where
  "occupies rg run \<longleftrightarrow> map_option sl_finished_at (slot_of rg run) = Some None"

text \<open>The steps that set \<open>finished_at\<close> on the slot of \<open>run\<close>, or drop it with all the others.\<close>

definition gives_back ::
  "(run_phase \<Rightarrow> watch \<Rightarrow> watch) \<Rightarrow> row_env \<Rightarrow> registry_config \<Rightarrow> uuid \<Rightarrow> registry \<Rightarrow> registry \<Rightarrow> bool" where
  "gives_back send re cf run rg rg' \<longleftrightarrow>
     (\<exists>now. rg' = fst (abort_run send re cf now run rg)) \<or>
     (\<exists>now snap phase. rg' = inline_end send re now run snap phase rg) \<or>
     (\<exists>now. rg' = shutdown send re cf now rg)"

lemma slot_of_put: "slot_of (put_slot i sl rg) j = (if j = i then Some sl else slot_of rg j)"
  by (simp add: slot_of_def put_slot_def update_conv')

lemma slot_of_same: "rg_runs rg' = rg_runs rg \<Longrightarrow> slot_of rg' i = slot_of rg i"
  by (simp add: slot_of_def)

lemma rows_and_channels_only:
  "rg_runs (on_channel f k rg) = rg_runs rg" "rg_runs (add_row r rg) = rg_runs rg" "rg_runs (log_row lost r rg) = rg_runs rg"
  "rg_runs (set_job k st rg) = rg_runs rg" "rg_runs (abort_job k rg) = rg_runs rg"
  "rg_runs (job_begin re k rg) = rg_runs rg" "rg_runs (job_end re k err rg) = rg_runs rg"
  "rg_runs (job_report send k rg) = rg_runs rg" "rg_runs (scoped_watch send re lost k e rg) = rg_runs rg"
  "rg_runs (fst (publish_already_completed run rg)) = rg_runs rg" "rg_runs (fst (inline_begin send re run rg)) = rg_runs rg"
  by (simp_all add: on_channel_def add_row_def log_row_def set_job_def abort_job_def job_begin_def job_end_def
      job_report_def scoped_watch_def publish_already_completed_def inline_begin_def Let_def
      split: job_state.split event.split option.split)

lemma untouched_slots [simp]:
  "slot_of (on_channel f k rg) i = slot_of rg i" "slot_of (add_row r rg) i = slot_of rg i"
  "slot_of (log_row lost r rg) i = slot_of rg i" "slot_of (abort_job k rg) i = slot_of rg i"
  "slot_of (fst (inline_begin send re run rg)) i = slot_of rg i"
  by (simp_all add: slot_of_def rows_and_channels_only)

lemma map_of_filter_fst: "map_of (filter (\<lambda>x. P (fst x)) xs) i = (if P i then map_of xs i else None)"
  by (induction xs) auto

lemma slot_of_retention:
  assumes "reg_wf rg"
  shows "slot_of (run_retention cf now rg) i =
    (case slot_of rg i of None \<Rightarrow> None | Some sl \<Rightarrow> if expired cf now sl then None else Some sl)"
proof -
  have d: "distinct (map fst (rg_runs rg))" using assms by (simp add: reg_wf_def)
  have "i \<in> fst ` {x \<in> set (rg_runs rg). expired cf now (snd x)} \<longleftrightarrow>
      (\<exists>sl. slot_of rg i = Some sl \<and> expired cf now sl)"
    using d by (force simp: slot_of_def map_of_eq_Some_iff)
  then show ?thesis
    by (simp add: run_retention_def Let_def slot_of_def case_prod_unfold split: option.split)
      (simp add: map_of_filter_fst [where P = "\<lambda>j. j \<notin> _"])
qed

lemma slot_of_evicted:
  assumes "ensure_capacity cf rg = Inr rg1" and "occupies rg i"
  shows "slot_of rg1 i = slot_of rg i"
proof (cases "length (rg_runs rg) < cf_max_runs cf")
  case True
  with assms show ?thesis by (simp add: ensure_capacity_def)
next
  case False
  with assms(1) obtain j order where rf: "remove_first (finished rg) (rg_order rg) = Some (j, order)"
    and rg1: "rg1 = rg\<lparr>rg_runs := AList.delete j (rg_runs rg), rg_order := order\<rparr>"
    by (auto simp: ensure_capacity_def split: option.splits)
  have "finished rg j" using remove_first_Some [OF rf] by blast
  with assms(2) have "j \<noteq> i" by (auto simp: finished_def occupies_def)
  then show ?thesis by (simp add: rg1 slot_of_def delete_conv')
qed

lemma slot_of_create:
  "slot_of (create_slot send now run spec rg) i =
     (if i = run then
        Some (case slot_of rg run of
          Some sl \<Rightarrow> sl\<lparr>sl_meta := handle_of run now spec, sl_data_ids := rs_data_ids spec\<rparr>
        | None \<Rightarrow> \<lparr>sl_chan = length (rg_chans rg), sl_finished_at = None, sl_abort_handle = None,
              sl_meta = handle_of run now spec, sl_data_ids = rs_data_ids spec\<rparr>)
      else slot_of rg i)"
  by (simp add: create_slot_def slot_of_put split: option.split)
    (simp add: slot_of_def put_slot_def update_conv')

definition abort_row :: "row_env \<Rightarrow> uuid \<Rightarrow> run_slot \<Rightarrow> run_row" where
  "abort_row re run sl =
     row_of re run (rh_pipeline_name (sl_meta sl)) (rh_dataset_id (sl_meta sl)) (rh_user_id (sl_meta sl))
       Errored (Some (run_info_for_errored (re_show re) (sl_data_ids sl) (ascii ''abort'')))"

lemma abort_run_slot:
  "slot_of (fst (abort_run send re cf now j rg)) i =
     (if i = j then map_option (\<lambda>sl. sl\<lparr>sl_finished_at := Some now\<rparr>) (slot_of rg j) else slot_of rg i)"
  by (simp add: abort_run_def Let_def slot_of_put split: option.split)

definition abort_rows :: "row_env \<Rightarrow> registry_config \<Rightarrow> registry \<Rightarrow> uuid \<Rightarrow> run_row list" where
  "abort_rows re cf rg i =
     (case slot_of rg i of None \<Rightarrow> [] | Some sl \<Rightarrow> if cf_abort_row cf then [abort_row re i sl] else [])"

lemma abort_run_rows:
  "rg_rows (fst (abort_run send re cf now j rg)) = rg_rows rg @ abort_rows re cf rg j"
  by (simp add: abort_run_def Let_def put_slot_def on_channel_def add_row_def abort_job_def set_job_def abort_row_def
      abort_rows_def split: option.split)

lemma abort_all_rows:
  "distinct ids \<Longrightarrow> rg_rows (foldl (\<lambda>r i. fst (abort_run send re cf now i r)) rg ids) =
     rg_rows rg @ concat (map (abort_rows re cf rg) ids)"
proof (induction ids arbitrary: rg)
  case (Cons j ids)
  have "abort_rows re cf (fst (abort_run send re cf now j rg)) i = abort_rows re cf rg i" if "i \<in> set ids" for i
    using that Cons.prems by (auto simp: abort_run_slot abort_rows_def)
  then show ?case using Cons by (simp add: abort_run_rows cong: map_cong)
qed simp

text \<open>Of the rows that a shutdown writes, one is for each run whose slot is not finished.\<close>

lemma shutdown_rows:
  assumes "reg_wf rg" and "cf_abort_row cf" and "slot_of rg run = Some sl" and "sl_finished_at sl = None"
  shows "filter (\<lambda>r. rr_run_id r = run) (rg_rows (shutdown send re cf now rg)) =
    filter (\<lambda>r. rr_run_id r = run) (rg_rows rg) @ [abort_row re run sl]"
proof -
  let ?ids = "map fst (filter (\<lambda>(i, sl). sl_finished_at sl = None) (rg_runs rg))"
  let ?row = "abort_rows re cf rg"
  have d: "distinct (map fst (rg_runs rg))" using assms(1) by (simp add: reg_wf_def)
  have "(run, sl) \<in> set (rg_runs rg)" by (rule slot_in [OF assms(3)])
  then have "run \<in> set ?ids" using assms(4) by force
  then obtain us vs where ids: "?ids = us @ run # vs" by (meson split_list)
  moreover have "distinct ?ids" using d by (simp add: distinct_map_filter)
  ultimately have "run \<notin> set us" "run \<notin> set vs" by auto
  moreover have "filter (\<lambda>r. rr_run_id r = run) (concat (map ?row is)) = []" if "run \<notin> set is" for "is"
    using that by (auto simp: filter_empty_conv abort_rows_def abort_row_def row_of_def split: option.splits)
  ultimately show ?thesis
    using assms(2,3) abort_all_rows [OF \<open>distinct ?ids\<close>, of send re cf now rg]
    by (simp add: shutdown_def Let_def del: foldl_append map_map) (simp add: ids abort_rows_def abort_row_def row_of_def)
qed

lemma occupies_iff: "occupies rg run \<longleftrightarrow> (\<exists>sl. slot_of rg run = Some sl \<and> sl_finished_at sl = None)"
  by (auto simp: occupies_def)

lemma inline_end_slot:
  "slot_of (inline_end send re now j snap phase rg) i =
     (if i = j then map_option (\<lambda>sl. sl\<lparr>sl_finished_at := Some now\<rparr>) (slot_of rg j) else slot_of rg i)"
  by (simp add: inline_end_def finish_slot_def slot_of_put split: option.split prod.split)

lemma gives_back_frees:
  assumes "gives_back send re cf run rg rg'"
  shows "\<not> occupies rg' run"
proof -
  have "slot_of (shutdown send re cf now rg) i = None" for now i by (simp add: shutdown_def Let_def slot_of_def)
  with assms show ?thesis
    by (auto simp: gives_back_def occupies_iff abort_run_slot inline_end_slot)
qed

lemma created_occupies: "occupies rg i \<Longrightarrow> occupies (create_slot send now run spec rg) i"
  by (auto simp: occupies_iff slot_of_create)

lemma evicted_occupies: "ensure_capacity cf rg = Inr rg1 \<Longrightarrow> occupies rg i \<Longrightarrow> occupies rg1 i"
  using slot_of_evicted by (auto simp: occupies_def)

text \<open>What a registration makes of the slots, once it has its room.\<close>

lemma background_slots:
  assumes "ensure_capacity cf rg = Inr rg1"
  shows "occupies (fst (register_background send cf fresh now spec rg)) i \<longleftrightarrow>
    occupies (create_slot send now (case rs_run_id spec of None \<Rightarrow> fresh | Some r \<Rightarrow> r) spec rg1) i"
proof -
  let ?run = "case rs_run_id spec of None \<Rightarrow> fresh | Some r \<Rightarrow> r"
  let ?rg2 = "create_slot send now ?run spec rg1"
  obtain sl where sl: "slot_of ?rg2 ?run = Some sl" by (simp add: slot_of_create)
  have "slot_of (fst (register_background send cf fresh now spec rg)) i =
      slot_of (put_slot ?run (sl\<lparr>sl_abort_handle := Some (length (rg_jobs ?rg2))\<rparr>) ?rg2) i"
    using assms sl by (simp add: register_background_def Let_def slot_of_def)
  with sl show ?thesis by (auto simp: occupies_iff slot_of_put)
qed

lemma step_occupies:
  assumes "reg_wf rg" and "reg_step send re cf rg rg'" and occ: "occupies rg run"
  shows "occupies rg' run \<or> gives_back send re cf run rg rg'"
  using assms(2)
proof (cases rule: reg_step.cases)
  case (retention now)
  then show ?thesis using occ slot_of_retention [OF assms(1)] by (auto simp: occupies_iff expired_def)
next
  case (inline_start rg1 run' now spec)
  then show ?thesis
    using created_occupies [OF evicted_occupies [OF _ occ]] by (simp add: occupies_def)
next
  case (inline_finish now j snap phase)
  then show ?thesis
    using occ by (cases "j = run") (auto simp: gives_back_def occupies_iff inline_end_slot)
next
  case (background fresh now spec)
  show ?thesis
  proof (cases "ensure_capacity cf rg")
    case (Inl e)
    with background occ show ?thesis by (simp add: register_background_def)
  next
    case (Inr rg1)
    with background show ?thesis
      using created_occupies [OF evicted_occupies [OF Inr occ]] by (simp add: background_slots [OF Inr])
  qed
next
  case (subscription now j)
  then show ?thesis
    using occ by (auto simp: subscribe_def occupies_iff slot_of_def put_slot_def update_conv' split: option.split)
next
  case (abortion now j)
  then show ?thesis
    using occ by (cases "j = run") (auto simp: gives_back_def occupies_iff abort_run_slot)
next
  case (shutting_down now)
  then show ?thesis by (auto simp: gives_back_def)
qed (use occ in \<open>simp_all add: occupies_def slot_of_def rows_and_channels_only\<close>)

lemma all_occupied:
  assumes "reg_wf rg" and "\<forall>i. slot_of rg i \<noteq> None \<longrightarrow> occupies rg i"
  shows "run_retention cf now rg = rg"
    and "cf_max_runs cf \<le> length (rg_runs rg) \<Longrightarrow> ensure_capacity cf rg = Inl RegistryFull"
proof -
  have "sl_finished_at sl = None" if "(i, sl) \<in> set (rg_runs rg)" for i sl
  proof -
    have "slot_of rg i = Some sl" using that assms(1) by (simp add: reg_wf_def slot_of_def)
    with assms(2) show ?thesis by (auto simp: occupies_iff)
  qed
  then have "filter (\<lambda>(i, sl). expired cf now sl) (rg_runs rg) = []"
    by (auto simp: filter_empty_conv expired_def)
  then show "run_retention cf now rg = rg" by (simp add: run_retention_def)
  have "\<not> finished rg i" for i
    using assms(2) by (auto simp: finished_def occupies_iff split: option.split)
  then have "remove_first (finished rg) order = None" for order by (induction order) simp_all
  then show "cf_max_runs cf \<le> length (rg_runs rg) \<Longrightarrow> ensure_capacity cf rg = Inl RegistryFull"
    by (simp add: ensure_capacity_def)
qed

lemma registered_occupies:
  assumes "register_background send cf fresh now spec rg = (rg', Inr h)"
    and "slot_of rg (rh_run_id h) = None \<or> occupies rg (rh_run_id h)"
  shows "occupies rg' (rh_run_id h)"
proof -
  obtain rg1 where rg1: "ensure_capacity cf rg = Inr rg1"
    using assms(1) by (auto simp: register_background_def split: sum.splits)
  have h: "rh_run_id h = (case rs_run_id spec of None \<Rightarrow> fresh | Some r \<Rightarrow> r)"
    using assms(1) by (auto simp: register_background_def rg1 Let_def handle_of_def)
  have "slot_of rg1 i = None" if "slot_of rg i = None" for i
    using rg1 that by (auto simp: ensure_capacity_def slot_of_def delete_conv' split: option.splits if_splits)
  then have "slot_of rg1 (rh_run_id h) = None \<or> occupies rg1 (rh_run_id h)"
    using assms(2) evicted_occupies [OF rg1] by blast
  then have "occupies (create_slot send now (rh_run_id h) spec rg1) (rh_run_id h)"
    by (auto simp: occupies_iff slot_of_create)
  then show ?thesis using background_slots [OF rg1, of send fresh now spec "rh_run_id h"] assms(1) h by simp
qed

text \<open>
  C37: Nothing that a background run does gives its slot back. In every reachable registry: a run that is
  registered in the background, under an id that has no slot yet or an unfinished one, occupies a slot; and
  a step frees an occupied slot exactly if it is an abort of the run, the end of an inline run of the same
  id, or the shutdown of the registry. So the slot stays when the task of the run has returned and its
  outcome has been reported, and it outlasts every retention and every eviction. Once all the slots of a
  full registry are of this kind, retention at any later time changes nothing and each registration, in the
  background or inline, is refused as full.
\<close>

theorem background_slot_is_never_reclaimed:
  assumes "watch_law send" and "reg_reachable send re cf rg"
  shows
    "(\<forall>fresh now spec rg' h. register_background send cf fresh now spec rg = (rg', Inr h) \<longrightarrow>
        slot_of rg (rh_run_id h) = None \<or> occupies rg (rh_run_id h) \<longrightarrow> occupies rg' (rh_run_id h)) \<and>
     (\<forall>run rg'. occupies rg run \<longrightarrow> reg_step send re cf rg rg' \<longrightarrow>
        (\<not> occupies rg' run \<longleftrightarrow> gives_back send re cf run rg rg')) \<and>
     ((\<forall>i. slot_of rg i \<noteq> None \<longrightarrow> occupies rg i) \<longrightarrow> cf_max_runs cf \<le> length (rg_runs rg) \<longrightarrow>
        (\<forall>now. run_retention cf now rg = rg) \<and>
        (\<forall>fresh now spec. register_background send cf fresh now spec rg = (rg, Inl RegistryFull)) \<and>
        (\<forall>fresh now later spec work. register_inline send re cf fresh now later spec work rg = (rg, Inl RegistryFull)))"
proof -
  note wf = reachable_wf [OF assms]
  have "occupies rg run \<Longrightarrow> reg_step send re cf rg rg' \<Longrightarrow> \<not> occupies rg' run \<longleftrightarrow> gives_back send re cf run rg rg'" for run rg'
    using step_occupies [OF wf] gives_back_frees by blast
  moreover have "(\<forall>now. run_retention cf now rg = rg) \<and>
      (\<forall>fresh now spec. register_background send cf fresh now spec rg = (rg, Inl RegistryFull)) \<and>
      (\<forall>fresh now later spec work. register_inline send re cf fresh now later spec work rg = (rg, Inl RegistryFull))"
    if "\<forall>i. slot_of rg i \<noteq> None \<longrightarrow> occupies rg i" "cf_max_runs cf \<le> length (rg_runs rg)"
    using all_occupied(1) [OF wf that(1)] all_occupied(2) [OF wf that(1,2)]
    by (simp add: register_background_def register_inline_def)
  ultimately show ?thesis
    by (intro conjI) (intro allI impI, erule (1) registered_occupies, simp_all)
qed

theorem background_slot_is_never_reclaimed_witness:
  "snd (register_background tokio_send (default_config\<lparr>cf_max_runs := 1\<rparr>) 8 9000 sample_spec
     (job_report tokio_send 0 (job_end sample_rows 0 None (job_begin sample_rows 0
       (fst (register_background tokio_send (default_config\<lparr>cf_max_runs := 1\<rparr>) 7 0 sample_spec registry_new)))))) =
   Inl RegistryFull"
proof -
  let ?cf = "default_config\<lparr>cf_max_runs := 1\<rparr>"
  let ?rg = "job_report tokio_send 0 (job_end sample_rows 0 None (job_begin sample_rows 0
       (fst (register_background tokio_send ?cf 7 0 sample_spec registry_new))))"
  have cap: "0 < cf_max_runs ?cf" by simp
  have runs: "rg_runs ?rg = [(7, sample_slot)]" by (simp only: sample_background_done [OF cap]) simp
  have "occupies ?rg i" if "slot_of ?rg i \<noteq> None" for i
    using that unfolding occupies_iff slot_of_def runs by (auto simp: sample_slot_def split: if_splits)
  moreover have "cf_max_runs ?cf \<le> length (rg_runs ?rg)" unfolding runs by simp
  ultimately show ?thesis
    using background_slot_is_never_reclaimed [OF sample_law sample_reachable(2) [OF cap, of sample_rows None]] by simp
qed

text \<open>
  C38: Shutting down writes an errored row for every run whose slot is not finished, whatever became of its
  task. In every reachable registry that writes rows for aborts, the trail of such a run is, after the
  shutdown, the trail it had and then an \<open>ERRORED\<close> row with the reason \<open>abort\<close>. A slot is kept unfinished when its
  background run has completed and been reported, so such a run ends with an error.
\<close>

theorem shutdown_errors_completed_runs:
  assumes "watch_law send" and "reg_reachable send re cf rg" and "cf_abort_row cf"
    and "slot_of rg run = Some sl" and "sl_finished_at sl = None"
  shows "filter (\<lambda>r. rr_run_id r = run) (rg_rows (shutdown send re cf now rg)) =
    filter (\<lambda>r. rr_run_id r = run) (rg_rows rg) @
      [row_of re run (rh_pipeline_name (sl_meta sl)) (rh_dataset_id (sl_meta sl)) (rh_user_id (sl_meta sl))
         Errored (Some (run_info_for_errored (re_show re) (sl_data_ids sl) (ascii ''abort'')))]"
  using shutdown_rows [OF reachable_wf [OF assms(1,2)] assms(3-5)] by (simp add: abort_row_def)

theorem shutdown_errors_completed_runs_witness:
  "map rr_status (filter (\<lambda>r. rr_run_id r = 7) (rg_rows (shutdown tokio_send sample_rows default_config 9
     (job_report tokio_send 0 (job_end sample_rows 0 None (job_begin sample_rows 0
       (fst (register_background tokio_send default_config 7 0 sample_spec registry_new))))))))
   = [Started, Completed, Errored]"
proof -
  let ?rg = "job_report tokio_send 0 (job_end sample_rows 0 None (job_begin sample_rows 0
       (fst (register_background tokio_send default_config 7 0 sample_spec registry_new))))"
  have cap: "0 < cf_max_runs default_config" by (simp add: default_config_def)
  have fin: "slot_of ?rg 7 = Some sample_slot" "sl_finished_at sample_slot = None" "cf_abort_row default_config"
    unfolding sample_background_done [OF cap] by (simp_all add: slot_of_def sample_slot_def default_config_def)
  show ?thesis
    using shutdown_errors_completed_runs [OF sample_law sample_reachable(2) [OF cap] fin(3,1,2), of 9]
    by (simp add: sample_background_done [OF cap]) (simp add: row_of_def terminal_row_def phase_of_work_def)
qed

text \<open>
  An inline run leaves its mark: if there is room and the id is new, the caller gets the
  outcome of the work, two rows are appended (started, then completed or errored with the data
  ids and the error), the channel has carried the started and the terminal event, and the slot is
  finished, hence open to eviction.
\<close>

lemma inline_run_is_recorded:
  assumes "length (rg_runs rg) < cf_max_runs cf" and "rs_run_id spec = Some run"
    and "slot_of rg run = None"
  shows "let (rg', res) = register_inline send re cf fresh now later spec (\<lambda>r. (r, err)) rg;
             phase = phase_of_work err; name = rs_pipeline_name spec;
             ds = rs_dataset_id spec; user = rs_user_id spec; ids = rs_data_ids spec
         in res = Inr (run, phase) \<and>
            rg_rows rg' = rg_rows rg @
              [row_of re run name ds user Started (Some (run_info_for_running (re_show re) ids)),
               terminal_row re run name ds user ids phase] \<and>
            ch_sent (last (rg_chans rg')) = [EvStarted, terminal_event phase] \<and>
            map_option sl_finished_at (slot_of rg' run) = Some (Some later)"
  using assms
  by (simp add: register_inline_def ensure_capacity_def create_slot_def inline_begin_def inline_end_def
      finish_slot_def slot_of_def put_slot_def on_channel_def add_row_def publish_def set_phase_def
      new_channel_def handle_of_def Let_def AList.update_conv' list_update_append)

lemma remove_first_P: "remove_first P xs = Some (y, ys) \<Longrightarrow> P y"
  using remove_first_Some by fastforce

lemma capacity_length:
  assumes "ensure_capacity cf rg = Inr rg'"
  shows "length (rg_runs rg') < max (cf_max_runs cf) (length (rg_runs rg))"
proof (cases "length (rg_runs rg) < cf_max_runs cf")
  case True
  with assms show ?thesis by (simp add: ensure_capacity_def)
next
  case False
  with assms obtain i order where rf: "remove_first (finished rg) (rg_order rg) = Some (i, order)"
    and rg': "rg' = rg\<lparr>rg_runs := AList.delete i (rg_runs rg), rg_order := order\<rparr>"
    by (auto simp: ensure_capacity_def split: option.splits)
  then obtain sl where "(i, sl) \<in> set (rg_runs rg)"
    using remove_first_P [OF rf] by (auto simp: finished_def dest: slot_in split: option.splits)
  then have "length (AList.delete i (rg_runs rg)) < length (rg_runs rg)"
    by (auto simp: AList.delete_eq intro!: length_filter_less)
  then show ?thesis by (simp add: rg')
qed

lemma length_put_slot: "length (AList.update i v xs) \<le> Suc (length xs)"
  by (induction xs) auto

lemma create_slot_length: "length (rg_runs (create_slot send now run spec rg)) \<le> Suc (length (rg_runs rg))"
  by (simp add: create_slot_def put_slot_def on_channel_def length_put_slot split: option.split)

text \<open>
  Registering a background run never makes a registry larger than its limit, and never a full
  one larger than it is, whether the registration is refused, reuses a slot or evicts one.
\<close>

lemma registration_is_bounded:
  "length (rg_runs (fst (register_background send cf fresh now spec rg)))
     \<le> max (cf_max_runs cf) (length (rg_runs rg))"
proof (cases "ensure_capacity cf rg")
  case (Inl e)
  then show ?thesis by (simp add: register_background_def)
next
  case (Inr rg1)
  have upd: "length (AList.update i v xs) = length xs" if "map_of xs i = Some w" for i xs and v w :: run_slot
    using that by (induction xs) (auto split: if_splits)
  have "length (rg_runs (create_slot send now r spec rg1)) \<le> max (cf_max_runs cf) (length (rg_runs rg))" for r
    using create_slot_length [of send now r spec rg1] capacity_length [OF Inr] by linarith
  with Inr show ?thesis
    by (auto simp: register_background_def Let_def put_slot_def slot_of_def upd split: option.split)
qed

end
