(* ===== verification/Dataset_Locks.thy ===== *)
theory Dataset_Locks
  imports Prelude "HOL-Library.AList" "HOL-Library.Multiset"
begin

text \<open>
  The per-dataset locks of \<open>core/src/dataset_locks.rs\<close>: a registry of async mutexes keyed by
  dataset id, held weakly and pruned, with re-entrancy through a task-local set.

  A mutex is an index into \<open>dl_mutexes\<close>, whose entry is the task that holds it. The strong count
  of a mutex is the number of \<open>Arc\<close>s to it: one in each guard, and one in each future that waits
  for it. \<open>HELD\<close> is task-local and restricted to this registry; it is a stack of scopes, kept in
  the frames of the task, one frame per \<open>hold\<close> in progress.

  Each function is what a task does between two awaits; \<open>lock_step\<close> interleaves the tasks, lets
  any free mutex go to any of its waiters, and lets a waiting future or a guard be dropped.
\<close>

section \<open>State\<close>

type_synonym lock_guard = "uuid \<times> nat"

datatype pending = NotWaiting | WaitLock lock_guard | WaitHold lock_guard

datatype hold_frame =
    Taking (to_take: "uuid list") (left: "uuid list") (frame_guards: "lock_guard list")
  | Inside (held_ids: "uuid set") (frame_guards: "lock_guard list")

record lock_task =
  tk_pending :: pending
  tk_frames :: "hold_frame list"
  tk_loose :: "lock_guard list"

record dataset_locks =
  dl_map :: "lock_guard list"
  dl_mutexes :: "nat option list"
  dl_tasks :: "lock_task list"

definition prune_threshold :: nat where "prune_threshold = 64"

definition idle_task :: lock_task where
  "idle_task = \<lparr>tk_pending = NotWaiting, tk_frames = [], tk_loose = []\<rparr>"

definition locks_new :: "nat \<Rightarrow> dataset_locks" where
  "locks_new n = \<lparr>dl_map = [], dl_mutexes = [], dl_tasks = replicate n idle_task\<rparr>"

text \<open>The guards of a task, and its \<open>Arc\<close>s: a waiting future owns one too.\<close>

definition task_guards :: "lock_task \<Rightarrow> lock_guard list" where
  "task_guards tk = concat (map frame_guards (tk_frames tk)) @ tk_loose tk"

definition waits_for :: "pending \<Rightarrow> lock_guard list" where
  "waits_for p = (case p of NotWaiting \<Rightarrow> [] | WaitLock g \<Rightarrow> [g] | WaitHold g \<Rightarrow> [g])"

definition task_arcs :: "lock_task \<Rightarrow> lock_guard list" where
  "task_arcs tk = waits_for (tk_pending tk) @ task_guards tk"

definition strong_count :: "dataset_locks \<Rightarrow> nat \<Rightarrow> nat" where
  "strong_count s k = length (filter (\<lambda>g. snd g = k) (concat (map task_arcs (dl_tasks s))))"

definition put_task :: "nat \<Rightarrow> lock_task \<Rightarrow> dataset_locks \<Rightarrow> dataset_locks" where
  "put_task t tk s = s\<lparr>dl_tasks := (dl_tasks s)[t := tk]\<rparr>"

text \<open>\<open>HELD\<close> of a task: the innermost scope.\<close>

fun held_of :: "hold_frame list \<Rightarrow> uuid set" where
  "held_of [] = {}"
| "held_of (Taking _ _ _ # fs) = held_of fs"
| "held_of (Inside h _ # fs) = h"

definition is_held :: "lock_task \<Rightarrow> uuid \<Rightarrow> bool" where
  "is_held tk d \<longleftrightarrow> d \<in> held_of (tk_frames tk)"

section \<open>The operations\<close>

definition lock_arc :: "uuid \<Rightarrow> dataset_locks \<Rightarrow> dataset_locks \<times> nat" where
  "lock_arc d s =
     (let fresh =
        (let m = (if prune_threshold \<le> length (dl_map s)
                  then filter (\<lambda>e. 0 < strong_count s (snd e)) (dl_map s) else dl_map s);
             k = length (dl_mutexes s)
         in (s\<lparr>dl_map := AList.update d k m, dl_mutexes := dl_mutexes s @ [None]\<rparr>, k))
      in case map_of (dl_map s) d of
           None \<Rightarrow> fresh
         | Some k \<Rightarrow> if 0 < strong_count s k then (s, k) else fresh)"

text \<open>\<open>lock\<close> up to its await; the result says whether the guard it returns holds nothing.\<close>

definition lock_call :: "nat \<Rightarrow> uuid \<Rightarrow> dataset_locks \<Rightarrow> dataset_locks \<times> bool" where
  "lock_call t d s =
     (let tk = dl_tasks s ! t in
      if is_held tk d then (s, True)
      else
        (let (s1, k) = lock_arc d s
         in (put_task t (tk\<lparr>tk_pending := WaitLock (d, k)\<rparr>) s1, False)))"

text \<open>
  \<open>hold\<close> up to its first await: the ids the task does not hold, sorted and without duplicates. With
  none to take the future runs as it is, in the scope it is in.
\<close>

definition hold_call :: "nat \<Rightarrow> uuid list \<Rightarrow> dataset_locks \<Rightarrow> dataset_locks" where
  "hold_call t ids s =
     (let tk = dl_tasks s ! t;
          ds = remdups_adj (sort (filter (\<lambda>d. \<not> is_held tk d) ids));
          frame = (if ds = [] then Inside (held_of (tk_frames tk)) [] else Taking ds ds [])
      in put_task t (tk\<lparr>tk_frames := frame # tk_frames tk\<rparr>) s)"

text \<open>One turn of the loop of \<open>hold\<close>: clone the next mutex and await it, or enter the scope.\<close>

definition hold_next :: "nat \<Rightarrow> dataset_locks \<Rightarrow> dataset_locks" where
  "hold_next t s =
     (let tk = dl_tasks s ! t in
      case tk_frames tk of
        Taking ds (d # rest) gs # fs \<Rightarrow>
          (let (s1, k) = lock_arc d s
           in put_task t (tk\<lparr>tk_pending := WaitHold (d, k), tk_frames := Taking ds rest gs # fs\<rparr>) s1)
      | Taking ds [] gs # fs \<Rightarrow>
          put_task t (tk\<lparr>tk_frames := Inside (held_of fs \<union> set ds) gs # fs\<rparr>) s
      | _ \<Rightarrow> s)"

text \<open>A mutex is given to a waiting task: the future resolves to the guard.\<close>

definition grant :: "nat \<Rightarrow> dataset_locks \<Rightarrow> dataset_locks" where
  "grant t s =
     (let tk = dl_tasks s ! t;
          take = (\<lambda>g tk'. put_task t (tk'\<lparr>tk_pending := NotWaiting\<rparr>)
                            (s\<lparr>dl_mutexes := (dl_mutexes s)[snd g := Some t]\<rparr>))
      in case (tk_pending tk, tk_frames tk) of
           (WaitLock g, _) \<Rightarrow> take g (tk\<lparr>tk_loose := g # tk_loose tk\<rparr>)
         | (WaitHold g, Taking ds rest gs # fs) \<Rightarrow>
             take g (tk\<lparr>tk_frames := Taking ds rest (gs @ [g]) # fs\<rparr>)
         | _ \<Rightarrow> s)"

definition unlock :: "lock_guard list \<Rightarrow> nat option list \<Rightarrow> nat option list" where
  "unlock gs ms = fold (\<lambda>g m. m[snd g := None]) gs ms"

text \<open>The end of a \<open>hold\<close>, or its future dropped: the frame goes, and its guards with it.\<close>

definition hold_end :: "nat \<Rightarrow> dataset_locks \<Rightarrow> dataset_locks" where
  "hold_end t s =
     (let tk = dl_tasks s ! t in
      case tk_frames tk of
        [] \<Rightarrow> s
      | f # fs \<Rightarrow>
          put_task t (tk\<lparr>tk_pending := NotWaiting, tk_frames := fs\<rparr>)
            (s\<lparr>dl_mutexes := unlock (frame_guards f) (dl_mutexes s)\<rparr>))"

definition drop_guard :: "nat \<Rightarrow> nat \<Rightarrow> dataset_locks \<Rightarrow> dataset_locks" where
  "drop_guard t i s =
     (let tk = dl_tasks s ! t
      in put_task t (tk\<lparr>tk_loose := take i (tk_loose tk) @ drop (Suc i) (tk_loose tk)\<rparr>)
           (s\<lparr>dl_mutexes := unlock [tk_loose tk ! i] (dl_mutexes s)\<rparr>))"

definition drop_lock :: "nat \<Rightarrow> dataset_locks \<Rightarrow> dataset_locks" where
  "drop_lock t s = put_task t ((dl_tasks s ! t)\<lparr>tk_pending := NotWaiting\<rparr>) s"

section \<open>Interleaving\<close>

text \<open>A task can make a call of its own when it waits for nothing and is not inside the loop of a \<open>hold\<close>.\<close>

definition at_work :: "lock_task \<Rightarrow> bool" where
  "at_work tk \<longleftrightarrow> tk_pending tk = NotWaiting \<and>
     (case tk_frames tk of Taking _ _ _ # _ \<Rightarrow> False | _ \<Rightarrow> True)"

definition in_loop :: "lock_task \<Rightarrow> bool" where
  "in_loop tk \<longleftrightarrow> tk_pending tk = NotWaiting \<and>
     (case tk_frames tk of Taking _ _ _ # _ \<Rightarrow> True | _ \<Rightarrow> False)"

definition can_be_granted :: "dataset_locks \<Rightarrow> lock_task \<Rightarrow> bool" where
  "can_be_granted s tk \<longleftrightarrow> (\<exists>g \<in> set (waits_for (tk_pending tk)). dl_mutexes s ! snd g = None)"

inductive lock_step :: "dataset_locks \<Rightarrow> dataset_locks \<Rightarrow> bool" where
  calls_lock: "t < length (dl_tasks s) \<Longrightarrow> at_work (dl_tasks s ! t) \<Longrightarrow> lock_step s (fst (lock_call t d s))"
| calls_hold: "t < length (dl_tasks s) \<Longrightarrow> at_work (dl_tasks s ! t) \<Longrightarrow> lock_step s (hold_call t ids s)"
| loops: "t < length (dl_tasks s) \<Longrightarrow> in_loop (dl_tasks s ! t) \<Longrightarrow> lock_step s (hold_next t s)"
| granted: "t < length (dl_tasks s) \<Longrightarrow> can_be_granted s (dl_tasks s ! t) \<Longrightarrow> lock_step s (grant t s)"
| ends: "t < length (dl_tasks s) \<Longrightarrow> at_work (dl_tasks s ! t) \<Longrightarrow> lock_step s (hold_end t s)"
| gives_up_hold: "t < length (dl_tasks s) \<Longrightarrow> tk_pending (dl_tasks s ! t) = WaitHold g \<Longrightarrow>
    lock_step s (hold_end t s)"
| gives_up_lock: "t < length (dl_tasks s) \<Longrightarrow> tk_pending (dl_tasks s ! t) = WaitLock g \<Longrightarrow>
    lock_step s (drop_lock t s)"
| drops: "t < length (dl_tasks s) \<Longrightarrow> i < length (tk_loose (dl_tasks s ! t)) \<Longrightarrow>
    lock_step s (drop_guard t i s)"

inductive locks_reachable :: "nat \<Rightarrow> dataset_locks \<Rightarrow> bool" for n where
  locks_start: "locks_reachable n (locks_new n)"
| locks_step: "locks_reachable n s \<Longrightarrow> lock_step s s' \<Longrightarrow> locks_reachable n s'"

section \<open>The invariant\<close>

text \<open>The frames under the top one are scopes, and each scope covers its own guards and the scopes below.\<close>

fun scopes_ok :: "hold_frame list \<Rightarrow> bool" where
  "scopes_ok [] = True"
| "scopes_ok (Taking _ _ _ # fs) = False"
| "scopes_ok (Inside h gs # fs) = (h = held_of fs \<union> fst ` set gs \<and> scopes_ok fs)"

fun frames_ok :: "pending \<Rightarrow> hold_frame list \<Rightarrow> bool" where
  "frames_ok p (Taking ds rest gs # fs) =
     (ds = map fst gs @ map fst (waits_for p) @ rest \<and> sorted_wrt (<) ds \<and>
      (\<forall>g. p \<noteq> WaitLock g) \<and> scopes_ok fs)"
| "frames_ok p fs = ((\<forall>g. p \<noteq> WaitHold g) \<and> scopes_ok fs)"

definition task_ok :: "(uuid \<times> nat) list \<Rightarrow> nat option list \<Rightarrow> nat \<Rightarrow> lock_task \<Rightarrow> bool" where
  "task_ok mp ms t tk \<longleftrightarrow>
     (\<forall>(d, k) \<in> set (task_arcs tk). map_of mp d = Some k \<and> k < length ms) \<and>
     (\<forall>(d, k) \<in> set (task_guards tk). ms ! k = Some t) \<and>
     distinct (map snd (task_guards tk)) \<and> frames_ok (tk_pending tk) (tk_frames tk)"

definition locks_wf :: "dataset_locks \<Rightarrow> bool" where
  "locks_wf s \<longleftrightarrow>
     distinct (map fst (dl_map s)) \<and> distinct (map snd (dl_map s)) \<and>
     (\<forall>(d, k) \<in> set (dl_map s). k < length (dl_mutexes s)) \<and>
     (\<forall>t < length (dl_tasks s). task_ok (dl_map s) (dl_mutexes s) t (dl_tasks s ! t)) \<and>
     (\<forall>k < length (dl_mutexes s). \<forall>t. dl_mutexes s ! k = Some t \<longrightarrow>
        t < length (dl_tasks s) \<and> k \<in> snd ` set (task_guards (dl_tasks s ! t)))"

lemma strong_count_pos:
  "0 < strong_count s k \<longleftrightarrow> (\<exists>tk \<in> set (dl_tasks s). k \<in> snd ` set (task_arcs tk))"
  by (auto simp: strong_count_def filter_empty_conv image_iff)

lemma task_guards_arcs: "set (task_guards tk) \<subseteq> set (task_arcs tk)"
  by (auto simp: task_arcs_def)

lemma locks_wfD:
  assumes "locks_wf s" and "t < length (dl_tasks s)"
  shows "task_ok (dl_map s) (dl_mutexes s) t (dl_tasks s ! t)"
  using assms by (simp add: locks_wf_def)

lemma task_okD:
  assumes "task_ok mp ms t tk"
  shows "(d, k) \<in> set (task_arcs tk) \<Longrightarrow> map_of mp d = Some k \<and> k < length ms"
    and "(d, k) \<in> set (task_guards tk) \<Longrightarrow> ms ! k = Some t"
    and "distinct (map snd (task_guards tk))"
    and "frames_ok (tk_pending tk) (tk_frames tk)"
  using assms by (auto simp: task_ok_def)

text \<open>A map that still knows every mutex in use, over mutexes with the same holders, keeps the invariant.\<close>

lemma locks_wf_map:
  assumes wf: "locks_wf s"
    and keys: "distinct (map fst mp)" and vals: "distinct (map snd mp)"
    and ran: "\<forall>(d, k) \<in> set mp. k < length (dl_mutexes s) + n"
    and keep: "\<And>d k. map_of (dl_map s) d = Some k \<Longrightarrow> 0 < strong_count s k \<Longrightarrow> map_of mp d = Some k"
  shows "locks_wf (s\<lparr>dl_map := mp, dl_mutexes := dl_mutexes s @ replicate n None\<rparr>)"
proof -
  have "task_ok mp (dl_mutexes s @ replicate n None) t (dl_tasks s ! t)" if t: "t < length (dl_tasks s)" for t
  proof -
    have ok: "task_ok (dl_map s) (dl_mutexes s) t (dl_tasks s ! t)" by (rule locks_wfD [OF wf t])
    have "map_of mp d = Some k \<and> k < length (dl_mutexes s) + n" if "(d, k) \<in> set (task_arcs (dl_tasks s ! t))" for d k
    proof -
      have "0 < strong_count s k"
        unfolding strong_count_pos using t that by (force intro: bexI [of _ "dl_tasks s ! t"])
      then show ?thesis using task_okD(1) [OF ok that] keep by auto
    qed
    moreover have "(dl_mutexes s @ replicate n None) ! k = Some t"
      if "(d, k) \<in> set (task_guards (dl_tasks s ! t))" for d k
      using task_okD(1) [OF ok] task_okD(2) [OF ok that] that task_guards_arcs
      by (auto simp: nth_append)
    ultimately show ?thesis
      using task_okD(3,4) [OF ok] by (auto simp: task_ok_def)
  qed
  then show ?thesis
    using wf keys vals ran by (auto simp: locks_wf_def nth_append split: if_splits)
qed

lemma set_update_subset: "set (AList.update d k xs) \<subseteq> insert (d, k) (set xs)"
  by (induction xs) auto

lemma distinct_snd_update:
  assumes "distinct (map snd xs)" and "k \<notin> snd ` set xs"
  shows "distinct (map snd (AList.update d k (filter P xs)))"
  using assms
proof (induction xs)
  case (Cons e xs)
  have "snd ` set (AList.update d k (filter P xs)) \<subseteq> insert k (snd ` set xs)"
    using set_update_subset [of d k "filter P xs"] by force
  then show ?case using Cons by (cases e) (auto simp: distinct_map_filter)
qed simp

lemma map_of_filter_keep:
  "distinct (map fst xs) \<Longrightarrow> map_of xs d = Some k \<Longrightarrow> P (d, k) \<Longrightarrow> map_of (filter P xs) d = Some k"
  by (induction xs) (auto split: if_splits)

lemma lock_arc_spec:
  assumes wf: "locks_wf s" and arc: "lock_arc d s = (s', k)"
  shows "locks_wf s'" and "dl_tasks s' = dl_tasks s"
    and "map_of (dl_map s') d = Some k" and "k < length (dl_mutexes s')"
proof -
  have keys: "distinct (map fst (dl_map s))" and vals: "distinct (map snd (dl_map s))"
    and ran: "\<forall>(d, k) \<in> set (dl_map s). k < length (dl_mutexes s)"
    using wf by (simp_all add: locks_wf_def)
  let ?m = "if prune_threshold \<le> length (dl_map s)
            then filter (\<lambda>e. 0 < strong_count s (snd e)) (dl_map s) else dl_map s"
  have len: "k < length (dl_mutexes s)" if "map_of (dl_map s) d = Some k" "0 < strong_count s k" for k
  proof -
    from that(2) obtain t d' where "t < length (dl_tasks s)" "(d', k) \<in> set (task_arcs (dl_tasks s ! t))"
      unfolding strong_count_pos by (auto simp: in_set_conv_nth [of _ "dl_tasks s"])
    then show ?thesis using task_okD(1) [OF locks_wfD [OF wf]] by blast
  qed
  have "locks_wf s' \<and> dl_tasks s' = dl_tasks s \<and> map_of (dl_map s') d = Some k \<and> k < length (dl_mutexes s')"
  proof (cases "\<exists>k0. map_of (dl_map s) d = Some k0 \<and> 0 < strong_count s k0")
    case True
    then show ?thesis using arc wf len by (auto simp: lock_arc_def)
  next
    case False
    then have s': "s' = s\<lparr>dl_map := AList.update d k ?m, dl_mutexes := dl_mutexes s @ [None]\<rparr>"
      and k: "k = length (dl_mutexes s)"
      using arc by (auto simp: lock_arc_def Let_def split: option.splits if_splits)
    have new: "k \<notin> snd ` set (dl_map s)" using ran k by fastforce
    have "locks_wf (s\<lparr>dl_map := AList.update d k ?m, dl_mutexes := dl_mutexes s @ replicate 1 None\<rparr>)"
    proof (rule locks_wf_map [OF wf])
      show "distinct (map fst (AList.update d k ?m))"
        by (intro distinct_update) (simp add: keys distinct_map_filter)
      show "distinct (map snd (AList.update d k ?m))"
        using distinct_snd_update [OF vals new, of d "\<lambda>e. 0 < strong_count s (snd e)"]
          distinct_snd_update [OF vals new, of d "\<lambda>_. True"] by auto
      show "\<forall>(d, k) \<in> set (AList.update d k ?m). k < length (dl_mutexes s) + 1"
        using ran set_update_subset [of d k ?m] k by (fastforce split: if_splits)
    next
      fix d' k'
      assume "map_of (dl_map s) d' = Some k'" "0 < strong_count s k'"
      moreover from this False have "d' \<noteq> d" by auto
      ultimately show "map_of (AList.update d k ?m) d' = Some k'"
        by (simp add: update_conv' map_of_filter_keep keys)
    qed
    then show ?thesis using s' k by (simp add: update_conv')
  qed
  then show "locks_wf s'" "dl_tasks s' = dl_tasks s" "map_of (dl_map s') d = Some k" "k < length (dl_mutexes s')"
    by auto
qed

text \<open>
  One task changes, and with it the holders of some mutexes: what it holds afterwards it has, what it
  gave back is free, and the other tasks keep theirs.
\<close>

lemma locks_wf_task:
  assumes wf: "locks_wf s" and t: "t < length (dl_tasks s)" and len: "length ms = length (dl_mutexes s)"
    and ok: "task_ok (dl_map s) ms t tk"
    and others: "\<And>k t'. k < length ms \<Longrightarrow> t' \<noteq> t \<Longrightarrow> ms ! k = Some t' \<longleftrightarrow> dl_mutexes s ! k = Some t'"
    and own: "\<And>k. k < length ms \<Longrightarrow> ms ! k = Some t \<Longrightarrow> k \<in> snd ` set (task_guards tk)"
  shows "locks_wf (put_task t tk (s\<lparr>dl_mutexes := ms\<rparr>))"
proof -
  have "task_ok (dl_map s) ms t' (dl_tasks s ! t')" if "t' < length (dl_tasks s)" "t' \<noteq> t" for t'
  proof -
    have o: "task_ok (dl_map s) (dl_mutexes s) t' (dl_tasks s ! t')" by (rule locks_wfD [OF wf that(1)])
    have "ms ! k = Some t'" if g: "(d, k) \<in> set (task_guards (dl_tasks s ! t'))" for d k
      using task_okD(2) [OF o g] task_okD(1) [OF o, of d k] g task_guards_arcs others [of k t'] \<open>t' \<noteq> t\<close> len
      by auto
    then show ?thesis using o len by (auto simp: task_ok_def)
  qed
  moreover have "t' < length (dl_tasks s) \<and> k \<in> snd ` set (task_guards ((dl_tasks s)[t := tk] ! t'))"
    if "k < length ms" "ms ! k = Some t'" for k t'
    using that wf others [of k t'] own [of k] t len
    by (cases "t' = t") (auto simp: locks_wf_def)
  ultimately show ?thesis
    using wf ok t len by (auto simp: locks_wf_def put_task_def nth_list_update)
qed

text \<open>The special case in which no holder changes.\<close>

lemma locks_wf_same:
  assumes wf: "locks_wf s" and t: "t < length (dl_tasks s)"
    and ok: "task_ok (dl_map s) (dl_mutexes s) t tk"
    and guards: "set (task_guards tk) = set (task_guards (dl_tasks s ! t))"
  shows "locks_wf (put_task t tk s)"
proof -
  have "locks_wf (put_task t tk (s\<lparr>dl_mutexes := dl_mutexes s\<rparr>))"
    by (rule locks_wf_task [OF wf t _ ok]) (use wf guards in \<open>auto simp: locks_wf_def\<close>)
  then show ?thesis by simp
qed

lemma length_unlock [simp]: "length (unlock gs ms) = length ms"
  unfolding unlock_def by (induction gs arbitrary: ms) auto

lemma unlock_nth:
  "k < length ms \<Longrightarrow> unlock gs ms ! k = (if k \<in> snd ` set gs then None else ms ! k)"
  unfolding unlock_def by (induction gs arbitrary: ms) (auto simp: nth_list_update)

text \<open>A task that gives some of its guards back.\<close>

lemma locks_wf_unlock:
  assumes wf: "locks_wf s" and t: "t < length (dl_tasks s)"
    and split: "mset (task_guards (dl_tasks s ! t)) = mset (task_guards tk) + mset gs"
    and arcs: "set (waits_for (tk_pending tk)) \<subseteq> set (waits_for (tk_pending (dl_tasks s ! t)))"
    and frames: "frames_ok (tk_pending tk) (tk_frames tk)"
  shows "locks_wf (put_task t tk (s\<lparr>dl_mutexes := unlock gs (dl_mutexes s)\<rparr>))"
proof (rule locks_wf_task [OF wf t])
  let ?tk = "dl_tasks s ! t"
  have ok: "task_ok (dl_map s) (dl_mutexes s) t ?tk" by (rule locks_wfD [OF wf t])
  have sets: "set (task_guards ?tk) = set (task_guards tk) \<union> set gs"
    using arg_cong [OF split, of set_mset] by simp
  have "mset (map snd (task_guards ?tk)) = mset (map snd (task_guards tk @ gs))"
    using split by simp
  then have dist: "distinct (map snd (task_guards tk @ gs))"
    using task_okD(3) [OF ok] by (metis mset_eq_imp_distinct_iff)
  have held: "dl_mutexes s ! k = Some t \<and> k < length (dl_mutexes s)" if "k \<in> snd ` set (task_guards ?tk)" for k
    using that task_okD(1,2) [OF ok] task_guards_arcs by fastforce
  have "unlock gs (dl_mutexes s) ! k = Some t" if "(d, k) \<in> set (task_guards tk)" for d k
  proof -
    have "k \<in> snd ` set (task_guards ?tk)" using that sets by force
    moreover have "k \<notin> snd ` set gs" using dist that by force
    ultimately show ?thesis using held by (simp add: unlock_nth)
  qed
  moreover have "set (task_arcs tk) \<subseteq> set (task_arcs ?tk)"
    using arcs sets by (auto simp: task_arcs_def)
  ultimately show "task_ok (dl_map s) (unlock gs (dl_mutexes s)) t tk"
    using task_okD(1) [OF ok] dist frames by (auto simp: task_ok_def)
  show "unlock gs (dl_mutexes s) ! k = Some t' \<longleftrightarrow> dl_mutexes s ! k = Some t'"
    if "k < length (unlock gs (dl_mutexes s))" "t' \<noteq> t" for k t'
  proof (cases "k \<in> snd ` set gs")
    case True
    then have "k \<in> snd ` set (task_guards ?tk)" by (auto simp: sets)
    then show ?thesis using that held [of k] True by (simp add: unlock_nth)
  next
    case False
    then show ?thesis using that by (simp add: unlock_nth)
  qed
  show "k \<in> snd ` set (task_guards tk)"
    if "k < length (unlock gs (dl_mutexes s))" "unlock gs (dl_mutexes s) ! k = Some t" for k
  proof -
    have k: "k < length (dl_mutexes s)" "k \<notin> snd ` set gs" "dl_mutexes s ! k = Some t"
      using that by (auto simp: unlock_nth split: if_splits)
    then have "k \<in> snd ` set (task_guards ?tk)" using wf by (auto simp: locks_wf_def)
    then show ?thesis using k sets by auto
  qed
qed simp

section \<open>Every operation keeps the invariant\<close>

lemma task_guards_frame [simp]:
  "task_guards (tk\<lparr>tk_frames := f # fs\<rparr>) = frame_guards f @ task_guards (tk\<lparr>tk_frames := fs\<rparr>)"
  "task_guards (tk\<lparr>tk_pending := p\<rparr>) = task_guards tk"
  by (simp_all add: task_guards_def)

lemma task_arcs_pending: "task_arcs (tk\<lparr>tk_pending := p\<rparr>) = waits_for p @ task_guards tk"
  by (simp add: task_arcs_def)

lemma frames_ok_at_work:
  "at_work tk \<Longrightarrow> frames_ok (tk_pending tk) (tk_frames tk) \<Longrightarrow> scopes_ok (tk_frames tk)"
  by (auto simp: at_work_def split: list.splits hold_frame.splits)

lemma scopes_ok_frames_ok: "scopes_ok fs \<Longrightarrow> (\<And>g. p \<noteq> WaitHold g) \<Longrightarrow> frames_ok p fs"
  by (cases "(p, fs)" rule: frames_ok.cases) auto

lemma WaitLock_frames: "at_work tk \<Longrightarrow> scopes_ok (tk_frames tk) \<Longrightarrow> frames_ok (WaitLock g) (tk_frames tk)"
  by (rule scopes_ok_frames_ok) simp_all

text \<open>A task that begins to wait for the mutex it has just looked up.\<close>

lemma waiting_ok:
  assumes ok: "task_ok mp ms t tk" and "map_of mp d = Some k" and "k < length ms"
    and "set (waits_for (tk_pending tk')) \<subseteq> {(d, k)}" and "frames_ok (tk_pending tk') (tk_frames tk')"
    and "task_guards tk' = task_guards tk"
  shows "task_ok mp ms t tk'"
  using assms by (auto simp: task_ok_def task_arcs_def)

lemma lock_call_wf:
  assumes wf: "locks_wf s" and t: "t < length (dl_tasks s)" and work: "at_work (dl_tasks s ! t)"
  shows "locks_wf (fst (lock_call t d s))"
proof (cases "is_held (dl_tasks s ! t) d")
  case True
  then show ?thesis using wf by (simp add: lock_call_def Let_def)
next
  case False
  obtain s1 k where arc: "lock_arc d s = (s1, k)" by fastforce
  note spec = lock_arc_spec [OF wf arc]
  have ok: "task_ok (dl_map s1) (dl_mutexes s1) t (dl_tasks s ! t)"
    using locks_wfD [OF spec(1)] t spec(2) by simp
  have "task_ok (dl_map s1) (dl_mutexes s1) t ((dl_tasks s ! t)\<lparr>tk_pending := WaitLock (d, k)\<rparr>)"
    by (rule waiting_ok [OF ok spec(3,4)])
      (use frames_ok_at_work [OF work task_okD(4) [OF ok]] in \<open>auto simp: waits_for_def intro: WaitLock_frames work\<close>)
  then have "locks_wf (put_task t ((dl_tasks s ! t)\<lparr>tk_pending := WaitLock (d, k)\<rparr>) s1)"
    using t spec(2) by (intro locks_wf_same [OF spec(1)]) simp_all
  then show ?thesis using False arc by (simp add: lock_call_def Let_def)
qed

lemma strict_remdups_adj: "sorted (xs :: uuid list) \<Longrightarrow> sorted_wrt (<) (remdups_adj xs)"
  by (induction xs rule: remdups_adj.induct) (auto simp: less_le_trans le_less)

lemma sorted_dedup: "sorted_wrt (<) (remdups_adj (sort (xs :: uuid list)))"
  by (rule strict_remdups_adj) simp

lemma hold_call_wf:
  assumes wf: "locks_wf s" and t: "t < length (dl_tasks s)" and work: "at_work (dl_tasks s ! t)"
  shows "locks_wf (hold_call t ids s)"
proof -
  let ?tk = "dl_tasks s ! t"
  define ds where "ds = remdups_adj (sort (filter (\<lambda>d. \<not> is_held ?tk d) ids))"
  define f where "f = (if ds = [] then Inside (held_of (tk_frames ?tk)) [] else Taking ds ds [])"
  have ok: "task_ok (dl_map s) (dl_mutexes s) t ?tk" by (rule locks_wfD [OF wf t])
  have sc: "scopes_ok (tk_frames ?tk)" by (rule frames_ok_at_work [OF work task_okD(4) [OF ok]])
  have p: "tk_pending ?tk = NotWaiting" using work by (simp add: at_work_def)
  have g: "task_guards (?tk\<lparr>tk_frames := f # tk_frames ?tk\<rparr>) = task_guards ?tk"
    by (simp add: f_def)
  have "frames_ok NotWaiting (f # tk_frames ?tk)"
    using sc by (auto simp: f_def waits_for_def ds_def sorted_dedup)
  then have "task_ok (dl_map s) (dl_mutexes s) t (?tk\<lparr>tk_frames := f # tk_frames ?tk\<rparr>)"
    using ok p g by (simp add: task_ok_def task_arcs_def del: task_guards_frame)
  then have "locks_wf (put_task t (?tk\<lparr>tk_frames := f # tk_frames ?tk\<rparr>) s)"
    by (intro locks_wf_same [OF wf t]) (simp_all only: g)
  then show ?thesis unfolding hold_call_def Let_def f_def ds_def .
qed

lemma in_loop_cases:
  assumes "in_loop tk"
  obtains ds rest gs fs where "tk_pending tk = NotWaiting" and "tk_frames tk = Taking ds rest gs # fs"
  using assms by (auto simp: in_loop_def split: list.splits hold_frame.splits)

lemma task_guards_same_top:
  "tk_frames tk = f # fs \<Longrightarrow> frame_guards f' = frame_guards f \<Longrightarrow>
   task_guards (tk\<lparr>tk_frames := f' # fs\<rparr>) = task_guards tk"
  by (simp add: task_guards_def)

lemma hold_next_wf:
  assumes wf: "locks_wf s" and t: "t < length (dl_tasks s)" and loop: "in_loop (dl_tasks s ! t)"
  shows "locks_wf (hold_next t s)"
proof -
  let ?tk = "dl_tasks s ! t"
  from loop obtain ds rest gs fs where p: "tk_pending ?tk = NotWaiting"
    and fr: "tk_frames ?tk = Taking ds rest gs # fs"
    by (rule in_loop_cases)
  have ok: "task_ok (dl_map s) (dl_mutexes s) t ?tk" by (rule locks_wfD [OF wf t])
  have fok: "ds = map fst gs @ rest" "sorted_wrt (<) ds" "scopes_ok fs"
    using task_okD(4) [OF ok] by (auto simp: fr p waits_for_def)
  show ?thesis
  proof (cases rest)
    case Nil
    let ?tk' = "?tk\<lparr>tk_frames := Inside (held_of fs \<union> set ds) gs # fs\<rparr>"
    have g: "task_guards ?tk' = task_guards ?tk" by (rule task_guards_same_top [OF fr]) simp
    have "task_ok (dl_map s) (dl_mutexes s) t ?tk'"
      using ok fok g p Nil by (simp add: task_ok_def task_arcs_def del: task_guards_frame)
    then have "locks_wf (put_task t ?tk' s)" by (intro locks_wf_same [OF wf t]) (simp_all only: g)
    then show ?thesis by (simp add: hold_next_def fr Nil Let_def)
  next
    case (Cons d rest')
    obtain s1 k where arc: "lock_arc d s = (s1, k)" by fastforce
    note spec = lock_arc_spec [OF wf arc]
    let ?tk' = "?tk\<lparr>tk_pending := WaitHold (d, k), tk_frames := Taking ds rest' gs # fs\<rparr>"
    have g: "task_guards ?tk' = task_guards ?tk" by (simp add: task_guards_def fr)
    have ok1: "task_ok (dl_map s1) (dl_mutexes s1) t ?tk"
      using locks_wfD [OF spec(1)] t spec(2) by simp
    have "task_ok (dl_map s1) (dl_mutexes s1) t ?tk'"
      by (rule waiting_ok [OF ok1 spec(3,4) _ _ g]) (use fok Cons in \<open>simp_all add: waits_for_def\<close>)
    then have "locks_wf (put_task t ?tk' s1)"
      using t spec(2) g by (intro locks_wf_same [OF spec(1)]) (simp_all del: task_guards_frame)
    then show ?thesis using arc by (simp add: hold_next_def fr Cons Let_def)
  qed
qed

text \<open>Granting a free mutex: nobody had a guard of it, so the new guard is the only one.\<close>

lemma granted_ok:
  assumes wf: "locks_wf s" and t: "t < length (dl_tasks s)"
    and free: "dl_mutexes s ! k = None" and arc: "(d, k) \<in> set (task_arcs (dl_tasks s ! t))"
    and guards: "mset (task_guards tk) = add_mset (d, k) (mset (task_guards (dl_tasks s ! t)))"
    and p: "tk_pending tk = NotWaiting" and frames: "frames_ok NotWaiting (tk_frames tk)"
  shows "locks_wf (put_task t tk (s\<lparr>dl_mutexes := (dl_mutexes s)[k := Some t]\<rparr>))"
proof (rule locks_wf_task [OF wf t])
  let ?tk = "dl_tasks s ! t"
  have ok: "task_ok (dl_map s) (dl_mutexes s) t ?tk" by (rule locks_wfD [OF wf t])
  have sets: "set (task_guards tk) = insert (d, k) (set (task_guards ?tk))"
    using arg_cong [OF guards, of set_mset] by simp
  have k: "map_of (dl_map s) d = Some k" "k < length (dl_mutexes s)"
    using task_okD(1) [OF ok arc] by auto
  have "k \<notin> snd ` set (task_guards ?tk)" using free task_okD(2) [OF ok] by force
  moreover have "mset (map snd (task_guards tk)) = mset (k # map snd (task_guards ?tk))"
    using guards by simp
  ultimately have dist: "distinct (map snd (task_guards tk))"
    using task_okD(3) [OF ok] mset_eq_imp_distinct_iff [of "map snd (task_guards tk)"] by fastforce
  show "task_ok (dl_map s) ((dl_mutexes s)[k := Some t]) t tk"
    using k sets dist p frames task_okD(1,2) [OF ok] task_guards_arcs [of ?tk]
    by (auto simp: task_ok_def task_arcs_def waits_for_def nth_list_update)
  show "(dl_mutexes s)[k := Some t] ! k' = Some t' \<longleftrightarrow> dl_mutexes s ! k' = Some t'"
    if "k' < length ((dl_mutexes s)[k := Some t])" "t' \<noteq> t" for k' t'
    using that free k(2) by (cases "k' = k") auto
  show "k' \<in> snd ` set (task_guards tk)"
    if "k' < length ((dl_mutexes s)[k := Some t])" "(dl_mutexes s)[k := Some t] ! k' = Some t" for k'
    using that wf sets by (cases "k' = k") (auto simp: locks_wf_def image_iff)
qed simp

lemma can_be_grantedE:
  assumes "can_be_granted s tk"
  obtains d k where "tk_pending tk = WaitLock (d, k)" and "dl_mutexes s ! k = None"
  | d k where "tk_pending tk = WaitHold (d, k)" and "dl_mutexes s ! k = None"
  using assms by (cases "tk_pending tk") (auto simp: can_be_granted_def waits_for_def)

lemma WaitHold_frame:
  assumes "frames_ok (WaitHold g) fs"
  obtains ds rest gs fs' where "fs = Taking ds rest gs # fs'"
  using assms by (cases "(WaitHold g, fs)" rule: frames_ok.cases) (cases g; auto)+

lemma grant_wf:
  assumes wf: "locks_wf s" and t: "t < length (dl_tasks s)" and can: "can_be_granted s (dl_tasks s ! t)"
  shows "locks_wf (grant t s)"
proof -
  let ?tk = "dl_tasks s ! t"
  have ok: "task_ok (dl_map s) (dl_mutexes s) t ?tk" by (rule locks_wfD [OF wf t])
  note fok = task_okD(4) [OF ok]
  from can show ?thesis
  proof (rule can_be_grantedE)
    fix d k assume p: "tk_pending ?tk = WaitLock (d, k)" and free: "dl_mutexes s ! k = None"
    have "frames_ok NotWaiting (tk_frames ?tk)"
      using fok p by (cases "(tk_pending ?tk, tk_frames ?tk)" rule: frames_ok.cases) auto
    then have "locks_wf (put_task t (?tk\<lparr>tk_loose := (d, k) # tk_loose ?tk, tk_pending := NotWaiting\<rparr>)
        (s\<lparr>dl_mutexes := (dl_mutexes s)[k := Some t]\<rparr>))"
      using p by (intro granted_ok [OF wf t free]) (simp_all add: task_arcs_def waits_for_def task_guards_def)
    then show ?thesis by (simp add: grant_def Let_def p)
  next
    fix d k assume p: "tk_pending ?tk = WaitHold (d, k)" and free: "dl_mutexes s ! k = None"
    from fok p obtain ds rest gs fs where fr: "tk_frames ?tk = Taking ds rest gs # fs"
      by (auto elim: WaitHold_frame)
    have "locks_wf (put_task t
        (?tk\<lparr>tk_frames := Taking ds rest (gs @ [(d, k)]) # fs, tk_pending := NotWaiting\<rparr>)
        (s\<lparr>dl_mutexes := (dl_mutexes s)[k := Some t]\<rparr>))"
      using p fr fok
      by (intro granted_ok [OF wf t free]) (auto simp: task_arcs_def waits_for_def task_guards_def)
    then show ?thesis by (simp add: grant_def Let_def p fr)
  qed
qed

lemma scopes_ok_tl: "frames_ok p (f # fs) \<Longrightarrow> scopes_ok fs"
  by (cases f) auto

lemma hold_end_wf:
  assumes wf: "locks_wf s" and t: "t < length (dl_tasks s)"
  shows "locks_wf (hold_end t s)"
proof (cases "tk_frames (dl_tasks s ! t)")
  case Nil
  then show ?thesis using wf by (simp add: hold_end_def Let_def)
next
  case (Cons f fs)
  let ?tk = "dl_tasks s ! t"
  have "scopes_ok fs" using task_okD(4) [OF locks_wfD [OF wf t]] Cons by (auto intro: scopes_ok_tl)
  then have "locks_wf (put_task t (?tk\<lparr>tk_pending := NotWaiting, tk_frames := fs\<rparr>)
      (s\<lparr>dl_mutexes := unlock (frame_guards f) (dl_mutexes s)\<rparr>))"
    by (intro locks_wf_unlock [OF wf t]) (simp_all add: task_guards_def Cons waits_for_def scopes_ok_frames_ok)
  then show ?thesis by (simp add: hold_end_def Let_def Cons)
qed

lemma drop_guard_wf:
  assumes wf: "locks_wf s" and t: "t < length (dl_tasks s)" and i: "i < length (tk_loose (dl_tasks s ! t))"
  shows "locks_wf (drop_guard t i s)"
proof -
  let ?tk = "dl_tasks s ! t"
  let ?loose = "take i (tk_loose ?tk) @ drop (Suc i) (tk_loose ?tk)"
  have "mset (tk_loose ?tk) = mset ?loose + {#tk_loose ?tk ! i#}"
    by (subst id_take_nth_drop [OF i]) simp
  then have "locks_wf (put_task t (?tk\<lparr>tk_loose := ?loose\<rparr>)
      (s\<lparr>dl_mutexes := unlock [tk_loose ?tk ! i] (dl_mutexes s)\<rparr>))"
    using task_okD(4) [OF locks_wfD [OF wf t]]
    by (intro locks_wf_unlock [OF wf t]) (simp_all add: task_guards_def)
  then show ?thesis by (simp add: drop_guard_def Let_def)
qed

lemma drop_lock_wf:
  assumes wf: "locks_wf s" and t: "t < length (dl_tasks s)" and p: "tk_pending (dl_tasks s ! t) = WaitLock g"
  shows "locks_wf (drop_lock t s)"
proof -
  let ?tk = "dl_tasks s ! t"
  have ok: "task_ok (dl_map s) (dl_mutexes s) t ?tk" by (rule locks_wfD [OF wf t])
  have "frames_ok NotWaiting (tk_frames ?tk)"
    using task_okD(4) [OF ok] p
    by (cases g; cases "(tk_pending ?tk, tk_frames ?tk)" rule: frames_ok.cases) auto
  then have "task_ok (dl_map s) (dl_mutexes s) t (?tk\<lparr>tk_pending := NotWaiting\<rparr>)"
    using ok by (auto simp: task_ok_def task_arcs_def waits_for_def)
  then show ?thesis unfolding drop_lock_def by (intro locks_wf_same [OF wf t]) simp_all
qed

lemma locks_new_wf: "locks_wf (locks_new n)"
  by (simp add: locks_wf_def locks_new_def task_ok_def idle_task_def task_arcs_def task_guards_def waits_for_def)

lemma lock_step_wf: "lock_step s s' \<Longrightarrow> locks_wf s \<Longrightarrow> locks_wf s'"
  by (induction rule: lock_step.induct)
    (auto intro: lock_call_wf hold_call_wf hold_next_wf grant_wf hold_end_wf drop_guard_wf drop_lock_wf)

lemma locks_reachable_wf: "locks_reachable n s \<Longrightarrow> locks_wf s"
  by (induction rule: locks_reachable.induct) (auto intro: locks_new_wf lock_step_wf)

section \<open>Runs\<close>

text \<open>
  Two tasks: one holds two datasets, one of which the other waits for; and the state after a whole
  list of moves, each of which is a step.
\<close>

lemmas locks_eval = locks_new_def idle_task_def hold_call_def hold_next_def grant_def lock_arc_def
  strong_count_def task_arcs_def task_guards_def waits_for_def put_task_def is_held_def lock_call_def
  prune_threshold_def Let_def at_work_def in_loop_def can_be_granted_def

definition holding :: lock_task where
  "holding = \<lparr>tk_pending = NotWaiting, tk_frames = [Inside {3, 5} [(3, 0), (5, 1)]], tk_loose = []\<rparr>"

definition sample_locks :: dataset_locks where
  "sample_locks = \<lparr>dl_map = [(3, 0), (5, 1)], dl_mutexes = [Some 0, Some 0],
     dl_tasks = [holding, \<lparr>tk_pending = WaitHold (3, 0), tk_frames = [Taking [3] [] []], tk_loose = []\<rparr>]\<rparr>"

lemma sample_locks_reachable: "locks_reachable 2 sample_locks"
proof -
  have start: "locks_reachable 2 \<lparr>dl_map = [], dl_mutexes = [], dl_tasks = [idle_task, idle_task]\<rparr>"
    using locks_start [of 2] by (simp add: locks_new_def numeral_2_eq_2)
  note s1 = locks_step [OF start calls_hold [of 0 _ "[5, 3]"]]
  note s2 = locks_step [OF _ loops [of 0]] and s3 = locks_step [OF _ granted [of 0]]
    and s4 = locks_step [OF _ calls_hold [of 1 _ "[3]"]] and s5 = locks_step [OF _ loops [of 1]]
  have "locks_reachable 2 (hold_next 1 (hold_call 1 [3] (hold_next 0 (grant 0 (hold_next 0 (grant 0
          (hold_next 0 (hold_call 0 [5, 3]
             \<lparr>dl_map = [], dl_mutexes = [], dl_tasks = [idle_task, idle_task]\<rparr>))))))))"
    by (intro s5 s4 s3 s2 s1) (simp_all add: locks_eval)
  then show ?thesis by (simp add: locks_eval sample_locks_def holding_def insert_commute)
qed

section \<open>Exclusion, re-entrancy and progress\<close>

lemma lock_step_tasks: "lock_step s s' \<Longrightarrow> locks_wf s \<Longrightarrow> length (dl_tasks s') = length (dl_tasks s)"
proof (induction rule: lock_step.induct)
  case (calls_lock t s d)
  then show ?case using lock_arc_spec(2) [of s d]
    by (auto simp: lock_call_def put_task_def Let_def split: prod.split)
next
  case (loops t s)
  then show ?case using lock_arc_spec(2) [OF loops.prems]
    by (auto simp: hold_next_def put_task_def Let_def split: list.split hold_frame.split prod.split)
qed (auto simp: hold_call_def hold_end_def drop_lock_def drop_guard_def grant_def put_task_def Let_def
      split: list.split hold_frame.split pending.split)

lemma locks_reachable_tasks: "locks_reachable n s \<Longrightarrow> length (dl_tasks s) = n"
  by (induction rule: locks_reachable.induct)
    (auto simp: locks_new_def lock_step_tasks dest: locks_reachable_wf)

text \<open>The mutex of a dataset is one mutex while anybody has an \<open>Arc\<close> to it, and belongs to no other dataset.\<close>

lemma same_dataset_same_mutex:
  assumes wf: "locks_wf s" and "t < length (dl_tasks s)" and "t' < length (dl_tasks s)"
    and "(d, k) \<in> set (task_arcs (dl_tasks s ! t))" and "(d', k') \<in> set (task_arcs (dl_tasks s ! t'))"
  shows "d = d' \<longleftrightarrow> k = k'"
proof -
  have m: "map_of (dl_map s) d = Some k" "map_of (dl_map s) d' = Some k'"
    using task_okD(1) [OF locks_wfD [OF wf]] assms(2-5) by blast+
  have "distinct (map snd (dl_map s))" using wf by (simp add: locks_wf_def)
  then show ?thesis
    using m map_of_SomeD [OF m(1)] map_of_SomeD [OF m(2)]
    by (metis eq_key_imp_eq_value inj_onD distinct_map prod.inject snd_conv option.inject)
qed

lemma guards_distinct_ids:
  assumes wf: "locks_wf s" and t: "t < length (dl_tasks s)"
  shows "distinct (map fst (task_guards (dl_tasks s ! t)))"
proof -
  let ?g = "task_guards (dl_tasks s ! t)"
  have "distinct (map snd ?g)" by (rule task_okD(3) [OF locks_wfD [OF wf t]])
  moreover have "inj_on fst (set ?g)"
    using same_dataset_same_mutex [OF wf t t] task_guards_arcs by (fastforce intro: inj_onI)
  ultimately show ?thesis by (simp add: distinct_map)
qed

text \<open>
  C7: The locks exclude. In every reachable state of any number of tasks that lock, hold, nest,
  give up and drop guards in any order, and however often the map of weak entries has been pruned
  and its mutexes replaced, two guards of one dataset are one guard of one task.
\<close>

theorem dataset_lock_excludes:
  assumes "locks_reachable n s" and "t < n" and "t' < n"
    and "d \<in> fst ` set (task_guards (dl_tasks s ! t))" and "d \<in> fst ` set (task_guards (dl_tasks s ! t'))"
  shows "t = t' \<and> count (mset (map fst (task_guards (dl_tasks s ! t)))) d = 1"
proof -
  have wf: "locks_wf s" by (rule locks_reachable_wf [OF assms(1)])
  have len: "length (dl_tasks s) = n" by (rule locks_reachable_tasks [OF assms(1)])
  obtain k k' where g: "(d, k) \<in> set (task_guards (dl_tasks s ! t))" "(d, k') \<in> set (task_guards (dl_tasks s ! t'))"
    using assms(4,5) by auto
  then have "k = k'"
    using same_dataset_same_mutex [OF wf, of t t' d k d k'] assms(2,3) len task_guards_arcs by blast
  then have "t = t'"
    using g task_okD(2) [OF locks_wfD [OF wf]] assms(2,3) len by (metis option.inject)
  moreover have "count (mset (map fst (task_guards (dl_tasks s ! t)))) d = 1"
    using guards_distinct_ids [OF wf] assms(2,4) len
    by (simp add: distinct_count_atmost_1 del: mset_map)
  ultimately show ?thesis by blast
qed

theorem dataset_lock_excludes_witness:
  "count (mset (map fst (task_guards (dl_tasks sample_locks ! 0)))) 3 = 1"
  using dataset_lock_excludes [OF sample_locks_reachable, of 0 0 3]
  by (simp add: sample_locks_def holding_def task_guards_def)

lemma scopes_held: "scopes_ok fs \<Longrightarrow> held_of fs \<subseteq> fst ` set (concat (map frame_guards fs))"
  by (induction fs rule: scopes_ok.induct) (auto simp: image_Un)

lemma frames_held: "frames_ok p fs \<Longrightarrow> held_of fs \<subseteq> fst ` set (concat (map frame_guards fs))"
  by (cases "(p, fs)" rule: frames_ok.cases) (auto simp: image_Un dest!: scopes_held)

text \<open>
  Re-entrancy is sound. Whenever a task finds a dataset in its held set, and so takes no lock
  for it, the task has the guard of that dataset: the call returns at once, changes nothing, and
  what it protects is still excluded.
\<close>

lemma reentrant_lock_is_covered:
  assumes "locks_reachable n s" and "t < n" and "is_held (dl_tasks s ! t) d"
  shows "lock_call t d s = (s, True) \<and> d \<in> fst ` set (task_guards (dl_tasks s ! t))"
proof -
  have wf: "locks_wf s" by (rule locks_reachable_wf [OF assms(1)])
  have t: "t < length (dl_tasks s)" using assms(2) locks_reachable_tasks [OF assms(1)] by simp
  have "d \<in> held_of (tk_frames (dl_tasks s ! t))" using assms(3) by (simp add: is_held_def)
  also note frames_held [OF task_okD(4) [OF locks_wfD [OF wf t]]]
  finally show ?thesis using assms(3) by (auto simp: lock_call_def task_guards_def)
qed

text \<open>A task is orderly if it waits with no guards but those its only \<open>hold\<close> has taken so far.\<close>

definition waiting :: "lock_task \<Rightarrow> bool" where
  "waiting tk \<longleftrightarrow> tk_pending tk \<noteq> NotWaiting"

definition orderly :: "lock_task \<Rightarrow> bool" where
  "orderly tk \<longleftrightarrow>
     (case tk_pending tk of
        NotWaiting \<Rightarrow> True
      | WaitLock _ \<Rightarrow> task_guards tk = []
      | WaitHold _ \<Rightarrow> tk_loose tk = [] \<and> length (tk_frames tk) = 1)"

lemma waitingE:
  assumes "waiting tk" obtains d k where "waits_for (tk_pending tk) = [(d, k)]"
  using assms by (cases "tk_pending tk") (auto simp: waiting_def waits_for_def)

text \<open>An orderly waiting task waits for something greater than all it has.\<close>

lemma orderly_ascending:
  assumes "orderly tk" and "frames_ok (tk_pending tk) (tk_frames tk)"
    and w: "waits_for (tk_pending tk) = [(d, k)]" and g: "(d', k') \<in> set (task_guards tk)"
  shows "d' < d"
proof (cases "tk_pending tk")
  case (WaitHold g0)
  then obtain ds rest gs fs where fr: "tk_frames tk = Taking ds rest gs # fs"
    using assms(2) by (auto elim: WaitHold_frame)
  then have "task_guards tk = gs" using assms(1) WaitHold by (simp add: orderly_def task_guards_def)
  moreover have "sorted_wrt (<) (map fst gs @ [d] @ rest)"
    using assms(2) w fr by (auto simp del: sorted_wrt_append)
  ultimately show ?thesis using g by (force simp: sorted_wrt_append)
qed (use assms in \<open>auto simp: orderly_def waits_for_def\<close>)

text \<open>
  C35: Taking the ids in ascending order prevents deadlock. While every task that waits does so
  with no guards other than those its own unnested \<open>hold\<close> has taken, waiting tasks cannot block
  each other: some waiting task can be granted its mutex, or some guard is held by a task that
  waits for nothing.
\<close>

theorem orderly_holds_do_not_deadlock:
  assumes "locks_reachable n s" and "\<forall>t < n. orderly (dl_tasks s ! t)"
    and "t0 < n" and "waiting (dl_tasks s ! t0)"
  shows "\<exists>t < n. can_be_granted s (dl_tasks s ! t) \<or>
           \<not> waiting (dl_tasks s ! t) \<and> task_guards (dl_tasks s ! t) \<noteq> []"
proof -
  have wf: "locks_wf s" by (rule locks_reachable_wf [OF assms(1)])
  have len: "length (dl_tasks s) = n" by (rule locks_reachable_tasks [OF assms(1)])
  define W where "W = {fst (hd (waits_for (tk_pending (dl_tasks s ! t)))) | t. t < n \<and> waiting (dl_tasks s ! t)}"
  have fin: "finite W" and "W \<noteq> {}" using assms(3,4) by (auto simp: W_def)
  then have "Max W \<in> W" by (rule Max_in)
  then obtain t where t: "t < n" "waiting (dl_tasks s ! t)"
    and mx: "fst (hd (waits_for (tk_pending (dl_tasks s ! t)))) = Max W"
    unfolding W_def by auto
  obtain d k where w: "waits_for (tk_pending (dl_tasks s ! t)) = [(d, k)]" using t(2) by (rule waitingE)
  have arc: "(d, k) \<in> set (task_arcs (dl_tasks s ! t))" by (simp add: task_arcs_def w)
  show ?thesis
  proof (cases "dl_mutexes s ! k")
    case None
    then show ?thesis using t(1) w by (auto simp: can_be_granted_def)
  next
    case (Some t')
    have "k < length (dl_mutexes s)" using task_okD(1) [OF locks_wfD [OF wf] arc] t(1) len by simp
    with Some have t': "t' < n" and "k \<in> snd ` set (task_guards (dl_tasks s ! t'))"
      using wf len by (auto simp: locks_wf_def)
    then obtain d' where g: "(d', k) \<in> set (task_guards (dl_tasks s ! t'))" by auto
    then have "d' = d"
      using same_dataset_same_mutex [OF wf, of t' t d' k d k] arc t(1) t' len task_guards_arcs by auto
    show ?thesis
    proof (cases "waiting (dl_tasks s ! t')")
      case True
      then obtain d2 k2 where w2: "waits_for (tk_pending (dl_tasks s ! t')) = [(d2, k2)]" by (rule waitingE)
      have "d' < d2"
        using orderly_ascending [OF _ task_okD(4) [OF locks_wfD [OF wf]] w2 g] assms(2) t' len by simp
      moreover have "d2 \<in> W" using t' True w2 unfolding W_def by force
      ultimately show ?thesis using Max_ge [OF fin] mx w \<open>d' = d\<close> by fastforce
    next
      case False
      then show ?thesis using g t' by force
    qed
  qed
qed

theorem orderly_holds_do_not_deadlock_witness:
  "\<exists>t < 2. can_be_granted sample_locks (dl_tasks sample_locks ! t) \<or>
     \<not> waiting (dl_tasks sample_locks ! t) \<and> task_guards (dl_tasks sample_locks ! t) \<noteq> []"
  by (rule orderly_holds_do_not_deadlock [OF sample_locks_reachable, of 1])
    (auto simp: sample_locks_def holding_def orderly_def waiting_def numeral_2_eq_2 less_Suc_eq)

text \<open>
  Nested holds are not orderly: two tasks that hold one dataset each and then hold the other's inside
  wait for each other.
\<close>

definition crossing :: "uuid \<Rightarrow> uuid \<Rightarrow> nat \<Rightarrow> nat \<Rightarrow> lock_task" where
  "crossing mine other k k' = \<lparr>tk_pending = WaitHold (other, k'),
     tk_frames = [Taking [other] [] [], Inside {mine} [(mine, k)]], tk_loose = []\<rparr>"

lemma nested_holds_can_deadlock:
  "locks_reachable 2 \<lparr>dl_map = [(3, 0), (5, 1)], dl_mutexes = [Some 0, Some 1],
      dl_tasks = [crossing 3 5 0 1, crossing 5 3 1 0]\<rparr>"
  "\<not> can_be_granted \<lparr>dl_map = [(3, 0), (5, 1)], dl_mutexes = [Some 0, Some 1],
      dl_tasks = [crossing 3 5 0 1, crossing 5 3 1 0]\<rparr> (crossing 3 5 0 1)"
  "\<not> can_be_granted \<lparr>dl_map = [(3, 0), (5, 1)], dl_mutexes = [Some 0, Some 1],
      dl_tasks = [crossing 3 5 0 1, crossing 5 3 1 0]\<rparr> (crossing 5 3 1 0)"
proof -
  have start: "locks_reachable 2 \<lparr>dl_map = [], dl_mutexes = [], dl_tasks = [idle_task, idle_task]\<rparr>"
    using locks_start [of 2] by (simp add: locks_new_def numeral_2_eq_2)
  note c = locks_step [OF _ calls_hold] and l = locks_step [OF _ loops] and g = locks_step [OF _ granted]
  have r: "locks_reachable 2 (hold_next 1 (grant 1 (hold_next 1 (hold_call 1 [5]
      (hold_next 0 (grant 0 (hold_next 0 (hold_call 0 [3]
         \<lparr>dl_map = [], dl_mutexes = [], dl_tasks = [idle_task, idle_task]\<rparr>))))))))"
    by (intro l c g start) (simp_all add: locks_eval)
  have "locks_reachable 2 (hold_next 1 (hold_call 1 [3] (hold_next 0 (hold_call 0 [5]
      (hold_next 1 (grant 1 (hold_next 1 (hold_call 1 [5] (hold_next 0 (grant 0 (hold_next 0 (hold_call 0 [3]
         \<lparr>dl_map = [], dl_mutexes = [], dl_tasks = [idle_task, idle_task]\<rparr>))))))))))))"
    by (rule l, rule c, rule l, rule c, rule r) (simp_all add: locks_eval)
  then show "locks_reachable 2 \<lparr>dl_map = [(3, 0), (5, 1)], dl_mutexes = [Some 0, Some 1],
      dl_tasks = [crossing 3 5 0 1, crossing 5 3 1 0]\<rparr>"
    by (simp add: locks_eval crossing_def)
qed (simp_all add: can_be_granted_def crossing_def waits_for_def)

end
