(* ===== verification/Sanitize.thy ===== *)
theory Sanitize
  imports "HOL-Library.AList" Run_Info
begin

text \<open>
  \<open>crates/utils/src/sanitize.rs\<close>: NUL characters are stripped from the strings and the object
  keys of a JSON value on its way into the database. Objects keep insertion order, and \<open>insert\<close>
  of a key that is present replaces its value in place.
\<close>

definition sanitize_str :: "ustr \<Rightarrow> ustr" where
  "sanitize_str s = (if 0 \<in> set s then filter (\<lambda>c. c \<noteq> 0) s else s)"

definition has_nul :: "string \<Rightarrow> bool" where
  "has_nul k \<longleftrightarrow> CHR 0x00 \<in> set k"

definition sanitize_string :: "string \<Rightarrow> string" where
  "sanitize_string k = (if has_nul k then filter (\<lambda>c. c \<noteq> CHR 0x00) k else k)"

definition rebuild_object :: "(string \<times> 'a) list \<Rightarrow> (string \<times> 'a) list" where
  "rebuild_object kvs =
     (if list_ex (\<lambda>(k, _). has_nul k) kvs
      then foldl (\<lambda>m (k, v). AList.update (sanitize_string k) v m) [] kvs
      else kvs)"

fun sanitize_json :: "json \<Rightarrow> json" where
  "sanitize_json (JStr s) = JStr (sanitize_str s)"
| "sanitize_json (JArr items) = JArr (map sanitize_json items)"
| "sanitize_json (JObj kvs) = JObj (rebuild_object (map (\<lambda>(k, v). (k, sanitize_json v)) kvs))"
| "sanitize_json v = v"

section \<open>What is left\<close>

fun nul_free :: "json \<Rightarrow> bool" where
  "nul_free (JStr s) \<longleftrightarrow> 0 \<notin> set s"
| "nul_free (JArr items) \<longleftrightarrow> list_all nul_free items"
| "nul_free (JObj kvs) \<longleftrightarrow> list_all (\<lambda>(k, v). \<not> has_nul k \<and> nul_free v) kvs"
| "nul_free v \<longleftrightarrow> True"

lemma sanitize_str_nul [simp]: "0 \<notin> set (sanitize_str s)"
  by (simp add: sanitize_str_def)

lemma sanitize_string_nul [simp]: "\<not> has_nul (sanitize_string k)"
  by (simp add: sanitize_string_def has_nul_def)

lemma sanitize_string_id [simp]: "\<not> has_nul k \<Longrightarrow> sanitize_string k = k"
  by (simp add: sanitize_string_def)

lemma update_all:
  "list_all P m \<Longrightarrow> P (k, v) \<Longrightarrow> list_all P (AList.update k v m)"
  by (induction m) auto

lemma rebuild_all:
  assumes "list_all (\<lambda>(k, v). Q v) kvs"
  shows "list_all (\<lambda>(k, v). \<not> has_nul k \<and> Q v) (rebuild_object kvs)"
proof (cases "list_ex (\<lambda>(k, _). has_nul k) kvs")
  case True
  have "list_all (\<lambda>(k, v). \<not> has_nul k \<and> Q v) (foldl (\<lambda>m (k, v). AList.update (sanitize_string k) v m) m kvs)"
    if "list_all (\<lambda>(k, v). \<not> has_nul k \<and> Q v) m" for m
    using assms that
  proof (induction kvs arbitrary: m)
    case (Cons kv kvs)
    obtain k v where kv: "kv = (k, v)" by fastforce
    have "list_all (\<lambda>(k, v). \<not> has_nul k \<and> Q v) (AList.update (sanitize_string k) v m)"
      using Cons.prems kv by (intro update_all) auto
    with Cons show ?case by (simp add: kv)
  qed simp
  from this [of "[]"] True show ?thesis by (simp add: rebuild_object_def)
next
  case False
  with assms show ?thesis by (auto simp: rebuild_object_def list_all_iff list_ex_iff)
qed

text \<open>A rebuilt object has every key once; one whose keys are clean is left as it is.\<close>

lemma rebuild_distinct:
  assumes "distinct (map fst kvs)"
  shows "distinct (map fst (rebuild_object kvs))"
proof -
  have "distinct (map fst m) \<Longrightarrow>
      distinct (map fst (foldl (\<lambda>m (k, v). AList.update (sanitize_string k) v m) m kvs))" for m :: "(string \<times> 'a) list"
    by (induction kvs arbitrary: m) (auto simp: distinct_update)
  with assms show ?thesis by (simp add: rebuild_object_def)
qed

lemma sanitize_nul_free: "nul_free (sanitize_json v)"
proof (induction v rule: sanitize_json.induct)
  case (3 kvs)
  then have "list_all (\<lambda>(k, v). nul_free v) (map (\<lambda>(k, v). (k, sanitize_json v)) kvs)"
    by (auto simp: list_all_iff)
  from rebuild_all [OF this] show ?case by simp
qed (auto simp: list_all_iff)

lemma sanitize_clean: "nul_free v \<Longrightarrow> sanitize_json v = v"
proof (induction v rule: sanitize_json.induct)
  case (1 s)
  then show ?case by (simp add: sanitize_str_def)
next
  case (2 items)
  then show ?case by (auto simp: list_all_iff intro: map_idI)
next
  case (3 kvs)
  have kvs: "map (\<lambda>(k, v). (k, sanitize_json v)) kvs = kvs"
    using 3 by (intro map_idI) (auto simp: list_all_iff)
  show ?case using "3.prems" by (auto simp: kvs rebuild_object_def list_all_iff list_ex_iff)
qed auto

lemma sanitize_idempotent: "sanitize_json (sanitize_json v) = sanitize_json v"
  by (rule sanitize_clean [OF sanitize_nul_free])

end
