(* ===== verification/Run_Store.thy ===== *)
theory Run_Store
  imports "HOL-Library.Multiset" "HOL-Library.Product_Lexorder" Sanitize
begin

text \<open>
  The rows of the table \<open>pipeline_runs\<close>: \<open>crates/database/src/pipelines/sea_orm_impl.rs\<close> with the
  types of \<open>repository.rs\<close>. Every status transition of a run is a row of its own; rows are never
  changed. The table is the list of its rows in the order of their insertion. Ids are stored as
  fixed-width hex texts, which sort like the ids; a stored id that does not parse is left out.

  What \<open>ORDER BY created_at DESC\<close> answers is a parameter \<open>nf\<close> (newest first): SQL leaves the order of
  rows that share a timestamp open. \<open>newest_order\<close> is all that is known of it. \<open>now\<close> is what the
  clock shows at an insertion and \<open>i\<close> the fresh UUID.
\<close>

record stored_run =
  sr_id :: uuid
  sr_created_at :: int
  sr_status :: db_status
  sr_run_id :: uuid
  sr_pipeline_name :: ustr
  sr_pipeline_id :: uuid
  sr_dataset_id :: "uuid option"
  sr_run_info :: "json option"
  sr_user_id :: "uuid option"

definition newest_order :: "(stored_run list \<Rightarrow> stored_run list) \<Rightarrow> bool" where
  "newest_order nf \<longleftrightarrow>
     (\<forall>rows. mset (nf rows) = mset rows \<and> sorted_wrt (\<lambda>a b. sr_created_at b \<le> sr_created_at a) (nf rows))"

definition by_time_desc :: "stored_run list \<Rightarrow> stored_run list" where
  "by_time_desc rows = rev (sort_key sr_created_at rows)"

section \<open>Writing\<close>

record run_entry =
  en_run_id :: uuid
  en_pipeline_id :: uuid
  en_pipeline_name :: ustr
  en_dataset_id :: "uuid option"
  en_status :: db_status
  en_run_info :: "json option"
  en_user_id :: "uuid option"

definition log_pipeline_run_entry :: "int \<Rightarrow> uuid \<Rightarrow> run_entry \<Rightarrow> stored_run list \<Rightarrow> stored_run list" where
  "log_pipeline_run_entry now i e rows =
     rows @ [\<lparr>sr_id = i, sr_created_at = now, sr_status = en_status e, sr_run_id = en_run_id e,
              sr_pipeline_name = en_pipeline_name e, sr_pipeline_id = en_pipeline_id e,
              sr_dataset_id = en_dataset_id e, sr_run_info = map_option sanitize_json (en_run_info e),
              sr_user_id = en_user_id e\<rparr>]"

definition log_pipeline_run ::
  "int \<Rightarrow> uuid \<Rightarrow> uuid \<Rightarrow> uuid \<Rightarrow> ustr \<Rightarrow> uuid option \<Rightarrow> db_status \<Rightarrow> json option
     \<Rightarrow> stored_run list \<Rightarrow> stored_run list" where
  "log_pipeline_run now i run_id pipeline_id name dataset_id status info rows =
     log_pipeline_run_entry now i
       \<lparr>en_run_id = run_id, en_pipeline_id = pipeline_id, en_pipeline_name = name,
        en_dataset_id = dataset_id, en_status = status, en_run_info = info, en_user_id = None\<rparr> rows"

section \<open>Reading the newest row\<close>

definition get_pipeline_run ::
  "(stored_run list \<Rightarrow> stored_run list) \<Rightarrow> uuid \<Rightarrow> stored_run list \<Rightarrow> stored_run option" where
  "get_pipeline_run nf run_id rows =
     (case nf (filter (\<lambda>r. sr_run_id r = run_id) rows) of [] \<Rightarrow> None | r # _ \<Rightarrow> Some r)"

definition on_pair :: "uuid \<Rightarrow> ustr \<Rightarrow> stored_run \<Rightarrow> bool" where
  "on_pair ds name r \<longleftrightarrow> sr_dataset_id r = Some ds \<and> sr_pipeline_name r = name"

definition get_pipeline_run_by_dataset ::
  "(stored_run list \<Rightarrow> stored_run list) \<Rightarrow> uuid \<Rightarrow> ustr \<Rightarrow> stored_run list \<Rightarrow> stored_run option" where
  "get_pipeline_run_by_dataset nf ds name rows =
     (case nf (filter (on_pair ds name) rows) of [] \<Rightarrow> None | r # _ \<Rightarrow> Some r)"

text \<open>The first row seen per key, in the order seen: the loops over \<open>entry().or_insert\<close> and \<open>HashSet::insert\<close>.\<close>

fun first_per :: "('a \<Rightarrow> 'k) \<Rightarrow> 'k list \<Rightarrow> 'a list \<Rightarrow> 'a list" where
  "first_per key seen [] = []"
| "first_per key seen (x # xs) =
     (if key x \<in> set seen then first_per key seen xs else x # first_per key (key x # seen) xs)"

definition get_pipeline_runs_by_dataset ::
  "(stored_run list \<Rightarrow> stored_run list) \<Rightarrow> uuid \<Rightarrow> stored_run list \<Rightarrow> stored_run list" where
  "get_pipeline_runs_by_dataset nf ds rows =
     first_per sr_pipeline_name [] (nf (filter (\<lambda>r. sr_dataset_id r = Some ds) rows))"

definition latest_status ::
  "(stored_run list \<Rightarrow> stored_run list) \<Rightarrow> uuid list \<Rightarrow> ustr \<Rightarrow> stored_run list \<Rightarrow> (uuid \<times> db_status) list" where
  "latest_status nf ids name rows =
     (if ids = [] then []
      else foldl (\<lambda>m r. case sr_dataset_id r of
                          None \<Rightarrow> m
                        | Some d \<Rightarrow> if map_of m d = None then m @ [(d, sr_status r)] else m)
             []
             (nf (filter (\<lambda>r. sr_pipeline_name r = name \<and>
                    (case sr_dataset_id r of None \<Rightarrow> False | Some d \<Rightarrow> d \<in> set ids)) rows)))"

definition list_recent ::
  "(stored_run list \<Rightarrow> stored_run list) \<Rightarrow> uuid option \<Rightarrow> nat \<Rightarrow> stored_run list \<Rightarrow> stored_run list" where
  "list_recent nf ds limit rows =
     take limit (nf (case ds of None \<Rightarrow> rows | Some d \<Rightarrow> filter (\<lambda>r. sr_dataset_id r = Some d) rows))"

section \<open>Runs in flight\<close>

text \<open>
  \<open>HashMap::into_values\<close> yields the newest rows in no particular order; the model keeps the order
  in which they were seen. No result below depends on it.
\<close>

definition in_flight :: "db_status \<Rightarrow> bool" where
  "in_flight s \<longleftrightarrow> s = Initiated \<or> s = Started"

definition latest_in_flight_rows ::
  "(stored_run list \<Rightarrow> stored_run list) \<Rightarrow> stored_run list \<Rightarrow> stored_run list" where
  "latest_in_flight_rows nf rows =
     filter (\<lambda>r. in_flight (sr_status r)) (first_per sr_run_id [] (nf rows))"

definition list_orphan_runs ::
  "(stored_run list \<Rightarrow> stored_run list) \<Rightarrow> stored_run list \<Rightarrow> stored_run list" where
  "list_orphan_runs nf rows = latest_in_flight_rows nf rows"

text \<open>
  One turn of the loop of \<open>reset_orphans\<close>: the orphan is fetched by its id and gets an \<open>Errored\<close>
  successor. \<open>stamps\<close> yields the clock and the fresh id of every insertion.
\<close>

definition reason_info :: "ustr \<Rightarrow> json" where
  "reason_info reason = sanitize_json (JObj [(''reason'', JStr reason)])"

definition errored_successor :: "int \<Rightarrow> uuid \<Rightarrow> json \<Rightarrow> stored_run \<Rightarrow> stored_run" where
  "errored_successor now i info r =
     r\<lparr>sr_id := i, sr_created_at := now, sr_status := Errored, sr_run_info := Some info\<rparr>"

definition find_by_id :: "uuid \<Rightarrow> stored_run list \<Rightarrow> stored_run option" where
  "find_by_id i rows = find (\<lambda>r. sr_id r = i) rows"

definition reset_one ::
  "(nat \<Rightarrow> int \<times> uuid) \<Rightarrow> json \<Rightarrow> stored_run list \<times> nat \<Rightarrow> uuid \<Rightarrow> stored_run list \<times> nat" where
  "reset_one stamps info st i =
     (let (rows, n) = st in
      case find_by_id i rows of
        None \<Rightarrow> (rows, n)
      | Some r \<Rightarrow> (rows @ [errored_successor (fst (stamps n)) (snd (stamps n)) info r], Suc n))"

definition reset_orphans ::
  "(stored_run list \<Rightarrow> stored_run list) \<Rightarrow> (nat \<Rightarrow> int \<times> uuid) \<Rightarrow> ustr \<Rightarrow> stored_run list
     \<Rightarrow> stored_run list \<times> nat" where
  "reset_orphans nf stamps reason rows =
     (let ids = map sr_id (latest_in_flight_rows nf rows) in
      if ids = [] then (rows, 0)
      else foldl (reset_one stamps (reason_info reason)) (rows, 0) ids)"

definition reset_orphan_run ::
  "(stored_run list \<Rightarrow> stored_run list) \<Rightarrow> int \<Rightarrow> uuid \<Rightarrow> uuid \<Rightarrow> ustr \<Rightarrow> uuid \<Rightarrow> ustr \<Rightarrow> stored_run list
     \<Rightarrow> stored_run list \<times> bool" where
  "reset_orphan_run nf now i ds name row_id reason rows =
     (case get_pipeline_run_by_dataset nf ds name rows of
        None \<Rightarrow> (rows, False)
      | Some latest \<Rightarrow>
          if sr_id latest \<noteq> row_id then (rows, False)
          else if \<not> in_flight (sr_status latest) then (rows, False)
          else (rows @ [errored_successor now i (reason_info reason) latest], True))"

section \<open>Payload fields\<close>

type_synonym payload_fields = "((uuid \<times> string) \<times> json) list"

definition set_payload_field :: "uuid \<Rightarrow> string \<Rightarrow> json \<Rightarrow> payload_fields \<Rightarrow> payload_fields" where
  "set_payload_field run key v fs = AList.update (run, key) (sanitize_json v) fs"

definition get_payload :: "uuid \<Rightarrow> payload_fields \<Rightarrow> (string \<times> json) list" where
  "get_payload run fs = map (\<lambda>((r, k), v). (k, v)) (filter (\<lambda>((r, k), v). r = run) fs)"

lemma get_payload_set:
  "map_of (get_payload run (set_payload_field run' key v fs)) k =
     (if run = run' \<and> k = key then Some (sanitize_json v) else map_of (get_payload run fs) k)"
proof -
  have "map_of (get_payload r f) k = map_of f (r, k)" for r f
    by (induction f) (auto simp: get_payload_def)
  then show ?thesis by (simp add: set_payload_field_def update_conv')
qed

section \<open>The order of rows\<close>

locale row_order =
  fixes nf :: "stored_run list \<Rightarrow> stored_run list"
  assumes rows_kept: "mset (nf rows) = mset rows"
    and newest_first: "sorted_wrt (\<lambda>a b. sr_created_at b \<le> sr_created_at a) (nf rows)"
begin

lemma set_nf [simp]: "set (nf rows) = set rows"
  by (metis rows_kept set_mset_mset)

lemma nf_empty [simp]: "nf rows = [] \<longleftrightarrow> rows = []"
  by (metis rows_kept mset_zero_iff)

text \<open>A row newer than all others comes first.\<close>

lemma nf_newest:
  assumes "\<forall>r \<in> set rows. sr_created_at r < sr_created_at x"
  obtains rest where "nf (rows @ [x]) = x # rest"
proof -
  obtain y ys where y: "nf (rows @ [x]) = y # ys"
    by (metis nf_empty append_is_Nil_conv list.exhaust not_Cons_self2)
  have "x \<in> set (y # ys)" "y \<in> set (rows @ [x])"
    using set_nf [of "rows @ [x]"] y by auto
  moreover have "\<forall>z \<in> set ys. sr_created_at z \<le> sr_created_at y"
    using newest_first [of "rows @ [x]"] y by simp
  ultimately have "y = x" using assms by fastforce
  with y that show thesis by simp
qed

lemma by_dataset_mem:
  assumes "get_pipeline_run_by_dataset nf ds name rows = Some r"
  shows "r \<in> set rows" "on_pair ds name r"
    "\<forall>r' \<in> set rows. on_pair ds name r' \<longrightarrow> sr_created_at r' \<le> sr_created_at r"
proof -
  let ?rs = "filter (on_pair ds name) rows"
  obtain rest where nf: "nf ?rs = r # rest"
    using assms by (auto simp: get_pipeline_run_by_dataset_def split: list.splits)
  have set: "set (r # rest) = set ?rs" using set_nf [of ?rs] nf by simp
  then show "r \<in> set rows" "on_pair ds name r" by auto
  show "\<forall>r' \<in> set rows. on_pair ds name r' \<longrightarrow> sr_created_at r' \<le> sr_created_at r"
    using newest_first [of ?rs] set unfolding nf by fastforce
qed

lemma by_dataset_none:
  "get_pipeline_run_by_dataset nf ds name rows = None \<longleftrightarrow> (\<forall>r \<in> set rows. \<not> on_pair ds name r)"
  by (auto simp: get_pipeline_run_by_dataset_def filter_empty_conv split: list.splits)
     (metis filter_empty_conv list.distinct(1) nf_empty)

lemma by_dataset_newest:
  assumes "\<forall>r \<in> set rows. sr_created_at r < sr_created_at x" and "on_pair ds name x"
  shows "get_pipeline_run_by_dataset nf ds name (rows @ [x]) = Some x"
proof -
  obtain rest where "nf (filter (on_pair ds name) rows @ [x]) = x # rest"
    by (rule nf_newest [of "filter (on_pair ds name) rows" x]) (use assms in auto)
  with assms(2) show ?thesis by (simp add: get_pipeline_run_by_dataset_def)
qed

lemma by_dataset_other:
  "\<not> on_pair ds name x \<Longrightarrow>
     get_pipeline_run_by_dataset nf ds name (rows @ [x]) = get_pipeline_run_by_dataset nf ds name rows"
  by (simp add: get_pipeline_run_by_dataset_def)

end

lemma row_order_iff: "row_order nf \<longleftrightarrow> newest_order nf"
  by (auto simp: row_order_def newest_order_def)

interpretation by_time: row_order by_time_desc
proof
  fix rows :: "stored_run list"
  show "mset (by_time_desc rows) = mset rows" by (simp add: by_time_desc_def)
  have "sorted (map sr_created_at (sort_key sr_created_at rows))" by simp
  then show "sorted_wrt (\<lambda>a b. sr_created_at b \<le> sr_created_at a) (by_time_desc rows)"
    by (simp add: by_time_desc_def sorted_wrt_rev sorted_map)
qed

end
