(* ===== verification/Run_Listing.thy ===== *)
theory Run_Listing
  imports Run_Store
begin

text \<open>
  Listing runs: \<open>fetch_runs\<close> and \<open>list_runs\<close> of \<open>crates/database/src/pipelines/sea_orm_impl.rs\<close>. A
  statement has room for \<open>bind_limit\<close> ids; larger visibility lists are split, each statement fetches
  the newest \<open>offset + limit\<close> rows of its share and the union is merged, sorted and paged here. The
  result shows that nobody can tell: where the split listing answers, it answers what one
  statement would have.

  \<open>datasets\<close> is the joined table: the name and the owner of a dataset that still exists.
\<close>

record attributed_run =
  ar_id :: uuid
  ar_created_at :: int
  ar_status :: db_status
  ar_run_id :: uuid
  ar_pipeline_name :: ustr
  ar_pipeline_id :: uuid
  ar_dataset_id :: "uuid option"
  ar_dataset_name :: "ustr option"
  ar_owner_id :: "uuid option"
  ar_owner_email :: "ustr option"
  ar_user_id :: "uuid option"

record run_visibility =
  vs_user_ids :: "uuid list"
  vs_dataset_ids :: "uuid list"

record run_list_query =
  lq_dataset_id :: "uuid option"
  lq_pipeline_name :: "ustr option"
  lq_visibility :: "run_visibility option"
  lq_limit :: nat
  lq_offset :: nat

definition visibility_is_empty :: "run_visibility \<Rightarrow> bool" where
  "visibility_is_empty v \<longleftrightarrow> vs_user_ids v = [] \<and> vs_dataset_ids v = []"

definition admits :: "run_visibility \<Rightarrow> attributed_run \<Rightarrow> bool" where
  "admits v r \<longleftrightarrow>
     (case ar_user_id r of None \<Rightarrow> False | Some u \<Rightarrow> u \<in> set (vs_user_ids v)) \<or>
     (case ar_dataset_id r of None \<Rightarrow> False | Some d \<Rightarrow> d \<in> set (vs_dataset_ids v))"

definition attribute_run :: "(uuid \<Rightarrow> (ustr \<times> uuid) option) \<Rightarrow> stored_run \<Rightarrow> attributed_run" where
  "attribute_run datasets r =
     (let d = Option.bind (sr_dataset_id r) datasets in
      \<lparr>ar_id = sr_id r, ar_created_at = sr_created_at r, ar_status = sr_status r, ar_run_id = sr_run_id r,
       ar_pipeline_name = sr_pipeline_name r, ar_pipeline_id = sr_pipeline_id r,
       ar_dataset_id = sr_dataset_id r, ar_dataset_name = map_option fst d, ar_owner_id = map_option snd d,
       ar_owner_email = None, ar_user_id = sr_user_id r\<rparr>)"

text \<open>The conditions of a statement: a column among a list of ids; SQL's NULL is in no list.\<close>

definition user_term :: "uuid list \<Rightarrow> stored_run \<Rightarrow> bool" where
  "user_term ids r = (case sr_user_id r of None \<Rightarrow> False | Some u \<Rightarrow> u \<in> set ids)"

definition dataset_term :: "uuid list \<Rightarrow> stored_run \<Rightarrow> bool" where
  "dataset_term ids r = (case sr_dataset_id r of None \<Rightarrow> False | Some d \<Rightarrow> d \<in> set ids)"

definition narrowed :: "uuid option \<Rightarrow> ustr option \<Rightarrow> stored_run \<Rightarrow> bool" where
  "narrowed ds name r \<longleftrightarrow>
     (case ds of None \<Rightarrow> True | Some d \<Rightarrow> sr_dataset_id r = Some d) \<and>
     (case name of None \<Rightarrow> True | Some n \<Rightarrow> sr_pipeline_name r = n)"

definition fetch_runs ::
  "(uuid \<Rightarrow> (ustr \<times> uuid) option) \<Rightarrow> uuid option \<Rightarrow> ustr option \<Rightarrow> (stored_run \<Rightarrow> bool) option
     \<Rightarrow> nat \<Rightarrow> nat \<Rightarrow> stored_run list \<Rightarrow> attributed_run list" where
  "fetch_runs datasets ds name cond limit offset rows =
     take limit (drop offset (map (attribute_run datasets)
       (rev (sort_key (\<lambda>r. (sr_created_at r, sr_id r))
          (filter (\<lambda>r. narrowed ds name r \<and> (case cond of None \<Rightarrow> True | Some c \<Rightarrow> c r)) rows)))))"

definition list_recent_with_attribution ::
  "(uuid \<Rightarrow> (ustr \<times> uuid) option) \<Rightarrow> uuid option \<Rightarrow> nat \<Rightarrow> stored_run list \<Rightarrow> attributed_run list" where
  "list_recent_with_attribution datasets ds limit rows = fetch_runs datasets ds None None limit 0 rows"

definition list_runs_max_binds :: nat where "list_runs_max_binds = 30000"

definition list_runs_chunked_window :: nat where "list_runs_chunked_window = 5000"

definition with_list_bind_limit :: "nat \<Rightarrow> nat" where
  "with_list_bind_limit binds = max binds 1"

definition saturating_add_u64 :: "nat \<Rightarrow> nat \<Rightarrow> nat" where
  "saturating_add_u64 a b = min (a + b) (2 ^ 64 - 1)"

definition any_of :: "run_visibility \<Rightarrow> stored_run \<Rightarrow> bool" where
  "any_of v r \<longleftrightarrow>
     vs_user_ids v \<noteq> [] \<and> user_term (vs_user_ids v) r \<or>
     vs_dataset_ids v \<noteq> [] \<and> dataset_term (vs_dataset_ids v) r"

definition chunk_conditions :: "nat \<Rightarrow> run_visibility \<Rightarrow> (stored_run \<Rightarrow> bool) list" where
  "chunk_conditions per v =
     map user_term (chunks_of per (vs_user_ids v)) @ map dataset_term (chunks_of per (vs_dataset_ids v))"

text \<open>\<open>merged.entry(row.id).or_insert(row)\<close>\<close>

definition merge_run :: "(uuid \<times> attributed_run) list \<Rightarrow> attributed_run \<Rightarrow> (uuid \<times> attributed_run) list" where
  "merge_run m row = (if map_of m (ar_id row) = None then m @ [(ar_id row, row)] else m)"

definition list_runs ::
  "nat \<Rightarrow> (uuid \<Rightarrow> (ustr \<times> uuid) option) \<Rightarrow> run_list_query \<Rightarrow> stored_run list
     \<Rightarrow> nat + attributed_run list" where
  "list_runs bind_limit datasets q rows =
     (let fetch = fetch_runs datasets (lq_dataset_id q) (lq_pipeline_name q) in
      case lq_visibility q of
        None \<Rightarrow> Inr (fetch None (lq_limit q) (lq_offset q) rows)
      | Some v \<Rightarrow>
          if visibility_is_empty v then Inr []
          else if length (vs_user_ids v) + length (vs_dataset_ids v) \<le> bind_limit then
            Inr (fetch (Some (any_of v)) (lq_limit q) (lq_offset q) rows)
          else
            (let window = saturating_add_u64 (lq_offset q) (lq_limit q) in
             if list_runs_chunked_window < window then Inl window
             else
               (let merged = foldl (\<lambda>m c. foldl merge_run m (fetch (Some c) window 0 rows)) []
                               (chunk_conditions bind_limit v);
                    sorted_rows = rev (sort_key (\<lambda>r. (ar_created_at r, ar_id r))
                                    (map snd (sort_key fst merged)))
                in Inr (take (lq_limit q) (drop (lq_offset q) sorted_rows)))))"

section \<open>Pages of a sorted list\<close>

lemma take_filter_keeps: "x \<in> set (take w xs) \<Longrightarrow> P x \<Longrightarrow> x \<in> set (take w (filter P xs))"
proof (induction xs arbitrary: w)
  case (Cons y ys)
  then obtain v where w: "w = Suc v" by (cases w) auto
  show ?case
  proof (cases "x = y")
    case False
    with Cons.prems w have "x \<in> set (take v ys)" by simp
    with Cons.IH [OF this Cons.prems(2)] show ?thesis
      by (cases "P y") (auto simp: w dest: in_set_takeD, metis set_take_subset_set_take Suc_n_not_le_n nat_le_linear subsetD)
  qed (use Cons.prems w in simp)
qed simp

lemma take_filter_all:
  assumes "\<And>x. x \<in> set (take w xs) \<Longrightarrow> P x"
  shows "take w (filter P xs) = take w xs"
proof -
  have "filter P xs = filter P (take w xs) @ filter P (drop w xs)"
    by (metis append_take_drop_id filter_append)
  also have "filter P (take w xs) = take w xs" using assms by (simp add: filter_id_conv)
  finally show ?thesis by (cases "w \<le> length xs") simp_all
qed

definition desc :: "('a \<Rightarrow> 'k::linorder) \<Rightarrow> 'a list \<Rightarrow> 'a list" where
  "desc k xs = rev (sort_key k xs)"

lemma set_desc [simp]: "set (desc k xs) = set xs"
  by (simp add: desc_def)

lemma distinct_desc [simp]: "distinct (map k (desc f xs)) \<longleftrightarrow> distinct (map k xs)"
proof -
  have "mset (map k (desc f xs)) = mset (map k xs)" by (simp add: desc_def)
  then show ?thesis by (metis distinct_count_atmost_1 set_mset_mset)
qed

lemma desc_unique:
  assumes "set xs = set (filter P (desc k ys))" and "distinct (map k xs)" and "distinct (map k ys)"
  shows "desc k xs = filter P (desc k ys)"
proof -
  let ?a = "sort_key k xs" and ?b = "rev (filter P (desc k ys))"
  have inj: "inj_on k (set ys)" using assms(3) by (simp add: distinct_map)
  have b: "?b = filter P (sort_key k ys)" by (simp add: desc_def rev_filter)
  have "?a = ?b"
  proof (rule map_sorted_distinct_set_unique [where f = k])
    show "inj_on k (set ?a \<union> set ?b)"
      using inj assms(1) by (auto simp: b inj_on_def)
    show "sorted (map k ?a)" by simp
    show "distinct (map k ?a)" using assms(2) distinct_desc [of k k xs] by (simp add: desc_def flip: rev_map)
    show "sorted (map k ?b)" unfolding b by (rule sorted_filter) simp
    show "distinct (map k ?b)"
      unfolding b using assms(3) distinct_desc [of k k ys] by (simp add: desc_def distinct_map_filter flip: rev_map)
    show "set ?a = set ?b" using assms(1) by simp
  qed
  then show ?thesis by (simp add: desc_def)
qed

lemma desc_filter: "distinct (map k xs) \<Longrightarrow> desc k (filter P xs) = filter P (desc k xs)"
  by (rule desc_unique) (auto simp: distinct_map_filter)

text \<open>The page of a union of pages is the page of the union.\<close>

lemma page_of_union:
  assumes "distinct (map k xs)" and "distinct (map k us)"
    and "set us = (\<Union>c \<in> set cs. set (take w (filter c (desc k xs))))"
    and "\<And>x. x \<in> set xs \<Longrightarrow> P x \<longleftrightarrow> (\<exists>c \<in> set cs. c x)"
  shows "take w (desc k us) = take w (filter P (desc k xs))"
proof -
  let ?S = "filter P (desc k xs)"
  have sub: "x \<in> set ?S" if us: "x \<in> set us" for x
  proof -
    obtain c where c: "c \<in> set cs" "x \<in> set (filter c (desc k xs))"
    proof -
      from us have "x \<in> (\<Union>c \<in> set cs. set (take w (filter c (desc k xs))))"
        unfolding assms(3) .
      then obtain c where c: "c \<in> set cs" "x \<in> set (take w (filter c (desc k xs)))" by (rule UN_E)
      show thesis by (rule that [OF c(1) in_set_takeD [OF c(2)]])
    qed
    with assms(4) [of x] show ?thesis by auto
  qed
  have "desc k us = filter (\<lambda>x. x \<in> set us) ?S"
  proof -
    have "desc k us = filter (\<lambda>x. P x \<and> x \<in> set us) (desc k xs)"
    proof (rule desc_unique)
      show "set us = set (filter (\<lambda>x. P x \<and> x \<in> set us) (desc k xs))"
        using sub by (simp only: set_filter) blast
    qed fact+
    then show ?thesis by (simp add: conj_commute)
  qed
  moreover have "take w (filter (\<lambda>x. x \<in> set us) ?S) = take w ?S"
  proof (rule take_filter_all)
    fix x assume x: "x \<in> set (take w ?S)"
    then have "x \<in> set ?S" by (rule in_set_takeD)
    then obtain c where c: "c \<in> set cs" "c x" using assms(4) by auto
    have "x \<in> set (take w (filter c ?S))" by (rule take_filter_keeps [where P = c, OF x c(2)])
    moreover have "filter c ?S = filter c (desc k xs)"
      using c(1) assms(4) by (auto intro!: filter_cong)
    ultimately show "x \<in> set us" using c(1) assms(3) by auto
  qed
  ultimately show ?thesis by simp
qed

section \<open>Sorting and merging attributed rows\<close>

lemma insort_key_map: "insort_key f (g x) (map g xs) = map g (insort_key (\<lambda>x. f (g x)) x xs)"
  by (induction xs) auto

lemma desc_map: "desc f (map g xs) = map g (desc (\<lambda>x. f (g x)) xs)"
proof -
  have "sort_key f (map g xs) = map g (sort_key (\<lambda>x. f (g x)) xs)"
    by (induction xs) (simp_all add: insort_key_map)
  then show ?thesis by (simp add: desc_def rev_map)
qed

lemma foldl_foldl: "foldl (\<lambda>m c. foldl f m (g c)) a cs = foldl f a (concat (map g cs))"
  by (induction cs arbitrary: a) auto

lemma merge_runs:
  assumes "inj_on ar_id (set xs)"
  shows "distinct (map fst (foldl merge_run [] xs)) \<and>
    set (foldl merge_run [] xs) = (\<lambda>r. (ar_id r, r)) ` set xs"
  using assms
proof (induction xs rule: rev_induct)
  case (snoc x xs)
  let ?m = "foldl merge_run [] xs"
  have m: "distinct (map fst ?m)" "set ?m = (\<lambda>r. (ar_id r, r)) ` set xs"
    using snoc by (auto simp: inj_on_def)
  show ?case
  proof (cases "x \<in> set xs")
    case True
    then have "(ar_id x, x) \<in> set ?m" using m(2) by blast
    then have "map_of ?m (ar_id x) \<noteq> None"
      by (metis fst_conv image_eqI map_of_eq_None_iff)
    then have "merge_run ?m x = ?m" by (simp add: merge_run_def)
    with True m show ?thesis by (simp add: insert_absorb)
  next
    case False
    with snoc.prems have "ar_id x \<notin> fst ` set ?m"
      by (auto simp: m(2) inj_on_def image_image)
    then have "merge_run ?m x = ?m @ [(ar_id x, x)]" by (simp add: merge_run_def map_of_eq_None_iff)
    with m \<open>ar_id x \<notin> fst ` set ?m\<close> show ?thesis by simp
  qed
qed simp

definition run_key :: "stored_run \<Rightarrow> int \<times> uuid" where
  "run_key r = (sr_created_at r, sr_id r)"

definition listing_key :: "attributed_run \<Rightarrow> int \<times> uuid" where
  "listing_key r = (ar_created_at r, ar_id r)"

lemma listing_key_attribute [simp]: "listing_key (attribute_run ds r) = run_key r"
  by (simp add: listing_key_def run_key_def attribute_run_def Let_def)

lemma attribute_id [simp]: "ar_id (attribute_run ds r) = sr_id r"
  by (simp add: attribute_run_def Let_def)

text \<open>The columns a condition looks at survive the projection.\<close>

definition detach :: "attributed_run \<Rightarrow> stored_run" where
  "detach r = \<lparr>sr_id = ar_id r, sr_created_at = ar_created_at r, sr_status = ar_status r, sr_run_id = ar_run_id r,
     sr_pipeline_name = ar_pipeline_name r, sr_pipeline_id = ar_pipeline_id r,
     sr_dataset_id = ar_dataset_id r, sr_run_info = None, sr_user_id = ar_user_id r\<rparr>"

lemma detach_terms:
  "user_term ids (detach (attribute_run ds r)) = user_term ids r"
  "dataset_term ids (detach (attribute_run ds r)) = dataset_term ids r"
  by (simp_all add: user_term_def dataset_term_def detach_def attribute_run_def Let_def)

lemma admits_any_of: "admits v (attribute_run ds r) = any_of v r"
  by (auto simp: admits_def any_of_def user_term_def dataset_term_def attribute_run_def Let_def split: option.splits)

lemma distinct_keys:
  "distinct (map sr_id rows) \<Longrightarrow> distinct (map run_key (filter Q rows))"
  by (induction rows) (auto simp: run_key_def)

section \<open>What a listing answers\<close>

definition listing :: "(uuid \<Rightarrow> (ustr \<times> uuid) option) \<Rightarrow> run_list_query \<Rightarrow> stored_run list \<Rightarrow> attributed_run list" where
  "listing datasets q rows =
     desc listing_key (filter (\<lambda>r. case lq_visibility q of None \<Rightarrow> True | Some v \<Rightarrow> admits v r)
       (map (attribute_run datasets) (filter (narrowed (lq_dataset_id q) (lq_pipeline_name q)) rows)))"

definition listing_page :: "(uuid \<Rightarrow> (ustr \<times> uuid) option) \<Rightarrow> run_list_query \<Rightarrow> stored_run list \<Rightarrow> attributed_run list" where
  "listing_page datasets q rows = take (lq_limit q) (drop (lq_offset q) (listing datasets q rows))"

lemma fetch_runs_desc:
  "fetch_runs ds d n cond limit offset rows =
     take limit (drop offset (map (attribute_run ds) (desc run_key
       (filter (\<lambda>r. narrowed d n r \<and> (case cond of None \<Rightarrow> True | Some c \<Rightarrow> c r)) rows))))"
  by (simp add: fetch_runs_def desc_def run_key_def [abs_def])

lemma fetch_runs_filter:
  assumes "distinct (map sr_id rows)" and "\<And>r. c' (attribute_run ds r) = c r"
  shows "fetch_runs ds d n (Some c) limit offset rows = take limit (drop offset
    (filter c' (desc listing_key (map (attribute_run ds) (filter (narrowed d n) rows)))))"
proof -
  have "desc run_key (filter (\<lambda>r. narrowed d n r \<and> c r) rows) = filter c (desc run_key (filter (narrowed d n) rows))"
    using desc_filter [OF distinct_keys [OF assms(1)], where P = c and Q1 = "narrowed d n"]
    by (simp add: conj_commute)
  then show ?thesis
    by (simp add: fetch_runs_desc desc_map filter_map comp_def assms(2))
qed

lemma any_of_chunks:
  "0 < per \<Longrightarrow> any_of v r \<longleftrightarrow> (\<exists>c \<in> set (chunk_conditions per v). c r)"
proof -
  assume per: "0 < per"
  have ids: "set ids = (\<Union>c \<in> set (chunks_of per ids). set c)" for ids :: "uuid list"
    by (metis concat_chunks [OF per] set_concat)
  have u: "user_term ids r \<longleftrightarrow> (\<exists>c \<in> set (chunks_of per ids). user_term c r)" for ids
    unfolding user_term_def ids [of ids] by (cases "sr_user_id r") auto
  have d: "dataset_term ids r \<longleftrightarrow> (\<exists>c \<in> set (chunks_of per ids). dataset_term c r)" for ids
    unfolding dataset_term_def ids [of ids] by (cases "sr_dataset_id r") auto
  have "any_of v r \<longleftrightarrow> user_term (vs_user_ids v) r \<or> dataset_term (vs_dataset_ids v) r"
    by (auto simp: any_of_def user_term_def dataset_term_def split: option.splits)
  then show ?thesis
    using u [of "vs_user_ids v"] d [of "vs_dataset_ids v"] by (simp add: chunk_conditions_def bex_Un)
qed

lemma chunk_condition_detach:
  "c \<in> set (chunk_conditions per v) \<Longrightarrow> c (detach (attribute_run ds r)) = c r"
  by (auto simp: chunk_conditions_def detach_terms)

lemma chunked_page:
  assumes ids: "distinct (map sr_id rows)" and per: "0 < per"
    and all_def: "all = map (attribute_run ds) (filter (narrowed d n) rows)"
    and merged_def: "merged = foldl (\<lambda>m c. foldl merge_run m (fetch_runs ds d n (Some c) w 0 rows)) [] (chunk_conditions per v)"
  shows "take w (desc listing_key (map snd (sort_key fst merged))) = take w (filter (admits v) (desc listing_key all))"
proof -
  let ?cs = "map (\<lambda>c a. c (detach a)) (chunk_conditions per v)"
  let ?got = "concat (map (\<lambda>c. fetch_runs ds d n (Some c) w 0 rows) (chunk_conditions per v))"
  let ?us = "map snd (sort_key fst merged)"
  have all: "distinct (map listing_key all)" "distinct (map ar_id all)"
    using distinct_keys [OF ids] ids by (simp_all add: all_def comp_def distinct_map_filter)
  have fetch: "fetch_runs ds d n (Some c) w 0 rows = take w (filter (\<lambda>a. c (detach a)) (desc listing_key all))"
    if "c \<in> set (chunk_conditions per v)" for c
    using fetch_runs_filter [OF ids, of "\<lambda>a. c (detach a)" ds c d n w 0] chunk_condition_detach [OF that]
    by (simp add: all_def)
  have sub: "set ?got \<subseteq> set all"
    using fetch by (auto dest!: in_set_takeD)
  have m: "distinct (map fst merged)" "set merged = (\<lambda>r. (ar_id r, r)) ` set ?got"
    using merge_runs [of ?got] all(2) sub unfolding merged_def foldl_foldl
    by (auto simp: distinct_map inj_on_def subset_eq)
  have us: "set ?us = set ?got" by (force simp: m(2))
  have "map fst (sort_key fst merged) = map ar_id ?us" using m(2) by auto
  moreover have "distinct (map fst (sort_key fst merged))"
    using m(1) distinct_desc [of fst fst merged] by (simp add: desc_def flip: rev_map)
  ultimately have "distinct (map ar_id ?us)" by (simp only:)
  then have dus: "distinct (map listing_key ?us)"
    by (auto simp: distinct_map inj_on_def listing_key_def)
  show ?thesis
  proof (rule page_of_union [OF all(1) dus])
    show "set ?us = (\<Union>c \<in> set ?cs. set (take w (filter c (desc listing_key all))))"
      unfolding us using fetch by auto
    show "admits v x \<longleftrightarrow> (\<exists>c \<in> set ?cs. c x)" if mem: "x \<in> set all" for x
    proof -
      obtain r where x: "x = attribute_run ds r" using mem unfolding all_def set_map by (rule imageE)
      have "(\<exists>c \<in> set ?cs. c x) \<longleftrightarrow> (\<exists>c \<in> set (chunk_conditions per v). c r)"
        unfolding x set_map bex_simps by (rule bex_cong) (simp_all only: chunk_condition_detach)
      then show ?thesis by (simp only: x admits_any_of any_of_chunks [OF per])
    qed
  qed
qed

lemma take_drop_window: "take n (drop k xs) = drop k (take (k + n) xs)"
  by (simp add: take_drop add.commute)

text \<open>
  C18: A listing answers the page of all the visible runs, newest first, whether its visibility list
  fits one statement or is split over many; only a page that reaches beyond the first 5000 runs of a
  split listing is refused.
\<close>

theorem list_runs_is_one_statement:
  assumes "distinct (map sr_id rows)" and "0 < bind_limit"
  shows "list_runs bind_limit datasets q rows =
    (case lq_visibility q of
       Some v \<Rightarrow>
         if bind_limit < length (vs_user_ids v) + length (vs_dataset_ids v) \<and>
            list_runs_chunked_window < lq_offset q + lq_limit q
         then Inl (saturating_add_u64 (lq_offset q) (lq_limit q))
         else Inr (listing_page datasets q rows)
     | None \<Rightarrow> Inr (listing_page datasets q rows))"
proof (cases "lq_visibility q")
  case None
  then show ?thesis
    by (simp add: list_runs_def listing_page_def listing_def fetch_runs_desc desc_map)
next
  case (Some v)
  let ?n = "length (vs_user_ids v) + length (vs_dataset_ids v)"
  let ?w = "saturating_add_u64 (lq_offset q) (lq_limit q)"
  let ?all = "map (attribute_run datasets) (filter (narrowed (lq_dataset_id q) (lq_pipeline_name q)) rows)"
  have page: "listing_page datasets q rows =
      take (lq_limit q) (drop (lq_offset q) (filter (admits v) (desc listing_key ?all)))"
    using desc_filter [of listing_key ?all "admits v"] distinct_keys [OF assms(1)]
    by (simp add: Some listing_page_def listing_def comp_def)
  show ?thesis
  proof (cases "visibility_is_empty v")
    case True
    then have "\<not> admits v r" for r
      by (auto simp: visibility_is_empty_def admits_def split: option.splits)
    with True Some page show ?thesis by (simp add: list_runs_def visibility_is_empty_def)
  next
    case ne: False
    show ?thesis
    proof (cases "?n \<le> bind_limit")
      case True
      then show ?thesis
        using ne page fetch_runs_filter [where c' = "admits v" and c = "any_of v", OF assms(1) admits_any_of]
        by (simp add: Some list_runs_def)
    next
      case False
      show ?thesis
      proof (cases "list_runs_chunked_window < lq_offset q + lq_limit q")
        case True
        with False ne Some show ?thesis
          by (simp add: list_runs_def list_runs_chunked_window_def saturating_add_u64_def Let_def)
      next
        case small: False
        then have w: "?w = lq_offset q + lq_limit q" "\<not> list_runs_chunked_window < ?w"
          by (simp_all add: list_runs_chunked_window_def saturating_add_u64_def)
        note chunked = chunked_page [OF assms refl refl, of ?w datasets "lq_dataset_id q" "lq_pipeline_name q" v]
        have "list_runs bind_limit datasets q rows = Inr (listing_page datasets q rows)"
          using False ne w(2) chunked unfolding page take_drop_window w(1)
          by (simp add: Some list_runs_def Let_def take_drop_window w(1) desc_def listing_key_def [abs_def])
        with small Some show ?thesis by simp
      qed
    qed
  qed
qed

definition sample_run :: "uuid \<Rightarrow> int \<Rightarrow> db_status \<Rightarrow> uuid \<Rightarrow> uuid \<Rightarrow> stored_run" where
  "sample_run i t status run ds =
     \<lparr>sr_id = i, sr_created_at = t, sr_status = status, sr_run_id = run, sr_pipeline_name = [7],
      sr_pipeline_id = 8, sr_dataset_id = Some ds, sr_run_info = None, sr_user_id = Some 9\<rparr>"

definition sample_query :: run_list_query where
  "sample_query = \<lparr>lq_dataset_id = None, lq_pipeline_name = None,
     lq_visibility = Some \<lparr>vs_user_ids = [], vs_dataset_ids = [4, 5]\<rparr>, lq_limit = 2, lq_offset = 0\<rparr>"

theorem list_runs_is_one_statement_witness:
  "list_runs 1 (\<lambda>_. None) sample_query [sample_run 30 2 Started 6 5, sample_run 31 3 Completed 6 4] =
     Inr (listing_page (\<lambda>_. None) sample_query [sample_run 30 2 Started 6 5, sample_run 31 3 Completed 6 4])"
  using list_runs_is_one_statement [of "[sample_run 30 2 Started 6 5, sample_run 31 3 Completed 6 4]" 1
      "\<lambda>_. None" sample_query]
  by (simp add: sample_run_def sample_query_def list_runs_chunked_window_def)

end
