(* ===== verification/Failure_Policy.thy ===== *)
theory Failure_Policy
  imports Complex_Main Token_Counter
begin

text \<open>
  The failure vocabulary of the cognify pipeline: \<open>crates/cognify/src/failure.rs\<close>.

  \<open>failure_report\<close> is \<open>FailureReport\<close> with its fields; the \<open>BTreeSet\<close>s are sets, the counters
  natural numbers. The chunk failure ratio is an \<open>f64\<close> quotient of two counters compared with
  an \<open>f64\<close> threshold; the model computes the exact quotient as a rational number.
\<close>

datatype failure_stop = FailFast | RunToEnd

definition from_raise_errors :: "bool \<Rightarrow> failure_stop" where
  "from_raise_errors raise = (if raise then FailFast else RunToEnd)"

datatype rollback_scope = WholeRun | FailedItems | KeepAll

text \<open>\<open>RollbackScope::Nothing\<close> is \<open>KeepAll\<close>.\<close>

definition ascii_lower :: "uchar \<Rightarrow> uchar" where
  "ascii_lower c = (if 0x41 \<le> c \<and> c \<le> 0x5A then c + 0x20 else c)"

definition scope_key :: "ustr \<Rightarrow> ustr" where
  "scope_key raw = map (\<lambda>c. if c = 0x2D \<or> c = 0x20 then 0x5F else c) (map ascii_lower (trim raw))"

definition parse_scope :: "ustr \<Rightarrow> rollback_scope option" where
  "parse_scope raw =
     (let k = scope_key raw in
      if k \<in> {ascii ''whole_run'', ascii ''wholerun'', ascii ''run''} then Some WholeRun
      else if k \<in> {ascii ''failed_items'', ascii ''faileditems'', ascii ''items''} then Some FailedItems
      else None)"

datatype failure_stage =
    Chunking | GraphExtraction | Summarization | TemporalExtraction | TemporalEnrichment

definition stage_display :: "failure_stage \<Rightarrow> string" where
  "stage_display s =
     (case s of
        Chunking \<Rightarrow> ''chunking''
      | GraphExtraction \<Rightarrow> ''graph extraction''
      | Summarization \<Rightarrow> ''summarization''
      | TemporalExtraction \<Rightarrow> ''temporal event extraction''
      | TemporalEnrichment \<Rightarrow> ''temporal entity enrichment'')"

record stage_failure =
  sf_stage :: failure_stage
  sf_data_id :: uuid
  sf_chunk_id :: "uuid option"
  sf_error :: string
  sf_fails_item :: bool

record failure_report =
  fr_entries :: "stage_failure list"
  fr_total :: nat
  fr_failed_items :: "uuid set"
  fr_unreached_items :: "uuid set"
  fr_failed_chunks :: "uuid set"
  fr_summarization_failures :: nat
  fr_total_chunks :: nat
  fr_total_items :: nat
  fr_cap :: nat

record failure_policy =
  fp_stop :: failure_stop
  fp_scope :: rollback_scope
  fp_tolerate_summarization :: bool
  fp_ratio_threshold :: rat
  fp_report_cap :: nat

definition default_policy :: failure_policy where
  "default_policy = \<lparr>fp_stop = FailFast, fp_scope = WholeRun, fp_tolerate_summarization = False,
     fp_ratio_threshold = 1 / 20, fp_report_cap = 100\<rparr>"

definition report_default :: failure_report where
  "report_default = \<lparr>fr_entries = [], fr_total = 0, fr_failed_items = {}, fr_unreached_items = {},
     fr_failed_chunks = {}, fr_summarization_failures = 0, fr_total_chunks = 0, fr_total_items = 0,
     fr_cap = 100\<rparr>"

definition with_policy :: "failure_policy \<Rightarrow> failure_report" where
  "with_policy p = report_default\<lparr>fr_cap := fp_report_cap p\<rparr>"

section \<open>Operations\<close>

definition record_failure :: "failure_report \<Rightarrow> stage_failure \<Rightarrow> failure_report" where
  "record_failure r f =
     (let r1 = r\<lparr>fr_total := fr_total r + 1\<rparr>;
          r2 = (if sf_stage f = Summarization
                then r1\<lparr>fr_summarization_failures := fr_summarization_failures r1 + 1\<rparr> else r1);
          r3 = (if sf_fails_item f then
                  r2\<lparr>fr_failed_items := insert (sf_data_id f) (fr_failed_items r2),
                     fr_unreached_items := fr_unreached_items r2 - {sf_data_id f},
                     fr_failed_chunks :=
                       (case sf_chunk_id f of None \<Rightarrow> fr_failed_chunks r2
                        | Some c \<Rightarrow> insert c (fr_failed_chunks r2))\<rparr>
                else r2)
      in if length (fr_entries r3) < fr_cap r3 then r3\<lparr>fr_entries := fr_entries r3 @ [f]\<rparr> else r3)"

definition retain_failed_chunks :: "failure_report \<Rightarrow> uuid set \<Rightarrow> failure_report" where
  "retain_failed_chunks r keep = r\<lparr>fr_failed_chunks := fr_failed_chunks r \<inter> keep\<rparr>"

definition mark_unreached :: "failure_report \<Rightarrow> uuid \<Rightarrow> failure_report" where
  "mark_unreached r d =
     (if d \<in> fr_failed_items r then r
      else r\<lparr>fr_unreached_items := insert d (fr_unreached_items r)\<rparr>)"

definition absorb :: "failure_report \<Rightarrow> failure_report \<Rightarrow> failure_report" where
  "absorb r other =
     (let failed = fr_failed_items r \<union> fr_failed_items other;
          room = fr_cap r - length (fr_entries r)
      in r\<lparr>fr_total := fr_total r + fr_total other,
           fr_summarization_failures := fr_summarization_failures r + fr_summarization_failures other,
           fr_failed_chunks := fr_failed_chunks r \<union> fr_failed_chunks other,
           fr_failed_items := failed,
           fr_unreached_items := (fr_unreached_items r \<union> fr_unreached_items other) - failed,
           fr_entries := fr_entries r @ take room (fr_entries other),
           fr_total_items := (if fr_total_items r = 0 then fr_total_items other else fr_total_items r),
           fr_total_chunks := (if fr_total_chunks r = 0 then fr_total_chunks other else fr_total_chunks r)\<rparr>)"

definition note_totals :: "failure_report \<Rightarrow> nat \<Rightarrow> nat \<Rightarrow> failure_report" where
  "note_totals r items chunks = r\<lparr>fr_total_items := items, fr_total_chunks := chunks\<rparr>"

definition report_is_empty :: "failure_report \<Rightarrow> bool" where
  "report_is_empty r \<longleftrightarrow> fr_total r = 0 \<and> fr_unreached_items r = {}"

definition truncated :: "failure_report \<Rightarrow> nat" where
  "truncated r = fr_total r - length (fr_entries r)"

definition chunk_failure_ratio :: "failure_report \<Rightarrow> rat" where
  "chunk_failure_ratio r =
     (if fr_total_chunks r = 0 then 0
      else of_nat (card (fr_failed_chunks r)) / of_nat (fr_total_chunks r))"

definition is_fatal :: "failure_report \<Rightarrow> failure_policy \<Rightarrow> bool" where
  "is_fatal r p =
     (if fr_failed_items r = {} then False
      else case fp_scope p of
        WholeRun \<Rightarrow> True
      | KeepAll \<Rightarrow> True
      | FailedItems \<Rightarrow>
          (let survived = fr_total_items r - (card (fr_failed_items r) + card (fr_unreached_items r))
           in if 0 < fr_total_items r \<and> survived = 0 then True
              else fp_ratio_threshold p < chunk_failure_ratio r))"

section \<open>The report as a function of its history\<close>

text \<open>
  The specification of a report: what was recorded and what was marked unreached, in order.
  Every field is a function of that history.
\<close>

datatype report_op = Recorded stage_failure | Unreached uuid

fun apply_op :: "failure_report \<Rightarrow> report_op \<Rightarrow> failure_report" where
  "apply_op r (Recorded f) = record_failure r f"
| "apply_op r (Unreached d) = mark_unreached r d"

definition run_ops :: "nat \<Rightarrow> report_op list \<Rightarrow> failure_report" where
  "run_ops cap ops = foldl apply_op (report_default\<lparr>fr_cap := cap\<rparr>) ops"

fun recorded :: "report_op list \<Rightarrow> stage_failure list" where
  "recorded [] = []"
| "recorded (Recorded f # ops) = f # recorded ops"
| "recorded (Unreached d # ops) = recorded ops"

fun marked :: "report_op list \<Rightarrow> uuid set" where
  "marked [] = {}"
| "marked (Recorded f # ops) = marked ops"
| "marked (Unreached d # ops) = insert d (marked ops)"

definition failing :: "report_op list \<Rightarrow> stage_failure list" where
  "failing ops = filter sf_fails_item (recorded ops)"

definition history_report :: "nat \<Rightarrow> report_op list \<Rightarrow> failure_report" where
  "history_report cap ops =
     \<lparr>fr_entries = take cap (recorded ops), fr_total = length (recorded ops),
      fr_failed_items = sf_data_id ` set (failing ops),
      fr_unreached_items = marked ops - sf_data_id ` set (failing ops),
      fr_failed_chunks = {c. \<exists>f \<in> set (failing ops). sf_chunk_id f = Some c},
      fr_summarization_failures =
        length (filter (\<lambda>f. sf_stage f = Summarization) (recorded ops)),
      fr_total_chunks = 0, fr_total_items = 0, fr_cap = cap\<rparr>"

lemma recorded_append [simp]: "recorded (xs @ ys) = recorded xs @ recorded ys"
  by (induction xs rule: recorded.induct) auto

lemma marked_append [simp]: "marked (xs @ ys) = marked xs \<union> marked ys"
  by (induction xs rule: marked.induct) auto

lemma failing_append [simp]: "failing (xs @ ys) = failing xs @ failing ys"
  by (simp add: failing_def)

lemma finite_marked [simp]: "finite (marked ops)"
  by (induction ops rule: marked.induct) auto

lemma history_step: "apply_op (history_report cap ops) op = history_report cap (ops @ [op])"
proof (cases op)
  case (Recorded f)
  have "take cap (recorded ops @ [f]) =
      (if length (take cap (recorded ops)) < cap then take cap (recorded ops) @ [f]
       else take cap (recorded ops))"
    by (auto simp: min_def)
  with Recorded show ?thesis
    by (cases "sf_chunk_id f")
      (auto simp: record_failure_def history_report_def failing_def Let_def)
next
  case (Unreached d)
  then show ?thesis
    by (auto simp: mark_unreached_def history_report_def failing_def)
qed

lemma run_ops_history: "run_ops cap ops = history_report cap ops"
proof (induction ops rule: rev_induct)
  case Nil
  show ?case
    by (simp add: run_ops_def history_report_def report_default_def failing_def)
next
  case (snoc op ops)
  then show ?case by (simp add: run_ops_def history_step)
qed

lemma absorb_history:
  "absorb (history_report cap xs) (history_report cap ys) = history_report cap (xs @ ys)"
proof -
  have "take cap xs' @ take (cap - length (take cap xs')) (take cap ys') = take cap (xs' @ ys')"
    for xs' ys' :: "stage_failure list"
    by (cases "length xs' \<le> cap") (simp_all add: min_def)
  then show ?thesis
    by (auto simp: absorb_def history_report_def Let_def failing_def)
qed

section \<open>What every reachable report satisfies\<close>

definition report_wf :: "failure_report \<Rightarrow> bool" where
  "report_wf r \<longleftrightarrow>
     finite (fr_failed_items r) \<and> finite (fr_unreached_items r) \<and> finite (fr_failed_chunks r) \<and>
     fr_failed_items r \<inter> fr_unreached_items r = {} \<and>
     length (fr_entries r) \<le> fr_cap r \<and> length (fr_entries r) \<le> fr_total r \<and>
     fr_summarization_failures r \<le> fr_total r \<and> card (fr_failed_items r) \<le> fr_total r \<and>
     (fr_failed_items r = {} \<longrightarrow> fr_failed_chunks r = {})"

lemma finite_failed_chunks:
  "finite {c. \<exists>f \<in> set fs. sf_chunk_id f = Some c}"
proof -
  have "{c. \<exists>f \<in> set fs. sf_chunk_id f = Some c} \<subseteq> (\<lambda>f. the (sf_chunk_id f)) ` set fs"
    by (force simp: image_iff)
  then show ?thesis by (rule finite_subset) simp
qed

lemma report_wf_history: "report_wf (history_report cap ops)"
proof -
  have "card (sf_data_id ` set (failing ops)) \<le> length (failing ops)"
    by (metis card_image_le card_length le_trans finite_set)
  also have "\<dots> \<le> length (recorded ops)" by (simp add: failing_def)
  finally show ?thesis
    using finite_failed_chunks [of "failing ops"]
    by (auto simp: report_wf_def history_report_def)
qed

lemma report_wf_record: "report_wf r \<Longrightarrow> report_wf (record_failure r f)"
proof -
  assume wf: "report_wf r"
  have "card (insert (sf_data_id f) (fr_failed_items r)) \<le> Suc (card (fr_failed_items r))"
    by (rule card_insert_le_m1) auto
  with wf show ?thesis
    by (auto simp: report_wf_def record_failure_def Let_def split: option.split)
qed

lemma report_wf_mark: "report_wf r \<Longrightarrow> report_wf (mark_unreached r d)"
  by (auto simp: report_wf_def mark_unreached_def)

lemma report_wf_retain: "report_wf r \<Longrightarrow> report_wf (retain_failed_chunks r keep)"
  by (auto simp: report_wf_def retain_failed_chunks_def)

lemma report_wf_totals: "report_wf r \<Longrightarrow> report_wf (note_totals r i c)"
  by (auto simp: report_wf_def note_totals_def)

section \<open>Fatality only grows\<close>

lemma ratio_mono:
  assumes "fr_failed_chunks r \<subseteq> fr_failed_chunks r'" "finite (fr_failed_chunks r')"
    and "fr_total_chunks r' = fr_total_chunks r"
  shows "chunk_failure_ratio r \<le> chunk_failure_ratio r'"
proof -
  have "card (fr_failed_chunks r) \<le> card (fr_failed_chunks r')"
    using assms by (simp add: card_mono)
  with assms(3) show ?thesis
    by (simp add: chunk_failure_ratio_def divide_right_mono)
qed

lemma is_fatal_mono:
  assumes fatal: "is_fatal r p"
    and failed: "fr_failed_items r \<subseteq> fr_failed_items r'"
    and out: "fr_failed_items r \<union> fr_unreached_items r \<subseteq> fr_failed_items r' \<union> fr_unreached_items r'"
    and wf: "report_wf r" "report_wf r'"
    and chunks: "fr_failed_chunks r \<subseteq> fr_failed_chunks r'"
    and totals: "fr_total_chunks r' = fr_total_chunks r" "fr_total_items r' = fr_total_items r"
  shows "is_fatal r' p"
proof -
  have "card (fr_failed_items r \<union> fr_unreached_items r)
      \<le> card (fr_failed_items r' \<union> fr_unreached_items r')"
    using out wf by (intro card_mono) (auto simp: report_wf_def)
  then have "card (fr_failed_items r) + card (fr_unreached_items r)
      \<le> card (fr_failed_items r') + card (fr_unreached_items r')"
    using wf by (simp add: report_wf_def card_Un_disjoint)
  moreover have "chunk_failure_ratio r \<le> chunk_failure_ratio r'"
    using chunks wf totals by (intro ratio_mono) (auto simp: report_wf_def)
  ultimately show ?thesis
    using fatal failed totals
    by (auto simp: is_fatal_def Let_def split: if_splits rollback_scope.splits)
qed

section \<open>Properties\<close>

text \<open>
  A failure report is a function of what was recorded: after any sequence of records and
  unreached marks its entries are the first failures up to the cap, its total counts all of them,
  and its sets are those of the failures that fail their item, with no item in two of them.
\<close>

lemma report_is_its_history: "run_ops cap ops = history_report cap ops \<and> report_wf (run_ops cap ops)"
  by (simp add: run_ops_history report_wf_history)

text \<open>
  Absorbing the report of a second task group gives exactly the report one recorder would have
  built had it seen both histories in order.
\<close>

lemma absorb_concatenates:
  "absorb (run_ops cap xs) (run_ops cap ys) = run_ops cap (xs @ ys)"
  by (simp add: run_ops_history absorb_history)

lemma apply_op_grows:
  "fr_failed_items r \<subseteq> fr_failed_items (apply_op r op)"
  "fr_failed_chunks r \<subseteq> fr_failed_chunks (apply_op r op)"
  "fr_failed_items r \<union> fr_unreached_items r
     \<subseteq> fr_failed_items (apply_op r op) \<union> fr_unreached_items (apply_op r op)"
  "fr_total_chunks (apply_op r op) = fr_total_chunks r"
  "fr_total_items (apply_op r op) = fr_total_items r"
  by (cases op; auto simp: record_failure_def mark_unreached_def Let_def split: option.splits)+

lemma report_wf_apply_op: "report_wf r \<Longrightarrow> report_wf (apply_op r op)"
  by (cases op) (simp_all add: report_wf_record report_wf_mark)

text \<open>
  A fatal run stays fatal: recording one more failure or marking one more item unreached
  never makes a report that fails the run acceptable.
\<close>

lemma fatal_stays_fatal:
  assumes "report_wf r" and "is_fatal r p"
  shows "is_fatal (apply_op r op) p"
  using assms by (intro is_fatal_mono [OF assms(2)] apply_op_grows report_wf_apply_op)

definition sample_failure :: stage_failure where
  "sample_failure = \<lparr>sf_stage = GraphExtraction, sf_data_id = 3, sf_chunk_id = Some 8, sf_error = ''timeout'', sf_fails_item = True\<rparr>"

text \<open>
  A run whose recorded failures are all tolerated is never fatal, under any policy and
  whatever was left unreached.
\<close>

lemma tolerated_never_fatal:
  assumes "list_all (\<lambda>f. \<not> sf_fails_item f) (recorded ops)"
  shows "\<not> is_fatal (note_totals (run_ops cap ops) items chunks) p"
proof -
  have "failing ops = []" using assms by (simp add: failing_def list_all_iff filter_empty_conv)
  then show ?thesis by (simp add: run_ops_history history_report_def note_totals_def is_fatal_def)
qed

text \<open>
  An untolerated summarization failure counts in the chunk failure ratio: one of ten chunks
  gives a ratio of a tenth.
\<close>

lemma summarization_counts_in_ratio:
  "chunk_failure_ratio (note_totals (record_failure report_default
     (sample_failure\<lparr>sf_stage := Summarization\<rparr>)) 1 10) = 1 / 10"
  by (simp add: chunk_failure_ratio_def note_totals_def record_failure_def report_default_def sample_failure_def Let_def)

end
