(* ===== verification/Rollback.thy ===== *)
theory Rollback
  imports Failure_Policy Run_Info
begin

text \<open>
  Run orchestration's policy layer: \<open>crates/cognify/src/rollback.rs\<close>.

  What a finished run does to the stores is a list of effects, in the order the code issues
  them: a sweep with its scope (\<open>SweepScope::whole_run\<close> / \<open>for_data\<close>), a completion marker, a
  row appended to the run's trail. None of the calls can fail the run: the code logs their
  errors, so the effects are the same whether a call succeeds or not.
\<close>

datatype run_ending = EndFailed | EndCompleted failure_report

datatype sweep_decision = SweepNothing | SweepWholeRun | SweepItems "uuid list"

definition outstanding_items :: "failure_report \<Rightarrow> uuid list" where
  "outstanding_items r = sorted_list_of_set (fr_failed_items r \<union> fr_unreached_items r)"

definition decide_sweep :: "rollback_scope \<Rightarrow> run_ending \<Rightarrow> sweep_decision" where
  "decide_sweep scope ending =
     (case (scope, ending) of
        (KeepAll, _) \<Rightarrow> SweepNothing
      | (WholeRun, EndFailed) \<Rightarrow> SweepWholeRun
      | (WholeRun, EndCompleted _) \<Rightarrow> SweepNothing
      | (FailedItems, EndFailed) \<Rightarrow> SweepWholeRun
      | (FailedItems, EndCompleted report) \<Rightarrow>
          (let items = outstanding_items report in
           if items = [] then SweepNothing else SweepItems items))"

definition failures_key :: string where
  "failures_key = ''cognify_failures''"

definition run_info_with_failures :: "(uuid \<Rightarrow> ustr) \<Rightarrow> uuid list \<Rightarrow> failure_report \<Rightarrow> json" where
  "run_info_with_failures show_uuid data_ids report =
     (let ids = (\<lambda>s. JArr (map (\<lambda>i. JStr (show_uuid i)) (sorted_list_of_set s)));
          failures = JObj
            [(''failed_data_ids'', ids (fr_failed_items report)),
             (''unreached_data_ids'', ids (fr_unreached_items report)),
             (''failure_count'', JNum (of_nat (fr_total report))),
             (''chunk_failure_ratio'', JNum (chunk_failure_ratio report))]
      in JObj [(''data'', data_info show_uuid data_ids), (failures_key, failures)])"

definition run_info_has_outstanding_failures :: "json option \<Rightarrow> bool" where
  "run_info_has_outstanding_failures run_info =
     (case Option.bind run_info (\<lambda>info. json_get info failures_key) of
        None \<Rightarrow> False
      | Some failures \<Rightarrow>
          list_ex (\<lambda>key. case Option.bind (json_get failures key) json_array of
                           None \<Rightarrow> False | Some ids \<Rightarrow> ids \<noteq> [])
            [''failed_data_ids'', ''unreached_data_ids''])"

section \<open>The two exit paths\<close>

record sweep_scope =
  sw_pipeline_run_id :: uuid
  sw_dataset_id :: uuid
  sw_data_ids :: "uuid list option"

definition sweep_whole_run :: "uuid \<Rightarrow> uuid \<Rightarrow> sweep_scope" where
  "sweep_whole_run run ds = \<lparr>sw_pipeline_run_id = run, sw_dataset_id = ds, sw_data_ids = None\<rparr>"

definition sweep_for_data :: "uuid \<Rightarrow> uuid \<Rightarrow> uuid list \<Rightarrow> sweep_scope" where
  "sweep_for_data run ds ids =
     \<lparr>sw_pipeline_run_id = run, sw_dataset_id = ds, sw_data_ids = Some ids\<rparr>"

datatype effect =
    Sweep sweep_scope
  | MarkComplete uuid uuid
  | AppendRow uuid uuid string uuid db_status json

record run_context =
  rc_dataset_id :: uuid
  rc_pipeline_run_id :: "uuid option"
  rc_pipeline_id :: "uuid option"
  rc_pipeline_name :: string
  rc_processed :: "uuid list"
  rc_scope :: rollback_scope
  rc_incremental :: bool

definition mark_complete :: "run_context \<Rightarrow> uuid list \<Rightarrow> effect list" where
  "mark_complete ctx data_ids =
     (if \<not> rc_incremental ctx \<or> data_ids = [] then []
      else map (\<lambda>d. MarkComplete d (rc_dataset_id ctx)) data_ids)"

definition append_run_row :: "run_context \<Rightarrow> db_status \<Rightarrow> json \<Rightarrow> effect list" where
  "append_run_row ctx status info =
     (case (rc_pipeline_run_id ctx, rc_pipeline_id ctx) of
        (Some run, Some pipeline) \<Rightarrow>
          [AppendRow run pipeline (rc_pipeline_name ctx) (rc_dataset_id ctx) status info]
      | _ \<Rightarrow> [])"

definition on_run_failed :: "(uuid \<Rightarrow> ustr) \<Rightarrow> run_context \<Rightarrow> ustr \<Rightarrow> bool \<Rightarrow> effect list" where
  "on_run_failed show_uuid ctx err executor_recorded_the_error =
     (case (decide_sweep (rc_scope ctx) EndFailed, rc_pipeline_run_id ctx) of
        (SweepWholeRun, Some run) \<Rightarrow> [Sweep (sweep_whole_run run (rc_dataset_id ctx))]
      | _ \<Rightarrow> []) @
     (if executor_recorded_the_error then []
      else append_run_row ctx Errored (run_info_for_errored show_uuid (rc_processed ctx) err))"

definition on_run_completed ::
  "(uuid \<Rightarrow> ustr) \<Rightarrow> run_context \<Rightarrow> failure_report \<Rightarrow> effect list" where
  "on_run_completed show_uuid ctx report =
     (let outstanding = outstanding_items report;
          survivors = filter (\<lambda>d. d \<notin> set outstanding) (rc_processed ctx)
      in (case (decide_sweep (rc_scope ctx) (EndCompleted report), rc_pipeline_run_id ctx) of
            (SweepItems items, Some run) \<Rightarrow> [Sweep (sweep_for_data run (rc_dataset_id ctx) items)]
          | _ \<Rightarrow> []) @
         mark_complete ctx survivors @
         (if outstanding \<noteq> []
          then append_run_row ctx Completed
                 (run_info_with_failures show_uuid (rc_processed ctx) report)
          else []))"

text \<open>
  Entry: the items an earlier run marked complete are dropped. \<open>completed\<close> is what the
  repository answers for the dataset, or its error.
\<close>

definition drop_already_complete ::
  "(uuid list \<Rightarrow> 'e + uuid set) \<Rightarrow> ('d \<Rightarrow> uuid) \<Rightarrow> 'd list \<Rightarrow> 'e + 'd list" where
  "drop_already_complete query item_id items =
     (case query (map item_id items) of
        Inl e \<Rightarrow> Inl e
      | Inr completed \<Rightarrow>
          (if completed = {} then Inr items
           else Inr (filter (\<lambda>d. item_id d \<notin> completed) items)))"

section \<open>Reading the effects\<close>

definition swept :: "effect list \<Rightarrow> sweep_scope list" where
  "swept es = List.map_filter (\<lambda>e. case e of Sweep s \<Rightarrow> Some s | _ \<Rightarrow> None) es"

definition marked_complete :: "effect list \<Rightarrow> uuid set" where
  "marked_complete es = {d. \<exists>ds. MarkComplete d ds \<in> set es}"

definition rows :: "effect list \<Rightarrow> (db_status \<times> json) list" where
  "rows es = List.map_filter (\<lambda>e. case e of AppendRow _ _ _ _ s i \<Rightarrow> Some (s, i) | _ \<Rightarrow> None) es"

lemma effects_append [simp]:
  "swept (xs @ ys) = swept xs @ swept ys"
  "marked_complete (xs @ ys) = marked_complete xs \<union> marked_complete ys"
  "rows (xs @ ys) = rows xs @ rows ys"
  by (auto simp: swept_def marked_complete_def rows_def map_filter_def)

lemma effects_Nil [simp]: "swept [] = []" "marked_complete [] = {}" "rows [] = []"
  by (simp_all add: swept_def marked_complete_def rows_def)

lemma effects_single [simp]:
  "swept [Sweep s] = [s]" "marked_complete [Sweep s] = {}" "rows [Sweep s] = []"
  by (simp_all add: swept_def marked_complete_def rows_def)

lemma effects_mark [simp]:
  "swept (mark_complete ctx ds) = []" "rows (mark_complete ctx ds) = []"
  "marked_complete (mark_complete ctx ds) = (if rc_incremental ctx then set ds else {})"
  by (auto simp: swept_def marked_complete_def rows_def mark_complete_def map_filter_def)

lemma effects_row [simp]:
  "swept (append_run_row ctx s i) = []" "marked_complete (append_run_row ctx s i) = {}"
  by (auto simp: swept_def marked_complete_def append_run_row_def split: option.splits)

lemma outstanding_set [simp]:
  "report_wf r \<Longrightarrow> set (outstanding_items r) = fr_failed_items r \<union> fr_unreached_items r"
  by (simp add: outstanding_items_def report_wf_def)

lemma outstanding_empty [simp]:
  "report_wf r \<Longrightarrow> outstanding_items r = [] \<longleftrightarrow> fr_failed_items r = {} \<and> fr_unreached_items r = {}"
  using outstanding_set [of r] by (metis Un_empty set_empty)

lemma swept_completed:
  "swept (on_run_completed show_uuid ctx r) =
     (case (decide_sweep (rc_scope ctx) (EndCompleted r), rc_pipeline_run_id ctx) of
        (SweepItems items, Some run) \<Rightarrow> [sweep_for_data run (rc_dataset_id ctx) items]
      | _ \<Rightarrow> [])"
  by (simp add: on_run_completed_def Let_def split: sweep_decision.split option.split)

lemma marked_completed:
  "marked_complete (on_run_completed show_uuid ctx r) =
     (if rc_incremental ctx then set (rc_processed ctx) - set (outstanding_items r) else {})"
  by (auto simp: on_run_completed_def Let_def split: sweep_decision.splits option.splits)

lemma rows_completed:
  "rows (on_run_completed show_uuid ctx r) =
     (if outstanding_items r = [] then []
      else rows (append_run_row ctx Completed (run_info_with_failures show_uuid (rc_processed ctx) r)))"
  by (simp add: on_run_completed_def Let_def split: sweep_decision.split option.split)

lemma outstanding_roundtrip:
  "report_wf r \<Longrightarrow>
     run_info_has_outstanding_failures (Some (run_info_with_failures show_uuid ids r)) \<longleftrightarrow>
     outstanding_items r \<noteq> []"
  by (auto simp: run_info_has_outstanding_failures_def run_info_with_failures_def Let_def
      failures_key_def json_array_def report_wf_def)

lemma running_info_clean:
  "\<not> run_info_has_outstanding_failures (Some (run_info_for_running show_uuid ids))"
  by (simp add: run_info_has_outstanding_failures_def run_info_for_running_def failures_key_def)

section \<open>Properties\<close>

text \<open>
  The sweep decision: an item sweep happens only after a completed run under the item scope,
  names exactly the outstanding items, at least one, sorted and without repetition; a whole-run
  sweep only after a failed run; and nothing is swept only when the scope forbids it or nothing
  is outstanding.
\<close>

lemma decide_sweep_table:
  "case decide_sweep scope ending of
     SweepItems ds \<Rightarrow> scope = FailedItems \<and> ds \<noteq> [] \<and> sorted ds \<and> distinct ds \<and>
       (\<exists>r. ending = EndCompleted r \<and> ds = outstanding_items r)
   | SweepWholeRun \<Rightarrow> scope \<noteq> KeepAll \<and> ending = EndFailed
   | SweepNothing \<Rightarrow> scope = KeepAll \<or>
       (\<exists>r. ending = EndCompleted r \<and> (scope = WholeRun \<or> outstanding_items r = []))"
proof (cases ending)
  case EndFailed
  then show ?thesis by (cases scope) (simp_all add: decide_sweep_def)
next
  case (EndCompleted r)
  then show ?thesis
    by (cases scope) (auto simp: decide_sweep_def Let_def outstanding_items_def)
qed

text \<open>
  C22: At the end of a completed run the items are divided: those marked complete are the processed
  items that neither failed nor went unreached, and the outstanding ones are what an item-scoped
  policy sweeps. No item is both.
\<close>

theorem completed_run_sweeps_or_marks:
  assumes "report_wf r"
  shows "let es = on_run_completed show_uuid ctx r;
             out = fr_failed_items r \<union> fr_unreached_items r
         in marked_complete es = (if rc_incremental ctx then set (rc_processed ctx) - out else {}) \<and>
            swept es = (case rc_pipeline_run_id ctx of
                          Some run \<Rightarrow> if rc_scope ctx = FailedItems \<and> out \<noteq> {}
                            then [sweep_for_data run (rc_dataset_id ctx) (sorted_list_of_set out)] else []
                        | None \<Rightarrow> [])"
  using assms by (auto simp: Let_def marked_completed swept_completed decide_sweep_def outstanding_items_def report_wf_def split: rollback_scope.splits option.splits)

definition sample_context :: run_context where
  "sample_context = \<lparr>rc_dataset_id = 1, rc_pipeline_run_id = Some 2, rc_pipeline_id = Some 3,
     rc_pipeline_name = ''cognify_pipeline'',
     rc_processed = [3, 4], rc_scope = FailedItems, rc_incremental = True\<rparr>"

theorem completed_run_sweeps_or_marks_witness:
  "swept (on_run_completed show_nat sample_context (record_failure report_default sample_failure))
     = [sweep_for_data 2 1 [3]]"
  using completed_run_sweeps_or_marks [of "record_failure report_default sample_failure" show_nat sample_context]
  by (simp add: Let_def sample_context_def record_failure_def report_default_def sample_failure_def report_wf_def)

lemma rows_append_run_row:
  "rc_pipeline_run_id ctx = Some run \<Longrightarrow> rc_pipeline_id ctx = Some pipeline \<Longrightarrow>
     rows (append_run_row ctx s i) = [(s, i)]"
  by (simp add: append_run_row_def rows_def map_filter_def)

text \<open>
  A completed run with outstanding items is not mistaken for a finished one: exactly then it
  appends a second completed row, whose run info the cache check reads as having outstanding
  failures.
\<close>

lemma completed_row_blocks_cache_hit:
  assumes "report_wf r" and "rc_pipeline_run_id ctx = Some run" and "rc_pipeline_id ctx = Some pipeline"
  shows "(rows (on_run_completed show_uuid ctx r) = [] \<longleftrightarrow> fr_failed_items r \<union> fr_unreached_items r = {}) \<and>
    list_all (\<lambda>(s, info). s = Completed \<and> run_info_has_outstanding_failures (Some info))
      (rows (on_run_completed show_uuid ctx r))"
  using assms by (simp add: rows_completed rows_append_run_row outstanding_roundtrip)

text \<open>
  A failed run sweeps everything it wrote unless the scope keeps it, appends the errored row
  exactly when the executor has not, and marks no item complete.
\<close>

lemma failed_run_effects:
  "on_run_failed show_uuid ctx err by_executor =
     (case rc_pipeline_run_id ctx of
        Some run \<Rightarrow> if rc_scope ctx = KeepAll then [] else [Sweep (sweep_whole_run run (rc_dataset_id ctx))]
      | None \<Rightarrow> []) @
     (case (by_executor, rc_pipeline_run_id ctx, rc_pipeline_id ctx) of
        (False, Some run, Some pipeline) \<Rightarrow>
          [AppendRow run pipeline (rc_pipeline_name ctx) (rc_dataset_id ctx) Errored
             (run_info_for_errored show_uuid (rc_processed ctx) err)]
      | _ \<Rightarrow> []) \<and>
   marked_complete (on_run_failed show_uuid ctx err by_executor) = {}"
 by (auto simp: on_run_failed_def decide_sweep_def append_run_row_def marked_complete_def split: rollback_scope.splits option.splits)

end
