(* ===== verification/Ledger.thy ===== *)
theory Ledger
  imports Rollback
begin

text \<open>
  The ownership ledger: the \<open>nodes\<close> and \<open>edges\<close> tables of \<open>database/src/ops/graph_storage.rs\<close>, one row
  per artifact and data item that produced it, and the queries scoped to one run.

  A table is a list of rows in insertion order, with at most one row per id. A query is the
  \<open>WHERE\<close> condition the code builds, with SQL's three-valued comparison of a nullable column: a
  \<open>NULL\<close> never equals nor differs from a value. UUIDs are compared through \<open>to_hex\<close>, which is
  injective and is left out. Database errors are raised in the sweep, where they are handled.
\<close>

record ledger_node =
  gn_id :: uuid
  gn_slug :: uuid
  gn_user_id :: uuid
  gn_data_id :: uuid
  gn_dataset_id :: uuid
  gn_run :: "uuid option"
  gn_label :: "ustr option"
  gn_node_type :: ustr
  gn_indexed_fields :: json
  gn_attributes :: "json option"
  gn_created_at :: nat

record ledger_edge =
  ge_id :: uuid
  ge_slug :: uuid
  ge_user_id :: uuid
  ge_data_id :: uuid
  ge_dataset_id :: uuid
  ge_run :: "uuid option"
  ge_source :: uuid
  ge_destination :: uuid
  ge_relationship :: ustr
  ge_label :: "ustr option"
  ge_attributes :: "json option"
  ge_created_at :: nat

record ledger =
  lg_nodes :: "ledger_node list"
  lg_edges :: "ledger_edge list"

section \<open>Upserts\<close>

text \<open>\<open>dedup_keeping_last\<close>: the backwards walk, and the forward order restored.\<close>

fun keep_first :: "('a \<Rightarrow> uuid) \<Rightarrow> uuid list \<Rightarrow> 'a list \<Rightarrow> 'a list" where
  "keep_first key seen [] = []"
| "keep_first key seen (x # xs) =
     (if key x \<in> set seen then keep_first key seen xs else x # keep_first key (key x # seen) xs)"

definition dedup_keeping_last :: "('a \<Rightarrow> uuid) \<Rightarrow> 'a list \<Rightarrow> 'a list" where
  "dedup_keeping_last key xs = rev (keep_first key [] (rev xs))"

definition insert_batch_size :: nat where "insert_batch_size = 500"

text \<open>
  \<open>INSERT ... ON CONFLICT (id) DO UPDATE\<close>: the columns the code lists are overwritten; the run that
  created the row and its creation time are not among them.
\<close>

fun upsert_row :: "('a \<Rightarrow> uuid) \<Rightarrow> ('a \<Rightarrow> 'a \<Rightarrow> 'a) \<Rightarrow> 'a \<Rightarrow> 'a list \<Rightarrow> 'a list" where
  "upsert_row key merge new [] = [new]"
| "upsert_row key merge new (old # tbl) =
     (if key old = key new then merge old new # tbl else old # upsert_row key merge new tbl)"

definition merge_node :: "ledger_node \<Rightarrow> ledger_node \<Rightarrow> ledger_node" where
  "merge_node old new = new\<lparr>gn_run := gn_run old, gn_created_at := gn_created_at old\<rparr>"

definition merge_edge :: "ledger_edge \<Rightarrow> ledger_edge \<Rightarrow> ledger_edge" where
  "merge_edge old new = new\<lparr>ge_run := ge_run old, ge_created_at := ge_created_at old\<rparr>"

definition upsert_batches ::
  "('a \<Rightarrow> uuid) \<Rightarrow> ('a \<Rightarrow> 'a \<Rightarrow> 'a) \<Rightarrow> 'a list \<Rightarrow> 'a list \<Rightarrow> 'a list" where
  "upsert_batches key merge new tbl =
     fold (\<lambda>batch. fold (upsert_row key merge) (dedup_keeping_last key batch)) (chunks_of insert_batch_size new) tbl"

definition upsert_nodes :: "ledger_node list \<Rightarrow> ledger \<Rightarrow> ledger" where
  "upsert_nodes new lg = lg\<lparr>lg_nodes := upsert_batches gn_id merge_node new (lg_nodes lg)\<rparr>"

definition upsert_edges :: "ledger_edge list \<Rightarrow> ledger \<Rightarrow> ledger" where
  "upsert_edges new lg = lg\<lparr>lg_edges := upsert_batches ge_id merge_edge new (lg_edges lg)\<rparr>"

text \<open>One transaction: a failure of the commit, or of either group, leaves the ledger as it was.\<close>

definition upsert_provenance_graph ::
  "ustr option \<Rightarrow> ledger_node list \<Rightarrow> ledger_edge list \<Rightarrow> ledger \<Rightarrow> ledger \<times> (ustr + unit)" where
  "upsert_provenance_graph db_error nodes edges lg =
     (if nodes = [] \<and> edges = [] then (lg, Inr ())
      else case db_error of
             Some e \<Rightarrow> (lg, Inl e)
           | None \<Rightarrow> (upsert_edges edges (upsert_nodes nodes lg), Inr ()))"

section \<open>Run-scoped queries\<close>

definition selects_nothing :: "sweep_scope \<Rightarrow> bool" where
  "selects_nothing sc \<longleftrightarrow> sw_data_ids sc = Some []"

text \<open>\<open>node_selection\<close> and \<open>edge_selection\<close>, on the columns they read.\<close>

definition selected :: "sweep_scope \<Rightarrow> uuid option \<Rightarrow> uuid \<Rightarrow> uuid \<Rightarrow> bool" where
  "selected sc run dataset data_id \<longleftrightarrow>
     run = Some (sw_pipeline_run_id sc) \<and> dataset = sw_dataset_id sc \<and>
     (case sw_data_ids sc of None \<Rightarrow> True | Some ids \<Rightarrow> data_id \<in> set ids)"

text \<open>The condition \<open>outside\<close> of the exclusivity checks; \<open>IS NULL\<close> is a disjunct of its own.\<close>

definition outside :: "sweep_scope \<Rightarrow> uuid option \<Rightarrow> uuid \<Rightarrow> uuid \<Rightarrow> bool" where
  "outside sc run dataset data_id \<longleftrightarrow>
     run = None \<or>
     (case run of None \<Rightarrow> False | Some r \<Rightarrow> r \<noteq> sw_pipeline_run_id sc) \<or>
     dataset \<noteq> sw_dataset_id sc \<or>
     (case sw_data_ids sc of None \<Rightarrow> False | Some ids \<Rightarrow> data_id \<notin> set ids)"

definition node_selected :: "sweep_scope \<Rightarrow> ledger_node \<Rightarrow> bool" where
  "node_selected sc n = selected sc (gn_run n) (gn_dataset_id n) (gn_data_id n)"

definition edge_selected :: "sweep_scope \<Rightarrow> ledger_edge \<Rightarrow> bool" where
  "edge_selected sc e = selected sc (ge_run e) (ge_dataset_id e) (ge_data_id e)"

definition node_outside :: "sweep_scope \<Rightarrow> ledger_node \<Rightarrow> bool" where
  "node_outside sc n = outside sc (gn_run n) (gn_dataset_id n) (gn_data_id n)"

definition edge_outside :: "sweep_scope \<Rightarrow> ledger_edge \<Rightarrow> bool" where
  "edge_outside sc e = outside sc (ge_run e) (ge_dataset_id e) (ge_data_id e)"

definition get_nodes_for_run :: "sweep_scope \<Rightarrow> ledger \<Rightarrow> ledger_node list" where
  "get_nodes_for_run sc lg =
     (if selects_nothing sc then []
      else sort_key gn_created_at (filter (node_selected sc) (lg_nodes lg)))"

definition get_edges_for_run :: "sweep_scope \<Rightarrow> ledger \<Rightarrow> ledger_edge list" where
  "get_edges_for_run sc lg =
     (if selects_nothing sc then []
      else sort_key ge_created_at (filter (edge_selected sc) (lg_edges lg)))"

definition get_unique_nodes_for_run :: "sweep_scope \<Rightarrow> ledger \<Rightarrow> ledger_node list" where
  "get_unique_nodes_for_run sc lg =
     (if selects_nothing sc then []
      else sort_key gn_created_at
             (filter (\<lambda>n. node_selected sc n \<and>
                  \<not> list_ex (\<lambda>n2. gn_slug n2 = gn_slug n \<and> node_outside sc n2) (lg_nodes lg))
                (lg_nodes lg)))"

definition get_unique_edges_for_run :: "sweep_scope \<Rightarrow> ledger \<Rightarrow> ledger_edge list" where
  "get_unique_edges_for_run sc lg =
     (if selects_nothing sc then []
      else sort_key ge_created_at
             (filter (\<lambda>e. edge_selected sc e \<and>
                  \<not> list_ex (\<lambda>e2. ge_slug e2 = ge_slug e \<and> edge_outside sc e2) (lg_edges lg))
                (lg_edges lg)))"

text \<open>
  The text an edge's \<open>EdgeType\<close> point is keyed on: the non-blank \<open>edge_text\<close> attribute, else the
  relationship name, both trimmed of Unicode white space.
\<close>

definition unicode_white_space :: "uchar list" where
  "unicode_white_space =
     [0x9, 0xA, 0xB, 0xC, 0xD, 0x20, 0x85, 0xA0, 0x1680, 0x2000, 0x2001, 0x2002, 0x2003, 0x2004, 0x2005,
      0x2006, 0x2007, 0x2008, 0x2009, 0x200A, 0x2028, 0x2029, 0x202F, 0x205F, 0x3000]"

text \<open>The set the SQL conditions trim is the set \<open>str::trim\<close> does.\<close>

lemma unicode_white_space_iff: "c \<in> set unicode_white_space \<longleftrightarrow> is_whitespace c"
proof -
  have a: "0x09 \<le> c \<and> c \<le> 0x0D \<longleftrightarrow> c \<in> {0x9, 0xA, 0xB, 0xC, 0xD}"
    unfolding insert_iff empty_iff by presburger
  have b: "0x2000 \<le> c \<and> c \<le> 0x200A \<longleftrightarrow>
      c \<in> {0x2000, 0x2001, 0x2002, 0x2003, 0x2004, 0x2005, 0x2006, 0x2007, 0x2008, 0x2009, 0x200A}"
    unfolding insert_iff empty_iff by presburger
  show ?thesis unfolding is_whitespace_def unicode_white_space_def conj_assoc [symmetric]
    using a b by auto
qed

definition retrieval_text :: "ustr option \<Rightarrow> ustr \<Rightarrow> ustr" where
  "retrieval_text edge_text relationship_name =
     (case edge_text of
        None \<Rightarrow> trim relationship_name
      | Some t \<Rightarrow> if trim t = [] then trim relationship_name else trim t)"

definition edge_retrieval_text :: "ledger_edge \<Rightarrow> ustr" where
  "edge_retrieval_text e =
     retrieval_text
       (case ge_attributes e of
          None \<Rightarrow> None
        | Some a \<Rightarrow> (case json_get a ''edge_text'' of Some (JStr s) \<Rightarrow> Some s | _ \<Rightarrow> None))
       (ge_relationship e)"

definition retrieval_texts_claimed_outside :: "sweep_scope \<Rightarrow> ledger \<Rightarrow> ustr set" where
  "retrieval_texts_claimed_outside sc lg =
     edge_retrieval_text ` set (filter (edge_outside sc) (lg_edges lg))"

definition delete_nodes_for_run :: "sweep_scope \<Rightarrow> ledger \<Rightarrow> ledger \<times> nat" where
  "delete_nodes_for_run sc lg =
     (if selects_nothing sc then (lg, 0)
      else (lg\<lparr>lg_nodes := filter (\<lambda>n. \<not> node_selected sc n) (lg_nodes lg)\<rparr>,
            length (filter (node_selected sc) (lg_nodes lg))))"

definition delete_edges_for_run :: "sweep_scope \<Rightarrow> ledger \<Rightarrow> ledger \<times> nat" where
  "delete_edges_for_run sc lg =
     (if selects_nothing sc then (lg, 0)
      else (lg\<lparr>lg_edges := filter (\<lambda>e. \<not> edge_selected sc e) (lg_edges lg)\<rparr>,
            length (filter (edge_selected sc) (lg_edges lg))))"

definition get_data_ids_for_run :: "sweep_scope \<Rightarrow> ledger \<Rightarrow> uuid list" where
  "get_data_ids_for_run sc lg =
     (if selects_nothing sc then []
      else sorted_list_of_set
             (gn_data_id ` set (filter (node_selected sc) (lg_nodes lg)) \<union>
              ge_data_id ` set (filter (edge_selected sc) (lg_edges lg))))"

section \<open>What the conditions mean\<close>

text \<open>The four disjuncts are the negation of the selection, for every nullable run column.\<close>

lemma outside_iff: "outside sc run dataset data_id \<longleftrightarrow> \<not> selected sc run dataset data_id"
  by (auto simp: outside_def selected_def split: option.splits)

lemma node_outside_iff [simp]: "node_outside sc n \<longleftrightarrow> \<not> node_selected sc n"
  by (simp add: node_outside_def node_selected_def outside_iff)

lemma edge_outside_iff [simp]: "edge_outside sc e \<longleftrightarrow> \<not> edge_selected sc e"
  by (simp add: edge_outside_def edge_selected_def outside_iff)

lemma selects_nothing_selected:
  "selects_nothing sc \<Longrightarrow> \<not> node_selected sc n"
  "selects_nothing sc \<Longrightarrow> \<not> edge_selected sc e"
  by (auto simp: selects_nothing_def node_selected_def edge_selected_def selected_def)

text \<open>A slug is exclusive if every row that has it is selected.\<close>

definition exclusive_slugs :: "sweep_scope \<Rightarrow> ledger \<Rightarrow> uuid set" where
  "exclusive_slugs sc lg =
     {s. (\<exists>n \<in> set (lg_nodes lg). gn_slug n = s) \<and>
         (\<forall>n \<in> set (lg_nodes lg). gn_slug n = s \<longrightarrow> node_selected sc n)}"

lemma set_unique_nodes:
  "set (get_unique_nodes_for_run sc lg) =
     {n \<in> set (lg_nodes lg). gn_slug n \<in> exclusive_slugs sc lg}"
  by (auto simp: get_unique_nodes_for_run_def exclusive_slugs_def list_ex_iff selects_nothing_selected
      split: if_splits)

lemma unique_slugs: "gn_slug ` set (get_unique_nodes_for_run sc lg) = exclusive_slugs sc lg"
  by (auto simp: set_unique_nodes exclusive_slugs_def)

lemma set_unique_edges:
  "set (get_unique_edges_for_run sc lg) =
     {e \<in> set (lg_edges lg). edge_selected sc e \<and>
        (\<forall>e2 \<in> set (lg_edges lg). ge_slug e2 = ge_slug e \<longrightarrow> edge_selected sc e2)}"
  by (auto simp: get_unique_edges_for_run_def list_ex_iff selects_nothing_selected)

lemma delete_nodes_for_run_eq:
  "delete_nodes_for_run sc lg = (lg\<lparr>lg_nodes := filter (\<lambda>n. \<not> node_selected sc n) (lg_nodes lg)\<rparr>,
     length (filter (node_selected sc) (lg_nodes lg)))"
  by (simp add: delete_nodes_for_run_def selects_nothing_selected)

lemma delete_edges_for_run_eq:
  "delete_edges_for_run sc lg = (lg\<lparr>lg_edges := filter (\<lambda>e. \<not> edge_selected sc e) (lg_edges lg)\<rparr>,
     length (filter (edge_selected sc) (lg_edges lg)))"
  by (simp add: delete_edges_for_run_def selects_nothing_selected)

lemma set_data_ids:
  "set (get_data_ids_for_run sc lg) =
     gn_data_id ` {n \<in> set (lg_nodes lg). node_selected sc n} \<union>
     ge_data_id ` {e \<in> set (lg_edges lg). edge_selected sc e}"
  by (auto simp: get_data_ids_for_run_def selects_nothing_selected)

text \<open>Once the selected rows are gone, every query of the scope is empty.\<close>

lemma swept_ledger:
  assumes "\<forall>n \<in> set (lg_nodes lg). \<not> node_selected sc n" and "\<forall>e \<in> set (lg_edges lg). \<not> edge_selected sc e"
  shows "get_data_ids_for_run sc lg = []" and "get_unique_nodes_for_run sc lg = []"
    and "get_unique_edges_for_run sc lg = []"
    and "delete_edges_for_run sc lg = (lg, 0)" and "delete_nodes_for_run sc lg = (lg, 0)"
proof -
  have "set (get_data_ids_for_run sc lg) = {}" "set (get_unique_nodes_for_run sc lg) = {}"
    "set (get_unique_edges_for_run sc lg) = {}"
    using assms by (auto simp: set_data_ids set_unique_nodes set_unique_edges exclusive_slugs_def)
  then show "get_data_ids_for_run sc lg = []" "get_unique_nodes_for_run sc lg = []"
    "get_unique_edges_for_run sc lg = []"
    by simp_all
  show "delete_edges_for_run sc lg = (lg, 0)" "delete_nodes_for_run sc lg = (lg, 0)"
    using assms by (simp_all add: delete_edges_for_run_eq delete_nodes_for_run_eq filter_empty_conv cong: filter_cong)
qed

definition sample_node :: "uuid \<Rightarrow> uuid \<Rightarrow> uuid option \<Rightarrow> ledger_node" where
  "sample_node i slug run = \<lparr>gn_id = i, gn_slug = slug, gn_user_id = 9, gn_data_id = 5, gn_dataset_id = 4,
     gn_run = run, gn_label = None, gn_node_type = ascii ''E'', gn_indexed_fields = JArr [JStr (ascii ''n'')],
     gn_attributes = None, gn_created_at = 0\<rparr>"

section \<open>Who owns a row\<close>

lemma upsert_row_lookup:
  "map_of (map (\<lambda>r. (key r, r)) (upsert_row key merge new tbl)) i =
     (if i = key new
      then Some (case map_of (map (\<lambda>r. (key r, r)) tbl) i of None \<Rightarrow> new | Some old \<Rightarrow> merge old new)
      else map_of (map (\<lambda>r. (key r, r)) tbl) i)"
  if "\<And>old. key (merge old new) = key new"
  using that by (induction tbl) auto

text \<open>
  A row belongs to the run that created it. Whatever is upserted later, and however the batches
  fall, the row of an id that is in the ledger stays there and keeps the run it was created by, so
  a later run's rollback never takes what an earlier run made.
\<close>

lemma upsert_keeps_creator:
  assumes "map_of (map (\<lambda>r. (gn_id r, r)) (lg_nodes lg)) i = Some old"
  shows "\<exists>row. map_of (map (\<lambda>r. (gn_id r, r)) (lg_nodes (upsert_nodes new lg))) i = Some row \<and>
           gn_run row = gn_run old \<and> gn_created_at row = gn_created_at old"
proof -
  let ?own = "\<lambda>tbl. \<exists>row. map_of (map (\<lambda>r. (gn_id r, r)) tbl) i = Some row \<and>
                gn_run row = gn_run old \<and> gn_created_at row = gn_created_at old"
  have row: "?own (upsert_row gn_id merge_node r tbl)" if "?own tbl" for r tbl
    using that by (auto simp: upsert_row_lookup merge_node_def)
  have batch: "?own (fold (upsert_row gn_id merge_node) rs tbl)" if "?own tbl" for rs tbl
    using that
  proof (induction rs arbitrary: tbl)
    case (Cons r rs)
    show ?case using Cons.IH [OF row [OF Cons.prems]] by simp
  qed simp
  have "?own (fold (\<lambda>b. fold (upsert_row gn_id merge_node) (dedup_keeping_last gn_id b)) bs tbl)"
    if "?own tbl" for bs tbl
    using that
  proof (induction bs arbitrary: tbl)
    case (Cons b bs)
    show ?case using Cons.IH [OF batch [OF Cons.prems]] by simp
  qed simp
  from this [of "lg_nodes lg"] assms show ?thesis
    by (simp add: upsert_nodes_def upsert_batches_def)
qed

end
