(* ===== verification/Artifact_Stores.thy ===== *)
theory Artifact_Stores
  imports Prelude "HOL-Library.AList"
begin

text \<open>
  The graph and the vector store as the deletion code sees them: the operations it calls
  (\<open>GraphDBTrait::delete_nodes\<close>, \<open>VectorDB::has_collection\<close>, \<open>VectorDB::delete_points\<close>), the contract
  it relies on (the locale \<open>artifact_stores\<close>), and two stores of the repository that live in memory:
  \<open>MockGraphDB\<close> (\<open>graph/src/mock.rs\<close>) and \<open>BruteForceVectorDB\<close> (\<open>vector/src/brute_force_vector_db.rs\<close>).
  The adapters for external databases are not modelled; the locale says what is asked of them.

  A graph node's id is the display of a UUID. The display is injective, and the model uses the UUID.
\<close>

section \<open>The interface\<close>

record ('g, 'v) artifact_ops =
  ao_delete_nodes :: "uuid list \<Rightarrow> 'g \<Rightarrow> 'g \<times> (ustr + unit)"
  ao_has_collection :: "ustr \<Rightarrow> ustr \<Rightarrow> 'v \<Rightarrow> ustr + bool"
  ao_delete_points :: "ustr \<Rightarrow> ustr \<Rightarrow> uuid list \<Rightarrow> 'v \<Rightarrow> 'v \<times> (ustr + unit)"

definition collection_key :: "ustr \<Rightarrow> ustr \<Rightarrow> ustr" where
  "collection_key data_type field_name = data_type @ ascii ''_'' @ field_name"

text \<open>
  A delete that succeeds removes what it is given and nothing else; one that fails may have removed
  part of it.
\<close>

locale artifact_stores =
  fixes ops :: "('g, 'v) artifact_ops"
    and graph_nodes :: "'g \<Rightarrow> uuid set"
    and points :: "'v \<Rightarrow> (ustr \<times> uuid) set"
  assumes delete_nodes_ok: "ao_delete_nodes ops ids g = (g', Inr u) \<Longrightarrow> graph_nodes g' = graph_nodes g - set ids"
    and delete_nodes_any: "ao_delete_nodes ops ids g = (g', r) \<Longrightarrow>
      graph_nodes g - set ids \<subseteq> graph_nodes g' \<and> graph_nodes g' \<subseteq> graph_nodes g"
    and no_collection: "ao_has_collection ops dt f v = Inr False \<Longrightarrow> (collection_key dt f, i) \<notin> points v"
    and delete_points_ok: "ao_delete_points ops dt f ids v = (v', Inr u) \<Longrightarrow>
      points v' = points v - {collection_key dt f} \<times> set ids"
    and delete_points_any: "ao_delete_points ops dt f ids v = (v', r) \<Longrightarrow>
      points v - {collection_key dt f} \<times> set ids \<subseteq> points v' \<and> points v' \<subseteq> points v"

section \<open>A graph in memory\<close>

text \<open>
  \<open>nodes\<close> is a map and \<open>edges\<close> a list, in which an edge may occur twice; the injected errors stand for a
  store that fails before it changes anything. The call log and the locks are left out.
\<close>

record ('d, 'p) memory_graph =
  mg_nodes :: "(uuid \<times> 'd) list"
  mg_edges :: "(uuid \<times> uuid \<times> ustr \<times> 'p) list"
  mg_add_nodes_error :: "ustr option"
  mg_add_edges_error :: "ustr option"
  mg_delete_nodes_error :: "ustr option"

definition graph_new :: "('d, 'p) memory_graph" where
  "graph_new = \<lparr>mg_nodes = [], mg_edges = [], mg_add_nodes_error = None, mg_add_edges_error = None,
     mg_delete_nodes_error = None\<rparr>"

definition graph_is_empty :: "('d, 'p) memory_graph \<Rightarrow> bool" where
  "graph_is_empty g \<longleftrightarrow> mg_nodes g = []"

definition has_node :: "uuid \<Rightarrow> ('d, 'p) memory_graph \<Rightarrow> bool" where
  "has_node i g \<longleftrightarrow> map_of (mg_nodes g) i \<noteq> None"

text \<open>\<open>add_node_raw\<close>: a payload without an id is refused.\<close>

definition add_node_raw ::
  "uuid option \<Rightarrow> 'd \<Rightarrow> ('d, 'p) memory_graph \<Rightarrow> ('d, 'p) memory_graph \<times> (ustr + unit)" where
  "add_node_raw node_id node g =
     (case mg_add_nodes_error g of
        Some e \<Rightarrow> (g, Inl e)
      | None \<Rightarrow>
          (case node_id of
             None \<Rightarrow> (g, Inl (ascii ''Node missing 'id' field''))
           | Some i \<Rightarrow> (g\<lparr>mg_nodes := AList.update i node (mg_nodes g)\<rparr>, Inr ())))"

text \<open>\<open>add_nodes_raw\<close> stops at the first node it cannot add.\<close>

fun add_nodes_raw ::
  "(uuid option \<times> 'd) list \<Rightarrow> ('d, 'p) memory_graph \<Rightarrow> ('d, 'p) memory_graph \<times> (ustr + unit)" where
  "add_nodes_raw [] g = (g, Inr ())"
| "add_nodes_raw ((i, node) # nodes) g =
     (case add_node_raw i node g of
        (g', Inl e) \<Rightarrow> (g', Inl e)
      | (g', Inr _) \<Rightarrow> add_nodes_raw nodes g')"

definition detach_delete :: "uuid list \<Rightarrow> ('d, 'p) memory_graph \<Rightarrow> ('d, 'p) memory_graph" where
  "detach_delete ids g =
     g\<lparr>mg_nodes := filter (\<lambda>(i, _). i \<notin> set ids) (mg_nodes g),
       mg_edges := filter (\<lambda>(src, tgt, _). src \<notin> set ids \<and> tgt \<notin> set ids) (mg_edges g)\<rparr>"

definition delete_node :: "uuid \<Rightarrow> ('d, 'p) memory_graph \<Rightarrow> ('d, 'p) memory_graph" where
  "delete_node i g = detach_delete [i] g"

definition delete_nodes ::
  "uuid list \<Rightarrow> ('d, 'p) memory_graph \<Rightarrow> ('d, 'p) memory_graph \<times> (ustr + unit)" where
  "delete_nodes ids g =
     (case mg_delete_nodes_error g of Some e \<Rightarrow> (g, Inl e) | None \<Rightarrow> (detach_delete ids g, Inr ()))"

definition get_node :: "uuid \<Rightarrow> ('d, 'p) memory_graph \<Rightarrow> 'd option" where
  "get_node i g = map_of (mg_nodes g) i"

definition get_nodes :: "uuid list \<Rightarrow> ('d, 'p) memory_graph \<Rightarrow> 'd list" where
  "get_nodes ids g = List.map_filter (\<lambda>i. get_node i g) ids"

definition has_edge :: "uuid \<Rightarrow> uuid \<Rightarrow> ustr \<Rightarrow> ('d, 'p) memory_graph \<Rightarrow> bool" where
  "has_edge src tgt rel g \<longleftrightarrow> list_ex (\<lambda>(s, t, r, _). s = src \<and> t = tgt \<and> r = rel) (mg_edges g)"

definition has_edges ::
  "(uuid \<times> uuid \<times> ustr \<times> 'p) list \<Rightarrow> ('d, 'p) memory_graph \<Rightarrow> (uuid \<times> uuid \<times> ustr \<times> 'p) list" where
  "has_edges es g = filter (\<lambda>(s, t, r, _). has_edge s t r g) es"

definition add_edge :: "uuid \<Rightarrow> uuid \<Rightarrow> ustr \<Rightarrow> 'p \<Rightarrow> ('d, 'p) memory_graph \<Rightarrow> ('d, 'p) memory_graph" where
  "add_edge src tgt rel props g = g\<lparr>mg_edges := mg_edges g @ [(src, tgt, rel, props)]\<rparr>"

definition add_edges ::
  "(uuid \<times> uuid \<times> ustr \<times> 'p) list \<Rightarrow> ('d, 'p) memory_graph \<Rightarrow> ('d, 'p) memory_graph \<times> (ustr + unit)" where
  "add_edges es g =
     (case mg_add_edges_error g of
        Some e \<Rightarrow> (g, Inl e) | None \<Rightarrow> (g\<lparr>mg_edges := mg_edges g @ es\<rparr>, Inr ()))"

definition get_edges :: "uuid \<Rightarrow> ('d, 'p) memory_graph \<Rightarrow> (uuid \<times> uuid \<times> ustr \<times> 'p) list" where
  "get_edges i g = filter (\<lambda>(src, tgt, _). src = i \<or> tgt = i) (mg_edges g)"

definition get_neighbors :: "uuid \<Rightarrow> ('d, 'p) memory_graph \<Rightarrow> 'd list" where
  "get_neighbors i g =
     get_nodes (List.map_filter (\<lambda>(src, tgt, _). if src = i then Some tgt else if tgt = i then Some src else None)
       (mg_edges g)) g"

definition get_connections :: "uuid \<Rightarrow> ('d, 'p) memory_graph \<Rightarrow> ('d \<times> 'p \<times> 'd) list" where
  "get_connections i g =
     List.map_filter
       (\<lambda>(src, tgt, _, props).
          if src = i \<or> tgt = i then
            (case (get_node src g, get_node tgt g) of
               (Some s, Some t) \<Rightarrow> Some (s, props, t) | _ \<Rightarrow> None)
          else None)
       (mg_edges g)"

section \<open>A vector store in memory\<close>

text \<open>A collection is its dimension and its points; only the ids of the points matter to a delete.\<close>

type_synonym 'p memory_vectors = "(ustr \<times> nat \<times> (uuid \<times> 'p) list) list"

definition create_collection ::
  "ustr \<Rightarrow> ustr \<Rightarrow> nat \<Rightarrow> 'p memory_vectors \<Rightarrow> 'p memory_vectors \<times> (ustr + unit)" where
  "create_collection dt f dim v =
     (let key = collection_key dt f in
      case map_of v key of
        Some _ \<Rightarrow> (v, Inl key)
      | None \<Rightarrow> (AList.update key (dim, []) v, Inr ()))"

definition has_collection :: "ustr \<Rightarrow> ustr \<Rightarrow> 'p memory_vectors \<Rightarrow> bool" where
  "has_collection dt f v \<longleftrightarrow> map_of v (collection_key dt f) \<noteq> None"

definition delete_points ::
  "ustr \<Rightarrow> ustr \<Rightarrow> uuid list \<Rightarrow> 'p memory_vectors \<Rightarrow> 'p memory_vectors \<times> (ustr + unit)" where
  "delete_points dt f ids v =
     (let key = collection_key dt f in
      case map_of v key of
        None \<Rightarrow> (v, Inl key)
      | Some (dim, ps) \<Rightarrow> (AList.update key (dim, filter (\<lambda>(i, _). i \<notin> set ids) ps) v, Inr ()))"

definition delete_collection :: "ustr \<Rightarrow> ustr \<Rightarrow> 'p memory_vectors \<Rightarrow> 'p memory_vectors" where
  "delete_collection dt f v = AList.delete (collection_key dt f) v"

definition collection_size :: "ustr \<Rightarrow> ustr \<Rightarrow> 'p memory_vectors \<Rightarrow> ustr + nat" where
  "collection_size dt f v =
     (let key = collection_key dt f in
      case map_of v key of None \<Rightarrow> Inl key | Some (_, ps) \<Rightarrow> Inr (length ps))"

section \<open>The stores in memory meet the contract\<close>

definition memory_ops :: "(('d, 'p) memory_graph, 'q memory_vectors) artifact_ops" where
  "memory_ops = \<lparr>ao_delete_nodes = delete_nodes, ao_has_collection = (\<lambda>dt f v. Inr (has_collection dt f v)),
     ao_delete_points = delete_points\<rparr>"

definition graph_ids :: "('d, 'p) memory_graph \<Rightarrow> uuid set" where
  "graph_ids g = fst ` set (mg_nodes g)"

definition point_ids :: "'p memory_vectors \<Rightarrow> (ustr \<times> uuid) set" where
  "point_ids v = {(key, i). \<exists>dim ps. map_of v key = Some (dim, ps) \<and> i \<in> fst ` set ps}"

lemma delete_nodes_ids:
  "delete_nodes ids g = (g', r) \<Longrightarrow>
     graph_ids g' = (if mg_delete_nodes_error g = None then graph_ids g - set ids else graph_ids g)"
  "delete_nodes ids g = (g', Inr u) \<Longrightarrow> mg_delete_nodes_error g = None"
  by (auto simp: delete_nodes_def graph_ids_def detach_delete_def split: option.splits)

lemma delete_points_ids:
  "delete_points dt f ids v = (v', r) \<Longrightarrow> point_ids v' = point_ids v - {collection_key dt f} \<times> set ids"
  by (force simp: delete_points_def point_ids_def Let_def update_conv' split: option.splits if_splits)

interpretation memory: artifact_stores memory_ops graph_ids point_ids
proof unfold_locales
  show "graph_ids g' = graph_ids g - set ids" if "ao_delete_nodes memory_ops ids g = (g', Inr u)"
    for ids u and g g' :: "('d, 'p) memory_graph"
    using that delete_nodes_ids(1) [of ids g g' "Inr u"] delete_nodes_ids(2) [of ids g g' u]
    by (simp add: memory_ops_def)
  show "graph_ids g - set ids \<subseteq> graph_ids g' \<and> graph_ids g' \<subseteq> graph_ids g"
    if "ao_delete_nodes memory_ops ids g = (g', r)" for ids r and g g' :: "('d, 'p) memory_graph"
    using that delete_nodes_ids(1) [of ids g g' r] by (auto simp: memory_ops_def split: if_splits)
  show "(collection_key dt f, i) \<notin> point_ids v" if "ao_has_collection memory_ops dt f v = Inr False"
    for dt f i and v :: "'q memory_vectors"
    using that by (auto simp: memory_ops_def has_collection_def point_ids_def)
  show "point_ids v' = point_ids v - {collection_key dt f} \<times> set ids"
    if "ao_delete_points memory_ops dt f ids v = (v', Inr u)" for dt f ids u and v v' :: "'q memory_vectors"
    using that by (simp add: memory_ops_def delete_points_ids)
  show "point_ids v - {collection_key dt f} \<times> set ids \<subseteq> point_ids v' \<and> point_ids v' \<subseteq> point_ids v"
    if "ao_delete_points memory_ops dt f ids v = (v', r)" for dt f ids r and v v' :: "'q memory_vectors"
    using delete_points_ids [of dt f ids v v' r] that by (auto simp: memory_ops_def)
qed

text \<open>What the graph keeps: no edge to a node that was deleted, and every other edge.\<close>

lemma detach_delete_edges:
  "(s, t, r, p) \<in> set (mg_edges (detach_delete ids g)) \<longleftrightarrow>
     (s, t, r, p) \<in> set (mg_edges g) \<and> s \<notin> set ids \<and> t \<notin> set ids"
  by (auto simp: detach_delete_def)

end
