(* ===== verification/Sweep.thy ===== *)
theory Sweep
  imports Ledger Artifact_Stores
begin

text \<open>
  Rolling back what one run created: \<open>delete/src/sweep.rs\<close>, with the artifact deletion of
  \<open>delete/src/lib.rs\<close> and the completion markers of \<open>database/src/ops/data.rs\<close>.

  The sweep reads what the run owns and what nobody else claims, deletes the artifacts, then the
  ownership rows, then the completion markers. Every query of the ledger can fail: \<open>faults\<close> says
  which does, and with what error. An error is named by the phase that raised it; its text, the log
  and the routing to per-dataset databases are left out. No other writer changes the ledger
  during a sweep. The collections of the vector store are visited in the order their first point
  was found; the code's order is that of a hash map, which matters only to what a failure leaves.
\<close>

section \<open>Artifacts of ledger rows\<close>

text \<open>\<open>uuid5(OID, _)\<close>, the display of a UUID and \<open>str::to_lowercase\<close>.\<close>

record sweep_env =
  se_v5 :: "ustr \<Rightarrow> uuid"
  se_show :: "uuid \<Rightarrow> ustr"
  se_lower :: "ustr \<Rightarrow> ustr"

definition normalize_identifier :: "(ustr \<Rightarrow> ustr) \<Rightarrow> ustr \<Rightarrow> ustr" where
  "normalize_identifier lower s = filter (\<lambda>c. c \<noteq> 0x27) (map (\<lambda>c. if c = 0x20 then 0x5F else c) (lower s))"

definition edge_type_id :: "sweep_env \<Rightarrow> ustr \<Rightarrow> uuid" where
  "edge_type_id env text = se_v5 env (ascii ''EdgeType:'' @ normalize_identifier (se_lower env) text)"

definition edge_type_vector_id :: "sweep_env \<Rightarrow> ledger_edge \<Rightarrow> uuid option" where
  "edge_type_vector_id env e =
     (let text = edge_retrieval_text e in if text = [] then None else Some (edge_type_id env text))"

definition triplet_vector_id :: "sweep_env \<Rightarrow> ledger_edge \<Rightarrow> uuid" where
  "triplet_vector_id env e =
     se_v5 env (normalize_identifier (se_lower env)
       (se_show env (ge_source e) @ ge_relationship e @ se_show env (ge_destination e)))"

definition parse_indexed_fields :: "json \<Rightarrow> ustr list" where
  "parse_indexed_fields v =
     (case v of JArr xs \<Rightarrow> List.map_filter (\<lambda>x. case x of JStr s \<Rightarrow> Some s | _ \<Rightarrow> None) xs | _ \<Rightarrow> [])"

definition edge_type_collection :: "ustr \<times> ustr" where
  "edge_type_collection = (ascii ''EdgeType'', ascii ''relationship_name'')"

definition triplet_collection :: "ustr \<times> ustr" where
  "triplet_collection = (ascii ''Triplet'', ascii ''text'')"

text \<open>The points to delete, in the order the code pushes them, and the grouping by collection.\<close>

definition node_points :: "ledger_node list \<Rightarrow> ((ustr \<times> ustr) \<times> uuid) list" where
  "node_points nodes =
     concat (map (\<lambda>n. map (\<lambda>f. ((gn_node_type n, f), gn_slug n)) (parse_indexed_fields (gn_indexed_fields n))) nodes)"

definition vector_targets ::
  "sweep_env \<Rightarrow> ledger_node list \<Rightarrow> ledger_edge list \<Rightarrow> uuid list \<Rightarrow> ((ustr \<times> ustr) \<times> uuid) list" where
  "vector_targets env nodes edges edge_type_ids =
     node_points nodes @ map (Pair edge_type_collection) edge_type_ids @
     map (\<lambda>e. (triplet_collection, triplet_vector_id env e)) edges"

definition by_collection :: "('c \<times> uuid) list \<Rightarrow> ('c \<times> uuid list) list" where
  "by_collection targets = foldl (\<lambda>m (c, i). AList.map_default c [i] (\<lambda>ids. ids @ [i]) m) [] targets"

section \<open>Deleting artifacts\<close>

datatype sweep_query =
    QDataIds | QUniqueNodes | QUniqueEdges | QClaimedTexts | QDeleteEdges | QDeleteNodes | QClearMarker uuid

datatype delete_error =
    RuntimeError sweep_query ustr
  | MarkersNotCleared nat nat
  | GraphCleanup nat ustr
  | VectorCleanup "ustr \<times> ustr" ustr

definition delete_graph_artifacts ::
  "('g, 'v) artifact_ops \<Rightarrow> ledger_node list \<Rightarrow> 'g \<Rightarrow> 'g \<times> (delete_error + nat)" where
  "delete_graph_artifacts ops nodes g =
     (let ids = remdups (map gn_slug nodes) in
      if ids = [] then (g, Inr 0)
      else case ao_delete_nodes ops ids g of
             (g', Inl e) \<Rightarrow> (g', Inl (GraphCleanup (length ids) e))
           | (g', Inr _) \<Rightarrow> (g', Inr (length ids)))"

fun delete_collections ::
  "('g, 'v) artifact_ops \<Rightarrow> ((ustr \<times> ustr) \<times> uuid list) list \<Rightarrow> 'v \<Rightarrow> nat \<Rightarrow> 'v \<times> (delete_error + nat)" where
  "delete_collections ops [] v n = (v, Inr n)"
| "delete_collections ops ((c, ids) # cs) v n =
     (if ids = [] then delete_collections ops cs v n
      else case ao_has_collection ops (fst c) (snd c) v of
             Inl e \<Rightarrow> (v, Inl (VectorCleanup c e))
           | Inr False \<Rightarrow> delete_collections ops cs v n
           | Inr True \<Rightarrow>
               (case ao_delete_points ops (fst c) (snd c) ids v of
                  (v', Inl e) \<Rightarrow> (v', Inl (VectorCleanup c e))
                | (v', Inr _) \<Rightarrow> delete_collections ops cs v' (n + length ids)))"

definition delete_vector_artifacts ::
  "sweep_env \<Rightarrow> ('g, 'v) artifact_ops \<Rightarrow> ledger_node list \<Rightarrow> ledger_edge list \<Rightarrow> uuid list \<Rightarrow> 'v
     \<Rightarrow> 'v \<times> (delete_error + nat)" where
  "delete_vector_artifacts env ops nodes edges edge_type_ids v =
     delete_collections ops (by_collection (vector_targets env nodes edges edge_type_ids)) v 0"

section \<open>Completion markers\<close>

text \<open>
  The \<open>pipeline_status\<close> of a data item, parsed; a text that does not parse is read as an empty object.
  \<open>keys\<close> are the two spellings of the dataset id under which a marker may stand.
\<close>

definition cognify_key :: string where "cognify_key = ''cognify_pipeline''"

definition clear_status :: "string list \<Rightarrow> json option \<Rightarrow> json option" where
  "clear_status keys status =
     (case status of
        Some (JObj obj) \<Rightarrow>
          (case map_of obj cognify_key of
             Some (JObj inner) \<Rightarrow>
               if \<not> list_ex (\<lambda>(k, _). k \<in> set keys) inner then status
               else
                 (let inner' = filter (\<lambda>(k, _). k \<notin> set keys) inner;
                      obj' = (if inner' = [] then AList.delete cognify_key obj
                              else AList.update cognify_key (JObj inner') obj)
                  in if obj' = [] then None else Some (JObj obj'))
           | _ \<Rightarrow> status)
      | _ \<Rightarrow> status)"

definition clear_marker ::
  "(uuid \<Rightarrow> string list) \<Rightarrow> uuid \<Rightarrow> uuid \<Rightarrow> (uuid \<times> json option) list \<Rightarrow> (uuid \<times> json option) list" where
  "clear_marker keys_of data_id dataset_id data =
     map (\<lambda>(i, status). (i, if i = data_id then clear_status (keys_of dataset_id) status else status)) data"

section \<open>The sweep\<close>

record sweep_outcome =
  oc_graph_nodes_deleted :: nat
  oc_vector_points_deleted :: nat
  oc_provenance_nodes_deleted :: nat
  oc_provenance_edges_deleted :: nat
  oc_data_items_unmarked :: nat
  oc_warnings :: "(uuid \<times> ustr) list"

definition outcome_default :: sweep_outcome where
  "outcome_default = \<lparr>oc_graph_nodes_deleted = 0, oc_vector_points_deleted = 0,
     oc_provenance_nodes_deleted = 0, oc_provenance_edges_deleted = 0, oc_data_items_unmarked = 0,
     oc_warnings = []\<rparr>"

record ('g, 'v) sweep_world =
  sw_ledger :: ledger
  sw_graph :: 'g
  sw_vector :: 'v
  sw_data :: "(uuid \<times> json option) list"

type_synonym faults = "sweep_query \<Rightarrow> ustr option"

definition query :: "faults \<Rightarrow> sweep_query \<Rightarrow> 'a \<Rightarrow> delete_error + 'a" where
  "query faults q x = (case faults q of None \<Rightarrow> Inr x | Some e \<Rightarrow> Inl (RuntimeError q e))"

definition deletable_edge_type_ids ::
  "sweep_env \<Rightarrow> faults \<Rightarrow> sweep_scope \<Rightarrow> ledger \<Rightarrow> ledger_edge list \<Rightarrow> delete_error + uuid list" where
  "deletable_edge_type_ids env faults sc lg edges =
     (if edges = [] then Inr []
      else case query faults QClaimedTexts (retrieval_texts_claimed_outside sc lg) of
             Inl e \<Rightarrow> Inl e
           | Inr claimed \<Rightarrow>
               Inr (List.map_filter (edge_type_vector_id env)
                      (filter (\<lambda>e. edge_retrieval_text e \<notin> claimed) edges)))"

text \<open>Steps 1, 2 and 2b: what is read before anything is deleted.\<close>

definition sweep_plan ::
  "sweep_env \<Rightarrow> faults \<Rightarrow> sweep_scope \<Rightarrow> ledger
     \<Rightarrow> delete_error + uuid list \<times> ledger_node list \<times> ledger_edge list \<times> uuid list" where
  "sweep_plan env faults sc lg =
     (case query faults QDataIds (get_data_ids_for_run sc lg) of
        Inl e \<Rightarrow> Inl e
      | Inr affected \<Rightarrow>
          (case query faults QUniqueNodes (get_unique_nodes_for_run sc lg) of
             Inl e \<Rightarrow> Inl e
           | Inr nodes \<Rightarrow>
               (case query faults QUniqueEdges (get_unique_edges_for_run sc lg) of
                  Inl e \<Rightarrow> Inl e
                | Inr edges \<Rightarrow>
                    (case deletable_edge_type_ids env faults sc lg edges of
                       Inl e \<Rightarrow> Inl e
                     | Inr edge_type_ids \<Rightarrow> Inr (affected, nodes, edges, edge_type_ids)))))"

text \<open>Step 5: every item is tried, whatever happened to the others.\<close>

definition clear_markers ::
  "faults \<Rightarrow> (uuid \<Rightarrow> string list) \<Rightarrow> uuid \<Rightarrow> uuid list \<Rightarrow> (uuid \<times> json option) list \<times> sweep_outcome
     \<Rightarrow> (uuid \<times> json option) list \<times> sweep_outcome" where
  "clear_markers faults keys_of dataset affected st =
     foldl (\<lambda>(data, oc) d.
        case faults (QClearMarker d) of
          None \<Rightarrow> (clear_marker keys_of d dataset data,
                   oc\<lparr>oc_data_items_unmarked := Suc (oc_data_items_unmarked oc)\<rparr>)
        | Some e \<Rightarrow> (data, oc\<lparr>oc_warnings := oc_warnings oc @ [(d, e)]\<rparr>)) st affected"

definition marker_failures :: "faults \<Rightarrow> uuid list \<Rightarrow> nat" where
  "marker_failures faults affected = length (filter (\<lambda>d. faults (QClearMarker d) \<noteq> None) affected)"

definition sweep_rows_and_markers ::
  "faults \<Rightarrow> (uuid \<Rightarrow> string list) \<Rightarrow> sweep_scope \<Rightarrow> uuid list \<Rightarrow> ('g, 'v) sweep_world \<Rightarrow> sweep_outcome
     \<Rightarrow> ('g, 'v) sweep_world \<times> sweep_outcome \<times> (delete_error + unit)" where
  "sweep_rows_and_markers faults keys_of sc affected w oc =
     (case query faults QDeleteEdges (delete_edges_for_run sc (sw_ledger w)) of
        Inl e \<Rightarrow> (w, oc, Inl e)
      | Inr (lg1, ne) \<Rightarrow>
          (let w1 = w\<lparr>sw_ledger := lg1\<rparr>; oc1 = oc\<lparr>oc_provenance_edges_deleted := ne\<rparr> in
           case query faults QDeleteNodes (delete_nodes_for_run sc lg1) of
             Inl e \<Rightarrow> (w1, oc1, Inl e)
           | Inr (lg2, nn) \<Rightarrow>
               (let (data, oc2) = clear_markers faults keys_of (sw_dataset_id sc) affected
                                    (sw_data w1, oc1\<lparr>oc_provenance_nodes_deleted := nn\<rparr>);
                    failures = marker_failures faults affected
                in (w1\<lparr>sw_ledger := lg2, sw_data := data\<rparr>, oc2,
                    if failures = 0 then Inr () else Inl (MarkersNotCleared failures (length affected))))))"

definition run_in_scope ::
  "sweep_env \<Rightarrow> ('g, 'v) artifact_ops \<Rightarrow> faults \<Rightarrow> (uuid \<Rightarrow> string list) \<Rightarrow> sweep_scope
     \<Rightarrow> ('g, 'v) sweep_world \<Rightarrow> sweep_outcome
     \<Rightarrow> ('g, 'v) sweep_world \<times> sweep_outcome \<times> (delete_error + unit)" where
  "run_in_scope env ops faults keys_of sc w oc =
     (case sweep_plan env faults sc (sw_ledger w) of
        Inl e \<Rightarrow> (w, oc, Inl e)
      | Inr (affected, nodes, edges, edge_type_ids) \<Rightarrow>
          (case delete_graph_artifacts ops nodes (sw_graph w) of
             (g, Inl e) \<Rightarrow> (w\<lparr>sw_graph := g\<rparr>, oc, Inl e)
           | (g, Inr ng) \<Rightarrow>
               (let w1 = w\<lparr>sw_graph := g\<rparr>; oc1 = oc\<lparr>oc_graph_nodes_deleted := ng\<rparr> in
                case delete_vector_artifacts env ops nodes edges edge_type_ids (sw_vector w1) of
                  (v, Inl e) \<Rightarrow> (w1\<lparr>sw_vector := v\<rparr>, oc1, Inl e)
                | (v, Inr nv) \<Rightarrow>
                    sweep_rows_and_markers faults keys_of sc affected (w1\<lparr>sw_vector := v\<rparr>)
                      (oc1\<lparr>oc_vector_points_deleted := nv\<rparr>))))"

definition sweep ::
  "sweep_env \<Rightarrow> ('g, 'v) artifact_ops \<Rightarrow> faults \<Rightarrow> (uuid \<Rightarrow> string list) \<Rightarrow> sweep_scope
     \<Rightarrow> ('g, 'v) sweep_world \<Rightarrow> ('g, 'v) sweep_world \<times> (delete_error + sweep_outcome)" where
  "sweep env ops faults keys_of sc w =
     (let (w', oc, r) = run_in_scope env ops faults keys_of sc w outcome_default
      in (w', case r of Inl e \<Rightarrow> Inl e | Inr _ \<Rightarrow> Inr oc))"

text \<open>\<open>sweep_logging_failure\<close>: the failure becomes a warning, here the error itself, beside the outcome.\<close>

definition sweep_logging_failure ::
  "sweep_env \<Rightarrow> ('g, 'v) artifact_ops \<Rightarrow> faults \<Rightarrow> (uuid \<Rightarrow> string list) \<Rightarrow> sweep_scope
     \<Rightarrow> ('g, 'v) sweep_world \<Rightarrow> ('g, 'v) sweep_world \<times> sweep_outcome \<times> delete_error option" where
  "sweep_logging_failure env ops faults keys_of sc w =
     (let (w', oc, r) = run_in_scope env ops faults keys_of sc w outcome_default
      in (w', oc, case r of Inl e \<Rightarrow> Some e | Inr _ \<Rightarrow> None))"

section \<open>Grouping and clearing\<close>

lemma by_collection_snoc:
  "by_collection (targets @ [(c, i)]) = AList.map_default c [i] (\<lambda>ids. ids @ [i]) (by_collection targets)"
  by (simp add: by_collection_def)

lemma by_collection_distinct: "distinct (map fst (by_collection targets))"
proof (induction targets rule: rev_induct)
  case (snoc t targets)
  then show ?case by (cases t) (simp only: by_collection_snoc distinct_map_default)
qed (simp add: by_collection_def)

text \<open>Grouping loses and adds no point.\<close>

lemma by_collection_ids:
  "(\<exists>ids. (c, ids) \<in> set (by_collection targets) \<and> j \<in> set ids) \<longleftrightarrow> (c, j) \<in> set targets"
proof -
  have "(\<exists>ids. map_of (by_collection targets) c = Some ids \<and> j \<in> set ids) \<longleftrightarrow> (c, j) \<in> set targets"
  proof (induction targets rule: rev_induct)
    case (snoc t targets)
    then show ?case
      by (cases t) (auto simp: by_collection_snoc map_of_map_default split: option.splits)
  qed (simp add: by_collection_def)
  then show ?thesis using by_collection_distinct [of targets] by simp
qed

definition keyed :: "((ustr \<times> ustr) \<times> uuid list) list \<Rightarrow> (ustr \<times> uuid) set" where
  "keyed cs = (\<Union>(c, ids) \<in> set cs. {collection_key (fst c) (snd c)} \<times> set ids)"

lemma keyed_Nil [simp]: "keyed [] = {}"
  by (simp add: keyed_def)

lemma keyed_Cons [simp]: "keyed ((c, ids) # cs) = {collection_key (fst c) (snd c)} \<times> set ids \<union> keyed cs"
  by (simp add: keyed_def)

lemma keyed_by_collection:
  "keyed (by_collection targets) = (\<lambda>(c, i). (collection_key (fst c) (snd c), i)) ` set targets"
proof -
  have "x \<in> keyed (by_collection targets) \<longleftrightarrow>
      (\<exists>c. (\<exists>ids. (c, ids) \<in> set (by_collection targets) \<and> snd x \<in> set ids) \<and>
           fst x = collection_key (fst c) (snd c))" for x
    by (cases x) (force simp: keyed_def)
  then show ?thesis unfolding by_collection_ids by (force simp: image_def)
qed

definition marker_set :: "string list \<Rightarrow> json option \<Rightarrow> bool" where
  "marker_set keys status \<longleftrightarrow>
     (case status of
        Some (JObj obj) \<Rightarrow>
          (case map_of obj cognify_key of
             Some (JObj inner) \<Rightarrow> list_ex (\<lambda>(k, _). k \<in> set keys) inner
           | _ \<Rightarrow> False)
      | _ \<Rightarrow> False)"

lemma clear_status_unmarks: "\<not> marker_set keys (clear_status keys status)"
  by (auto simp: marker_set_def clear_status_def Let_def delete_conv' update_conv' list_ex_iff
      split: option.splits json.splits if_splits)

lemma clear_markers_data:
  "(i, status) \<in> set (fst (clear_markers faults keys_of ds affected (data, oc))) \<Longrightarrow>
     \<exists>status0. (i, status0) \<in> set data \<and>
       (status = status0 \<or> \<not> marker_set (keys_of ds) status) \<and>
       (i \<in> set affected \<and> faults (QClearMarker i) = None \<longrightarrow> \<not> marker_set (keys_of ds) status)"
proof (induction affected arbitrary: data oc)
  case (Cons d affected)
  show ?case
  proof (cases "faults (QClearMarker d)")
    case None
    let ?data = "clear_marker keys_of d ds data"
    obtain oc' where e: "clear_markers faults keys_of ds (d # affected) (data, oc) =
        clear_markers faults keys_of ds affected (?data, oc')"
      using None by (simp add: clear_markers_def)
    from Cons.IH [OF Cons.prems [unfolded e]] obtain st1 where
      st1: "(i, st1) \<in> set ?data" "status = st1 \<or> \<not> marker_set (keys_of ds) status"
        "i \<in> set affected \<and> faults (QClearMarker i) = None \<longrightarrow> \<not> marker_set (keys_of ds) status"
      by blast
    then obtain st0 where "(i, st0) \<in> set data" "st1 = (if i = d then clear_status (keys_of ds) st0 else st0)"
      by (auto simp: clear_marker_def)
    with st1 show ?thesis using clear_status_unmarks [of "keys_of ds" st0] by (auto split: if_splits)
  next
    case (Some e)
    then obtain oc' where e: "clear_markers faults keys_of ds (d # affected) (data, oc) =
        clear_markers faults keys_of ds affected (data, oc')"
      by (simp add: clear_markers_def)
    from Cons.IH [OF Cons.prems [unfolded e]] show ?thesis using Some by auto
  qed
qed (auto simp: clear_markers_def)

section \<open>What a sweep deletes\<close>

definition unclaimed_edge_types :: "sweep_env \<Rightarrow> sweep_scope \<Rightarrow> ledger \<Rightarrow> uuid list" where
  "unclaimed_edge_types env sc lg =
     List.map_filter (edge_type_vector_id env)
       (filter (\<lambda>e. edge_retrieval_text e \<notin> retrieval_texts_claimed_outside sc lg) (get_unique_edges_for_run sc lg))"

definition doomed_points :: "sweep_env \<Rightarrow> sweep_scope \<Rightarrow> ledger \<Rightarrow> (ustr \<times> uuid) set" where
  "doomed_points env sc lg =
     (\<lambda>(c, i). (collection_key (fst c) (snd c), i)) `
       set (vector_targets env (get_unique_nodes_for_run sc lg) (get_unique_edges_for_run sc lg)
              (unclaimed_edge_types env sc lg))"

lemma sweep_plan_ok:
  "sweep_plan env faults sc lg = Inr (affected, nodes, edges, ids) \<Longrightarrow>
     affected = get_data_ids_for_run sc lg \<and> nodes = get_unique_nodes_for_run sc lg \<and>
     edges = get_unique_edges_for_run sc lg \<and> ids = unclaimed_edge_types env sc lg"
  by (auto simp: sweep_plan_def query_def deletable_edge_type_ids_def unclaimed_edge_types_def
      split: option.splits sum.splits if_splits)

lemma keyed_doomed:
  "keyed (by_collection (vector_targets env (get_unique_nodes_for_run sc lg) (get_unique_edges_for_run sc lg)
     (unclaimed_edge_types env sc lg))) = doomed_points env sc lg"
  by (simp add: keyed_by_collection doomed_points_def)

text \<open>The rows and markers: what changes, and in which order.\<close>

definition unselected :: "sweep_scope \<Rightarrow> ledger \<Rightarrow> ledger" where
  "unselected sc lg = lg\<lparr>lg_nodes := filter (\<lambda>n. \<not> node_selected sc n) (lg_nodes lg),
     lg_edges := filter (\<lambda>e. \<not> edge_selected sc e) (lg_edges lg)\<rparr>"

lemma unselected_subset:
  "set (lg_nodes (unselected sc lg)) \<subseteq> set (lg_nodes lg)"
  "set (lg_edges (unselected sc lg)) \<subseteq> set (lg_edges lg)"
  by (auto simp: unselected_def)

lemma rows_and_markers:
  assumes "sweep_rows_and_markers faults keys_of sc affected w oc = (w', oc', r)"
  shows "sw_graph w' = sw_graph w" and "sw_vector w' = sw_vector w"
    and "set (lg_nodes (unselected sc (sw_ledger w))) \<subseteq> set (lg_nodes (sw_ledger w'))"
    and "set (lg_edges (unselected sc (sw_ledger w))) \<subseteq> set (lg_edges (sw_ledger w'))"
    and "r = Inl (RuntimeError QDeleteEdges e) \<Longrightarrow> w' = w"
    and "r = Inr u \<Longrightarrow> sw_ledger w' = unselected sc (sw_ledger w) \<and> marker_failures faults affected = 0 \<and>
      (\<exists>oc1. sw_data w' = fst (clear_markers faults keys_of (sw_dataset_id sc) affected (sw_data w, oc1)))"
  using assms
  by (auto simp: sweep_rows_and_markers_def delete_edges_for_run_eq delete_nodes_for_run_eq unselected_def
      query_def Let_def split: option.splits prod.splits if_splits) (metis fst_conv)+

text \<open>The success of a sweep, phase by phase.\<close>

lemma run_in_scope_success:
  assumes run: "run_in_scope env ops faults keys_of sc w oc = (w', oc', Inr u)"
  obtains g n v k where
    "delete_graph_artifacts ops (get_unique_nodes_for_run sc (sw_ledger w)) (sw_graph w) = (g, Inr n)"
    and "delete_vector_artifacts env ops (get_unique_nodes_for_run sc (sw_ledger w))
           (get_unique_edges_for_run sc (sw_ledger w)) (unclaimed_edge_types env sc (sw_ledger w)) (sw_vector w) = (v, Inr k)"
    and "sweep_rows_and_markers faults keys_of sc (get_data_ids_for_run sc (sw_ledger w))
           (w\<lparr>sw_graph := g, sw_vector := v\<rparr>)
           (oc\<lparr>oc_graph_nodes_deleted := n, oc_vector_points_deleted := k\<rparr>) = (w', oc', Inr u)"
proof (cases "sweep_plan env faults sc (sw_ledger w)")
  case (Inr plan)
  obtain affected nodes edges ids where plan: "plan = (affected, nodes, edges, ids)" by (cases plan) auto
  note P = sweep_plan_ok [OF Inr [unfolded plan]]
  obtain g rg where dg: "delete_graph_artifacts ops nodes (sw_graph w) = (g, rg)" by fastforce
  obtain v rv where dv: "delete_vector_artifacts env ops nodes edges ids (sw_vector w) = (v, rv)" by fastforce
  obtain n where n: "rg = Inr n" using run by (cases rg) (simp_all add: run_in_scope_def Inr plan dg)
  obtain k where k: "rv = Inr k" using run by (cases rv) (simp_all add: run_in_scope_def Inr plan dg n dv)
  show thesis
    by (rule that) (use run dg dv P in \<open>simp_all add: run_in_scope_def Inr plan n k\<close>)
qed (use run in \<open>simp add: run_in_scope_def\<close>)

text \<open>Rows outside the scope are never deleted.\<close>

lemma run_in_scope_rows:
  assumes run: "run_in_scope env ops faults keys_of sc w oc = (w', oc', r)"
  shows "n \<in> set (lg_nodes (sw_ledger w)) \<Longrightarrow> node_outside sc n \<Longrightarrow> n \<in> set (lg_nodes (sw_ledger w'))"
    and "e \<in> set (lg_edges (sw_ledger w)) \<Longrightarrow> edge_outside sc e \<Longrightarrow> e \<in> set (lg_edges (sw_ledger w'))"
proof -
  have "sw_ledger w' = sw_ledger w \<or> (\<exists>affected w1 oc1. sw_ledger w1 = sw_ledger w \<and>
      sweep_rows_and_markers faults keys_of sc affected w1 oc1 = (w', oc', r))"
    using run
    by (auto simp: run_in_scope_def Let_def split: prod.splits sum.splits)
  then have "set (lg_nodes (unselected sc (sw_ledger w))) \<subseteq> set (lg_nodes (sw_ledger w')) \<and>
      set (lg_edges (unselected sc (sw_ledger w))) \<subseteq> set (lg_edges (sw_ledger w'))"
    using rows_and_markers(3,4) [of faults keys_of sc] by (metis unselected_subset(1,2))
  then show "n \<in> set (lg_nodes (sw_ledger w)) \<Longrightarrow> node_outside sc n \<Longrightarrow> n \<in> set (lg_nodes (sw_ledger w'))"
    "e \<in> set (lg_edges (sw_ledger w)) \<Longrightarrow> edge_outside sc e \<Longrightarrow> e \<in> set (lg_edges (sw_ledger w'))"
    by (auto simp: unselected_def)
qed

context artifact_stores
begin

lemma graph_artifacts_any:
  assumes "delete_graph_artifacts ops nodes g = (g', r)"
  shows "graph_nodes g - gn_slug ` set nodes \<subseteq> graph_nodes g' \<and> graph_nodes g' \<subseteq> graph_nodes g"
  using assms delete_nodes_any [of "remdups (map gn_slug nodes)" g]
  by (auto simp: delete_graph_artifacts_def Let_def split: if_splits prod.splits sum.splits)

lemma graph_artifacts_ok:
  assumes "delete_graph_artifacts ops nodes g = (g', Inr n)"
  shows "graph_nodes g' = graph_nodes g - gn_slug ` set nodes"
  using assms delete_nodes_ok [of "remdups (map gn_slug nodes)" g]
  by (auto simp: delete_graph_artifacts_def Let_def split: if_splits prod.splits sum.splits)

lemma collections_any:
  "delete_collections ops cs v n = (v', r) \<Longrightarrow> points v - keyed cs \<subseteq> points v' \<and> points v' \<subseteq> points v"
proof (induction cs arbitrary: v n)
  case (Cons t cs)
  obtain c ids where t: "t = (c, ids)" by fastforce
  show ?case
  proof (cases "ids = [] \<or> ao_has_collection ops (fst c) (snd c) v \<noteq> Inr True")
    case True
    then have "v' = v \<or> delete_collections ops cs v n = (v', r)"
      using Cons.prems by (auto simp: t split: if_splits sum.splits bool.splits)
    then show ?thesis using Cons.IH by (auto simp: t)
  next
    case False
    obtain v1 res where d: "ao_delete_points ops (fst c) (snd c) ids v = (v1, res)" by fastforce
    have "v' = v1 \<or> delete_collections ops cs v1 (n + length ids) = (v', r)"
      using Cons.prems False by (auto simp: t d split: sum.splits)
    then show ?thesis using Cons.IH delete_points_any [OF d] by (auto simp: t) blast+
  qed
qed simp

lemma collections_ok:
  "delete_collections ops cs v n = (v', Inr k) \<Longrightarrow> points v' = points v - keyed cs"
proof (induction cs arbitrary: v n)
  case (Cons t cs)
  obtain c ids where t: "t = (c, ids)" by fastforce
  consider "ids = []" | "ids \<noteq> []" "ao_has_collection ops (fst c) (snd c) v = Inr False"
    | v1 u where "ids \<noteq> []" "ao_has_collection ops (fst c) (snd c) v = Inr True"
        "ao_delete_points ops (fst c) (snd c) ids v = (v1, Inr u)"
    using Cons.prems by (auto simp: t split: if_splits sum.splits bool.splits prod.splits)
  then show ?case
  proof cases
    case 1
    then show ?thesis using Cons by (simp add: t)
  next
    case 2
    then show ?thesis using Cons no_collection [OF 2(2)] by (auto simp: t)
  next
    case 3
    then show ?thesis using Cons delete_points_ok [OF 3(3)] by (auto simp: t)
  qed
qed simp

text \<open>
  The stores after a sweep, however it ended: nothing but the doomed artifacts is gone. The rows
  change only once all of them are gone.
\<close>

lemma run_in_scope_any:
  assumes run: "run_in_scope env ops faults keys_of sc w oc = (w', oc', r)"
  shows "graph_nodes (sw_graph w) - exclusive_slugs sc (sw_ledger w) \<subseteq> graph_nodes (sw_graph w') \<and>
    graph_nodes (sw_graph w') \<subseteq> graph_nodes (sw_graph w) \<and>
    points (sw_vector w) - doomed_points env sc (sw_ledger w) \<subseteq> points (sw_vector w') \<and>
    points (sw_vector w') \<subseteq> points (sw_vector w) \<and>
    (sw_ledger w' = sw_ledger w \<and> sw_data w' = sw_data w \<or>
     graph_nodes (sw_graph w') = graph_nodes (sw_graph w) - exclusive_slugs sc (sw_ledger w) \<and>
     points (sw_vector w') = points (sw_vector w) - doomed_points env sc (sw_ledger w))"
proof (cases "sweep_plan env faults sc (sw_ledger w)")
  case (Inl e)
  then show ?thesis using run by (auto simp: run_in_scope_def)
next
  case (Inr plan)
  obtain affected nodes edges ids where plan: "plan = (affected, nodes, edges, ids)" by (cases plan) auto
  note P = sweep_plan_ok [OF Inr [unfolded plan]]
  obtain g rg where dg: "delete_graph_artifacts ops nodes (sw_graph w) = (g, rg)" by fastforce
  obtain v rv where dv: "delete_vector_artifacts env ops nodes edges ids (sw_vector w) = (v, rv)" by fastforce
  have G: "graph_nodes (sw_graph w) - exclusive_slugs sc (sw_ledger w) \<subseteq> graph_nodes g \<and>
      graph_nodes g \<subseteq> graph_nodes (sw_graph w)"
    using graph_artifacts_any [OF dg] P by (simp add: unique_slugs)
  have V: "points (sw_vector w) - doomed_points env sc (sw_ledger w) \<subseteq> points v \<and> points v \<subseteq> points (sw_vector w)"
    using collections_any [OF dv [unfolded delete_vector_artifacts_def]] P by (simp add: keyed_doomed)
  show ?thesis
  proof (cases "(rg, rv)")
    case (Pair rg' rv')
    consider e where "rg = Inl e" | n e where "rg = Inr n" "rv = Inl e" | n k where "rg = Inr n" "rv = Inr k"
      by (cases rg; cases rv) auto
    then show ?thesis
    proof cases
      case 1
      then show ?thesis using run Inr plan dg G by (auto simp: run_in_scope_def)
    next
      case 2
      then show ?thesis using run Inr plan dg dv G V by (auto simp: run_in_scope_def)
    next
      case 3
      let ?w = "w\<lparr>sw_graph := g, sw_vector := v\<rparr>"
      let ?oc = "oc\<lparr>oc_graph_nodes_deleted := n, oc_vector_points_deleted := k\<rparr>"
      have "sweep_rows_and_markers faults keys_of sc affected ?w ?oc = (w', oc', r)"
        using run Inr plan dg dv 3 by (simp add: run_in_scope_def)
      note R = rows_and_markers [OF this]
      have "graph_nodes g = graph_nodes (sw_graph w) - exclusive_slugs sc (sw_ledger w)"
        using graph_artifacts_ok [OF dg [unfolded 3]] P by (simp add: unique_slugs)
      moreover have "points v = points (sw_vector w) - doomed_points env sc (sw_ledger w)"
        using collections_ok [OF dv [unfolded delete_vector_artifacts_def 3]] P by (simp add: keyed_doomed)
      ultimately show ?thesis using R(1,2) by auto
    qed
  qed
qed

lemma run_in_scope_ok:
  assumes run: "run_in_scope env ops faults keys_of sc w oc = (w', oc', Inr u)"
  shows "graph_nodes (sw_graph w') = graph_nodes (sw_graph w) - exclusive_slugs sc (sw_ledger w)"
    and "points (sw_vector w') = points (sw_vector w) - doomed_points env sc (sw_ledger w)"
    and "sw_ledger w' = unselected sc (sw_ledger w)"
    and "marker_failures faults (get_data_ids_for_run sc (sw_ledger w)) = 0"
    and "\<exists>oc1. sw_data w' = fst (clear_markers faults keys_of (sw_dataset_id sc)
       (get_data_ids_for_run sc (sw_ledger w)) (sw_data w, oc1))"
proof -
  from run obtain g n v k where
    dg: "delete_graph_artifacts ops (get_unique_nodes_for_run sc (sw_ledger w)) (sw_graph w) = (g, Inr n)" and
    dv: "delete_vector_artifacts env ops (get_unique_nodes_for_run sc (sw_ledger w))
           (get_unique_edges_for_run sc (sw_ledger w)) (unclaimed_edge_types env sc (sw_ledger w)) (sw_vector w) = (v, Inr k)" and
    rows: "sweep_rows_and_markers faults keys_of sc (get_data_ids_for_run sc (sw_ledger w))
           (w\<lparr>sw_graph := g, sw_vector := v\<rparr>)
           (oc\<lparr>oc_graph_nodes_deleted := n, oc_vector_points_deleted := k\<rparr>) = (w', oc', Inr u)"
    by (rule run_in_scope_success)
  note R = rows_and_markers [OF rows]
  show "graph_nodes (sw_graph w') = graph_nodes (sw_graph w) - exclusive_slugs sc (sw_ledger w)"
    using R(1) graph_artifacts_ok [OF dg] by (simp add: unique_slugs)
  show "points (sw_vector w') = points (sw_vector w) - doomed_points env sc (sw_ledger w)"
    using R(2) collections_ok [OF dv [unfolded delete_vector_artifacts_def]] by (simp add: keyed_doomed)
  show "sw_ledger w' = unselected sc (sw_ledger w)"
    "marker_failures faults (get_data_ids_for_run sc (sw_ledger w)) = 0"
    "\<exists>oc1. sw_data w' = fst (clear_markers faults keys_of (sw_dataset_id sc)
       (get_data_ids_for_run sc (sw_ledger w)) (sw_data w, oc1))"
    using R(6) [OF refl] by simp_all
qed

end

end
