(* ===== verification/Sweep_Props.thy ===== *)
theory Sweep_Props
  imports Sweep
begin

text \<open>
  What a sweep does to the stores in memory: what others claim stays, what the run alone owns goes,
  a second sweep does nothing, a failed one can be repeated, no graph node is left without an owner,
  and the one point the exclusivity check misses.
\<close>

section \<open>A sweep of a small ledger\<close>

text \<open>
  Run 7 made the nodes 10 and 11 and the edge \<open>Is A\<close>; run 8 also made the node 11, and has an edge
  \<open>is_a\<close> of its own, whose edge-type point is the same.
\<close>

definition title_text :: ustr where "title_text = ascii ''Is A''"

definition plain_text :: ustr where "plain_text = ascii ''is_a''"

definition sample_edge :: "uuid \<Rightarrow> uuid \<Rightarrow> uuid option \<Rightarrow> ustr \<Rightarrow> ledger_edge" where
  "sample_edge i slug run rel = \<lparr>ge_id = i, ge_slug = slug, ge_user_id = 9, ge_data_id = 5, ge_dataset_id = 4,
     ge_run = run, ge_source = 10, ge_destination = 11, ge_relationship = rel, ge_label = None,
     ge_attributes = None, ge_created_at = 0\<rparr>"

definition small_env :: sweep_env where
  "small_env = \<lparr>se_v5 = sum_list, se_show = (\<lambda>u. [u]),
     se_lower = map (\<lambda>c. if 65 \<le> c \<and> c \<le> 90 then c + 32 else c)\<rparr>"

definition sample_ledger :: ledger where
  "sample_ledger = \<lparr>lg_nodes = [sample_node 31 10 (Some 7), sample_node 32 11 (Some 7), sample_node 33 11 (Some 8)],
     lg_edges = [sample_edge 4 20 (Some 7) title_text, sample_edge 5 21 (Some 8) plain_text]\<rparr>"

definition is_a_point :: uuid where "is_a_point = edge_type_id small_env plain_text"

definition sample_world :: "((unit, unit) memory_graph, unit memory_vectors) sweep_world" where
  "sample_world = \<lparr>sw_ledger = sample_ledger,
     sw_graph = graph_new\<lparr>mg_nodes := [(10, ()), (11, ())], mg_edges := [(10, 11, title_text, ())]\<rparr>,
     sw_vector = [(ascii ''E_n'', 2, [(10, ()), (11, ())]),
                  (ascii ''EdgeType_relationship_name'', 2, [(is_a_point, ())])],
     sw_data = [(5, Some (JObj [(cognify_key, JObj [(''d4'', JStr [])])]))]\<rparr>"

definition sample_keys :: "uuid \<Rightarrow> string list" where "sample_keys d = [''d4'']"

definition sample_scope :: sweep_scope where "sample_scope = sweep_whole_run 7 4"

definition swept_world :: "((unit, unit) memory_graph, unit memory_vectors) sweep_world" where
  "swept_world = \<lparr>sw_ledger = \<lparr>lg_nodes = [sample_node 33 11 (Some 8)], lg_edges = [sample_edge 5 21 (Some 8) plain_text]\<rparr>,
     sw_graph = graph_new\<lparr>mg_nodes := [(11, ())], mg_edges := []\<rparr>,
     sw_vector = [(ascii ''E_n'', 2, [(11, ())]), (ascii ''EdgeType_relationship_name'', 2, [])],
     sw_data = [(5, None)]\<rparr>"

definition small_outcome :: sweep_outcome where
  "small_outcome = \<lparr>oc_graph_nodes_deleted = 1, oc_vector_points_deleted = 2, oc_provenance_nodes_deleted = 2,
     oc_provenance_edges_deleted = 1, oc_data_items_unmarked = 1, oc_warnings = []\<rparr>"

lemma sample_texts:
  "edge_retrieval_text (sample_edge i slug run title_text) = title_text"
  "edge_retrieval_text (sample_edge i slug run plain_text) = plain_text"
  by (simp_all add: edge_retrieval_text_def sample_edge_def retrieval_text_def trim_def is_whitespace_def
      title_text_def plain_text_def Let_def)

lemma sample_ids:
  "edge_type_id small_env title_text = is_a_point" "title_text \<noteq> []" "plain_text \<noteq> []" "title_text \<noteq> plain_text"
  by (simp_all add: is_a_point_def edge_type_id_def normalize_identifier_def small_env_def title_text_def plain_text_def)

lemma sample_selected:
  "node_selected sample_scope (sample_node i slug run) \<longleftrightarrow> run = Some 7"
  "edge_selected sample_scope (sample_edge i slug run rel) \<longleftrightarrow> run = Some 7"
  by (simp_all add: node_selected_def edge_selected_def selected_def sample_scope_def sweep_whole_run_def
      sample_node_def sample_edge_def)

lemma sample_fields [simp]:
  "gn_slug (sample_node i slug run) = slug" "ge_slug (sample_edge i slug run rel) = slug"
  "gn_data_id (sample_node i slug run) = 5" "ge_data_id (sample_edge i slug run rel) = 5"
  "gn_node_type (sample_node i slug run) = ascii ''E''"
  "parse_indexed_fields (gn_indexed_fields (sample_node i slug run)) = [ascii ''n'']"
  by (simp_all add: sample_node_def sample_edge_def parse_indexed_fields_def map_filter_def)

lemma sample_scope_selects: "\<not> selects_nothing sample_scope" "sw_dataset_id sample_scope = 4"
  by (simp_all add: selects_nothing_def sample_scope_def sweep_whole_run_def)

lemma sample_queries:
  "get_unique_nodes_for_run sample_scope sample_ledger = [sample_node 31 10 (Some 7)]"
  "get_unique_edges_for_run sample_scope sample_ledger = [sample_edge 4 20 (Some 7) title_text]"
  "get_data_ids_for_run sample_scope sample_ledger = [5]"
  "retrieval_texts_claimed_outside sample_scope sample_ledger = {plain_text}"
  by (simp_all add: get_unique_nodes_for_run_def get_unique_edges_for_run_def get_data_ids_for_run_def
      retrieval_texts_claimed_outside_def sample_ledger_def sample_selected sample_texts sample_scope_selects sample_ids)

lemma sample_doomed_edge_types: "unclaimed_edge_types small_env sample_scope sample_ledger = [is_a_point]"
  by (simp add: unclaimed_edge_types_def sample_queries sample_texts edge_type_vector_id_def map_filter_def
      sample_ids)

lemma sample_plan:
  "sweep_plan small_env (\<lambda>_. None) sample_scope sample_ledger =
     Inr ([5], [sample_node 31 10 (Some 7)], [sample_edge 4 20 (Some 7) title_text], [is_a_point])"
  using sample_doomed_edge_types
  by (simp add: sweep_plan_def query_def sample_queries deletable_edge_type_ids_def unclaimed_edge_types_def)

text \<open>The same sweep from any state of the stores in which the two deletes lead to \<open>swept_world\<close>.\<close>

lemma sample_targets:
  "by_collection (vector_targets small_env [sample_node 31 10 (Some 7)]
      [sample_edge 4 20 (Some 7) title_text] [is_a_point]) =
    [((ascii ''E'', ascii ''n''), [10]), (edge_type_collection, [is_a_point]),
     (triplet_collection, [triplet_vector_id small_env (sample_edge 4 20 (Some 7) title_text)])]"
  by (simp add: by_collection_def vector_targets_def node_points_def edge_type_collection_def triplet_collection_def)

lemma sample_graph:
  assumes "g \<in> {sw_graph sample_world, sw_graph swept_world}"
  shows "delete_graph_artifacts memory_ops [sample_node 31 10 (Some 7)] g = (sw_graph swept_world, Inr 1)"
  using assms
  by (auto simp: delete_graph_artifacts_def memory_ops_def delete_nodes_def detach_delete_def graph_new_def
      sample_world_def swept_world_def)

lemma sample_sweep_from:
  assumes "g \<in> {sw_graph sample_world, sw_graph swept_world}"
    and "v = [(ascii ''E_n'', 2, ps), (ascii ''EdgeType_relationship_name'', 2, [(is_a_point, ())])]"
    and "filter (\<lambda>(i, _). i \<noteq> 10) ps = [(11, ())]"
  shows "sweep small_env memory_ops (\<lambda>_. None) sample_keys sample_scope (sample_world\<lparr>sw_graph := g, sw_vector := v\<rparr>) =
    (swept_world, Inr small_outcome)"
proof -
  have lg: "sw_ledger (sample_world\<lparr>sw_graph := g, sw_vector := v\<rparr>) = sample_ledger" by (simp add: sample_world_def)
  have vectors: "delete_vector_artifacts small_env memory_ops [sample_node 31 10 (Some 7)]
      [sample_edge 4 20 (Some 7) title_text] [is_a_point] v = (sw_vector swept_world, Inr 2)"
    using assms(3) unfolding delete_vector_artifacts_def sample_targets assms(2)
    by (simp add: memory_ops_def has_collection_def delete_points_def collection_key_def edge_type_collection_def
        triplet_collection_def swept_world_def)
  have data: "clear_marker sample_keys 5 4 (sw_data sample_world) = sw_data swept_world"
    by (simp add: clear_marker_def sample_keys_def clear_status_def sample_world_def swept_world_def)
  show ?thesis
    unfolding sweep_def run_in_scope_def lg sample_plan prod.case sum.case
    by (simp add: sample_graph [OF assms(1)] vectors lg sweep_rows_and_markers_def query_def clear_markers_def
        marker_failures_def delete_edges_for_run_eq delete_nodes_for_run_eq sample_scope_selects data)
      (simp add: sample_ledger_def sample_selected swept_world_def sample_world_def small_outcome_def
        outcome_default_def)
qed

lemma sample_sweep:
  "sweep small_env memory_ops (\<lambda>_. None) sample_keys sample_scope sample_world = (swept_world, Inr small_outcome)"
  using sample_sweep_from [of "sw_graph sample_world" "sw_vector sample_world" "[(10, ()), (11, ())]"]
  by (simp add: sample_world_def)

section \<open>What a sweep keeps\<close>

lemma sweepD:
  assumes "sweep env ops faults keys_of sc w = (w', r)"
  obtains oc r0 where "run_in_scope env ops faults keys_of sc w outcome_default = (w', oc, r0)"
    and "r = (case r0 of Inl e \<Rightarrow> Inl e | Inr _ \<Rightarrow> Inr oc)"
  using assms by (auto simp: sweep_def split: prod.splits)

lemma outside_slug: "n \<in> set (lg_nodes lg) \<Longrightarrow> node_outside sc n \<Longrightarrow> gn_slug n \<notin> exclusive_slugs sc lg"
  by (auto simp: exclusive_slugs_def)

lemma sweep_ok_run:
  assumes "sweep env ops faults keys_of sc w = (w', Inr oc)"
  obtains oc' u where "run_in_scope env ops faults keys_of sc w outcome_default = (w', oc', Inr u)"
  using assms by (auto simp: sweep_def split: prod.splits sum.splits)

lemma sweep_failed_run:
  assumes "sweep env ops faults keys_of sc w = (w', Inl e)"
  obtains oc' where "run_in_scope env ops faults keys_of sc w outcome_default = (w', oc', Inl e)"
  using assms by (auto simp: sweep_def split: prod.splits sum.splits)

text \<open>
  The points that the rows of the ledger stand for: of a node, one for each of its indexed fields; of an
  edge, its triplet and its edge type. The two collections of edge points are not used by nodes.
\<close>

definition triplet_key :: ustr where
  "triplet_key = collection_key (fst triplet_collection) (snd triplet_collection)"

definition edge_type_key :: ustr where
  "edge_type_key = collection_key (fst edge_type_collection) (snd edge_type_collection)"

definition node_keys :: "ledger_node \<Rightarrow> ustr set" where
  "node_keys n = collection_key (gn_node_type n) ` set (parse_indexed_fields (gn_indexed_fields n))"

definition nodes_apart :: "ledger \<Rightarrow> bool" where
  "nodes_apart lg \<longleftrightarrow> (\<forall>n \<in> set (lg_nodes lg). triplet_key \<notin> node_keys n \<and> edge_type_key \<notin> node_keys n)"

text \<open>
  A selected edge stands for the same point as \<open>e\<close>, though the exclusivity check tells the two apart: by
  their slugs for the triplet, by their texts for the edge type.
\<close>

definition triplet_shared :: "sweep_env \<Rightarrow> sweep_scope \<Rightarrow> ledger \<Rightarrow> ledger_edge \<Rightarrow> bool" where
  "triplet_shared env sc lg e \<longleftrightarrow>
     (\<exists>e' \<in> set (lg_edges lg). edge_selected sc e' \<and> ge_slug e' \<noteq> ge_slug e \<and>
        triplet_vector_id env e' = triplet_vector_id env e)"

definition edge_type_shared :: "sweep_env \<Rightarrow> sweep_scope \<Rightarrow> ledger \<Rightarrow> ledger_edge \<Rightarrow> bool" where
  "edge_type_shared env sc lg e \<longleftrightarrow>
     (\<exists>e' \<in> set (lg_edges lg). edge_selected sc e' \<and> edge_retrieval_text e' \<noteq> edge_retrieval_text e \<and>
        edge_type_vector_id env e' = edge_type_vector_id env e)"

lemma edge_keys_differ: "triplet_key \<noteq> edge_type_key"
  by (simp add: triplet_key_def edge_type_key_def triplet_collection_def edge_type_collection_def collection_key_def)

lemma doomed_points_iff:
  "(key, i) \<in> doomed_points env sc lg \<longleftrightarrow>
     (\<exists>n \<in> set (get_unique_nodes_for_run sc lg). gn_slug n = i \<and> key \<in> node_keys n) \<or>
     key = edge_type_key \<and> i \<in> set (unclaimed_edge_types env sc lg) \<or>
     key = triplet_key \<and> i \<in> triplet_vector_id env ` set (get_unique_edges_for_run sc lg)"
  by (force simp: doomed_points_def vector_targets_def node_points_def node_keys_def edge_type_key_def triplet_key_def)

lemma node_points_kept:
  assumes "nodes_apart lg" and "n \<in> set (lg_nodes lg)" and "node_outside sc n" and "key \<in> node_keys n"
  shows "(key, gn_slug n) \<notin> doomed_points env sc lg"
proof -
  have "gn_slug n \<notin> exclusive_slugs sc lg" by (rule outside_slug [OF assms(2,3)])
  then have "\<forall>n' \<in> set (get_unique_nodes_for_run sc lg). gn_slug n' \<noteq> gn_slug n"
    by (metis unique_slugs image_eqI)
  then show ?thesis using assms(1,2,4) by (auto simp: doomed_points_iff nodes_apart_def)
qed

lemma triplet_kept:
  assumes "nodes_apart lg" and "e \<in> set (lg_edges lg)" and "edge_outside sc e" and "\<not> triplet_shared env sc lg e"
  shows "(triplet_key, triplet_vector_id env e) \<notin> doomed_points env sc lg"
  using assms edge_keys_differ
  by (auto simp: doomed_points_iff nodes_apart_def set_unique_nodes set_unique_edges triplet_shared_def)

lemma edge_type_kept:
  assumes "nodes_apart lg" and "e \<in> set (lg_edges lg)" and "edge_outside sc e" and "\<not> edge_type_shared env sc lg e"
    and "edge_type_vector_id env e = Some i"
  shows "(edge_type_key, i) \<notin> doomed_points env sc lg"
proof -
  have "edge_retrieval_text e' \<in> retrieval_texts_claimed_outside sc lg"
    if "e' \<in> set (get_unique_edges_for_run sc lg)" "edge_type_vector_id env e' = Some i" for e'
  proof -
    have "edge_retrieval_text e' = edge_retrieval_text e"
      using that assms(4,5) by (auto simp: edge_type_shared_def set_unique_edges)
    then show ?thesis using assms(2,3) by (auto simp: retrieval_texts_claimed_outside_def)
  qed
  then have "i \<notin> set (unclaimed_edge_types env sc lg)"
    by (auto simp: unclaimed_edge_types_def map_filter_def)
  then show ?thesis
    using assms(1) edge_keys_differ by (auto simp: doomed_points_iff nodes_apart_def set_unique_nodes)
qed


lemma sample_apart: "nodes_apart sample_ledger"
  by (simp add: nodes_apart_def node_keys_def sample_ledger_def triplet_key_def edge_type_key_def collection_key_def
      triplet_collection_def edge_type_collection_def)


section \<open>What a sweep removes\<close>

text \<open>
  C17: A sweep that succeeds removes the run. The ledger keeps exactly the rows outside the scope;
  the graph loses exactly the nodes that only selected rows name, and the vector store exactly the
  points of those nodes, of the edges only selected rows name, and of the edge types whose text no
  other row has; and no data item the run had touched is still marked complete for the dataset.
\<close>

theorem sweep_removes_the_run:
  assumes sweep: "sweep env memory_ops faults keys_of sc w = (w', Inr oc)"
  shows "sw_ledger w' = unselected sc (sw_ledger w) \<and>
    graph_ids (sw_graph w') = graph_ids (sw_graph w) - exclusive_slugs sc (sw_ledger w) \<and>
    point_ids (sw_vector w') = point_ids (sw_vector w) - doomed_points env sc (sw_ledger w) \<and>
    (\<forall>(i, status) \<in> set (sw_data w').
       i \<in> set (get_data_ids_for_run sc (sw_ledger w)) \<longrightarrow> \<not> marker_set (keys_of (sw_dataset_id sc)) status)"
proof -
  obtain oc' u where run: "run_in_scope env memory_ops faults keys_of sc w outcome_default = (w', oc', Inr u)"
    using sweep by (rule sweep_ok_run)
  note R = memory.run_in_scope_ok [OF run]
  have "faults (QClearMarker i) = None" if "i \<in> set (get_data_ids_for_run sc (sw_ledger w))" for i
    using R(4) that by (auto simp: marker_failures_def filter_empty_conv)
  moreover obtain oc1 where "sw_data w' = fst (clear_markers faults keys_of (sw_dataset_id sc)
      (get_data_ids_for_run sc (sw_ledger w)) (sw_data w, oc1))"
    using R(5) by blast
  ultimately have "\<forall>(i, status) \<in> set (sw_data w').
      i \<in> set (get_data_ids_for_run sc (sw_ledger w)) \<longrightarrow> \<not> marker_set (keys_of (sw_dataset_id sc)) status"
    using clear_markers_data [of _ _ faults keys_of "sw_dataset_id sc"] by fastforce
  then show ?thesis using R(1-3) by blast
qed

theorem sweep_removes_the_run_witness:
  "sw_ledger swept_world = unselected sample_scope (sw_ledger sample_world)"
  using sweep_removes_the_run [OF sample_sweep] by simp

lemma sweep_removed_points:
  assumes "sweep env memory_ops faults keys_of sc w = (w', Inr oc)"
  shows "point_ids (sw_vector w') = point_ids (sw_vector w) - doomed_points env sc (sw_ledger w)"
proof -
  obtain oc' u where "run_in_scope env memory_ops faults keys_of sc w outcome_default = (w', oc', Inr u)"
    using assms by (rule sweep_ok_run)
  then show ?thesis by (rule memory.run_in_scope_ok)
qed

lemma swept_rows:
  "\<forall>n \<in> set (lg_nodes (unselected sc lg)). \<not> node_selected sc n"
  "\<forall>e \<in> set (lg_edges (unselected sc lg)). \<not> edge_selected sc e"
  by (auto simp: unselected_def)

text \<open>
  A sweep is idempotent. After a sweep that succeeded, the same sweep succeeds again with an
  empty outcome, calls no store and changes nothing, whatever the stores do.
\<close>

lemma sweep_is_idempotent:
  assumes sweep: "sweep env ops faults keys_of sc w = (w', Inr oc)"
  shows "sweep env ops faults keys_of sc w' = (w', Inr outcome_default)"
proof -
  obtain oc' u where run: "run_in_scope env ops faults keys_of sc w outcome_default = (w', oc', Inr u)"
    using sweep by (rule sweep_ok_run)
  have plan: "faults QDataIds = None" "faults QUniqueNodes = None" "faults QUniqueEdges = None"
    using run by (auto simp: run_in_scope_def sweep_plan_def query_def split: option.splits)
  from run obtain g v affected n k where
    rows: "sweep_rows_and_markers faults keys_of sc affected (w\<lparr>sw_graph := g, sw_vector := v\<rparr>)
      (outcome_default\<lparr>oc_graph_nodes_deleted := n, oc_vector_points_deleted := k\<rparr>) = (w', oc', Inr u)"
    by (rule run_in_scope_success)
  then have del: "faults QDeleteEdges = None" "faults QDeleteNodes = None"
    by (auto simp: sweep_rows_and_markers_def query_def Let_def split: option.splits prod.splits)
  have "sw_ledger w' = unselected sc (sw_ledger w)" using rows_and_markers(6) [OF rows refl] by simp
  then have lg: "get_data_ids_for_run sc (sw_ledger w') = []" "get_unique_nodes_for_run sc (sw_ledger w') = []"
    "get_unique_edges_for_run sc (sw_ledger w') = []"
    "delete_edges_for_run sc (sw_ledger w') = (sw_ledger w', 0)"
    "delete_nodes_for_run sc (sw_ledger w') = (sw_ledger w', 0)"
    using swept_ledger [OF swept_rows(1,2) [of sc "sw_ledger w"]] by simp_all
  show ?thesis
    by (simp add: sweep_def run_in_scope_def sweep_plan_def query_def plan del lg deletable_edge_type_ids_def
        delete_graph_artifacts_def delete_vector_artifacts_def vector_targets_def node_points_def
        by_collection_def sweep_rows_and_markers_def clear_markers_def marker_failures_def
        outcome_default_def Let_def)
qed

section \<open>A sweep that fails\<close>

text \<open>The phases before the first row is deleted.\<close>

definition before_rows :: "delete_error \<Rightarrow> bool" where
  "before_rows e \<longleftrightarrow>
     (case e of RuntimeError q _ \<Rightarrow> q \<in> {QDataIds, QUniqueNodes, QUniqueEdges, QClaimedTexts, QDeleteEdges}
      | MarkersNotCleared _ _ \<Rightarrow> False | GraphCleanup _ _ \<Rightarrow> True | VectorCleanup _ _ \<Rightarrow> True)"

lemma failed_before_rows:
  assumes run: "run_in_scope env ops faults keys_of sc w oc = (w', oc', Inl e)" and e: "before_rows e"
  shows "sw_ledger w' = sw_ledger w \<and> sw_data w' = sw_data w"
  using assms
  by (auto simp: run_in_scope_def sweep_rows_and_markers_def query_def before_rows_def Let_def
      split: prod.splits sum.splits option.splits if_splits)

text \<open>
  C23: A sweep that fails before the ownership rows go can be repeated. It leaves the ledger and the
  markers as they were; and when the same scope is swept again, be it with stores that behave otherwise,
  and that succeeds, the graph and the vectors are exactly as if the first attempt had succeeded, whatever
  part of the artifacts it had deleted. Of the stores it is asked that a delete that succeeds removes what
  it is given and nothing else, and that one that fails removes at most that.
\<close>

theorem failed_sweep_can_be_repeated:
  assumes stores: "artifact_stores ops graph_nodes points" "artifact_stores ops' graph_nodes points"
    and first: "sweep env ops faults keys_of sc w = (w1, Inl e)" and e: "before_rows e"
    and again: "sweep env ops' faults' keys_of sc w1 = (w2, Inr oc)"
  shows "sw_ledger w1 = sw_ledger w \<and> sw_data w1 = sw_data w \<and>
    sw_ledger w2 = unselected sc (sw_ledger w) \<and>
    graph_nodes (sw_graph w2) = graph_nodes (sw_graph w) - exclusive_slugs sc (sw_ledger w) \<and>
    points (sw_vector w2) = points (sw_vector w) - doomed_points env sc (sw_ledger w)"
proof -
  obtain oc0 where run: "run_in_scope env ops faults keys_of sc w outcome_default = (w1, oc0, Inl e)"
    using first by (rule sweep_failed_run)
  have same: "sw_ledger w1 = sw_ledger w" "sw_data w1 = sw_data w"
    using failed_before_rows [OF run e] by simp_all
  obtain oc1 u where run2: "run_in_scope env ops' faults' keys_of sc w1 outcome_default = (w2, oc1, Inr u)"
    using again by (rule sweep_ok_run)
  note A = artifact_stores.run_in_scope_any [OF stores(1) run]
  note B = artifact_stores.run_in_scope_ok(1-3) [OF stores(2) run2, unfolded same]
  show ?thesis using A B same by blast
qed

text \<open>
  Stores whose connection breaks inside a delete of points: the first point is gone, the call fails. The
  sweep of the small ledger stops there, with its graph node deleted and one of its two points.
\<close>

definition torn_ops :: "(('d, 'p) memory_graph, 'q memory_vectors) artifact_ops" where
  "torn_ops = memory_ops\<lparr>ao_delete_points := (\<lambda>dt f ids v. (fst (delete_points dt f (take 1 ids) v), Inl (ascii ''broken'')))\<rparr>"

interpretation torn: artifact_stores torn_ops graph_ids point_ids
proof unfold_locales
  show "point_ids v - {collection_key dt f} \<times> set ids \<subseteq> point_ids v' \<and> point_ids v' \<subseteq> point_ids v"
    if "ao_delete_points torn_ops dt f ids v = (v', r)" for dt f ids r and v v' :: "'q memory_vectors"
  proof -
    have "delete_points dt f (take 1 ids) v = (v', snd (delete_points dt f (take 1 ids) v))"
      using that by (auto simp: torn_ops_def)
    from delete_points_ids [OF this] show ?thesis using set_take_subset [of 1 ids] by auto
  qed
  show "point_ids v' = point_ids v - {collection_key dt f} \<times> set ids"
    if "ao_delete_points torn_ops dt f ids v = (v', Inr u)" for dt f ids u and v v' :: "'q memory_vectors"
    using that by (simp add: torn_ops_def)
qed (use memory.delete_nodes_ok memory.delete_nodes_any memory.no_collection in \<open>simp_all add: torn_ops_def\<close>)

definition torn_world :: "((unit, unit) memory_graph, unit memory_vectors) sweep_world" where
  "torn_world = sample_world\<lparr>sw_graph := sw_graph swept_world,
     sw_vector := [(ascii ''E_n'', 2, [(11, ())]), (ascii ''EdgeType_relationship_name'', 2, [(is_a_point, ())])]\<rparr>"

lemma torn_sweep:
  "sweep small_env torn_ops (\<lambda>_. None) sample_keys sample_scope sample_world =
     (torn_world, Inl (VectorCleanup (ascii ''E'', ascii ''n'') (ascii ''broken'')))"
proof -
  have lg: "sw_ledger sample_world = sample_ledger" by (simp add: sample_world_def)
  have graph: "delete_graph_artifacts torn_ops [sample_node 31 10 (Some 7)] (sw_graph sample_world) =
      (sw_graph swept_world, Inr 1)"
    using sample_graph [of "sw_graph sample_world"] by (simp add: delete_graph_artifacts_def torn_ops_def)
  have vectors: "delete_vector_artifacts small_env torn_ops [sample_node 31 10 (Some 7)]
      [sample_edge 4 20 (Some 7) title_text] [is_a_point] (sw_vector sample_world) =
      (sw_vector torn_world, Inl (VectorCleanup (ascii ''E'', ascii ''n'') (ascii ''broken'')))"
    unfolding delete_vector_artifacts_def sample_targets
    by (simp add: torn_ops_def memory_ops_def has_collection_def delete_points_def collection_key_def
        sample_world_def torn_world_def)
  show ?thesis
    unfolding sweep_def run_in_scope_def lg sample_plan prod.case sum.case graph
    by (simp add: vectors) (simp add: torn_world_def)
qed

lemma torn_world_swept:
  "sweep small_env memory_ops (\<lambda>_. None) sample_keys sample_scope torn_world = (swept_world, Inr small_outcome)"
  unfolding torn_world_def by (rule sample_sweep_from [where ps = "[(11, ())]"]) simp_all

theorem failed_sweep_can_be_repeated_witness:
  "sw_vector torn_world \<noteq> sw_vector sample_world \<and> sw_vector torn_world \<noteq> sw_vector swept_world \<and>
   point_ids (sw_vector swept_world) =
     point_ids (sw_vector sample_world) - doomed_points small_env sample_scope sample_ledger"
proof -
  have "sw_ledger sample_world = sample_ledger" by (simp add: sample_world_def)
  then show ?thesis
    using failed_sweep_can_be_repeated [OF torn.artifact_stores_axioms memory.artifact_stores_axioms torn_sweep _
        torn_world_swept]
    by (simp add: before_rows_def) (simp add: torn_world_def sample_world_def swept_world_def)
qed

text \<open>
  No orphans. If every node of the graph is named by a row of the ledger, then so it is after a
  sweep of any scope, however the sweep ended.
\<close>

lemma sweep_leaves_no_orphans:
  assumes owned: "graph_ids (sw_graph w) \<subseteq> gn_slug ` set (lg_nodes (sw_ledger w))"
    and sweep: "sweep env memory_ops faults keys_of sc w = (w', r)"
  shows "graph_ids (sw_graph w') \<subseteq> gn_slug ` set (lg_nodes (sw_ledger w'))"
proof
  fix i assume i: "i \<in> graph_ids (sw_graph w')"
  obtain oc r0 where run: "run_in_scope env memory_ops faults keys_of sc w outcome_default = (w', oc, r0)"
    by (rule sweepD [OF sweep])
  note A = memory.run_in_scope_any [OF run]
  obtain n where n: "n \<in> set (lg_nodes (sw_ledger w))" "gn_slug n = i" using i A owned by blast
  show "i \<in> gn_slug ` set (lg_nodes (sw_ledger w'))"
  proof (cases "sw_ledger w' = sw_ledger w")
    case False
    then have "i \<notin> exclusive_slugs sc (sw_ledger w)" using A i by blast
    then obtain n2 where "n2 \<in> set (lg_nodes (sw_ledger w))" "gn_slug n2 = i" "node_outside sc n2"
      using n by (auto simp: exclusive_slugs_def)
    then show ?thesis using run_in_scope_rows(1) [OF run] by blast
  qed (use n in auto)
qed

section \<open>The point that is shared and not protected\<close>

text \<open>
  C40: The exclusivity check of edge-type points compares texts, but the point id is made of the
  normalised text. An edge that survives the sweep loses its point to a swept edge whose text
  differs from its own only in case, in spaces for underscores or in apostrophes.
\<close>

theorem edge_type_point_lost:
  assumes sweep: "sweep env memory_ops faults keys_of sc w = (w', Inr oc)"
    and e: "e \<in> set (get_unique_edges_for_run sc (sw_ledger w))"
      "edge_retrieval_text e \<notin> retrieval_texts_claimed_outside sc (sw_ledger w)" "edge_retrieval_text e \<noteq> []"
    and e2: "e2 \<in> set (lg_edges (sw_ledger w))" "edge_outside sc e2" "edge_retrieval_text e2 \<noteq> []"
    and same: "normalize_identifier (se_lower env) (edge_retrieval_text e) =
      normalize_identifier (se_lower env) (edge_retrieval_text e2)"
  shows "e2 \<in> set (lg_edges (sw_ledger w')) \<and>
    (\<exists>i. edge_type_vector_id env e2 = Some i \<and>
       (collection_key (fst edge_type_collection) (snd edge_type_collection), i) \<notin> point_ids (sw_vector w'))"
proof -
  let ?i = "edge_type_id env (edge_retrieval_text e)"
  obtain oc' r0 where run: "run_in_scope env memory_ops faults keys_of sc w outcome_default = (w', oc', r0)"
    by (rule sweepD [OF sweep])
  have "edge_type_vector_id env e = Some ?i" using e(3) by (simp add: edge_type_vector_id_def)
  then have "?i \<in> set (unclaimed_edge_types env sc (sw_ledger w))"
    using e(1,2) by (force simp: unclaimed_edge_types_def map_filter_def)
  then have "(edge_type_collection, ?i) \<in> set (vector_targets env (get_unique_nodes_for_run sc (sw_ledger w))
      (get_unique_edges_for_run sc (sw_ledger w)) (unclaimed_edge_types env sc (sw_ledger w)))"
    by (simp add: vector_targets_def)
  then have "(collection_key (fst edge_type_collection) (snd edge_type_collection), ?i)
      \<in> doomed_points env sc (sw_ledger w)"
    unfolding doomed_points_def by force
  then have "(collection_key (fst edge_type_collection) (snd edge_type_collection), ?i) \<notin> point_ids (sw_vector w')"
    using sweep_removed_points [OF sweep] by simp
  moreover have "edge_type_vector_id env e2 = Some ?i"
    using e2(3) same by (simp add: edge_type_vector_id_def edge_type_id_def)
  ultimately show ?thesis using run_in_scope_rows(2) [OF run e2(1,2)] by blast
qed

theorem edge_type_point_lost_witness:
  "\<exists>i. edge_type_vector_id small_env (sample_edge 5 21 (Some 8) plain_text) = Some i \<and>
     (collection_key (fst edge_type_collection) (snd edge_type_collection), i) \<notin> point_ids (sw_vector swept_world)"
proof -
  have lg: "sw_ledger sample_world = sample_ledger" by (simp add: sample_world_def)
  have "normalize_identifier (se_lower small_env) title_text = normalize_identifier (se_lower small_env) plain_text"
    by (simp add: normalize_identifier_def small_env_def title_text_def plain_text_def)
  then show ?thesis
    using edge_type_point_lost [OF sample_sweep, of "sample_edge 4 20 (Some 7) title_text"
        "sample_edge 5 21 (Some 8) plain_text"]
    by (simp add: lg sample_queries sample_texts sample_ids sample_selected)
      (simp add: sample_ledger_def)
qed

end
