(* ===== verification/Run_Claims.thy ===== *)
theory Run_Claims
  imports "HOL-Library.AList" Prelude
begin

text \<open>
  Exclusive-run claims: the table \<open>pipeline_run_claims\<close> of
  \<open>crates/database/src/pipelines/sea_orm_impl.rs\<close> and the protocol on it. A claim is a row keyed by
  (dataset, pipeline name); taking one is an \<open>INSERT .. ON CONFLICT DO NOTHING\<close>, and a row older than
  \<open>stale_after\<close> may be deleted by whoever finds it. Processes interleave between the statements of
  \<open>try_claim_pipeline_run\<close>, they crash without releasing, statements fail, and the operator and a
  restarting single process clear claims whose holders are dead.

  Times and durations are nanoseconds.
\<close>

type_synonym pair = "uuid \<times> ustr"

record claim_row =
  cl_claim_id :: uuid
  cl_claimed_at :: int

type_synonym claims = "(pair \<times> claim_row) list"

section \<open>Statements\<close>

definition insert_claim :: "int \<Rightarrow> pair \<Rightarrow> uuid \<Rightarrow> claims \<Rightarrow> claims \<times> bool" where
  "insert_claim now pair cid cs =
     (if map_of cs pair = None
      then (cs @ [(pair, \<lparr>cl_claim_id = cid, cl_claimed_at = now\<rparr>)], True)
      else (cs, False))"

definition delete_claim :: "pair \<Rightarrow> uuid \<Rightarrow> claims \<Rightarrow> claims \<times> nat" where
  "delete_claim pair cid cs =
     (let gone = (\<lambda>(p, c). p = pair \<and> cl_claim_id c = cid)
      in (filter (\<lambda>r. \<not> gone r) cs, length (filter gone cs)))"

definition release_pipeline_run_claim :: "pair \<Rightarrow> uuid \<Rightarrow> claims \<Rightarrow> claims" where
  "release_pipeline_run_claim pair cid cs = fst (delete_claim pair cid cs)"

definition get_pipeline_run_claim :: "pair \<Rightarrow> claims \<Rightarrow> claim_row option" where
  "get_pipeline_run_claim pair cs = map_of cs pair"

definition try_release_pipeline_run_claim :: "pair \<Rightarrow> uuid \<Rightarrow> claims \<Rightarrow> claims \<times> bool" where
  "try_release_pipeline_run_claim pair cid cs =
     (let (cs', n) = delete_claim pair cid cs in (cs', 0 < n))"

definition release_all_pipeline_run_claims :: "claims \<Rightarrow> claims \<times> nat" where
  "release_all_pipeline_run_claims cs = (if cs = [] then (cs, 0) else ([], length cs))"

text \<open>\<open>chrono::Duration::from_std\<close> takes at most \<open>i64::MAX\<close> milliseconds.\<close>

definition duration_max :: nat where "duration_max = (2 ^ 63 - 1) * 10 ^ 6"

text \<open>
  The whole operation, with nobody in between: \<open>t1\<close>, \<open>t2\<close> and \<open>t3\<close> are what the clock shows at the
  first insertion, at the check of the age, and at the second insertion.
\<close>

definition try_claim_pipeline_run ::
  "nat \<Rightarrow> int \<Rightarrow> int \<Rightarrow> int \<Rightarrow> pair \<Rightarrow> uuid \<Rightarrow> claims \<Rightarrow> claims \<times> (unit + bool)" where
  "try_claim_pipeline_run stale_after t1 t2 t3 pair cid cs =
     (case insert_claim t1 pair cid cs of
        (cs1, True) \<Rightarrow> (cs1, Inr True)
      | (cs1, False) \<Rightarrow>
          (case get_pipeline_run_claim pair cs1 of
             None \<Rightarrow> (let (cs2, taken) = insert_claim t3 pair cid cs1 in (cs2, Inr taken))
           | Some existing \<Rightarrow>
               if duration_max < stale_after then (cs1, Inl ())
               else if t2 - cl_claimed_at existing < int stale_after then (cs1, Inr False)
               else
                 (case delete_claim pair (cl_claim_id existing) cs1 of
                    (cs2, n) \<Rightarrow>
                      if n = 0 then (cs2, Inr False)
                      else (let (cs3, taken) = insert_claim t3 pair cid cs2 in (cs3, Inr taken)))))"

section \<open>One statement at a time\<close>

text \<open>
  Where a process is between two statements. \<open>Holding\<close> also remembers when its claim was written.
\<close>

datatype claim_pc =
    Idle
  | Inserting uuid
  | Reading uuid
  | Deleting uuid uuid
  | Reinserting uuid
  | Holding uuid int

definition take_by :: "int \<Rightarrow> pair \<Rightarrow> uuid \<Rightarrow> claim_pc \<Rightarrow> claims \<Rightarrow> claim_pc \<times> claims" where
  "take_by now pair cid otherwise cs =
     (let (cs', taken) = insert_claim now pair cid cs
      in (if taken then Holding cid now else otherwise, cs'))"

definition claim_statement :: "nat \<Rightarrow> int \<Rightarrow> pair \<Rightarrow> claim_pc \<Rightarrow> claims \<Rightarrow> claim_pc \<times> claims" where
  "claim_statement stale_after now pair pc cs =
     (case pc of
        Inserting cid \<Rightarrow> take_by now pair cid (Reading cid) cs
      | Reading cid \<Rightarrow>
          (case get_pipeline_run_claim pair cs of
             None \<Rightarrow> (Reinserting cid, cs)
           | Some existing \<Rightarrow>
               if duration_max < stale_after then (Idle, cs)
               else if now - cl_claimed_at existing < int stale_after then (Idle, cs)
               else (Deleting cid (cl_claim_id existing), cs))
      | Deleting cid observed \<Rightarrow>
          (let (cs', n) = delete_claim pair observed cs
           in (if n = 0 then Idle else Reinserting cid, cs'))
      | Reinserting cid \<Rightarrow> take_by now pair cid Idle cs
      | _ \<Rightarrow> (pc, cs))"

definition holds :: "claim_pc \<Rightarrow> bool" where
  "holds pc \<longleftrightarrow> (case pc of Holding _ _ \<Rightarrow> True | _ \<Rightarrow> False)"

text \<open>The operation is the sequence of its statements.\<close>

definition statement :: "nat \<Rightarrow> pair \<Rightarrow> int \<Rightarrow> claim_pc \<times> claims \<Rightarrow> claim_pc \<times> claims" where
  "statement stale_after pair now st = claim_statement stale_after now pair (fst st) (snd st)"

lemma insert_claim_simps:
  "map_of cs pair = None \<Longrightarrow> insert_claim t pair cid cs = (cs @ [(pair, \<lparr>cl_claim_id = cid, cl_claimed_at = t\<rparr>)], True)"
  "map_of cs pair = Some c \<Longrightarrow> insert_claim t pair cid cs = (cs, False)"
  by (simp_all add: insert_claim_def)

lemma try_claim_is_its_statements:
  assumes "try_claim_pipeline_run stale_after t1 t2 t3 pair cid cs = (cs', Inr taken)"
  shows "\<exists>pc. statement stale_after pair t3 (statement stale_after pair t2
            (statement stale_after pair t2 (statement stale_after pair t1 (Inserting cid, cs)))) = (pc, cs') \<and>
          holds pc = taken"
proof (cases "map_of cs pair")
  case None
  with assms show ?thesis
    by (simp add: try_claim_pipeline_run_def statement_def claim_statement_def take_by_def insert_claim_simps
        holds_def)
next
  case (Some c)
  with assms show ?thesis
    by (auto simp: try_claim_pipeline_run_def statement_def claim_statement_def take_by_def insert_claim_simps
        get_pipeline_run_claim_def holds_def Let_def split: prod.splits if_splits)
qed

section \<open>Many processes\<close>

record claim_proc =
  pr_pair :: pair
  pr_pc :: claim_pc

record claim_world =
  cw_now :: int
  cw_claims :: claims
  cw_procs :: "claim_proc list"
  cw_used :: "uuid set"

definition claims_new :: "int \<Rightarrow> nat \<Rightarrow> claim_world" where
  "claims_new now n = \<lparr>cw_now = now, cw_claims = [],
     cw_procs = replicate n \<lparr>pr_pair = (0, []), pr_pc = Idle\<rparr>, cw_used = {}\<rparr>"

definition put_proc :: "nat \<Rightarrow> claim_proc \<Rightarrow> claim_world \<Rightarrow> claim_world" where
  "put_proc p pr w = w\<lparr>cw_procs := (cw_procs w)[p := pr]\<rparr>"

definition proc_statement :: "nat \<Rightarrow> nat \<Rightarrow> claim_world \<Rightarrow> claim_world" where
  "proc_statement stale_after p w =
     (let pr = cw_procs w ! p;
          (pc, cs) = claim_statement stale_after (cw_now w) (pr_pair pr) (pr_pc pr) (cw_claims w)
      in put_proc p (pr\<lparr>pr_pc := pc\<rparr>) (w\<lparr>cw_claims := cs\<rparr>))"

text \<open>
  Steps. \<open>call\<close> starts \<open>try_claim_pipeline_run\<close> with a fresh UUID. \<open>fail\<close> is a statement that fails and a
  process that is killed, at any point: the process knows of no claim any more, the table stays.
  \<open>lost\<close> is a statement that took effect although the process never learned of it.
  \<open>unblock\<close> is the operator releasing a claim, by the id that was reported, whose holder is gone;
  \<open>restart\<close> is the sweep of a single process before it takes a claim.
\<close>

inductive claim_step :: "nat \<Rightarrow> claim_world \<Rightarrow> claim_world \<Rightarrow> bool" for stale_after where
  tick: "cw_now w \<le> t \<Longrightarrow> claim_step stale_after w (w\<lparr>cw_now := t\<rparr>)"
| call: "p < length (cw_procs w) \<Longrightarrow> pr_pc (cw_procs w ! p) = Idle \<Longrightarrow> cid \<notin> cw_used w \<Longrightarrow>
    claim_step stale_after w
      (put_proc p \<lparr>pr_pair = pair, pr_pc = Inserting cid\<rparr> (w\<lparr>cw_used := insert cid (cw_used w)\<rparr>))"
| statement: "p < length (cw_procs w) \<Longrightarrow> claim_step stale_after w (proc_statement stale_after p w)"
| release: "p < length (cw_procs w) \<Longrightarrow> cw_procs w ! p = \<lparr>pr_pair = pair, pr_pc = Holding cid t\<rparr> \<Longrightarrow>
    claim_step stale_after w (put_proc p \<lparr>pr_pair = pair, pr_pc = Idle\<rparr>
      (w\<lparr>cw_claims := release_pipeline_run_claim pair cid (cw_claims w)\<rparr>))"
| fail: "p < length (cw_procs w) \<Longrightarrow>
    claim_step stale_after w (put_proc p ((cw_procs w ! p)\<lparr>pr_pc := Idle\<rparr>) w)"
| lost: "p < length (cw_procs w) \<Longrightarrow>
    claim_step stale_after w (put_proc p ((cw_procs w ! p)\<lparr>pr_pc := Idle\<rparr>) (proc_statement stale_after p w))"
| unblock: "\<forall>pr \<in> set (cw_procs w). \<forall>t. pr_pc pr \<noteq> Holding cid t \<Longrightarrow>
    claim_step stale_after w (w\<lparr>cw_claims := fst (try_release_pipeline_run_claim pair cid (cw_claims w))\<rparr>)"
| restart: "\<forall>pr \<in> set (cw_procs w). pr_pc pr = Idle \<Longrightarrow>
    claim_step stale_after w (w\<lparr>cw_claims := fst (release_all_pipeline_run_claims (cw_claims w))\<rparr>)"

inductive claims_reachable :: "nat \<Rightarrow> int \<Rightarrow> nat \<Rightarrow> claim_world \<Rightarrow> bool" for stale_after now n where
  init: "claims_reachable stale_after now n (claims_new now n)"
| step: "claims_reachable stale_after now n w \<Longrightarrow> claim_step stale_after w w' \<Longrightarrow>
    claims_reachable stale_after now n w'"

section \<open>The invariant\<close>

text \<open>The id a process brought along, whether its row is still to be written, and the id it saw.\<close>

definition own_id :: "claim_pc \<Rightarrow> uuid option" where
  "own_id pc =
     (case pc of Idle \<Rightarrow> None | Inserting c \<Rightarrow> Some c | Reading c \<Rightarrow> Some c | Deleting c _ \<Rightarrow> Some c
      | Reinserting c \<Rightarrow> Some c | Holding c _ \<Rightarrow> Some c)"

definition seen_id :: "claim_pc \<Rightarrow> uuid option" where
  "seen_id pc = (case pc of Deleting _ x \<Rightarrow> Some x | _ \<Rightarrow> None)"

definition table_ids :: "claims \<Rightarrow> uuid set" where
  "table_ids cs = (\<lambda>(p, c). cl_claim_id c) ` set cs"

definition proc_ok :: "nat \<Rightarrow> int \<Rightarrow> claims \<Rightarrow> claim_proc \<Rightarrow> bool" where
  "proc_ok stale_after now cs pr \<longleftrightarrow>
     (case pr_pc pr of
        Holding cid t \<Rightarrow>
          t \<le> now \<and>
          (map_of cs (pr_pair pr) = Some \<lparr>cl_claim_id = cid, cl_claimed_at = t\<rparr> \<or> t + int stale_after \<le> now)
      | Deleting cid x \<Rightarrow>
          cid \<notin> table_ids cs \<and>
          (\<forall>c. map_of cs (pr_pair pr) = Some c \<and> cl_claim_id c = x \<longrightarrow> cl_claimed_at c + int stale_after \<le> now)
      | pc \<Rightarrow> (\<forall>cid. own_id pc = Some cid \<longrightarrow> cid \<notin> table_ids cs))"

definition ids_apart :: "claim_proc list \<Rightarrow> bool" where
  "ids_apart ps \<longleftrightarrow>
     (\<forall>p < length ps. \<forall>q < length ps. \<forall>x. own_id (pr_pc (ps ! p)) = Some x \<longrightarrow>
        (p \<noteq> q \<longrightarrow> own_id (pr_pc (ps ! q)) \<noteq> Some x) \<and>
        (\<not> holds (pr_pc (ps ! p)) \<longrightarrow> seen_id (pr_pc (ps ! q)) \<noteq> Some x))"

definition ids_used :: "claim_world \<Rightarrow> bool" where
  "ids_used w \<longleftrightarrow>
     table_ids (cw_claims w) \<subseteq> cw_used w \<and>
     (\<forall>pr \<in> set (cw_procs w). \<forall>x. own_id (pr_pc pr) = Some x \<or> seen_id (pr_pc pr) = Some x \<longrightarrow> x \<in> cw_used w)"

definition claims_inv :: "nat \<Rightarrow> claim_world \<Rightarrow> bool" where
  "claims_inv stale_after w \<longleftrightarrow>
     distinct (map fst (cw_claims w)) \<and>
     (\<forall>pr \<in> set (cw_procs w). proc_ok stale_after (cw_now w) (cw_claims w) pr) \<and>
     ids_apart (cw_procs w) \<and> ids_used w"

lemma claims_invI:
  assumes "distinct (map fst (cw_claims w))"
    and "\<And>pr. pr \<in> set (cw_procs w) \<Longrightarrow> proc_ok stale_after (cw_now w) (cw_claims w) pr"
    and "ids_apart (cw_procs w)" and "ids_used w"
  shows "claims_inv stale_after w"
  using assms by (simp add: claims_inv_def)

lemma map_of_delete_claim:
  "distinct (map fst cs) \<Longrightarrow>
     map_of (fst (delete_claim pair x cs)) q =
       (case map_of cs q of None \<Rightarrow> None
        | Some c \<Rightarrow> if q = pair \<and> cl_claim_id c = x then None else Some c)"
proof (induction cs)
  case (Cons r cs)
  obtain p c where r: "r = (p, c)" by fastforce
  have p: "map_of cs p = None" using Cons.prems by (simp add: r map_of_eq_None_iff)
  have "fst (delete_claim pair x (r # cs)) =
      (if p = pair \<and> cl_claim_id c = x then fst (delete_claim pair x cs) else r # fst (delete_claim pair x cs))"
    by (simp add: delete_claim_def Let_def r)
  with Cons p show ?case by (cases "q = p") (auto simp: r)
qed (simp add: delete_claim_def)

lemma delete_claim_keys:
  "distinct (map fst cs) \<Longrightarrow> distinct (map fst (fst (delete_claim pair x cs)))"
  "table_ids (fst (delete_claim pair x cs)) \<subseteq> table_ids cs"
  by (auto simp: delete_claim_def Let_def table_ids_def distinct_map_filter)

text \<open>A process is as well off with fewer rows, if the rows that go are aged or not its own.\<close>

lemma proc_ok_delete:
  assumes "distinct (map fst cs)" and "proc_ok stale_after now cs pr"
    and "\<And>cid t. pr_pc pr = Holding cid t \<Longrightarrow> cid = x \<Longrightarrow> pr_pair pr = pair \<Longrightarrow> t + int stale_after \<le> now"
  shows "proc_ok stale_after now (fst (delete_claim pair x cs)) pr"
proof (cases "pr_pc pr")
  case (Holding cid t)
  with assms show ?thesis
    by (auto simp: proc_ok_def map_of_delete_claim)
qed (use assms delete_claim_keys(2) [of pair x cs] in
  \<open>auto simp: proc_ok_def own_id_def map_of_delete_claim split: option.splits if_splits\<close>)

text \<open>A new row harms nobody: nobody waits for its id, and holders of the pair have aged.\<close>

lemma proc_ok_insert:
  assumes "proc_ok stale_after now cs pr" and "map_of cs pair = None"
    and "own_id (pr_pc pr) = Some cid \<Longrightarrow> holds (pr_pc pr)" and "seen_id (pr_pc pr) \<noteq> Some cid"
  shows "proc_ok stale_after now (cs @ [(pair, \<lparr>cl_claim_id = cid, cl_claimed_at = t\<rparr>)]) pr"
  using assms
  by (cases "pr_pc pr") (auto simp: proc_ok_def own_id_def seen_id_def holds_def table_ids_def map_add_def split: option.splits)

lemma proc_ok_later:
  "proc_ok stale_after now cs pr \<Longrightarrow> now \<le> now' \<Longrightarrow> proc_ok stale_after now' cs pr"
  by (cases "pr_pc pr") (auto simp: proc_ok_def)

lemma ids_apartD:
  assumes "ids_apart ps" "p < length ps" "q < length ps" "own_id (pr_pc (ps ! p)) = Some x"
  shows "p \<noteq> q \<Longrightarrow> own_id (pr_pc (ps ! q)) \<noteq> Some x"
    and "\<not> holds (pr_pc (ps ! p)) \<Longrightarrow> seen_id (pr_pc (ps ! q)) \<noteq> Some x"
  using assms unfolding ids_apart_def by blast+

text \<open>A process that keeps its id, or drops it, and has seen no pending id stays apart.\<close>

lemma ids_apart_update:
  assumes "ids_apart ps" and "p < length ps"
    and "\<And>x. own_id (pr_pc pr) = Some x \<Longrightarrow> own_id (pr_pc (ps ! p)) = Some x"
    and "holds (pr_pc (ps ! p)) \<Longrightarrow> holds (pr_pc pr) \<or> own_id (pr_pc pr) = None"
    and "\<And>x. seen_id (pr_pc pr) = Some x \<Longrightarrow> seen_id (pr_pc (ps ! p)) = Some x \<or>
        (\<forall>q < length ps. own_id (pr_pc (ps ! q)) = Some x \<longrightarrow> holds (pr_pc (ps ! q)))"
  shows "ids_apart (ps[p := pr])"
  unfolding ids_apart_def
proof (intro allI impI)
  fix a b x
  assume len: "a < length (ps[p := pr])" "b < length (ps[p := pr])"
    and own: "own_id (pr_pc (ps[p := pr] ! a)) = Some x"
  have own': "own_id (pr_pc (ps ! a)) = Some x"
    using own assms(2,3) len by (cases "a = p") auto
  have "own_id (pr_pc (ps[p := pr] ! b)) \<noteq> Some x" if "a \<noteq> b"
    using ids_apartD(1) [OF assms(1) _ _ own', of b] that assms(2,3) len by (cases "b = p") auto
  moreover have "seen_id (pr_pc (ps[p := pr] ! b)) \<noteq> Some x" if nh: "\<not> holds (pr_pc (ps[p := pr] ! a))"
  proof -
    have nh': "\<not> holds (pr_pc (ps ! a))"
      using nh own assms(2,4) len by (cases "a = p") auto
    have "seen_id (pr_pc (ps ! b)) \<noteq> Some x"
      using ids_apartD(2) [OF assms(1) _ _ own', of b] nh' len by auto
    then show ?thesis
      using assms(2) assms(5) [of x] own' nh' len by (cases "b = p") auto
  qed
  ultimately show "(a \<noteq> b \<longrightarrow> own_id (pr_pc (ps[p := pr] ! b)) \<noteq> Some x) \<and>
      (\<not> holds (pr_pc (ps[p := pr] ! a)) \<longrightarrow> seen_id (pr_pc (ps[p := pr] ! b)) \<noteq> Some x)"
    by blast
qed

section \<open>Every step keeps it\<close>

lemma update_inv:
  assumes inv: "claims_inv stale_after w" and p: "p < length (cw_procs w)"
    and keys: "distinct (map fst cs)" and table: "table_ids cs \<subseteq> cw_used w"
    and others: "\<And>q. q < length (cw_procs w) \<Longrightarrow> q \<noteq> p \<Longrightarrow> proc_ok stale_after (cw_now w) cs (cw_procs w ! q)"
    and this_one: "proc_ok stale_after (cw_now w) cs pr"
    and own: "\<And>x. own_id (pr_pc pr) = Some x \<Longrightarrow> own_id (pr_pc (cw_procs w ! p)) = Some x"
    and holding: "holds (pr_pc (cw_procs w ! p)) \<Longrightarrow> holds (pr_pc pr) \<or> own_id (pr_pc pr) = None"
    and seen: "\<And>x. seen_id (pr_pc pr) = Some x \<Longrightarrow> x \<in> table_ids (cw_claims w)"
  shows "claims_inv stale_after (put_proc p pr (w\<lparr>cw_claims := cs\<rparr>))"
proof (rule claims_invI)
  have apart: "ids_apart (cw_procs w)" and used: "ids_used w"
    and ok: "\<And>pr. pr \<in> set (cw_procs w) \<Longrightarrow> proc_ok stale_after (cw_now w) (cw_claims w) pr"
    using inv by (auto simp: claims_inv_def)
  show "distinct (map fst (cw_claims (put_proc p pr (w\<lparr>cw_claims := cs\<rparr>))))"
    using keys by (simp add: put_proc_def)
  show "proc_ok stale_after (cw_now (put_proc p pr (w\<lparr>cw_claims := cs\<rparr>)))
      (cw_claims (put_proc p pr (w\<lparr>cw_claims := cs\<rparr>))) pr'"
    if mem: "pr' \<in> set (cw_procs (put_proc p pr (w\<lparr>cw_claims := cs\<rparr>)))" for pr'
  proof -
    obtain q where "q < length (cw_procs w)" "pr' = (cw_procs w)[p := pr] ! q"
      using mem by (auto simp: put_proc_def in_set_conv_nth)
    with this_one others p show ?thesis by (cases "q = p") (simp_all add: put_proc_def)
  qed
  show "ids_apart (cw_procs (put_proc p pr (w\<lparr>cw_claims := cs\<rparr>)))"
  proof -
    have "holds (pr_pc (cw_procs w ! q))"
      if "x \<in> table_ids (cw_claims w)" "q < length (cw_procs w)" "own_id (pr_pc (cw_procs w ! q)) = Some x" for q x
      using ok [of "cw_procs w ! q"] that
      by (cases "pr_pc (cw_procs w ! q)") (auto simp: proc_ok_def own_id_def holds_def)
    with seen have "ids_apart ((cw_procs w)[p := pr])"
      by (intro ids_apart_update [OF apart p own holding]) blast+
    then show ?thesis by (simp add: put_proc_def)
  qed
  show "ids_used (put_proc p pr (w\<lparr>cw_claims := cs\<rparr>))"
    using used table own seen nth_mem [OF p] unfolding ids_used_def
    by (auto simp: put_proc_def dest!: set_update_subset_insert [THEN subsetD])
qed

lemmas claims_inv_simps = claims_inv_def put_proc_def ids_used_def

lemma inv_proc:
  assumes "claims_inv stale_after w" "q < length (cw_procs w)"
  shows "proc_ok stale_after (cw_now w) (cw_claims w) (cw_procs w ! q)"
  using assms by (simp add: claims_inv_def)

lemma inv_table:
  assumes "claims_inv stale_after w"
  shows "distinct (map fst (cw_claims w))" "table_ids (cw_claims w) \<subseteq> cw_used w" "ids_apart (cw_procs w)"
  using assms by (auto simp: claims_inv_def ids_used_def)

lemma put_same [simp]: "put_proc p pr (w\<lparr>cw_claims := cw_claims w\<rparr>) = put_proc p pr w"
  by (simp add: put_proc_def)

text \<open>A process that gives up leaves the table alone.\<close>

lemma give_up_inv:
  assumes "claims_inv stale_after w" and "p < length (cw_procs w)" and "pr_pc pr = Idle"
  shows "claims_inv stale_after (put_proc p pr w)"
proof -
  have "claims_inv stale_after (put_proc p pr (w\<lparr>cw_claims := cw_claims w\<rparr>))"
    by (rule update_inv [OF assms(1,2) inv_table(1,2) [OF assms(1)] inv_proc [OF assms(1)]])
       (use assms(3) in \<open>auto simp: proc_ok_def own_id_def seen_id_def\<close>)
  then show ?thesis by simp
qed

text \<open>The insertion of a claim by a process that has not written it yet.\<close>

lemma take_by_inv:
  assumes inv: "claims_inv stale_after w" and p: "p < length (cw_procs w)"
    and pr: "cw_procs w ! p = \<lparr>pr_pair = pair, pr_pc = pc\<rparr>" "own_id pc = Some cid" "seen_id pc = None"
    and taking: "\<not> holds pc" "take_by (cw_now w) pair cid other (cw_claims w) = (pc', cs)"
    and other: "other = Idle \<or> other = Reading cid"
  shows "claims_inv stale_after (put_proc p \<lparr>pr_pair = pair, pr_pc = pc'\<rparr> (w\<lparr>cw_claims := cs\<rparr>))"
proof -
  have fresh: "cid \<notin> table_ids (cw_claims w)"
    using inv_proc [OF inv p] pr taking(1) by (cases pc) (auto simp: proc_ok_def own_id_def holds_def seen_id_def)
  show ?thesis
  proof (cases "map_of (cw_claims w) pair")
    case (Some c)
    then have "pc' = other" "cs = cw_claims w"
      using taking(2) by (simp_all add: take_by_def insert_claim_simps)
    moreover have "claims_inv stale_after (put_proc p \<lparr>pr_pair = pair, pr_pc = other\<rparr> (w\<lparr>cw_claims := cw_claims w\<rparr>))"
      by (rule update_inv [OF inv p inv_table(1,2) [OF inv] inv_proc [OF inv]])
         (use other pr taking(1) fresh in \<open>auto simp: proc_ok_def own_id_def seen_id_def\<close>)
    ultimately show ?thesis by simp
  next
    case None
    let ?cs = "cw_claims w @ [(pair, \<lparr>cl_claim_id = cid, cl_claimed_at = cw_now w\<rparr>)]"
    have pc': "pc' = Holding cid (cw_now w)" "cs = ?cs"
      using None taking(2) by (simp_all add: take_by_def insert_claim_simps)
    have used: "cid \<in> cw_used w"
      using inv nth_mem [OF p] pr by (force simp: claims_inv_def ids_used_def)
    show ?thesis unfolding pc'
    proof (rule update_inv [OF inv p])
      show "distinct (map fst ?cs)"
        using inv_table(1) [OF inv] None by (simp add: map_of_eq_None_iff)
      show "table_ids ?cs \<subseteq> cw_used w" using inv_table(2) [OF inv] used by (auto simp: table_ids_def)
      show "proc_ok stale_after (cw_now w) ?cs (cw_procs w ! q)" if "q < length (cw_procs w)" "q \<noteq> p" for q
      proof (rule proc_ok_insert [OF inv_proc [OF inv that(1)] None])
        have own: "own_id (pr_pc (cw_procs w ! p)) = Some cid" "\<not> holds (pr_pc (cw_procs w ! p))"
          using pr taking(1) by simp_all
        then show "holds (pr_pc (cw_procs w ! q))" if "own_id (pr_pc (cw_procs w ! q)) = Some cid"
          using ids_apartD(1) [OF inv_table(3) [OF inv] p \<open>q < _\<close>] that \<open>q \<noteq> p\<close> by auto
        show "seen_id (pr_pc (cw_procs w ! q)) \<noteq> Some cid"
          using own ids_apartD(2) [OF inv_table(3) [OF inv] p that(1)] by auto
      qed
      show "proc_ok stale_after (cw_now w) ?cs \<lparr>pr_pair = pair, pr_pc = Holding cid (cw_now w)\<rparr>"
        using None by (simp add: proc_ok_def map_add_def)
    qed (use pr taking(1) in \<open>auto simp: own_id_def seen_id_def holds_def\<close>)
  qed
qed

text \<open>The deletion of a claim whose holder has aged, or is the process itself, or is gone.\<close>

lemma delete_inv:
  assumes inv: "claims_inv stale_after w" and p: "p < length (cw_procs w)"
    and pr: "\<And>y. own_id (pr_pc pr) = Some y \<Longrightarrow> own_id (pr_pc (cw_procs w ! p)) = Some y"
      "seen_id (pr_pc pr) = None" "\<not> holds (pr_pc pr)"
      "holds (pr_pc (cw_procs w ! p)) \<Longrightarrow> own_id (pr_pc pr) = None"
    and gone: "\<And>q t. q < length (cw_procs w) \<Longrightarrow> q \<noteq> p \<Longrightarrow> pr_pc (cw_procs w ! q) = Holding x t \<Longrightarrow>
        pr_pair (cw_procs w ! q) = pair \<Longrightarrow> t + int stale_after \<le> cw_now w"
  shows "claims_inv stale_after (put_proc p pr (w\<lparr>cw_claims := fst (delete_claim pair x (cw_claims w))\<rparr>))"
proof (rule update_inv [OF inv p])
  let ?cs = "fst (delete_claim pair x (cw_claims w))"
  show "distinct (map fst ?cs)" "table_ids ?cs \<subseteq> cw_used w"
    using delete_claim_keys(1) [OF inv_table(1) [OF inv]] delete_claim_keys(2) [of pair x "cw_claims w"]
      inv_table(2) [OF inv] by auto
  show "proc_ok stale_after (cw_now w) ?cs (cw_procs w ! q)" if "q < length (cw_procs w)" "q \<noteq> p" for q
    by (rule proc_ok_delete [OF inv_table(1) [OF inv] inv_proc [OF inv that(1)]]) (use gone that in blast)
  show "proc_ok stale_after (cw_now w) ?cs pr"
  proof -
    have "y \<notin> table_ids ?cs" if "own_id (pr_pc pr) = Some y" for y
    proof -
      have "own_id (pr_pc (cw_procs w ! p)) = Some y" "\<not> holds (pr_pc (cw_procs w ! p))"
        using that pr by auto
      then have "y \<notin> table_ids (cw_claims w)"
        using inv_proc [OF inv p]
        by (cases "pr_pc (cw_procs w ! p)") (auto simp: proc_ok_def own_id_def holds_def)
      then show ?thesis using delete_claim_keys(2) [of pair x "cw_claims w"] by blast
    qed
    with pr(2,3) show ?thesis
      by (cases "pr_pc pr") (auto simp: proc_ok_def holds_def seen_id_def)
  qed
qed (use pr in auto)

lemma statement_inv:
  assumes inv: "claims_inv stale_after w" and p: "p < length (cw_procs w)"
  shows "claims_inv stale_after (proc_statement stale_after p w)"
proof -
  obtain pair pc where pr: "cw_procs w ! p = \<lparr>pr_pair = pair, pr_pc = pc\<rparr>"
    by (metis claim_proc.cases)
  have ok: "proc_ok stale_after (cw_now w) (cw_claims w) \<lparr>pr_pair = pair, pr_pc = pc\<rparr>"
    using inv_proc [OF inv p] by (simp add: pr)
  note same = give_up_inv [OF inv p]
  show ?thesis
  proof (cases pc)
    case (Inserting cid)
    with take_by_inv [OF inv p pr, of cid "Reading cid"] show ?thesis
      by (auto simp: proc_statement_def pr claim_statement_def own_id_def seen_id_def holds_def Let_def split: prod.splits)
  next
    case (Reinserting cid)
    with take_by_inv [OF inv p pr, of cid Idle] show ?thesis
      by (auto simp: proc_statement_def pr claim_statement_def own_id_def seen_id_def holds_def Let_def split: prod.splits)
  next
    case (Reading cid)
    have "claims_inv stale_after (put_proc p \<lparr>pr_pair = pair, pr_pc = pc'\<rparr> (w\<lparr>cw_claims := cw_claims w\<rparr>))"
      if "claim_statement stale_after (cw_now w) pair pc (cw_claims w) = (pc', cs')" for pc' cs'
    proof (rule update_inv [OF inv p inv_table(1,2) [OF inv] inv_proc [OF inv]])
      show "proc_ok stale_after (cw_now w) (cw_claims w) \<lparr>pr_pair = pair, pr_pc = pc'\<rparr>"
        using that ok Reading
        by (auto simp: claim_statement_def get_pipeline_run_claim_def proc_ok_def own_id_def split: option.splits if_splits)
      show "own_id (pr_pc (cw_procs w ! p)) = Some x" if "own_id (pr_pc \<lparr>pr_pair = pair, pr_pc = pc'\<rparr>) = Some x" for x
        using that \<open>claim_statement _ _ _ _ _ = _\<close> Reading
        by (auto simp: pr claim_statement_def own_id_def split: option.splits if_splits)
      show "x \<in> table_ids (cw_claims w)" if "seen_id (pr_pc \<lparr>pr_pair = pair, pr_pc = pc'\<rparr>) = Some x" for x
        using that \<open>claim_statement _ _ _ _ _ = _\<close> Reading
        by (auto simp: claim_statement_def get_pipeline_run_claim_def seen_id_def table_ids_def
            split: option.splits if_splits dest!: map_of_SomeD intro!: rev_image_eqI)
    qed (use Reading in \<open>simp_all add: pr holds_def\<close>)
    moreover have "snd (claim_statement stale_after (cw_now w) pair pc (cw_claims w)) = cw_claims w"
      using Reading by (auto simp: claim_statement_def split: option.splits)
    ultimately show ?thesis
      by (auto simp: proc_statement_def pr Let_def split: prod.splits)
  next
    case (Deleting cid x)
    obtain cs n where del: "delete_claim pair x (cw_claims w) = (cs, n)" by fastforce
    have aged: "t + int stale_after \<le> cw_now w"
      if q: "q < length (cw_procs w)" "pr_pc (cw_procs w ! q) = Holding x t" "pr_pair (cw_procs w ! q) = pair" for q t
      using inv_proc [OF inv q(1)] q(2,3) ok Deleting by (auto simp: proc_ok_def)
    have "claims_inv stale_after (put_proc p \<lparr>pr_pair = pair, pr_pc = if n = 0 then Idle else Reinserting cid\<rparr>
        (w\<lparr>cw_claims := fst (delete_claim pair x (cw_claims w))\<rparr>))"
      by (rule delete_inv [OF inv p]) (use aged Deleting in \<open>auto simp: pr own_id_def seen_id_def holds_def split: if_splits\<close>)
    then show ?thesis
      by (simp add: proc_statement_def pr claim_statement_def Deleting del)
  next
    case Idle
    with same show ?thesis by (simp add: proc_statement_def pr claim_statement_def)
  next
    case (Holding cid t)
    have "put_proc p (cw_procs w ! p) w = w" by (simp add: put_proc_def)
    with inv Holding show ?thesis by (simp add: proc_statement_def pr claim_statement_def)
  qed
qed

lemma step_inv:
  assumes "claim_step stale_after w w'" and inv: "claims_inv stale_after w"
  shows "claims_inv stale_after w'"
  using assms
proof (induction rule: claim_step.induct)
  case (tick w t)
  then show ?case by (auto simp: claims_inv_def ids_used_def intro: proc_ok_later)
next
  case (call p w cid pair)
  let ?w = "w\<lparr>cw_used := insert cid (cw_used w)\<rparr>" and ?pr = "\<lparr>pr_pair = pair, pr_pc = Inserting cid\<rparr>"
  have new: "own_id (pr_pc pr) \<noteq> Some cid" "seen_id (pr_pc pr) \<noteq> Some cid" if "pr \<in> set (cw_procs w)" for pr
    using call that by (auto simp: claims_inv_def ids_used_def)
  have fresh: "cid \<notin> table_ids (cw_claims w)" using call by (auto simp: claims_inv_def ids_used_def)
  show ?case
  proof (rule claims_invI)
    show "distinct (map fst (cw_claims (put_proc p ?pr ?w)))"
      using inv_table(1) [OF call.prems] by (simp add: put_proc_def)
    show "proc_ok stale_after (cw_now (put_proc p ?pr ?w)) (cw_claims (put_proc p ?pr ?w)) pr"
      if "pr \<in> set (cw_procs (put_proc p ?pr ?w))" for pr
      using that call.prems fresh
      by (auto simp: put_proc_def claims_inv_def proc_ok_def [of _ _ _ ?pr] own_id_def
          dest!: set_update_subset_insert [THEN subsetD])
    show "ids_apart (cw_procs (put_proc p ?pr ?w))"
      unfolding ids_apart_def
    proof (intro allI impI)
      fix a b x
      let ?ps = "cw_procs (put_proc p ?pr ?w)"
      assume ab: "a < length ?ps" "b < length ?ps" and own: "own_id (pr_pc (?ps ! a)) = Some x"
      have len: "a < length (cw_procs w)" "b < length (cw_procs w)" using ab by (simp_all add: put_proc_def)
      show "(a \<noteq> b \<longrightarrow> own_id (pr_pc (?ps ! b)) \<noteq> Some x) \<and>
          (\<not> holds (pr_pc (?ps ! a)) \<longrightarrow> seen_id (pr_pc (?ps ! b)) \<noteq> Some x)"
      proof (cases "a = p")
        case True
        with own len new [OF nth_mem [OF len(2)]] show ?thesis
          by (auto simp: put_proc_def own_id_def [of "Inserting _"] seen_id_def [of "Inserting _"] nth_list_update)
      next
        case False
        with own have own': "own_id (pr_pc (cw_procs w ! a)) = Some x" by (simp add: put_proc_def)
        then have "x \<noteq> cid" using new [OF nth_mem [OF len(1)]] by auto
        with False own' ids_apartD [OF inv_table(3) [OF call.prems] len own'] len(2) show ?thesis
          by (cases "b = p") (auto simp: put_proc_def own_id_def [of "Inserting _"] seen_id_def [of "Inserting _"])
      qed
    qed
    show "ids_used (put_proc p ?pr ?w)"
      using call.prems
      by (auto simp: claims_inv_def ids_used_def put_proc_def own_id_def [of "Inserting _"]
          seen_id_def [of "Inserting _"] dest!: set_update_subset_insert [THEN subsetD])
  qed
next
  case (statement p w)
  then show ?case by (intro statement_inv)
next
  case (release p w pair cid t)
  then have "own_id (pr_pc (cw_procs w ! p)) = Some cid" by (simp add: own_id_def)
  then have "pr_pc (cw_procs w ! q) \<noteq> Holding cid u" if "q < length (cw_procs w)" "q \<noteq> p" for q u
    using ids_apartD(1) [OF inv_table(3) [OF release.prems] release.hyps(1) that(1)] that(2)
    by (auto simp: own_id_def)
  then show ?case
    unfolding release_pipeline_run_claim_def
    by (intro delete_inv [OF release.prems release.hyps(1)]) (auto simp: own_id_def seen_id_def holds_def)
next
  case (fail p w)
  then show ?case by (intro give_up_inv) simp_all
next
  case (lost p w)
  have "claims_inv stale_after (proc_statement stale_after p w)" by (rule statement_inv [OF lost.prems lost.hyps])
  then show ?case
    using lost.hyps by (intro give_up_inv) (simp_all add: proc_statement_def put_proc_def Let_def split_beta)
next
  case (unblock w cid pair)
  have keys: "distinct (map fst (cw_claims w))" by (rule inv_table(1) [OF unblock.prems])
  have "proc_ok stale_after (cw_now w) (fst (delete_claim pair cid (cw_claims w))) pr" if "pr \<in> set (cw_procs w)" for pr
    by (rule proc_ok_delete [OF keys]) (use unblock that in \<open>auto simp: claims_inv_def\<close>)
  then show ?case
    using unblock.prems delete_claim_keys(1) [OF keys] delete_claim_keys(2) [of pair cid "cw_claims w"]
    by (auto simp: claims_inv_def ids_used_def try_release_pipeline_run_claim_def split_beta)
next
  case (restart w)
  then show ?case
    by (auto simp: claims_inv_def ids_used_def release_all_pipeline_run_claims_def table_ids_def proc_ok_def own_id_def)
qed

lemma claims_reachable_inv: "claims_reachable stale_after now n w \<Longrightarrow> claims_inv stale_after w"
proof (induction rule: claims_reachable.induct)
  case init
  show ?case
    by (simp add: claims_inv_def claims_new_def ids_apart_def ids_used_def proc_ok_def own_id_def seen_id_def table_ids_def)
next
  case (step w w')
  then show ?case by (blast intro: step_inv)
qed

section \<open>Properties\<close>

text \<open>
  C3: At most one run at a time: whatever the interleaving of the claim's statements, of crashes,
  failing statements, takeovers of stale claims and clean-ups, two processes hold the claim of one
  pair only if the older of the two has held it for \<open>stale_after\<close> or longer.
\<close>

theorem run_claims_exclude:
  assumes "claims_reachable stale_after now n w" and "p < length (cw_procs w)" and "q < length (cw_procs w)"
    and "cw_procs w ! p = \<lparr>pr_pair = pair, pr_pc = Holding cid t\<rparr>"
    and "cw_procs w ! q = \<lparr>pr_pair = pair, pr_pc = Holding cid' t'\<rparr>"
    and "p \<noteq> q"
  shows "min t t' + int stale_after \<le> cw_now w"
proof -
  have inv: "claims_inv stale_after w" by (rule claims_reachable_inv [OF assms(1)])
  have "cid \<noteq> cid'"
    using ids_apartD(1) [OF inv_table(3) [OF inv] assms(2,3), of cid] assms(4-6) by (auto simp: own_id_def)
  then show ?thesis
    using inv_proc [OF inv assms(2)] inv_proc [OF inv assms(3)] assms(4,5)
    by (auto simp: proc_ok_def)
qed

lemma try_claim_table:
  assumes "stale_after \<le> duration_max" and "distinct (map fst cs)"
  shows "try_claim_pipeline_run stale_after t1 t2 t3 pair cid cs =
    (case map_of cs pair of
       None \<Rightarrow> (cs @ [(pair, \<lparr>cl_claim_id = cid, cl_claimed_at = t1\<rparr>)], Inr True)
     | Some old \<Rightarrow>
         if t2 < cl_claimed_at old + int stale_after then (cs, Inr False)
         else (filter (\<lambda>r. fst r \<noteq> pair) cs @ [(pair, \<lparr>cl_claim_id = cid, cl_claimed_at = t3\<rparr>)], Inr True))"
proof (cases "map_of cs pair")
  case None
  then show ?thesis by (simp add: try_claim_pipeline_run_def insert_claim_simps)
next
  case (Some old)
  then have mem: "(pair, old) \<in> set cs" by (rule map_of_SomeD)
  have only: "cl_claim_id c = cl_claim_id old" if "(p, c) \<in> set cs" "p = pair" for p c
    using that map_of_is_SomeI [OF assms(2), of p c] Some by auto
  have del: "delete_claim pair (cl_claim_id old) cs = (filter (\<lambda>r. fst r \<noteq> pair) cs,
      length (filter (\<lambda>r. fst r = pair) cs))"
    using only by (force simp: delete_claim_def Let_def intro!: filter_cong arg_cong [where f = length])
  have "length (filter (\<lambda>r. fst r = pair) cs) \<noteq> 0" using mem by (force simp: filter_empty_conv)
  moreover have "map_of (filter (\<lambda>r. fst r \<noteq> pair) cs) pair = None" by (auto simp: map_of_eq_None_iff)
  moreover have "t2 - cl_claimed_at old < int stale_after \<longleftrightarrow> t2 < cl_claimed_at old + int stale_after" by linarith
  ultimately show ?thesis
    using assms(1) by (simp add: try_claim_pipeline_run_def insert_claim_simps Some get_pipeline_run_claim_def del)
qed

text \<open>
  C24: A claim is taken exactly when the pair is free or its claim is at least \<open>stale_after\<close> old (with
  nobody in between): a claim nobody released does not block its pair for ever, and a fresh one is
  never touched.
\<close>

theorem stale_claim_is_taken:
  assumes "stale_after \<le> duration_max" and "distinct (map fst cs)"
  shows "try_claim_pipeline_run stale_after t1 t2 t3 pair cid cs =
    (case map_of cs pair of
       None \<Rightarrow> (cs @ [(pair, \<lparr>cl_claim_id = cid, cl_claimed_at = t1\<rparr>)], Inr True)
     | Some old \<Rightarrow>
         if t2 < cl_claimed_at old + int stale_after then (cs, Inr False)
         else (filter (\<lambda>r. fst r \<noteq> pair) cs @ [(pair, \<lparr>cl_claim_id = cid, cl_claimed_at = t3\<rparr>)], Inr True))"
  by (rule try_claim_table [OF assms])

theorem stale_claim_is_taken_witness:
  "try_claim_pipeline_run 10 20 21 22 (4, []) 7 [((4, []), \<lparr>cl_claim_id = 6, cl_claimed_at = 5\<rparr>)] =
     ([((4, []), \<lparr>cl_claim_id = 7, cl_claimed_at = 22\<rparr>)], Inr True)"
  using stale_claim_is_taken [of 10 "[((4, []), \<lparr>cl_claim_id = 6, cl_claimed_at = 5\<rparr>)]" 20 21 22 "(4, [])" 7]
  by (simp add: duration_max_def)

text \<open>A run: process 0 takes the claim of a pair at time 0, and process 1 takes it over at time 10.\<close>

definition two_procs :: "int \<Rightarrow> claims \<Rightarrow> claim_pc \<Rightarrow> claim_pc \<Rightarrow> uuid set \<Rightarrow> claim_world" where
  "two_procs now cs pc0 pc1 used =
     \<lparr>cw_now = now, cw_claims = cs,
      cw_procs = [\<lparr>pr_pair = (4, []), pr_pc = pc0\<rparr>, \<lparr>pr_pair = if pc1 = Idle then (0, []) else (4, []), pr_pc = pc1\<rparr>],
      cw_used = used\<rparr>"

definition sample_claim :: "uuid \<Rightarrow> int \<Rightarrow> claims" where
  "sample_claim cid t = [((4, []), \<lparr>cl_claim_id = cid, cl_claimed_at = t\<rparr>)]"

lemmas two_procs_eval = two_procs_def put_proc_def proc_statement_def claim_statement_def take_by_def
  insert_claim_def get_pipeline_run_claim_def delete_claim_def duration_max_def sample_claim_def Let_def

lemma call_first:
  "claim_step 10 (claims_new 0 2) (two_procs 0 [] (Inserting 6) Idle {6})"
  using claim_step.call [of 0 "claims_new 0 2" 6 10 "(4, [])"]
  by (simp add: claims_new_def two_procs_def put_proc_def numeral_2_eq_2)

lemma taken_first:
  "claim_step 10 (two_procs 0 [] (Inserting 6) Idle {6}) (two_procs 0 (sample_claim 6 0) (Holding 6 0) Idle {6})"
  using claim_step.statement [of 0 "two_procs 0 [] (Inserting 6) Idle {6}" 10] by (simp add: two_procs_eval)

lemma call_second:
  "claim_step 10 (two_procs 10 cs (Holding 6 0) Idle {6}) (two_procs 10 cs (Holding 6 0) (Inserting 7) {7, 6})"
  using claim_step.call [of 1 "two_procs 10 cs (Holding 6 0) Idle {6}" 7 10 "(4, [])"] by (simp add: two_procs_def put_proc_def)

lemma second_statement:
  "claim_step 10 (two_procs 10 cs (Holding 6 0) pc u) (two_procs 10 cs' (Holding 6 0) pc' u)"
  if "claim_statement 10 10 (4, []) pc cs = (pc', cs')" and "pc \<noteq> Idle" and "pc' \<noteq> Idle"
  using claim_step.statement [of 1 "two_procs 10 cs (Holding 6 0) pc u" 10] that
  by (simp add: two_procs_def proc_statement_def put_proc_def)

lemma takeover_reachable:
  "claims_reachable 10 0 2 (two_procs 10 (sample_claim 7 10) (Holding 6 0) (Holding 7 10) {7, 6})"
proof -
  have tick: "claim_step 10 (two_procs 0 cs pc0 pc1 u) (two_procs 10 cs pc0 pc1 u)" for cs pc0 pc1 u
    using claim_step.tick [of "two_procs 0 cs pc0 pc1 u" 10 10] by (simp add: two_procs_def)
  have "claims_reachable 10 0 2 (two_procs 10 (sample_claim 6 0) (Holding 6 0) (Inserting 7) {7, 6})"
    by (meson claims_reachable.intros call_first taken_first call_second tick)
  then have "claims_reachable 10 0 2 (two_procs 10 (sample_claim 6 0) (Holding 6 0) (Reading 7) {7, 6})"
    by (rule claims_reachable.step [OF _ second_statement]) (simp_all add: two_procs_eval)
  then have "claims_reachable 10 0 2 (two_procs 10 (sample_claim 6 0) (Holding 6 0) (Deleting 7 6) {7, 6})"
    by (rule claims_reachable.step [OF _ second_statement]) (simp_all add: two_procs_eval)
  then have "claims_reachable 10 0 2 (two_procs 10 [] (Holding 6 0) (Reinserting 7) {7, 6})"
    by (rule claims_reachable.step [OF _ second_statement]) (simp_all add: two_procs_eval)
  then show ?thesis
    by (rule claims_reachable.step [OF _ second_statement]) (simp_all add: two_procs_eval)
qed

theorem run_claims_exclude_witness: "min 0 10 + int 10 \<le> cw_now (two_procs 10 (sample_claim 7 10) (Holding 6 0) (Holding 7 10) {7, 6})"
  using run_claims_exclude [OF takeover_reachable, of 0 1 "(4, [])" 6 0 7 10] by (simp add: two_procs_def)

end
