(* ===== verification/Run_Trail.thy ===== *)
theory Run_Trail
  imports Run_Registry Pipeline_Props
begin

text \<open>
  The trail of rows a run leaves. The executor promises a shape of the event log; a watcher
  promises which rows an event appends. The locale \<open>run_recorder\<close> is the second promise, kept by
  both watchers of the repository; the four-state trail follows from the two.
\<close>

definition event_row :: "row_env \<Rightarrow> event \<Rightarrow> run_row list" where
  "event_row re e =
     (case e of
        OnRunInitiated ri \<Rightarrow> [info_row ri Initiated (Some run_info_for_initiated)]
      | OnRunStarted ri \<Rightarrow>
          [info_row ri (core_to_db_status (ri_status ri))
             (Some (run_info_for_running (re_show re) (ri_data_ids ri)))]
      | OnRunCompleted ri n \<Rightarrow>
          [info_row ri Completed (Some (run_info_for_running (re_show re) (ri_data_ids ri)))]
      | OnRunErrored ri m \<Rightarrow>
          [info_row ri Errored (Some (run_info_for_errored (re_show re) (ri_data_ids ri) m))]
      | _ \<Rightarrow> [])"

definition run_trail ::
  "row_env \<Rightarrow> run_info \<Rightarrow> exec_error + 'a list \<Rightarrow> run_row list" where
  "run_trail re ri result =
     [info_row ri Initiated (Some run_info_for_initiated),
      info_row ri Started (Some (run_info_for_running (re_show re) (ri_data_ids ri))),
      (case result of
         Inr _ \<Rightarrow> info_row ri Completed (Some (run_info_for_running (re_show re) (ri_data_ids ri)))
       | Inl e \<Rightarrow> info_row ri Errored
           (Some (run_info_for_errored (re_show re) (ri_data_ids ri) (show_exec_error e))))]"

text \<open>The rows whose writes are not lost.\<close>

definition kept :: "(db_status \<Rightarrow> bool) \<Rightarrow> run_row list \<Rightarrow> run_row list" where
  "kept lost rs = filter (\<lambda>r. \<not> lost (rr_status r)) rs"

lemma kept_simps [simp]:
  "kept lost [] = []" "kept lost (r # rs) = (if lost (rr_status r) then kept lost rs else r # kept lost rs)"
  "kept lost (rs @ rs') = kept lost rs @ kept lost rs'" "kept (\<lambda>_. False) rs = rs"
  by (simp_all add: kept_def)

lemma write_row_kept: "write_row lost r rows = rows @ kept lost [r]"
  by (simp add: write_row_def)

locale run_recorder =
  fixes re :: row_env
    and lost :: "db_status \<Rightarrow> bool"
    and on_event :: "event \<Rightarrow> 'st \<Rightarrow> 'st"
    and rows :: "'st \<Rightarrow> run_row list"
  assumes records: "rows (on_event e st) = rows st @ kept lost (event_row re e)"
begin

definition replay :: "event list \<Rightarrow> 'st \<Rightarrow> 'st" where
  "replay es st = foldl (\<lambda>s e. on_event e s) st es"

lemma rows_replay: "rows (replay es st) = rows st @ kept lost (concat (map (event_row re) es))"
  by (induction es arbitrary: st) (simp_all add: replay_def records)

end

lemma info_row_status [simp]: "info_row (ri\<lparr>ri_status := s\<rparr>) t i = info_row ri t i"
  by (simp add: info_row_def)

lemma core_to_db_simps [simp]:
  "core_to_db_status RunInitiated = Initiated" "core_to_db_status RunStarted = Started"
  "core_to_db_status RunCompleted = Completed" "core_to_db_status RunErrored = Errored"
  by (simp_all add: core_to_db_status_def)

text \<open>
  The rows a call tries to write: none when the pipeline is refused, and no terminal one after a panic or
  when a task has weight 0.
\<close>

definition call_trail ::
  "row_env \<Rightarrow> ('v, 's) services \<Rightarrow> uuid \<Rightarrow> ('v, 's) pipeline \<Rightarrow> 'v pval list \<Rightarrow> 'v task_ctx \<Rightarrow> exec_error + 'a list
     \<Rightarrow> run_row list" where
  "call_trail re sv run_id p inputs ctx result =
     (let trail = run_trail re (run_info_of sv run_id p inputs ctx) result in
      if \<not> runnable p then []
      else if result = Inl Panicked \<or> 0 \<in> set (map ti_weight (pl_tasks p)) then take 2 trail
      else trail)"

lemma start_events_rows:
  "concat (map (event_row re) (start_events sv run_id p inputs ctx)) =
     take 2 (run_trail re (run_info_of sv run_id p inputs ctx) result)"
  by (simp add: start_events_def started_info_def event_row_def run_trail_def)

lemma end_events_rows:
  "concat (map (event_row re) (end_events (started_info sv run_id p inputs ctx) result)) =
     drop 2 (run_trail re (run_info_of sv run_id p inputs ctx) result)"
  by (cases result) (simp_all add: end_events_def started_info_def event_row_def run_trail_def)

lemma item_events_rows: "list_all item_event mid \<Longrightarrow> concat (map (event_row re) mid) = []"
  by (induction mid) (auto simp: item_event_def event_row_def split: event.splits)

lemma call_rows:
  assumes "joins (sv_join_all sv) p" and "xs_events st = []"
    and "execute_unscoped sv run_id p inputs ctx st = (st', result)"
  shows "concat (map (event_row re) (xs_events st')) = call_trail re sv run_id p inputs ctx result"
proof (cases "runnable p")
  case True
  obtain mid where "list_all item_event mid" and ev: "xs_events st' =
      start_events sv run_id p inputs ctx @ mid @ closing_events sv run_id p inputs ctx result"
    using run_events [OF True assms(1,3)] assms(2) by auto
  then have "concat (map (event_row re) (xs_events st')) =
      take 2 (run_trail re (run_info_of sv run_id p inputs ctx) result) @
      concat (map (event_row re) (closing_events sv run_id p inputs ctx result))"
    by (simp only: ev map_append concat_append start_events_rows [of re sv run_id p inputs ctx result]
        item_events_rows append_Nil)
  moreover have "concat (map (event_row re) (closing_events sv run_id p inputs ctx result)) =
      (if result = Inl Panicked \<or> 0 \<in> set (map ti_weight (pl_tasks p)) then []
       else drop 2 (run_trail re (run_info_of sv run_id p inputs ctx) result))"
    by (simp only: closing_events_def end_events_rows if_distrib [where f = "\<lambda>es. concat (map (event_row re) es)"])
       (simp split: if_split)
  ultimately show ?thesis
    using True by (simp only: call_trail_def Let_def) (simp split: if_split)
next
  case False
  with refused_run [OF False assms(3)] assms(2) show ?thesis by (simp add: call_trail_def)
qed

context run_recorder
begin

lemma rows_of_call:
  assumes "joins (sv_join_all sv) p" and "xs_events st = []"
    and "execute_unscoped sv run_id p inputs ctx st = (st', result)"
  shows "rows (replay (xs_events st') s) = rows s @ kept lost (call_trail re sv run_id p inputs ctx result)"
  by (simp only: rows_replay call_rows [OF assms])

end

interpretation db: run_recorder re lost "db_watch re lost" "\<lambda>rows. rows"
  by unfold_locales (simp add: db_watch_def event_row_def write_row_kept split: event.split)

interpretation scoped: run_recorder re lost "scoped_watch send re lost k" rg_rows
  by unfold_locales
    (simp add: scoped_watch_def event_row_def log_row_def write_row_kept on_channel_def split: event.split)

text \<open>Both watchers leave the trail of the call, whatever its result.\<close>

lemma watched_run:
  assumes "joins (sv_join_all sv) p" and "xs_events st = []"
    and "execute_unscoped sv run_id p inputs ctx st = (st', result)"
  shows "foldl (\<lambda>r e. db_watch re lost e r) trail (xs_events st')
      = trail @ kept lost (call_trail re sv run_id p inputs ctx result)"
    and "rg_rows (watch_run send re lost k (xs_events st') rg)
      = rg_rows rg @ kept lost (call_trail re sv run_id p inputs ctx result)"
proof -
  show "foldl (\<lambda>r e. db_watch re lost e r) trail (xs_events st')
      = trail @ kept lost (call_trail re sv run_id p inputs ctx result)"
    using db.rows_of_call [OF assms, where re = re and lost = lost and s = trail] by (simp add: db.replay_def)
  show "rg_rows (watch_run send re lost k (xs_events st') rg)
      = rg_rows rg @ kept lost (call_trail re sv run_id p inputs ctx result)"
    using scoped.rows_of_call [OF assms, where re = re and lost = lost and send = send and k = k and s = rg]
    by (simp add: scoped.replay_def watch_run_def)
qed

section \<open>Properties\<close>

text \<open>
  C15: The trail a call leaves in the run table. A refused pipeline tries to write no row. Any other call
  tries to write an initiated and a started row, and then, unless a task panicked or has weight 0, a
  completed row or an errored one with the returned error, according to the result; all with the ids of
  the run. The rows whose writes fail are missing, and nothing else comes of the failures: the others are
  there, in this order, and nothing before them is touched. Both watchers of the repository leave the
  same trail.
\<close>

theorem run_leaves_its_trail:
  assumes "joins (sv_join_all sv) p" and "xs_events st = []"
    and "execute_unscoped sv run_id p inputs ctx st = (st', result)"
  shows "foldl (\<lambda>r e. db_watch re lost e r) trail (xs_events st')
      = trail @ kept lost (call_trail re sv run_id p inputs ctx result) \<and>
    rg_rows (watch_run send re lost k (xs_events st') rg)
      = rg_rows rg @ kept lost (call_trail re sv run_id p inputs ctx result)"
  using watched_run [OF assms] by blast

lemma sample_joins: "joins (sv_join_all sample_services) (sample_pipeline ts)"
  by (simp add: joins_def sample_defs)

theorem run_leaves_its_trail_witness:
  "\<exists>st'. foldl (\<lambda>r e. db_watch \<lparr>re_v5 = length, re_show = show_nat\<rparr> (\<lambda>s. s = Started) e r) [] (xs_events (st' :: nat exec_state))
     = [info_row (run_info_of sample_services 9 (sample_pipeline [task_info_new letters]) [Plain [7, 8]] sample_ctx)
          Initiated (Some run_info_for_initiated),
        info_row (run_info_of sample_services 9 (sample_pipeline [task_info_new letters]) [Plain [7, 8]] sample_ctx)
          Completed (Some (run_info_for_running show_nat []))]"
proof -
  obtain st' where run: "execute_unscoped sample_services 9 (sample_pipeline [task_info_new letters])
      [Plain [7, 8]] sample_ctx sample_state = (st', Inr [Plain [7], Plain [8]])"
    using sample_run by (metis prod.collapse)
  have ids: "ri_data_ids (run_info_of sample_services 9 (sample_pipeline [task_info_new letters]) [Plain [7, 8]] sample_ctx) = []"
    by (simp add: run_info_of_def sample_defs Let_def map_filter_def)
  have "xs_events sample_state = []" by (simp add: sample_state_def)
  from run_leaves_its_trail [OF sample_joins this run, of "\<lparr>re_v5 = length, re_show = show_nat\<rparr>" "\<lambda>s. s = Started" "[]"]
  show ?thesis
    by (auto simp: call_trail_def run_trail_def sample_runnable ids Let_def info_row_def)
qed

end
