(* ===== verification/Qualification.thy ===== *)
theory Qualification
  imports Run_Store Run_Claims Run_Trail
begin

text \<open>
  Whether a dataset may be processed again: \<open>crates/cognify/src/qualification.rs\<close>, over the rows that
  the watchers of earlier runs wrote, and what clears a dataset that a killed process left in
  flight (\<open>reset_orphans\<close>).
\<close>

datatype qualification =
    Proceed
  | AlreadyRunning stored_run
  | AlreadyCompleted stored_run

definition check_pipeline_run_qualification ::
  "(stored_run list \<Rightarrow> stored_run list) \<Rightarrow> uuid \<Rightarrow> ustr \<Rightarrow> stored_run list \<Rightarrow> qualification" where
  "check_pipeline_run_qualification nf ds name rows =
     (case get_pipeline_run_by_dataset nf ds name rows of
        None \<Rightarrow> Proceed
      | Some run \<Rightarrow>
          (case sr_status run of
             Initiated \<Rightarrow> Proceed
           | Errored \<Rightarrow> Proceed
           | Started \<Rightarrow> AlreadyRunning run
           | Completed \<Rightarrow> AlreadyCompleted run))"

section \<open>The trail of a run in the table\<close>

text \<open>A watcher hands each row of a run's trail to \<open>log_pipeline_run_entry\<close>.\<close>

definition entry_of :: "run_row \<Rightarrow> run_entry" where
  "entry_of r = \<lparr>en_run_id = rr_run_id r, en_pipeline_id = rr_pipeline_id r,
     en_pipeline_name = rr_pipeline_name r, en_dataset_id = rr_dataset_id r, en_status = rr_status r,
     en_run_info = rr_run_info r, en_user_id = rr_user_id r\<rparr>"

fun log_trail :: "(nat \<Rightarrow> int \<times> uuid) \<Rightarrow> nat \<Rightarrow> run_row list \<Rightarrow> stored_run list \<Rightarrow> stored_run list" where
  "log_trail stamps k [] rows = rows"
| "log_trail stamps k (r # rs) rows =
     log_trail stamps (Suc k) rs
       (log_pipeline_run_entry (fst (stamps k)) (snd (stamps k)) (entry_of r) rows)"

definition ticking :: "(nat \<Rightarrow> int \<times> uuid) \<Rightarrow> stored_run list \<Rightarrow> bool" where
  "ticking stamps rows \<longleftrightarrow>
     (\<forall>i j. i < j \<longrightarrow> fst (stamps i) < fst (stamps j)) \<and> (\<forall>r \<in> set rows. sr_created_at r < fst (stamps 0))"

lemma log_trail_snoc:
  "log_trail stamps k (rs @ [r]) rows =
     log_pipeline_run_entry (fst (stamps (k + length rs))) (snd (stamps (k + length rs))) (entry_of r)
       (log_trail stamps k rs rows)"
  by (induction rs arbitrary: k rows) simp_all

lemma log_trail_times:
  assumes "ticking stamps rows" and "r \<in> set (log_trail stamps 0 rs rows)"
  shows "sr_created_at r < fst (stamps (length rs))"
  using assms(2)
proof (induction rs rule: rev_induct)
  case Nil
  then show ?case using assms(1) by (simp add: ticking_def)
next
  case (snoc x rs)
  have less: "fst (stamps (length rs)) < fst (stamps (Suc (length rs)))"
    using assms(1) by (simp add: ticking_def)
  from snoc.prems have "r \<in> set (log_trail stamps 0 rs rows) \<or> sr_created_at r = fst (stamps (length rs))"
    by (auto simp: log_trail_snoc log_pipeline_run_entry_def)
  with snoc.IH less show ?case by auto
qed

definition stored_as :: "int \<Rightarrow> uuid \<Rightarrow> run_row \<Rightarrow> stored_run" where
  "stored_as t i r = \<lparr>sr_id = i, sr_created_at = t, sr_status = rr_status r, sr_run_id = rr_run_id r,
     sr_pipeline_name = rr_pipeline_name r, sr_pipeline_id = rr_pipeline_id r,
     sr_dataset_id = rr_dataset_id r, sr_run_info = map_option sanitize_json (rr_run_info r),
     sr_user_id = rr_user_id r\<rparr>"

lemma log_entry_of:
  "log_pipeline_run_entry t i (entry_of r) rows = rows @ [stored_as t i r]"
  by (simp add: log_pipeline_run_entry_def entry_of_def stored_as_def)

context row_order
begin

text \<open>After a trail, the newest row of its pair is the trail's last row.\<close>

lemma by_dataset_after_trail:
  assumes "ticking stamps rows" and "rr_dataset_id r = Some ds" and "rr_pipeline_name r = name"
  shows "get_pipeline_run_by_dataset nf ds name (log_trail stamps 0 (rs @ [r]) rows) =
    Some (stored_as (fst (stamps (length rs))) (snd (stamps (length rs))) r)"
  unfolding log_trail_snoc log_entry_of
  by (simp, rule by_dataset_newest)
     (use assms log_trail_times [OF assms(1)] in \<open>auto simp: stored_as_def on_pair_def\<close>)

lemma by_dataset_other_trail:
  assumes "\<forall>r \<in> set rs. rr_dataset_id r \<noteq> Some ds \<or> rr_pipeline_name r \<noteq> name"
  shows "get_pipeline_run_by_dataset nf ds name (log_trail stamps k rs rows) =
    get_pipeline_run_by_dataset nf ds name rows"
  using assms
proof (induction rs arbitrary: k rows)
  case (Cons r rs)
  have "\<not> on_pair ds name (stored_as t i r)" for t i
    using Cons.prems by (auto simp: on_pair_def stored_as_def)
  with Cons show ?case by (simp add: log_entry_of by_dataset_other)
qed simp

end

section \<open>Retiring orphans\<close>

lemma first_per_set:
  "x \<in> set (first_per key seen xs) \<longleftrightarrow>
     (\<exists>ys zs. xs = ys @ x # zs \<and> key x \<notin> set seen \<and> key x \<notin> key ` set ys)"
proof (induction xs arbitrary: seen)
  case (Cons y ys)
  have split: "(\<exists>us zs. y # ys = us @ x # zs \<and> P us) \<longleftrightarrow> (x = y \<and> P []) \<or> (\<exists>us zs. ys = us @ x # zs \<and> P (y # us))" for P
    by (auto simp: Cons_eq_append_conv)
  show ?case unfolding split by (auto simp: Cons.IH)
qed simp

text \<open>
  The rows of one run have times of their own, and belong to one dataset and one pipeline.
\<close>

definition runs_ordered :: "stored_run list \<Rightarrow> bool" where
  "runs_ordered rows \<longleftrightarrow>
     distinct (map sr_id rows) \<and>
     (\<forall>r \<in> set rows. \<forall>r' \<in> set rows. sr_run_id r = sr_run_id r' \<longrightarrow>
        (sr_created_at r = sr_created_at r' \<longrightarrow> r = r') \<and>
        sr_dataset_id r = sr_dataset_id r' \<and> sr_pipeline_name r = sr_pipeline_name r')"

definition newest_of_run :: "stored_run list \<Rightarrow> stored_run \<Rightarrow> bool" where
  "newest_of_run rows r \<longleftrightarrow>
     r \<in> set rows \<and> (\<forall>r' \<in> set rows. sr_run_id r' = sr_run_id r \<longrightarrow> sr_created_at r' \<le> sr_created_at r)"

context row_order
begin

lemma in_flight_newest:
  "r \<in> set (latest_in_flight_rows nf rows) \<Longrightarrow> newest_of_run rows r \<and> in_flight (sr_status r)"
proof -
  assume "r \<in> set (latest_in_flight_rows nf rows)"
  then obtain ys zs where nf: "nf rows = ys @ r # zs" "sr_run_id r \<notin> sr_run_id ` set ys" and st: "in_flight (sr_status r)"
    by (auto simp: latest_in_flight_rows_def first_per_set)
  have "set rows = set (ys @ r # zs)" using set_nf [of rows] nf(1) by simp
  moreover have "\<forall>z \<in> set zs. sr_created_at z \<le> sr_created_at r"
    using newest_first [of rows] nf(1) by (simp add: sorted_wrt_append)
  moreover have "sr_run_id y \<noteq> sr_run_id r" if "y \<in> set ys" for y
    using nf(2) that by (metis image_eqI)
  ultimately show ?thesis using st by (auto simp: newest_of_run_def)
qed

lemma newest_in_flight:
  assumes "runs_ordered rows" and "newest_of_run rows r" and "in_flight (sr_status r)"
  shows "r \<in> set (latest_in_flight_rows nf rows)"
proof -
  have "r \<in> set (nf rows)" using assms(2) by (simp add: newest_of_run_def)
  then obtain ys zs where nf: "nf rows = ys @ r # zs" by (meson split_list)
  have "sr_run_id y \<noteq> sr_run_id r" if y: "y \<in> set ys" for y
  proof
    assume same: "sr_run_id y = sr_run_id r"
    have mem: "y \<in> set rows" using set_nf [of rows] nf y by auto
    have "sr_created_at r \<le> sr_created_at y"
      using newest_first [of rows] nf y by (simp add: sorted_wrt_append)
    with assms(2) mem same have "sr_created_at y = sr_created_at r"
      by (auto simp: newest_of_run_def intro: antisym)
    then have "y = r" using assms(1,2) mem same by (auto simp: runs_ordered_def newest_of_run_def)
    moreover have "distinct (nf rows)"
      using assms(1) rows_kept [of rows] by (metis distinct_map mset_eq_imp_distinct_iff runs_ordered_def)
    ultimately show False using nf y by auto
  qed
  then have "sr_run_id r \<notin> sr_run_id ` set ys" by (metis imageE)
  with nf have "r \<in> set (first_per sr_run_id [] (nf rows))" by (auto simp: first_per_set)
  with assms(3) show ?thesis by (simp add: latest_in_flight_rows_def)
qed

end

text \<open>The loop of \<open>reset_orphans\<close> finds every orphan and appends its successor.\<close>

definition fresh_stamps :: "(nat \<Rightarrow> int \<times> uuid) \<Rightarrow> stored_run list \<Rightarrow> bool" where
  "fresh_stamps stamps rows \<longleftrightarrow>
     (\<forall>k. \<forall>r \<in> set rows. sr_created_at r < fst (stamps k) \<and> sr_id r \<noteq> snd (stamps k)) \<and>
     inj (\<lambda>k. snd (stamps k))"

fun successors :: "(nat \<Rightarrow> int \<times> uuid) \<Rightarrow> json \<Rightarrow> nat \<Rightarrow> stored_run list \<Rightarrow> stored_run list" where
  "successors stamps info k [] = []"
| "successors stamps info k (r # rs) =
     errored_successor (fst (stamps k)) (snd (stamps k)) info r # successors stamps info (Suc k) rs"

lemma find_by_id_mem:
  "distinct (map sr_id rows) \<Longrightarrow> r \<in> set rows \<Longrightarrow> find_by_id (sr_id r) (rows @ ext) = Some r"
  by (induction rows) (auto simp: find_by_id_def)

lemma reset_loop:
  assumes "distinct (map sr_id rows)" and "set os \<subseteq> set rows"
  shows "foldl (reset_one stamps info) (rows @ ext, k) (map sr_id os) =
    (rows @ ext @ successors stamps info k os, k + length os)"
  using assms(2)
proof (induction os arbitrary: ext k)
  case (Cons r os)
  then have "find_by_id (sr_id r) (rows @ ext) = Some r"
    using find_by_id_mem [OF assms(1)] by simp
  with Cons.prems Cons.IH [of "ext @ [errored_successor (fst (stamps k)) (snd (stamps k)) info r]" "Suc k"]
  show ?case by (simp add: reset_one_def)
qed simp

lemma successors_mem:
  "x \<in> set (successors stamps info k os) \<Longrightarrow>
     \<exists>r j. r \<in> set os \<and> x = errored_successor (fst (stamps j)) (snd (stamps j)) info r"
proof (induction os arbitrary: k)
  case (Cons r os)
  then consider "x = errored_successor (fst (stamps k)) (snd (stamps k)) info r" | "x \<in> set (successors stamps info (Suc k) os)"
    by auto
  then show ?case
  proof cases
    case 2
    from Cons.IH [OF this] show ?thesis by auto
  qed auto
qed simp

lemma successors_of: "r \<in> set os \<Longrightarrow> \<exists>j. errored_successor (fst (stamps j)) (snd (stamps j)) info r \<in> set (successors stamps info k os)"
  by (induction os arbitrary: k) auto

lemma reset_orphans_eq:
  assumes "row_order nf" and "distinct (map sr_id rows)"
  shows "reset_orphans nf stamps reason rows =
    (rows @ successors stamps (reason_info reason) 0 (latest_in_flight_rows nf rows),
     length (latest_in_flight_rows nf rows))"
proof -
  have sub: "set (latest_in_flight_rows nf rows) \<subseteq> set rows"
    using row_order.in_flight_newest [OF assms(1)] by (auto simp: newest_of_run_def)
  show ?thesis
    using reset_loop [OF assms(2) sub, of stamps "reason_info reason" "[]" 0]
    by (simp add: reset_orphans_def Let_def)
qed

section \<open>Properties\<close>

lemma errored_successor_simps [simp]:
  "sr_status (errored_successor t i info r) = Errored" "sr_run_id (errored_successor t i info r) = sr_run_id r"
  "sr_created_at (errored_successor t i info r) = t"
  "on_pair ds name (errored_successor t i info r) = on_pair ds name r"
  by (simp_all add: errored_successor_def on_pair_def)

context row_order
begin

text \<open>A run in flight has a successor that is newer than all its rows.\<close>

lemma retired:
  assumes "runs_ordered tbl" and "fresh_stamps stamps tbl" and "newest_of_run tbl r" and "in_flight (sr_status r)"
  obtains x where "x \<in> set (successors stamps info 0 (latest_in_flight_rows nf tbl))"
    and "sr_run_id x = sr_run_id r" and "\<And>ds name. on_pair ds name x = on_pair ds name r"
    and "sr_created_at r < sr_created_at x"
proof -
  have "r \<in> set (latest_in_flight_rows nf tbl)" by (rule newest_in_flight [OF assms(1,3,4)])
  from successors_of [OF this, of stamps info 0] obtain j where
    "errored_successor (fst (stamps j)) (snd (stamps j)) info r \<in> set (successors stamps info 0 (latest_in_flight_rows nf tbl))" ..
  then show thesis
    by (rule that) (use assms(2,3) in \<open>auto simp: fresh_stamps_def newest_of_run_def\<close>)
qed

lemma none_in_flight:
  assumes "runs_ordered tbl" and "fresh_stamps stamps tbl"
  shows "latest_in_flight_rows nf (tbl @ successors stamps info 0 (latest_in_flight_rows nf tbl)) = []"
proof -
  let ?new = "successors stamps info 0 (latest_in_flight_rows nf tbl)"
  have False if "r \<in> set (latest_in_flight_rows nf (tbl @ ?new))" for r
  proof -
    have r: "newest_of_run (tbl @ ?new) r" "in_flight (sr_status r)" using in_flight_newest [OF that] by auto
    then have "r \<notin> set ?new" by (auto dest: successors_mem simp: in_flight_def)
    with r have "newest_of_run tbl r" by (auto simp: newest_of_run_def)
    then obtain x where "x \<in> set ?new" "sr_run_id x = sr_run_id r" "sr_created_at r < sr_created_at x"
      by (rule retired [OF assms _ r(2)])
    with r(1) show False by (auto simp: newest_of_run_def)
  qed
  then show ?thesis by (metis list.set_intros(1) neq_Nil_conv)
qed

lemma nobody_running:
  assumes "runs_ordered tbl" and "fresh_stamps stamps tbl"
  shows "check_pipeline_run_qualification nf ds name
    (tbl @ successors stamps info 0 (latest_in_flight_rows nf tbl)) \<noteq> AlreadyRunning r"
proof
  let ?new = "successors stamps info 0 (latest_in_flight_rows nf tbl)"
  assume "check_pipeline_run_qualification nf ds name (tbl @ ?new) = AlreadyRunning r"
  then have r: "get_pipeline_run_by_dataset nf ds name (tbl @ ?new) = Some r" "sr_status r = Started"
    by (auto simp: check_pipeline_run_qualification_def split: option.splits db_status.splits)
  note M = by_dataset_mem [OF r(1)]
  have "r \<notin> set ?new" using r(2) by (auto dest: successors_mem)
  with M(1) have mem: "r \<in> set tbl" by auto
  have "newest_of_run tbl r"
    unfolding newest_of_run_def
  proof (intro conjI ballI impI mem)
    fix r' assume r': "r' \<in> set tbl" "sr_run_id r' = sr_run_id r"
    then have "sr_dataset_id r' = sr_dataset_id r \<and> sr_pipeline_name r' = sr_pipeline_name r"
      using mem assms(1) unfolding runs_ordered_def by blast
    then have "on_pair ds name r'" using M(2) by (simp add: on_pair_def)
    with M(3) r'(1) show "sr_created_at r' \<le> sr_created_at r" by auto
  qed
  moreover have "in_flight (sr_status r)" using r(2) by (simp add: in_flight_def)
  ultimately obtain x where "x \<in> set ?new" "on_pair ds name x = on_pair ds name r" "sr_created_at r < sr_created_at x"
    by (rule retired [OF assms]) blast
  with M(2,3) show False by auto
qed

end

text \<open>
  Retiring the orphans at startup leaves no run in flight and no dataset refused as already
  running; it adds one errored row per orphan and keeps every row there was.
\<close>

lemma reset_orphans_unblocks:
  assumes "newest_order nf" and "runs_ordered tbl" and "fresh_stamps stamps tbl"
    and "reset_orphans nf stamps reason tbl = (tbl', n)"
  shows "list_orphan_runs nf tbl' = [] \<and> n = length (list_orphan_runs nf tbl) \<and>
    (\<exists>new. tbl' = tbl @ new \<and> length new = n \<and> (\<forall>r \<in> set new. sr_status r = Errored)) \<and>
    (\<forall>ds name r. check_pipeline_run_qualification nf ds name tbl' \<noteq> AlreadyRunning r)"
proof -
  have ord: "row_order nf" using assms(1) by (simp add: row_order_iff)
  let ?new = "successors stamps (reason_info reason) 0 (latest_in_flight_rows nf tbl)"
  have eq: "tbl' = tbl @ ?new" "n = length (latest_in_flight_rows nf tbl)"
    using assms(4) reset_orphans_eq [OF ord, of tbl stamps reason] assms(2) by (simp_all add: runs_ordered_def)
  have "length (successors stamps info k os) = length os" for info k os
    by (induction os arbitrary: k) auto
  moreover have "\<forall>r \<in> set ?new. sr_status r = Errored" by (auto dest: successors_mem)
  ultimately show ?thesis
    unfolding eq list_orphan_runs_def
    using row_order.none_in_flight [OF ord assms(2,3)] row_order.nobody_running [OF ord assms(2,3)] by blast
qed

text \<open>What the newest row of a pair says of the next run.\<close>

definition judged :: "run_row \<Rightarrow> qualification \<Rightarrow> bool" where
  "judged r q \<longleftrightarrow>
     (case rr_status r of
        Initiated \<Rightarrow> q = Proceed
      | Errored \<Rightarrow> q = Proceed
      | Started \<Rightarrow> (\<exists>x. q = AlreadyRunning x \<and> sr_run_id x = rr_run_id r)
      | Completed \<Rightarrow> (\<exists>x. q = AlreadyCompleted x \<and> sr_run_id x = rr_run_id r))"

lemma log_trail_append:
  "log_trail stamps k (rs @ rs') tbl = log_trail stamps (k + length rs) rs' (log_trail stamps k rs tbl)"
  by (induction rs arbitrary: k tbl) simp_all

lemma log_trail_shift: "log_trail stamps (n + k) rs tbl = log_trail (\<lambda>j. stamps (n + j)) k rs tbl"
  by (induction rs arbitrary: k tbl) (simp_all flip: add_Suc_right)

lemma verdict_after:
  assumes "newest_order nf" and "ticking (\<lambda>j. stamps (n + j)) tbl"
    and "rr_dataset_id r = Some ds" and "rr_pipeline_name r = name"
  shows "check_pipeline_run_qualification nf ds name (log_trail stamps n (rs @ [r]) tbl) =
    (let row = stored_as (fst (stamps (n + length rs))) (snd (stamps (n + length rs))) r in
     case rr_status r of Initiated \<Rightarrow> Proceed | Errored \<Rightarrow> Proceed | Started \<Rightarrow> AlreadyRunning row
     | Completed \<Rightarrow> AlreadyCompleted row)"
proof -
  have "row_order nf" using assms(1) by (simp add: row_order_iff)
  from row_order.by_dataset_after_trail [OF this assms(2-4), of rs] show ?thesis
    unfolding log_trail_shift [of stamps n 0, simplified]
    by (simp add: check_pipeline_run_qualification_def stored_as_def Let_def)
qed

lemma judged_by_last:
  assumes "newest_order nf" and "ticking (\<lambda>j. stamps (n + j)) tbl" and "rows \<noteq> []"
    and "\<forall>r \<in> set rows. rr_dataset_id r = Some ds \<and> rr_pipeline_name r = name"
  shows "judged (last rows) (check_pipeline_run_qualification nf ds name (log_trail stamps n rows tbl))"
proof -
  obtain rs r where rows: "rows = rs @ [r]" using assms(3) by (cases rows rule: rev_cases) auto
  have pair: "rr_dataset_id r = Some ds" "rr_pipeline_name r = name" using assms(4) by (simp_all add: rows)
  from verdict_after [OF assms(1,2) pair, of rs] show ?thesis
    by (simp add: rows judged_def stored_as_def Let_def split: db_status.split)
qed

lemma call_trail_rows:
  assumes "r \<in> set (call_trail re sv run_id p inputs ctx result)"
  shows "rr_dataset_id r = ctx_dataset ctx \<and> rr_pipeline_name r = name_or_empty (pl_name p) \<and> rr_run_id r = run_id"
proof -
  have "r \<in> set (run_trail re (run_info_of sv run_id p inputs ctx) result)"
    using assms by (auto simp: call_trail_def Let_def split: if_splits dest: in_set_takeD)
  then show ?thesis
    by (auto simp: run_trail_def info_row_def run_info_of_def Let_def split: sum.splits)
qed

text \<open>The statuses of the rows a call tries to write.\<close>

definition call_statuses :: "('v, 's) pipeline \<Rightarrow> exec_error + 'a list \<Rightarrow> db_status list" where
  "call_statuses p result =
     (if \<not> runnable p then []
      else [Initiated, Started] @
        (if result = Inl Panicked \<or> 0 \<in> set (map ti_weight (pl_tasks p)) then []
         else [case result of Inr _ \<Rightarrow> Completed | Inl _ \<Rightarrow> Errored]))"

lemma call_trail_statuses: "map rr_status (call_trail re sv run_id p inputs ctx result) = call_statuses p result"
  by (cases result) (auto simp: call_trail_def call_statuses_def run_trail_def info_row_def Let_def)

lemma kept_statuses: "map rr_status (kept lost rs) = filter (\<lambda>s. \<not> lost s) (map rr_status rs)"
  by (induction rs) simp_all

text \<open>
  C8: What the rows of a run say of the next one. A call tries to write an initiated and a started row
  and, unless a task panicked or has weight 0, a completed or an errored one; a row whose write fails is
  skipped. At every moment, while the run is under way, once it has ended, or when it was killed after
  any of its rows, the newest of its rows in the table decides: after an initiated or an errored row the
  pair is free, after a started one it is refused as running, and after a completed one it counts as
  completed, by this run. Before the first row, and for every other pair, the verdict is as it was. This
  is said of a call on a dataset, beside which nobody writes to the table, whose clock is ahead of its
  rows; of rows with one time the order of reading is left open.
\<close>

theorem run_decides_the_next:
  assumes "newest_order nf" and "joins (sv_join_all sv) p" and "xs_events st = []"
    and "execute_unscoped sv run_id p inputs ctx st = (st', result)"
    and "ctx_dataset ctx = Some ds" and "ticking stamps tbl"
  shows "let trail = foldl (\<lambda>r e. db_watch re lost e r) [] (xs_events st');
             name = name_or_empty (pl_name p);
             verdict = (\<lambda>ds' name' n. check_pipeline_run_qualification nf ds' name' (log_trail stamps 0 (take n trail) tbl))
         in map rr_status trail = filter (\<lambda>s. \<not> lost s) (call_statuses p result) \<and>
            (\<forall>n. take n trail \<noteq> [] \<longrightarrow>
               judged (last (take n trail)) (verdict ds name n) \<and> rr_run_id (last (take n trail)) = run_id) \<and>
            (\<forall>n ds' name'. take n trail = [] \<or> (ds', name') \<noteq> (ds, name) \<longrightarrow> verdict ds' name' n = verdict ds' name' 0)"
proof -
  let ?trail = "kept lost (call_trail re sv run_id p inputs ctx result)"
  let ?name = "name_or_empty (pl_name p)"
  have ord: "row_order nf" using assms(1) by (simp add: row_order_iff)
  have watched: "foldl (\<lambda>r e. db_watch re lost e r) [] (xs_events st') = ?trail"
    using watched_run(1) [OF assms(2-4), of re lost "[]"] by simp
  have rows: "rr_dataset_id r = Some ds \<and> rr_pipeline_name r = ?name \<and> rr_run_id r = run_id"
    if "r \<in> set (take n ?trail)" for r n
    using call_trail_rows [of r re sv run_id p inputs ctx result] in_set_takeD [OF that] assms(5) by (auto simp: kept_def)
  have statuses: "map rr_status ?trail = filter (\<lambda>s. \<not> lost s) (call_statuses p result)"
    by (simp only: kept_statuses call_trail_statuses)
  have judge: "judged (last (take n ?trail)) (check_pipeline_run_qualification nf ds ?name (log_trail stamps 0 (take n ?trail) tbl))"
    if "take n ?trail \<noteq> []" for n
    by (rule judged_by_last [OF assms(1) _ that]) (use assms(6) rows in simp_all)
  have run: "rr_run_id (last (take n ?trail)) = run_id" if "take n ?trail \<noteq> []" for n
    using rows [OF last_in_set [OF that]] by simp
  have other: "check_pipeline_run_qualification nf ds' name' (log_trail stamps 0 (take n ?trail) tbl) =
      check_pipeline_run_qualification nf ds' name' tbl"
    if "take n ?trail = [] \<or> (ds', name') \<noteq> (ds, ?name)" for n ds' name'
  proof (cases "take n ?trail = []")
    case False
    with that have "\<forall>r \<in> set (take n ?trail). rr_dataset_id r \<noteq> Some ds' \<or> rr_pipeline_name r \<noteq> name'"
      using rows [of _ n] by auto
    from row_order.by_dataset_other_trail [OF ord this] show ?thesis by (simp add: check_pipeline_run_qualification_def)
  next
    case True
    show ?thesis unfolding True by simp
  qed
  show ?thesis
    unfolding Let_def watched
    using statuses judge run other by (intro conjI allI impI) simp_all
qed

section \<open>Witnesses\<close>

definition sample_table :: "stored_run list" where
  "sample_table =
     [\<lparr>sr_id = 30, sr_created_at = 2, sr_status = Initiated, sr_run_id = 6, sr_pipeline_name = [7],
       sr_pipeline_id = 8, sr_dataset_id = Some 4, sr_run_info = None, sr_user_id = None\<rparr>,
      \<lparr>sr_id = 31, sr_created_at = 3, sr_status = Started, sr_run_id = 6, sr_pipeline_name = [7],
       sr_pipeline_id = 8, sr_dataset_id = Some 4, sr_run_info = None, sr_user_id = None\<rparr>]"

definition sample_stamps :: "nat \<Rightarrow> int \<times> uuid" where "sample_stamps k = (10 + int k, 40 + k)"

lemma sample_fresh: "runs_ordered sample_table" "fresh_stamps sample_stamps sample_table"
  "ticking sample_stamps sample_table"
  by (auto simp: runs_ordered_def fresh_stamps_def ticking_def sample_table_def sample_stamps_def inj_def)

lemma newest_by_time: "newest_order by_time_desc"
  using by_time.row_order_axioms by (simp add: row_order_iff)

definition dataset_ctx :: "ustr task_ctx" where
  "dataset_ctx = \<lparr>tc_pipeline = Some \<lparr>pc_user_id = None, pc_tenant_id = None, pc_dataset_id = Some 4,
     pc_user_label = None, pc_current_data = None, pc_run_id = None\<rparr>, tc_progress = 0\<rparr>"

lemma dataset_run:
  "snd (execute_unscoped sample_services 9 (sample_pipeline [task_info_new letters]) [Plain [7, 8]]
     dataset_ctx sample_state) = Inr [Plain [7], Plain [8]]"
  by (simp add: run_eval sample_defs dataset_ctx_def letters_def progress_split_def acquire_def effective_limiter_def
      max_attempts_def with_run_id_def with_current_data_def)

theorem run_decides_the_next_witness:
  "\<exists>st' r. sr_run_id r = 9 \<and> check_pipeline_run_qualification by_time_desc 4 []
     (log_trail sample_stamps 0 (foldl (\<lambda>r e. db_watch \<lparr>re_v5 = length, re_show = show_nat\<rparr> (\<lambda>s. s = Started) e r) []
        (xs_events (st' :: nat exec_state))) sample_table) = AlreadyCompleted r"
proof -
  let ?p = "sample_pipeline [task_info_new letters]"
  let ?result = "Inr [Plain [7 :: uchar], Plain [8]] :: exec_error + ustr pval list"
  obtain st' where run: "execute_unscoped sample_services 9 ?p [Plain [7, 8]] dataset_ctx sample_state = (st', ?result)"
    using dataset_run by (metis prod.collapse)
  have name: "name_or_empty (pl_name ?p) = []"
    by (simp add: sample_pipeline_def pipeline_new_def name_or_empty_def)
  have st: "xs_events sample_state = []" "ctx_dataset dataset_ctx = Some 4"
    by (simp_all add: sample_state_def ctx_dataset_def dataset_ctx_def)
  let ?trail = "foldl (\<lambda>r e. db_watch \<lparr>re_v5 = length, re_show = show_nat\<rparr> (\<lambda>s. s = Started) e r) [] (xs_events st')"
  note all = run_decides_the_next [OF newest_by_time sample_joins st(1) run st(2) sample_fresh(3),
      of "\<lparr>re_v5 = length, re_show = show_nat\<rparr>" "\<lambda>s. s = Started", unfolded Let_def name]
  have statuses: "map rr_status ?trail = [Initiated, Completed]"
    using conjunct1 [OF all] by (simp add: call_statuses_def sample_runnable)
  then have len: "take 2 ?trail = ?trail" "?trail \<noteq> []" and final: "rr_status (last ?trail) = Completed"
    by (auto dest: map_eq_Cons_D)
  from conjunct1 [OF conjunct2 [OF all]] len have "judged (last ?trail) (check_pipeline_run_qualification by_time_desc 4 []
      (log_trail sample_stamps 0 ?trail sample_table)) \<and> rr_run_id (last ?trail) = 9"
    by (metis (no_types, lifting))
  with final obtain r where "sr_run_id r = 9" "check_pipeline_run_qualification by_time_desc 4 []
      (log_trail sample_stamps 0 ?trail sample_table) = AlreadyCompleted r"
    by (auto simp: judged_def)
  then show ?thesis by (intro exI [of _ st'] exI [of _ r] conjI)
qed

end
