(* ===== verification/Recovery.thy ===== *)
theory Recovery
  imports Sweep_Props Qualification
begin

text \<open>
  What a process does about the runs that a killed predecessor left in flight:
  \<open>crates/delete/src/startup_recovery.rs\<close> rolls back their artifacts, \<open>sweep_killed_run_leftovers\<close> of
  \<open>crates/bindings-common/src/services.rs\<close> then retires their rows and drops the claims, once per
  database and only where the deployment asserts a single process, and \<open>new_with_orphan_reset\<close> of
  \<open>crates/core/src/pipeline_run_registry/default_impl.rs\<close> does the last two for the server.
\<close>

record orphan_sweep =
  os_runs_found :: nat
  os_runs_swept :: nat
  os_runs_failed :: nat
  os_runs_without_dataset :: nat
  os_graph_nodes_deleted :: nat
  os_vector_points_deleted :: nat
  os_provenance_nodes_deleted :: nat
  os_provenance_edges_deleted :: nat

definition orphan_sweep_default :: orphan_sweep where
  "orphan_sweep_default = \<lparr>os_runs_found = 0, os_runs_swept = 0, os_runs_failed = 0,
     os_runs_without_dataset = 0, os_graph_nodes_deleted = 0, os_vector_points_deleted = 0,
     os_provenance_nodes_deleted = 0, os_provenance_edges_deleted = 0\<rparr>"

text \<open>
  The sweep of one orphan. The sweep's failure is one more warning of its outcome, so a run counts as
  swept when there is no warning and no failure. \<open>fl\<close> says which statements of which sweep fail.
\<close>

definition orphan_scope :: "stored_run \<Rightarrow> uuid \<Rightarrow> sweep_scope" where
  "orphan_scope r ds = sweep_whole_run (sr_run_id r) ds"

definition sweep_orphan ::
  "sweep_env \<Rightarrow> ('g, 'v) artifact_ops \<Rightarrow> (stored_run \<Rightarrow> faults) \<Rightarrow> (uuid \<Rightarrow> string list)
     \<Rightarrow> ('g, 'v) sweep_world \<times> orphan_sweep \<Rightarrow> stored_run \<Rightarrow> ('g, 'v) sweep_world \<times> orphan_sweep" where
  "sweep_orphan env ops fl keys_of st r =
     (let (w, rep) = st in
      case sr_dataset_id r of
        None \<Rightarrow> (w, rep\<lparr>os_runs_without_dataset := Suc (os_runs_without_dataset rep)\<rparr>)
      | Some ds \<Rightarrow>
          (let (w', oc, err) = sweep_logging_failure env ops (fl r) keys_of (orphan_scope r ds) w;
               rep1 = rep\<lparr>os_graph_nodes_deleted := os_graph_nodes_deleted rep + oc_graph_nodes_deleted oc,
                 os_vector_points_deleted := os_vector_points_deleted rep + oc_vector_points_deleted oc,
                 os_provenance_nodes_deleted := os_provenance_nodes_deleted rep + oc_provenance_nodes_deleted oc,
                 os_provenance_edges_deleted := os_provenance_edges_deleted rep + oc_provenance_edges_deleted oc\<rparr>
           in (w', if err = None \<and> oc_warnings oc = []
                   then rep1\<lparr>os_runs_swept := Suc (os_runs_swept rep1)\<rparr>
                   else rep1\<lparr>os_runs_failed := Suc (os_runs_failed rep1)\<rparr>)))"

definition sweep_orphaned_run_artifacts ::
  "sweep_env \<Rightarrow> ('g, 'v) artifact_ops \<Rightarrow> (stored_run \<Rightarrow> faults) \<Rightarrow> (uuid \<Rightarrow> string list)
     \<Rightarrow> ustr + stored_run list \<Rightarrow> ('g, 'v) sweep_world \<Rightarrow> ('g, 'v) sweep_world \<times> orphan_sweep" where
  "sweep_orphaned_run_artifacts env ops fl keys_of listed w =
     (case listed of
        Inl _ \<Rightarrow> (w, orphan_sweep_default)
      | Inr orphans \<Rightarrow>
          foldl (sweep_orphan env ops fl keys_of)
            (w, orphan_sweep_default\<lparr>os_runs_found := length orphans\<rparr>) orphans)"

text \<open>
  The three steps at startup. \<open>gate\<close> is the cell of the database: it is set by the first build that
  looks. Each \<open>..._fails\<close> is a statement of the repository that fails; the next step is tried anyway.
\<close>

record recovery_faults =
  rf_list_fails :: "ustr option"
  rf_reset_fails :: "ustr option"
  rf_claims_fail :: "ustr option"

definition no_recovery_faults :: recovery_faults where
  "no_recovery_faults = \<lparr>rf_list_fails = None, rf_reset_fails = None, rf_claims_fail = None\<rparr>"

record ('g, 'v) startup =
  su_gate :: "bool option"
  su_world :: "('g, 'v) sweep_world"
  su_table :: "stored_run list"
  su_claims :: claims

definition reset_and_release ::
  "(stored_run list \<Rightarrow> stored_run list) \<Rightarrow> (nat \<Rightarrow> int \<times> uuid) \<Rightarrow> ustr \<Rightarrow> recovery_faults \<Rightarrow> bool
     \<Rightarrow> stored_run list \<times> claims \<Rightarrow> stored_run list \<times> claims" where
  "reset_and_release nf stamps reason rf sweep_claims st =
     (let (tbl, cs) = st in
      (if rf_reset_fails rf = None then fst (reset_orphans nf stamps reason tbl) else tbl,
       if sweep_claims \<and> rf_claims_fail rf = None then fst (release_all_pipeline_run_claims cs) else cs))"

definition sweep_killed_run_leftovers ::
  "sweep_env \<Rightarrow> ('g, 'v) artifact_ops \<Rightarrow> (stored_run \<Rightarrow> faults) \<Rightarrow> (uuid \<Rightarrow> string list)
     \<Rightarrow> (stored_run list \<Rightarrow> stored_run list) \<Rightarrow> (nat \<Rightarrow> int \<times> uuid) \<Rightarrow> recovery_faults \<Rightarrow> bool
     \<Rightarrow> ('g, 'v) startup \<Rightarrow> ('g, 'v) startup \<times> orphan_sweep" where
  "sweep_killed_run_leftovers env ops fl keys_of nf stamps rf single_process s =
     (case su_gate s of
        Some _ \<Rightarrow> (s, orphan_sweep_default)
      | None \<Rightarrow>
          if \<not> single_process then (s\<lparr>su_gate := Some False\<rparr>, orphan_sweep_default)
          else
            (let listed = (case rf_list_fails rf of Some e \<Rightarrow> Inl e | None \<Rightarrow> Inr (list_orphan_runs nf (su_table s)));
                 (w', rep) = sweep_orphaned_run_artifacts env ops fl keys_of listed (su_world s);
                 (tbl', cs') = reset_and_release nf stamps (ascii ''sdk_startup_orphan_single_process'') rf True
                                 (su_table s, su_claims s)
             in (\<lparr>su_gate = Some True, su_world = w', su_table = tbl', su_claims = cs'\<rparr>, rep)))"

text \<open>The server's registry does the clears, with the claims under a flag, and reports the first error.\<close>

definition server_orphan_reset ::
  "(stored_run list \<Rightarrow> stored_run list) \<Rightarrow> (nat \<Rightarrow> int \<times> uuid) \<Rightarrow> recovery_faults \<Rightarrow> bool
     \<Rightarrow> stored_run list \<times> claims \<Rightarrow> (stored_run list \<times> claims) \<times> ustr option" where
  "server_orphan_reset nf stamps rf sweep_claims st =
     (reset_and_release nf stamps (ascii ''server_restart_orphan'') rf sweep_claims st,
      case rf_reset_fails rf of
        Some e \<Rightarrow> Some e
      | None \<Rightarrow> if sweep_claims then rf_claims_fail rf else None)"

section \<open>One orphan after another\<close>

lemma sweep_logging_run:
  assumes "sweep_logging_failure env ops faults keys_of sc w = (w', oc, err)"
  obtains r where "run_in_scope env ops faults keys_of sc w outcome_default = (w', oc, r)"
    and "err = None \<longrightarrow> r = Inr ()"
  using assms by (auto simp: sweep_logging_failure_def split: prod.splits sum.splits)

lemma sweep_orphan_cases:
  assumes "sweep_orphan env ops fl keys_of (w, rep) r = (w', rep')"
  obtains "sr_dataset_id r = None" "w' = w" "os_runs_failed rep' = os_runs_failed rep"
  | ds oc res where "sr_dataset_id r = Some ds"
      "run_in_scope env ops (fl r) keys_of (orphan_scope r ds) w outcome_default = (w', oc, res)"
      "res = Inr () \<and> os_runs_failed rep' = os_runs_failed rep \<or> os_runs_failed rep' = Suc (os_runs_failed rep)"
proof (cases "sr_dataset_id r")
  case None
  have "(w, rep\<lparr>os_runs_without_dataset := Suc (os_runs_without_dataset rep)\<rparr>) = (w', rep')"
    using assms by (simp add: sweep_orphan_def None)
  then show thesis by (intro that(1) [OF None]) auto
next
  case (Some ds)
  obtain w1 oc err where run: "sweep_logging_failure env ops (fl r) keys_of (orphan_scope r ds) w = (w1, oc, err)"
    by (metis prod_cases3)
  obtain res where res: "run_in_scope env ops (fl r) keys_of (orphan_scope r ds) w outcome_default = (w1, oc, res)"
    "err = None \<longrightarrow> res = Inr ()"
    by (rule sweep_logging_run [OF run])
  have "w' = w1" using assms by (simp add: sweep_orphan_def Some run Let_def)
  with assms res that(2) [OF Some, of oc res] show thesis
    by (auto simp: sweep_orphan_def Some run Let_def split: if_splits)
qed

text \<open>What every sweep leaves, the recovery leaves: rows and artifacts outside all the orphans' scopes.\<close>

definition outside_orphans :: "stored_run list \<Rightarrow> ledger_node \<Rightarrow> bool" where
  "outside_orphans orphans n \<longleftrightarrow>
     (\<forall>r \<in> set orphans. \<forall>ds. sr_dataset_id r = Some ds \<longrightarrow> node_outside (orphan_scope r ds) n)"

definition edge_outside_orphans :: "stored_run list \<Rightarrow> ledger_edge \<Rightarrow> bool" where
  "edge_outside_orphans orphans e \<longleftrightarrow>
     (\<forall>r \<in> set orphans. \<forall>ds. sr_dataset_id r = Some ds \<longrightarrow> edge_outside (orphan_scope r ds) e)"

lemma sweep_orphans_keep:
  assumes "foldl (sweep_orphan env memory_ops fl keys_of) (w, rep) orphans = (w', rep')"
    and "outside_orphans orphans n" and "n \<in> set (lg_nodes (sw_ledger w))"
  shows "n \<in> set (lg_nodes (sw_ledger w')) \<and>
    (gn_slug n \<in> graph_ids (sw_graph w) \<longrightarrow> gn_slug n \<in> graph_ids (sw_graph w'))"
  using assms
proof (induction orphans arbitrary: w rep)
  case (Cons r orphans)
  obtain w1 rep1 where one: "sweep_orphan env memory_ops fl keys_of (w, rep) r = (w1, rep1)" by fastforce
  have "n \<in> set (lg_nodes (sw_ledger w1)) \<and>
      (gn_slug n \<in> graph_ids (sw_graph w) \<longrightarrow> gn_slug n \<in> graph_ids (sw_graph w1))"
  proof (rule sweep_orphan_cases [OF one])
    fix ds oc res
    assume ds: "sr_dataset_id r = Some ds"
      and run: "run_in_scope env memory_ops (fl r) keys_of (orphan_scope r ds) w outcome_default = (w1, oc, res)"
    have out: "node_outside (orphan_scope r ds) n" using Cons.prems(2) ds by (simp add: outside_orphans_def)
    have "gn_slug n \<notin> exclusive_slugs (orphan_scope r ds) (sw_ledger w)"
      by (rule outside_slug [OF Cons.prems(3) out])
    with memory.run_in_scope_any [OF run] run_in_scope_rows(1) [OF run Cons.prems(3) out] show ?thesis by blast
  qed (use Cons.prems in simp)
  with Cons.IH [of w1 rep1] Cons.prems one show ?case by (auto simp: outside_orphans_def)
qed simp

text \<open>Sweeps only take rows away, and one that succeeds takes all rows of its scope, whatever the stores do.\<close>

lemma run_in_scope_fewer:
  assumes "run_in_scope env ops faults keys_of sc w oc = (w', oc', r)"
  shows "set (lg_nodes (sw_ledger w')) \<subseteq> set (lg_nodes (sw_ledger w)) \<and>
    set (lg_edges (sw_ledger w')) \<subseteq> set (lg_edges (sw_ledger w))"
  using assms
  by (auto simp: run_in_scope_def sweep_rows_and_markers_def query_def delete_nodes_for_run_eq
      delete_edges_for_run_eq Let_def split: prod.splits sum.splits option.splits if_splits)

lemma run_in_scope_takes_rows:
  assumes "run_in_scope env ops faults keys_of sc w oc = (w', oc', Inr u)"
  shows "sw_ledger w' = unselected sc (sw_ledger w)"
  using assms by (rule run_in_scope_success) (auto dest: rows_and_markers(6))

lemma sweep_orphan_fewer:
  "sweep_orphan env ops fl keys_of (w, rep) r = (w', rep') \<Longrightarrow>
     set (lg_nodes (sw_ledger w')) \<subseteq> set (lg_nodes (sw_ledger w)) \<and>
     set (lg_edges (sw_ledger w')) \<subseteq> set (lg_edges (sw_ledger w)) \<and> os_runs_failed rep \<le> os_runs_failed rep'"
  by (erule sweep_orphan_cases) (use run_in_scope_fewer in fastforce)+

text \<open>The rows of a ledger that has nothing of the orphans left.\<close>

definition no_orphan_rows :: "stored_run list \<Rightarrow> ledger \<Rightarrow> bool" where
  "no_orphan_rows orphans lg \<longleftrightarrow>
     (\<forall>n \<in> set (lg_nodes lg). outside_orphans orphans n) \<and> (\<forall>e \<in> set (lg_edges lg). edge_outside_orphans orphans e)"

lemma sweep_orphans_clear:
  assumes "foldl (sweep_orphan env ops fl keys_of) (w, rep) orphans = (w', rep')"
  shows "set (lg_nodes (sw_ledger w')) \<subseteq> set (lg_nodes (sw_ledger w)) \<and>
    set (lg_edges (sw_ledger w')) \<subseteq> set (lg_edges (sw_ledger w)) \<and> os_runs_failed rep \<le> os_runs_failed rep' \<and>
    (os_runs_failed rep' = os_runs_failed rep \<longrightarrow> no_orphan_rows orphans (sw_ledger w'))"
  using assms
proof (induction orphans arbitrary: w rep)
  case (Cons r orphans)
  obtain w1 rep1 where one: "sweep_orphan env ops fl keys_of (w, rep) r = (w1, rep1)" by fastforce
  note few = sweep_orphan_fewer [OF one]
  have rest: "set (lg_nodes (sw_ledger w')) \<subseteq> set (lg_nodes (sw_ledger w1))"
    "set (lg_edges (sw_ledger w')) \<subseteq> set (lg_edges (sw_ledger w1))" "os_runs_failed rep1 \<le> os_runs_failed rep'"
    "os_runs_failed rep' = os_runs_failed rep1 \<Longrightarrow> no_orphan_rows orphans (sw_ledger w')"
    using Cons.IH [of w1 rep1] Cons.prems one by simp_all
  have "no_orphan_rows (r # orphans) (sw_ledger w')" if same0: "os_runs_failed rep' = os_runs_failed rep"
  proof -
    have same: "os_runs_failed rep1 = os_runs_failed rep" using same0 few rest(3) by linarith
    have "(\<forall>n \<in> set (lg_nodes (sw_ledger w1)). node_outside (orphan_scope r ds) n) \<and>
        (\<forall>e \<in> set (lg_edges (sw_ledger w1)). edge_outside (orphan_scope r ds) e)" if ds: "sr_dataset_id r = Some ds" for ds
    proof (rule sweep_orphan_cases [OF one])
      fix ds' oc res
      assume "sr_dataset_id r = Some ds'"
        and run: "run_in_scope env ops (fl r) keys_of (orphan_scope r ds') w outcome_default = (w1, oc, res)"
        and "res = Inr () \<and> os_runs_failed rep1 = os_runs_failed rep \<or> os_runs_failed rep1 = Suc (os_runs_failed rep)"
      then have "ds' = ds" "res = Inr ()" using ds same by auto
      with run_in_scope_takes_rows [of env ops "fl r" keys_of "orphan_scope r ds" w outcome_default w1 oc "()"] run
      show ?thesis by (simp add: unselected_def)
    qed (use ds in simp)
    moreover have "no_orphan_rows orphans (sw_ledger w')" using rest(4) same0 same by simp
    ultimately show ?thesis
      using rest(1,2) by (auto simp: no_orphan_rows_def outside_orphans_def edge_outside_orphans_def)
  qed
  with few rest(1-3) show ?case by (intro conjI impI) (auto intro: order_trans)
qed (simp add: no_orphan_rows_def outside_orphans_def edge_outside_orphans_def)

text \<open>Retiring runs only appends, whatever the order in which the rows are read.\<close>

lemma reset_loop_appends:
  "\<exists>new. fst (foldl (reset_one stamps info) (tbl, k) ids) = tbl @ new \<and> (\<forall>r \<in> set new. sr_status r = Errored)"
proof (induction ids arbitrary: tbl k)
  case (Cons i ids)
  show ?case
  proof (cases "find_by_id i tbl")
    case None
    with Cons show ?thesis by (simp add: reset_one_def)
  next
    case (Some r)
    let ?x = "errored_successor (fst (stamps k)) (snd (stamps k)) info r"
    obtain new where "fst (foldl (reset_one stamps info) (tbl @ [?x], Suc k) ids) = (tbl @ [?x]) @ new"
      "\<forall>r \<in> set new. sr_status r = Errored"
      using Cons.IH [of "tbl @ [?x]" "Suc k"] by blast
    moreover have "reset_one stamps info (tbl, k) i = (tbl @ [?x], Suc k)" by (simp add: reset_one_def Some)
    ultimately show ?thesis by (intro exI [of _ "?x # new"]) simp
  qed
qed simp

lemma reset_orphans_appends:
  "\<exists>new. fst (reset_orphans nf stamps reason tbl) = tbl @ new \<and> (\<forall>r \<in> set new. sr_status r = Errored)"
  using reset_loop_appends [of stamps "reason_info reason" tbl 0 "map sr_id (latest_in_flight_rows nf tbl)"]
  by (auto simp: reset_orphans_def Let_def)

text \<open>The first look of an asserted single process, step by step.\<close>

lemma recovery_steps:
  assumes "sweep_killed_run_leftovers env ops fl keys_of nf stamps rf True s = (s', rep)" and "su_gate s = None"
  obtains listed w' where
    "sweep_orphaned_run_artifacts env ops fl keys_of listed (su_world s) = (w', rep)"
    and "listed = (case rf_list_fails rf of Some e \<Rightarrow> Inl e | None \<Rightarrow> Inr (list_orphan_runs nf (su_table s)))"
    and "s' = \<lparr>su_gate = Some True, su_world = w',
      su_table = fst (reset_and_release nf stamps (ascii ''sdk_startup_orphan_single_process'') rf True (su_table s, su_claims s)),
      su_claims = snd (reset_and_release nf stamps (ascii ''sdk_startup_orphan_single_process'') rf True (su_table s, su_claims s))\<rparr>"
  using assms by (auto simp: sweep_killed_run_leftovers_def Let_def split: prod.splits)

section \<open>Properties\<close>

text \<open>
  C14: After the first start of a single process, when nothing failed, whatever its killed predecessors
  left in flight is cleared: no dataset is refused as already running, every claim can be taken at once,
  and no ownership row, of a node or of an edge, is left of an orphaned run that names a dataset. (An
  orphaned run without a dataset is retired, but what it owns stays: a sweep needs the dataset.) Later
  starts on the same database do nothing. When nothing failed: no statement of the three steps and no
  sweep. Of the run table it is supposed that rows have ids of their own, that the rows of one run differ in
  their times and agree in dataset and pipeline, and that the rows which retire the orphans get new ids and
  times after all the others. The stores may be any: of artifacts nothing is claimed here.
\<close>

theorem recovery_frees_datasets:
  assumes "newest_order nf" and "runs_ordered (su_table s)" and "fresh_stamps stamps (su_table s)"
    and "su_gate s = None"
    and "sweep_killed_run_leftovers env ops fl keys_of nf stamps no_recovery_faults True s = (s', rep)"
    and "os_runs_failed rep = 0"
  shows "(\<forall>ds name r. check_pipeline_run_qualification nf ds name (su_table s') \<noteq> AlreadyRunning r) \<and>
    (\<forall>stale t1 t2 t3 pair cid. snd (try_claim_pipeline_run stale t1 t2 t3 pair cid (su_claims s')) = Inr True) \<and>
    (\<forall>r \<in> set (list_orphan_runs nf (su_table s)). \<forall>ds. sr_dataset_id r = Some ds \<longrightarrow>
       (\<forall>n \<in> set (lg_nodes (sw_ledger (su_world s'))). node_outside (sweep_whole_run (sr_run_id r) ds) n) \<and>
       (\<forall>e \<in> set (lg_edges (sw_ledger (su_world s'))). edge_outside (sweep_whole_run (sr_run_id r) ds) e)) \<and>
    sweep_killed_run_leftovers env ops fl keys_of nf stamps rf sp s' = (s', orphan_sweep_default)"
proof -
  let ?reason = "ascii ''sdk_startup_orphan_single_process''"
  obtain listed w' where
    sweeps: "sweep_orphaned_run_artifacts env ops fl keys_of listed (su_world s) = (w', rep)"
    "listed = Inr (list_orphan_runs nf (su_table s))"
    and s': "s' = \<lparr>su_gate = Some True, su_world = w', su_table = fst (reset_orphans nf stamps ?reason (su_table s)),
      su_claims = []\<rparr>"
    by (rule recovery_steps [OF assms(5,4)])
       (auto simp: reset_and_release_def no_recovery_faults_def release_all_pipeline_run_claims_def)
  have ord: "row_order nf" using assms(1) by (simp add: row_order_iff)
  have "distinct (map sr_id (su_table s))" using assms(2) by (simp add: runs_ordered_def)
  from row_order.nobody_running [OF ord assms(2,3)] reset_orphans_eq [OF ord this]
  have idle: "\<forall>ds name r. check_pipeline_run_qualification nf ds name (su_table s') \<noteq> AlreadyRunning r"
    by (simp add: s')
  have "no_orphan_rows (list_orphan_runs nf (su_table s)) (sw_ledger w')"
    using sweep_orphans_clear [of env ops fl keys_of "su_world s"
        "orphan_sweep_default\<lparr>os_runs_found := length (list_orphan_runs nf (su_table s))\<rparr>" _ w' rep] sweeps assms(6)
    by (simp add: sweep_orphaned_run_artifacts_def orphan_sweep_default_def)
  moreover have "snd (try_claim_pipeline_run stale t1 t2 t3 pair cid []) = Inr True" for stale t1 t2 t3 pair cid
    by (simp add: try_claim_pipeline_run_def insert_claim_def)
  ultimately show ?thesis
    using idle
    by (auto simp: s' sweep_killed_run_leftovers_def no_orphan_rows_def outside_orphans_def edge_outside_orphans_def
        orphan_scope_def)
qed

text \<open>
  Whatever fails, the recovery touches nothing but the orphans: ownership rows and graph nodes
  outside their scopes stay, run rows are only added, and those are errored. A process that is not
  asserted to be alone changes nothing, and neither does a later start.
\<close>

lemma recovery_touches_orphans_only:
  assumes "sweep_killed_run_leftovers env memory_ops fl keys_of nf stamps rf sp s = (s', rep)"
  shows "(\<forall>n \<in> set (lg_nodes (sw_ledger (su_world s))). outside_orphans (list_orphan_runs nf (su_table s)) n \<longrightarrow>
       n \<in> set (lg_nodes (sw_ledger (su_world s'))) \<and>
       (gn_slug n \<in> graph_ids (sw_graph (su_world s)) \<longrightarrow> gn_slug n \<in> graph_ids (sw_graph (su_world s')))) \<and>
    (\<exists>new. su_table s' = su_table s @ new \<and> (\<forall>r \<in> set new. sr_status r = Errored)) \<and>
    (\<not> sp \<or> su_gate s \<noteq> None \<longrightarrow> su_world s' = su_world s \<and> su_table s' = su_table s \<and> su_claims s' = su_claims s)"
proof (cases "sp \<and> su_gate s = None")
  case True
  let ?reason = "ascii ''sdk_startup_orphan_single_process''"
  obtain listed w' where
    sweeps: "sweep_orphaned_run_artifacts env memory_ops fl keys_of listed (su_world s) = (w', rep)"
    "listed = (case rf_list_fails rf of Some e \<Rightarrow> Inl e | None \<Rightarrow> Inr (list_orphan_runs nf (su_table s)))"
    and s': "su_world s' = w'" "su_table s' = fst (reset_and_release nf stamps ?reason rf True (su_table s, su_claims s))"
    using assms True by (auto elim: recovery_steps)
  have kept: "n \<in> set (lg_nodes (sw_ledger w')) \<and>
      (gn_slug n \<in> graph_ids (sw_graph (su_world s)) \<longrightarrow> gn_slug n \<in> graph_ids (sw_graph w'))"
    if n: "n \<in> set (lg_nodes (sw_ledger (su_world s)))" and out: "outside_orphans (list_orphan_runs nf (su_table s)) n" for n
  proof (cases "rf_list_fails rf")
    case None
    with sweeps show ?thesis
      using sweep_orphans_keep [OF _ out n] by (simp add: sweep_orphaned_run_artifacts_def)
  next
    case (Some e)
    with sweeps n show ?thesis by (simp add: sweep_orphaned_run_artifacts_def)
  qed
  have "\<exists>new. su_table s' = su_table s @ new \<and> (\<forall>r \<in> set new. sr_status r = Errored)"
    using reset_orphans_appends [of nf stamps ?reason "su_table s"]
    by (simp add: s' reset_and_release_def)
  with kept True show ?thesis unfolding s'(1) by (intro conjI ballI impI) (simp_all, blast?)
next
  case False
  with assms have "su_world s' = su_world s \<and> su_table s' = su_table s \<and> su_claims s' = su_claims s"
    by (auto simp: sweep_killed_run_leftovers_def split: option.splits if_splits)
  then show ?thesis by simp
qed

section \<open>Witnesses\<close>

text \<open>A process was killed in run 7 of dataset 4, which had written the world of the sweeps' samples.\<close>

definition killed_table :: "stored_run list" where
  "killed_table =
     [\<lparr>sr_id = 30, sr_created_at = 2, sr_status = Initiated, sr_run_id = 7, sr_pipeline_name = [7],
       sr_pipeline_id = 8, sr_dataset_id = Some 4, sr_run_info = None, sr_user_id = None\<rparr>,
      \<lparr>sr_id = 31, sr_created_at = 3, sr_status = Started, sr_run_id = 7, sr_pipeline_name = [7],
       sr_pipeline_id = 8, sr_dataset_id = Some 4, sr_run_info = None, sr_user_id = None\<rparr>]"

definition killed :: "((unit, unit) memory_graph, unit memory_vectors) startup" where
  "killed = \<lparr>su_gate = None, su_world = sample_world, su_table = killed_table,
     su_claims = [((4, [7]), \<lparr>cl_claim_id = 1, cl_claimed_at = 0\<rparr>)]\<rparr>"

lemma killed_fresh: "runs_ordered (su_table killed)" "fresh_stamps sample_stamps (su_table killed)"
  by (auto simp: killed_def runs_ordered_def fresh_stamps_def killed_table_def sample_stamps_def inj_def)

lemma killed_orphans: "list_orphan_runs by_time_desc (su_table killed) = [killed_table ! 1]"
  by (simp add: killed_def list_orphan_runs_def latest_in_flight_rows_def by_time_desc_def killed_table_def in_flight_def)

lemma killed_sweep:
  "sweep_logging_failure small_env memory_ops (\<lambda>_. None) sample_keys (sweep_whole_run 7 4) sample_world =
     (swept_world, small_outcome, None)"
  using sample_sweep by (auto simp: sweep_def sweep_logging_failure_def sample_scope_def split: prod.splits sum.splits)

lemma killed_recovery:
  "snd (sweep_killed_run_leftovers small_env memory_ops (\<lambda>_ _. None) sample_keys by_time_desc sample_stamps
     no_recovery_faults True killed) =
   orphan_sweep_default\<lparr>os_runs_found := 1, os_runs_swept := 1, os_graph_nodes_deleted := 1,
     os_vector_points_deleted := 2, os_provenance_nodes_deleted := 2, os_provenance_edges_deleted := 1\<rparr>"
proof -
  have "sweep_orphaned_run_artifacts small_env memory_ops (\<lambda>_ _. None) sample_keys (Inr [killed_table ! 1]) sample_world =
    (swept_world, orphan_sweep_default\<lparr>os_runs_found := 1, os_runs_swept := 1, os_graph_nodes_deleted := 1,
     os_vector_points_deleted := 2, os_provenance_nodes_deleted := 2, os_provenance_edges_deleted := 1\<rparr>)"
    by (simp add: sweep_orphaned_run_artifacts_def sweep_orphan_def killed_table_def orphan_scope_def killed_sweep
        small_outcome_def orphan_sweep_default_def)
  then show ?thesis
    using killed_orphans by (simp add: sweep_killed_run_leftovers_def no_recovery_faults_def killed_def split: prod.split)
qed

theorem recovery_frees_datasets_witness:
  "\<exists>s'. sweep_killed_run_leftovers small_env memory_ops (\<lambda>_ _. None) sample_keys by_time_desc sample_stamps
     no_recovery_faults True killed = (s', orphan_sweep_default\<lparr>os_runs_found := 1, os_runs_swept := 1, os_graph_nodes_deleted := 1,
     os_vector_points_deleted := 2, os_provenance_nodes_deleted := 2, os_provenance_edges_deleted := 1\<rparr>) \<and>
     check_pipeline_run_qualification by_time_desc 4 [7] (su_table s') \<noteq> AlreadyRunning (killed_table ! 1)"
proof -
  obtain s' where s': "sweep_killed_run_leftovers small_env memory_ops (\<lambda>_ _. None) sample_keys by_time_desc sample_stamps
     no_recovery_faults True killed = (s', orphan_sweep_default\<lparr>os_runs_found := 1, os_runs_swept := 1, os_graph_nodes_deleted := 1,
     os_vector_points_deleted := 2, os_provenance_nodes_deleted := 2, os_provenance_edges_deleted := 1\<rparr>)"
    using killed_recovery by (metis prod.collapse)
  show ?thesis
    using recovery_frees_datasets [OF newest_by_time killed_fresh _ s'] s'
    by (simp add: killed_def orphan_sweep_default_def)
qed

end
