(* ===== verification/Cognify_Config.thy ===== *)
theory Cognify_Config
  imports Failure_Policy Run_Info
begin

text \<open>
  The configuration of a cognify run: \<open>crates/cognify/src/config.rs\<close>. The failure ratio threshold is an
  \<open>f64\<close>: \<open>cc_ratio_finite\<close> is false for a NaN or an infinity, \<open>cc_chunk_failure_ratio_threshold\<close> is the
  value otherwise. Of a transcriber and a graph backend only their presence is recorded. \<open>compile\<close> is
  \<open>DynamicGraphSchema::compile\<close>, as its error; \<open>hf\<close> and \<open>tk\<close> are the cargo features of the counters.
\<close>

datatype chunk_attachment = Direct | AttachAll

datatype chunk_strategy = ParagraphStrategy | RecursiveStrategy

datatype extraction_strategy = SinglePass | Cascade nat

datatype config_error =
    InvalidParameter ustr
  | InvalidSummarySchema ustr
  | InvalidGraphSchema ustr

section \<open>Parsing\<close>

definition hex_digit :: "nat \<Rightarrow> uchar" where
  "hex_digit d = (if d < 10 then 48 + d else 87 + d)"

definition python_str_repr :: "ustr \<Rightarrow> ustr" where
  "python_str_repr t =
     (let quote = (if 39 \<in> set t \<and> 34 \<notin> set t then 34 else 39)
      in quote # concat (map (\<lambda>c.
           if c = 92 then [92, 92]
           else if c = 10 then ascii [CHR 0x5C, CHR ''n'']
           else if c = 13 then ascii [CHR 0x5C, CHR ''r'']
           else if c = 9 then ascii [CHR 0x5C, CHR ''t'']
           else if c = quote then [92, c]
           else if c < 32 \<or> 127 \<le> c \<and> c \<le> 160 then ascii [CHR 0x5C, CHR ''x''] @ [hex_digit (c div 16), hex_digit (c mod 16)]
           else [c]) t) @ [quote])"

definition parse_chunk_attachment :: "ustr \<Rightarrow> config_error + chunk_attachment" where
  "parse_chunk_attachment v =
     (if v = ascii ''direct'' then Inr Direct
      else if v = ascii ''all'' then Inr AttachAll
      else Inl (InvalidParameter (ascii ''Invalid chunk_attachment '' @ python_str_repr v @
             ascii ''; expected 'direct', 'all', or None.'')))"

definition chunk_attachment_str :: "chunk_attachment \<Rightarrow> ustr" where
  "chunk_attachment_str a = (case a of Direct \<Rightarrow> ascii ''direct'' | AttachAll \<Rightarrow> ascii ''all'')"

definition json_kind :: "json \<Rightarrow> string" where
  "json_kind v =
     (case v of JNull \<Rightarrow> ''null'' | JBool _ \<Rightarrow> ''a boolean'' | JNum _ \<Rightarrow> ''a number''
      | JStr _ \<Rightarrow> ''a string'' | JArr _ \<Rightarrow> ''an array'' | JObj _ \<Rightarrow> ''an object'')"

text \<open>\<open>parse\<close> is \<open>serde_json::from_str\<close>.\<close>

definition parse_graph_schema :: "(ustr \<Rightarrow> ustr + json) \<Rightarrow> json \<Rightarrow> config_error + json option" where
  "parse_graph_schema parse v =
     (case (case v of JStr t \<Rightarrow> parse t | _ \<Rightarrow> Inr v) of
        Inl e \<Rightarrow> Inl (InvalidParameter (ascii ''graph_schema string is not valid JSON: '' @ e))
      | Inr v' \<Rightarrow>
          (case v' of
             JNull \<Rightarrow> Inr None
           | JObj [] \<Rightarrow> Inr None
           | JObj _ \<Rightarrow> Inr (Some v')
           | _ \<Rightarrow> Inl (InvalidParameter
               (ascii ''graph_schema must be a JSON Schema object, got '' @ ascii (json_kind v')))))"

definition parse_extraction_strategy :: "ustr \<Rightarrow> nat \<Rightarrow> extraction_strategy option" where
  "parse_extraction_strategy name cascade_rounds =
     (let k = map ascii_lower (trim name) in
      if k \<in> {[], ascii ''single_pass'', ascii ''single-pass''} then Some SinglePass
      else if k = ascii ''cascade'' then Some (Cascade (max cascade_rounds 1))
      else None)"

section \<open>The configuration\<close>

record cognify_config =
  cc_max_chunk_size :: "nat option"
  cc_chunk_overlap :: nat
  cc_chunk_strategy :: chunk_strategy
  cc_chunks_per_batch :: nat
  cc_max_parallel_extractions :: nat
  cc_custom_extraction_prompt :: "ustr option"
  cc_extraction_strategy :: extraction_strategy
  cc_enable_summarization :: bool
  cc_embed_triplets :: bool
  cc_retain_embeddings :: bool
  cc_embedding_batch_size :: nat
  cc_vector_collection_prefix :: ustr
  cc_incremental_loading :: bool
  cc_use_pipeline_cache :: bool
  cc_temporal_cognify :: bool
  cc_create_web_page_nodes :: bool
  cc_data_per_batch :: nat
  cc_token_counter_kind :: token_counter_kind
  cc_token_count_mode :: token_count_mode
  cc_failure_stop :: failure_stop
  cc_rollback_scope :: rollback_scope
  cc_tolerate_summarization_failures :: bool
  cc_ratio_finite :: bool
  cc_chunk_failure_ratio_threshold :: rat
  cc_failure_report_cap :: nat
  cc_graph_schema :: "json option"
  cc_chunk_attachment :: "chunk_attachment option"
  cc_summary_schema :: "json option"
  cc_custom_chunker :: "(ustr \<Rightarrow> nat \<Rightarrow> ustr list) option"
  cc_has_transcriber :: bool
  cc_has_graph_backend :: bool

definition default_chunks_per_batch :: nat where "default_chunks_per_batch = 2000"

definition default_max_parallel_extractions :: "bool \<Rightarrow> nat" where
  "default_max_parallel_extractions mobile = (if mobile then 128 else 1000)"

definition config_default :: "bool \<Rightarrow> cognify_config" where
  "config_default mobile = \<lparr>cc_max_chunk_size = None, cc_chunk_overlap = 10, cc_chunk_strategy = ParagraphStrategy,
     cc_chunks_per_batch = default_chunks_per_batch,
     cc_max_parallel_extractions = default_max_parallel_extractions mobile,
     cc_custom_extraction_prompt = None, cc_extraction_strategy = SinglePass, cc_enable_summarization = True,
     cc_embed_triplets = False, cc_retain_embeddings = False, cc_embedding_batch_size = 100,
     cc_vector_collection_prefix = [], cc_incremental_loading = True, cc_use_pipeline_cache = False,
     cc_temporal_cognify = False, cc_create_web_page_nodes = True, cc_data_per_batch = 20,
     cc_token_counter_kind = TikToken, cc_token_count_mode = Span, cc_failure_stop = FailFast,
     cc_rollback_scope = WholeRun, cc_tolerate_summarization_failures = False, cc_ratio_finite = True,
     cc_chunk_failure_ratio_threshold = fp_ratio_threshold default_policy,
     cc_failure_report_cap = fp_report_cap default_policy, cc_graph_schema = None, cc_chunk_attachment = None,
     cc_summary_schema = None, cc_custom_chunker = None, cc_has_transcriber = False, cc_has_graph_backend = False\<rparr>"

definition default_max_chunk_size :: nat where "default_max_chunk_size = 1500"

definition chunk_size :: "cognify_config \<Rightarrow> nat" where
  "chunk_size c = (case cc_max_chunk_size c of None \<Rightarrow> default_max_chunk_size | Some n \<Rightarrow> n)"

definition config_failure_policy :: "cognify_config \<Rightarrow> failure_policy" where
  "config_failure_policy c = \<lparr>fp_stop = cc_failure_stop c, fp_scope = cc_rollback_scope c,
     fp_tolerate_summarization = cc_tolerate_summarization_failures c,
     fp_ratio_threshold = cc_chunk_failure_ratio_threshold c, fp_report_cap = cc_failure_report_cap c\<rparr>"

definition auto_chunk_size :: "nat \<Rightarrow> nat \<Rightarrow> nat" where
  "auto_chunk_size embed_max llm_max_completion_tokens = max (min (llm_max_completion_tokens div 2) embed_max) 1"

definition with_auto_chunk_size :: "bool \<Rightarrow> bool \<Rightarrow> nat \<Rightarrow> nat \<Rightarrow> cognify_config \<Rightarrow> cognify_config" where
  "with_auto_chunk_size hf tk embed_max llm_max c =
     c\<lparr>cc_max_chunk_size := Some (fit_token_budget hf tk (cc_token_counter_kind c) (auto_chunk_size embed_max llm_max))\<rparr>"

definition refuse :: "string \<Rightarrow> config_error option" where
  "refuse msg = Some (InvalidParameter (ascii msg))"

definition validate :: "(json \<Rightarrow> ustr option) \<Rightarrow> cognify_config \<Rightarrow> config_error option" where
  "validate compile c =
     (if cc_chunk_attachment c \<noteq> None \<and> cc_graph_schema c = None
      then refuse ''chunk_attachment requires graph_schema''
      else if cc_graph_schema c \<noteq> None \<and> cc_has_graph_backend c
      then refuse ''graph_schema is only supported by the LLM extractor; unset graph_backend''
      else if cc_graph_schema c \<noteq> None \<and> (\<exists>n. cc_extraction_strategy c = Cascade n)
      then refuse ''graph_schema is only supported by the single_pass extraction strategy''
      else if cc_graph_schema c \<noteq> None \<and> cc_temporal_cognify c
      then refuse ''graph_schema is not supported with temporal_cognify''
      else case Option.bind (cc_graph_schema c) compile of
        Some e \<Rightarrow> Some (InvalidGraphSchema e)
      | None \<Rightarrow>
          if cc_max_chunk_size c = Some 0 then refuse ''max_chunk_size must be greater than 0''
          else if cc_chunks_per_batch c = 0 then refuse ''chunks_per_batch must be greater than 0''
          else if cc_max_parallel_extractions c = 0 then refuse ''max_parallel_extractions must be greater than 0''
          else if cc_embedding_batch_size c = 0 then refuse ''embedding_batch_size must be greater than 0''
          else if cc_data_per_batch c = 0 then refuse ''data_per_batch must be greater than 0''
          else if cc_extraction_strategy c = Cascade 0
          then refuse ''extraction_strategy cascade rounds must be greater than 0''
          else if \<not> cc_ratio_finite c \<or> \<not> (0 \<le> cc_chunk_failure_ratio_threshold c \<and> cc_chunk_failure_ratio_threshold c \<le> 1)
          then refuse ''chunk_failure_ratio_threshold must be a finite value between 0.0 and 1.0''
          else if cc_failure_report_cap c = 0 then refuse ''failure_report_cap must be greater than 0''
          else None)"

definition quoted :: "string \<Rightarrow> ustr" where
  "quoted s = [39] @ ascii s @ [39]"

definition validate_summary_schema :: "json \<Rightarrow> config_error option" where
  "validate_summary_schema schema =
     (case schema of
        JObj _ \<Rightarrow>
          (case json_get schema ''properties'' of
             Some (JObj props) \<Rightarrow>
               (case json_get (JObj props) ''summary'' of
                  None \<Rightarrow> Some (InvalidSummarySchema (ascii ''schema 'properties' must include a 'summary' field''))
                | Some summary \<Rightarrow>
                    (case json_get summary ''type'' of
                       None \<Rightarrow> None
                     | Some t \<Rightarrow> if t = JStr (ascii ''string'') then None
                         else Some (InvalidSummarySchema (quoted ''summary'' @ ascii '' field must be of type '' @ quoted ''string''))))
           | _ \<Rightarrow> Some (InvalidSummarySchema (ascii ''schema must have a 'properties' object'')))
      | _ \<Rightarrow> Some (InvalidSummarySchema (ascii ''schema must be a JSON object'')))"

definition with_summary_schema :: "json \<Rightarrow> cognify_config \<Rightarrow> config_error + cognify_config" where
  "with_summary_schema schema c =
     (case validate_summary_schema schema of Some e \<Rightarrow> Inl e | None \<Rightarrow> Inr (c\<lparr>cc_summary_schema := Some schema\<rparr>))"

text \<open>The configuration a run uses: the size is computed when the caller left it open, and checked again.\<close>

definition effective_config ::
  "(json \<Rightarrow> ustr option) \<Rightarrow> bool \<Rightarrow> bool \<Rightarrow> nat \<Rightarrow> nat \<Rightarrow> cognify_config \<Rightarrow> config_error + cognify_config" where
  "effective_config compile hf tk embed_max llm_max c =
     (case validate compile c of
        Some e \<Rightarrow> Inl e
      | None \<Rightarrow>
          if cc_max_chunk_size c = None
          then (let c' = with_auto_chunk_size hf tk embed_max llm_max c in
                case validate compile c' of Some e \<Rightarrow> Inl e | None \<Rightarrow> Inr c')
          else Inr c)"

section \<open>Properties\<close>

lemma guard_None:
  "((if b then refuse m else e) = None) = (\<not> b \<and> e = None)"
  "((case x of Some e \<Rightarrow> Some (f e) | None \<Rightarrow> y) = None) = (x = None \<and> y = None)"
  by (auto simp: refuse_def split: option.split)

lemmas validate_None = validate_def guard_None

lemma validate_size:
  "validate compile c = None \<Longrightarrow> cc_max_chunk_size c \<noteq> Some 0"
  unfolding validate_None by blast

lemma validate_resized:
  "validate compile c = None \<Longrightarrow> n \<noteq> 0 \<Longrightarrow> validate compile (c\<lparr>cc_max_chunk_size := Some n\<rparr>) = None"
  unfolding validate_None by simp

lemma fit_budget_bounds: "0 < b \<Longrightarrow> 0 < fit_token_budget hf tk k b \<and> fit_token_budget hf tk k b \<le> b"
  by (auto simp: fit_token_budget_def split: token_counter_kind.split)

lemma fitted_size:
  "0 < fit_token_budget hf tk k (auto_chunk_size embed_max llm_max)"
  "fit_token_budget hf tk k (auto_chunk_size embed_max llm_max) \<le> max 1 embed_max"
  "fit_token_budget hf tk k (auto_chunk_size embed_max llm_max) \<le> max 1 (llm_max div 2)"
proof -
  have "0 < auto_chunk_size embed_max llm_max" "auto_chunk_size embed_max llm_max \<le> max 1 embed_max"
    "auto_chunk_size embed_max llm_max \<le> max 1 (llm_max div 2)"
    by (auto simp: auto_chunk_size_def)
  with fit_budget_bounds [OF this(1), of hf tk k] show
    "0 < fit_token_budget hf tk k (auto_chunk_size embed_max llm_max)"
    "fit_token_budget hf tk k (auto_chunk_size embed_max llm_max) \<le> max 1 embed_max"
    "fit_token_budget hf tk k (auto_chunk_size embed_max llm_max) \<le> max 1 (llm_max div 2)"
    by auto
qed

lemma effective_config_valid:
  assumes "validate compile c = None"
  shows "effective_config compile hf tk embed_max llm_max c =
    Inr (case cc_max_chunk_size c of None \<Rightarrow> with_auto_chunk_size hf tk embed_max llm_max c | Some _ \<Rightarrow> c)"
  using validate_resized [OF assms, of "fit_token_budget hf tk (cc_token_counter_kind c) (auto_chunk_size embed_max llm_max)"]
    fitted_size(1) [of hf tk "cc_token_counter_kind c" embed_max llm_max]
  by (simp add: effective_config_def assms with_auto_chunk_size_def Let_def split: option.split)

text \<open>
  Computing the chunk size cannot fail a configuration that was valid: the second validation of a run
  always passes. The size the chunker then gets is positive, and a computed one exceeds neither the
  embedding engine's limit nor half of what the model may answer (beyond the floor of one token).
\<close>

lemma effective_config_sizes:
  "case effective_config compile hf tk embed_max llm_max c of
     Inl e \<Rightarrow> validate compile c = Some e
   | Inr c' \<Rightarrow> validate compile c = None \<and> validate compile c' = None \<and> 0 < chunk_size c' \<and>
       (case cc_max_chunk_size c of
          Some n \<Rightarrow> c' = c
        | None \<Rightarrow> c' = c\<lparr>cc_max_chunk_size := Some (chunk_size c')\<rparr> \<and>
            chunk_size c' \<le> max 1 embed_max \<and> chunk_size c' \<le> max 1 (llm_max div 2))"
proof (cases "validate compile c")
  case None
  let ?n = "fit_token_budget hf tk (cc_token_counter_kind c) (auto_chunk_size embed_max llm_max)"
  note n = fitted_size [of hf tk "cc_token_counter_kind c" embed_max llm_max]
  show ?thesis
    unfolding effective_config_valid [OF None]
    using None validate_size [OF None] validate_resized [OF None, of ?n] n
    by (auto simp: with_auto_chunk_size_def chunk_size_def split: option.split)
qed (simp add: effective_config_def)

lemma default_is_valid: "validate compile (config_default mobile) = None"
  by (simp add: validate_def config_default_def default_chunks_per_batch_def
      default_max_parallel_extractions_def default_policy_def)

text \<open>The parser and the printer of an attachment are inverse.\<close>

lemma chunk_attachment_roundtrip: "parse_chunk_attachment (chunk_attachment_str a) = Inr a"
  by (cases a) (simp_all add: parse_chunk_attachment_def chunk_attachment_str_def)

text \<open>A summary schema that is accepted may describe a string \<open>summary\<close>.\<close>

lemma summary_schema_set:
  "with_summary_schema schema c = Inr c' \<Longrightarrow>
     cc_summary_schema c' = Some schema \<and>
     (\<exists>props summary. json_get schema ''properties'' = Some props \<and> json_get props ''summary'' = Some summary \<and>
        json_get summary ''type'' \<in> {None, Some (JStr (ascii ''string''))})"
  by (auto simp: with_summary_schema_def validate_summary_schema_def
      split: option.splits json.splits if_splits)

end
