(* ===== verification/Completion_Markers.thy ===== *)
theory Completion_Markers
  imports Sweep
begin

text \<open>
  Completion markers: \<open>pipeline_status\<close> of a data item in \<open>crates/database/src/ops/data.rs\<close>. A marker of
  a dataset is written under the dashed form of its id; it is read, and cleared, under both forms that a
  database may hold. \<open>dashed\<close> and \<open>hexed\<close> are the two displays of a UUID. The rows are those of the
  sweep (\<open>sw_data\<close>), whose clearer \<open>clear_marker\<close> is \<open>clear_cognify_pipeline_status_for_data\<close>.
\<close>

record key_forms =
  kf_dashed :: "uuid \<Rightarrow> string"
  kf_hexed :: "uuid \<Rightarrow> string"

definition pipeline_status_dataset_key :: "key_forms \<Rightarrow> uuid \<Rightarrow> string" where
  "pipeline_status_dataset_key kf ds = kf_dashed kf ds"

definition pipeline_status_dataset_key_variants :: "key_forms \<Rightarrow> uuid \<Rightarrow> string list" where
  "pipeline_status_dataset_key_variants kf ds = [pipeline_status_dataset_key kf ds, kf_hexed kf ds]"

definition processing_completed :: ustr where
  "processing_completed = ascii ''DATA_ITEM_PROCESSING_COMPLETED''"

section \<open>One status\<close>

definition mark_status :: "string \<Rightarrow> json option \<Rightarrow> json option" where
  "mark_status key status =
     (let obj = (case status of Some (JObj kvs) \<Rightarrow> kvs | _ \<Rightarrow> []);
          inner = (case map_of obj cognify_key of Some (JObj kvs) \<Rightarrow> kvs | _ \<Rightarrow> [])
      in Some (JObj (AList.update cognify_key (JObj (AList.update key (JStr processing_completed) inner)) obj)))"

definition completed_status :: "string list \<Rightarrow> json option \<Rightarrow> bool" where
  "completed_status keys status =
     (case Option.bind status (\<lambda>v. json_get v cognify_key) of
        None \<Rightarrow> False
      | Some inner \<Rightarrow> list_ex (\<lambda>k. json_get inner k = Some (JStr processing_completed)) keys)"

definition clear_all_status :: "string list \<Rightarrow> json option \<Rightarrow> json option" where
  "clear_all_status keys status =
     (case status of
        Some (JObj obj) \<Rightarrow>
          if \<not> list_ex (\<lambda>(_, v). case v of JObj kvs \<Rightarrow> list_ex (\<lambda>(k, _). k \<in> set keys) kvs | _ \<Rightarrow> False) obj then status
          else
            (let obj' = map (\<lambda>(p, v). (p, case v of JObj kvs \<Rightarrow> JObj (filter (\<lambda>(k, _). k \<notin> set keys) kvs) | _ \<Rightarrow> v)) obj;
                 left = filter (\<lambda>(_, v). v \<noteq> JObj []) obj'
             in if left = [] then None else Some (JObj left))
      | _ \<Rightarrow> status)"

section \<open>The rows\<close>

definition mark_cognify_pipeline_status_complete ::
  "key_forms \<Rightarrow> uuid \<Rightarrow> uuid \<Rightarrow> (uuid \<times> json option) list \<Rightarrow> (uuid \<times> json option) list" where
  "mark_cognify_pipeline_status_complete kf data_id ds data =
     map (\<lambda>(i, st). (i, if i = data_id then mark_status (pipeline_status_dataset_key kf ds) st else st)) data"

definition get_cognify_completed_data_ids ::
  "key_forms \<Rightarrow> uuid \<Rightarrow> uuid list \<Rightarrow> (uuid \<times> json option) list \<Rightarrow> uuid set" where
  "get_cognify_completed_data_ids kf ds ids data =
     (if ids = [] then {}
      else set (concat (map (\<lambda>chunk. map fst (filter (\<lambda>(i, st). i \<in> set chunk \<and>
             completed_status (pipeline_status_dataset_key_variants kf ds) st) data)) (chunks_of 500 ids))))"

definition clear_pipeline_status_for_dataset ::
  "key_forms \<Rightarrow> (uuid \<Rightarrow> uuid list) \<Rightarrow> uuid \<Rightarrow> (uuid \<times> json option) list \<Rightarrow> (uuid \<times> json option) list \<times> nat" where
  "clear_pipeline_status_for_dataset kf linked ds data =
     (let cleared = (\<lambda>(i, st). if i \<in> set (linked ds)
                               then clear_all_status (pipeline_status_dataset_key_variants kf ds) st else st)
      in (map (\<lambda>r. (fst r, cleared r)) data, length (filter (\<lambda>r. cleared r \<noteq> snd r) data)))"

section \<open>What is read after what was written\<close>

text \<open>The entries of the cognify pipeline as a map; every operation is an update of it.\<close>

definition entries :: "json option \<Rightarrow> string \<rightharpoonup> json" where
  "entries status =
     (case status of
        Some (JObj obj) \<Rightarrow> (case map_of obj cognify_key of Some (JObj kvs) \<Rightarrow> map_of kvs | _ \<Rightarrow> Map.empty)
      | _ \<Rightarrow> Map.empty)"

lemma completed_entries:
  "completed_status keys st \<longleftrightarrow> (\<exists>k \<in> set keys. entries st k = Some (JStr processing_completed))"
  by (auto simp: completed_status_def entries_def json_get_def list_ex_iff split: option.split json.split)

lemma entries_mark: "entries (mark_status key st) = (entries st)(key \<mapsto> JStr processing_completed)"
  by (auto simp: entries_def mark_status_def Let_def update_conv' split: option.split json.split)

lemma map_of_filter_keys: "map_of (filter (\<lambda>(k, _). k \<notin> K) kvs) = map_of kvs |` (- K)"
  by (induction kvs) (auto simp: restrict_map_def fun_eq_iff)

lemma untouched_keys:
  "\<not> list_ex (\<lambda>(k, _). k \<in> K) kvs \<Longrightarrow> map_of kvs |` (- K) = map_of kvs"
proof -
  assume "\<not> list_ex (\<lambda>(k, _). k \<in> K) kvs"
  then have "filter (\<lambda>(k, _). k \<notin> K) kvs = kvs" by (induction kvs) auto
  then show ?thesis by (metis map_of_filter_keys)
qed

lemma emptied_keys: "filter (\<lambda>(k, _). k \<notin> K) kvs = [] \<Longrightarrow> map_of kvs |` (- K) = Map.empty"
  by (metis map_of.simps(1) map_of_filter_keys)

lemma emptied_key: "filter (\<lambda>(k, _). k \<notin> K) kvs = [] \<Longrightarrow> k \<notin> K \<Longrightarrow> map_of kvs k = None"
  using emptied_keys [of K kvs] by (metis ComplI restrict_in)

lemma entries_clear: "entries (clear_status keys st) = entries st |` (- set keys)"
proof (cases "\<exists>obj kvs. st = Some (JObj obj) \<and> map_of obj cognify_key = Some (JObj kvs)")
  case True
  then obtain obj kvs where st: "st = Some (JObj obj)" "map_of obj cognify_key = Some (JObj kvs)" by blast
  show ?thesis
  proof (cases "list_ex (\<lambda>(k, _). k \<in> set keys) kvs")
    case touched: True
    show ?thesis
    proof (cases "filter (\<lambda>(k, _). k \<notin> set keys) kvs = []")
      case True
      with touched emptied_keys [OF True] show ?thesis
        by (auto simp: entries_def clear_status_def st Let_def delete_conv')
    next
      case False
      with touched show ?thesis
        by (auto simp: entries_def clear_status_def st Let_def update_conv' map_of_filter_keys)
    qed
  qed (use untouched_keys [of "set keys" kvs] in \<open>simp add: entries_def clear_status_def st\<close>)
next
  case False
  then have "entries st = Map.empty" "clear_status keys st = st"
    by (auto simp: entries_def clear_status_def split: option.split json.split)
  then show ?thesis by (simp add: restrict_map_def fun_eq_iff)
qed

text \<open>The keys of an object are distinct, as serde keeps them.\<close>

definition status_ok :: "json option \<Rightarrow> bool" where
  "status_ok st \<longleftrightarrow> (case st of Some (JObj obj) \<Rightarrow> distinct (map fst obj) | _ \<Rightarrow> True)"

lemma map_of_filter_distinct:
  "distinct (map fst kvs) \<Longrightarrow>
     map_of (filter P kvs) k = (case map_of kvs k of None \<Rightarrow> None | Some v \<Rightarrow> if P (k, v) then Some v else None)"
  by (induction kvs) (force split: option.splits simp: map_of_eq_None_iff)+

lemma entries_clear_all:
  assumes "status_ok st"
  shows "entries (clear_all_status keys st) = entries st |` (- set keys)"
proof (cases "\<exists>obj. st = Some (JObj obj)")
  case True
  then obtain obj where st: "st = Some (JObj obj)" ..
  let ?inner = "\<lambda>v. case v of JObj kvs \<Rightarrow> list_ex (\<lambda>(k, _). k \<in> set keys) kvs | _ \<Rightarrow> False"
  let ?cut = "\<lambda>v. case v of JObj kvs \<Rightarrow> JObj (filter (\<lambda>(k, _). k \<notin> set keys) kvs) | _ \<Rightarrow> v"
  let ?left = "filter (\<lambda>(_, v). v \<noteq> JObj []) (map (\<lambda>(p, v). (p, ?cut v)) obj)"
  have dist: "distinct (map fst (map (\<lambda>(p, v). (p, ?cut v)) obj))"
    using assms by (simp add: status_ok_def st case_prod_beta' comp_def)
  have at: "map_of ?left p = (case map_of obj p of None \<Rightarrow> None | Some v \<Rightarrow> if ?cut v = JObj [] then None else Some (?cut v))" for p
    unfolding map_of_filter_distinct [OF dist] map_of_map by (simp split: option.split)
  have "entries (Some (JObj ?left)) = entries st |` (- set keys)"
    unfolding entries_def st option.case json.case at
    by (auto simp: map_of_filter_keys emptied_keys restrict_map_def fun_eq_iff split: option.split json.split
        dest: emptied_key)
  moreover have "entries st |` (- set keys) = entries st" if "\<not> list_ex (\<lambda>(_, v). ?inner v) obj"
    using that untouched_keys [of "set keys"]
    by (fastforce simp: entries_def st list_ex_iff split: option.split json.split dest!: map_of_SomeD)
  moreover have "?left = [] \<Longrightarrow> entries None = entries (Some (JObj ?left))" by (simp add: entries_def)
  ultimately show ?thesis by (auto simp: clear_all_status_def st Let_def)
next
  case False
  then have "entries st = Map.empty" "clear_all_status keys st = st"
    by (auto simp: entries_def clear_all_status_def split: option.split json.split)
  then show ?thesis by (simp add: restrict_map_def fun_eq_iff)
qed

section \<open>Properties\<close>

lemma get_completed_iff:
  "i \<in> get_cognify_completed_data_ids kf ds ids data \<longleftrightarrow>
     i \<in> set ids \<and> (\<exists>st. (i, st) \<in> set data \<and> completed_status (pipeline_status_dataset_key_variants kf ds) st)"
proof -
  have "i \<in> set ids \<longleftrightarrow> (\<exists>c \<in> set (chunks_of 500 ids). i \<in> set c)"
  proof -
    have "set ids = set (concat (chunks_of 500 ids))" by (simp add: concat_chunks)
    then show ?thesis by auto
  qed
  moreover have "i \<in> get_cognify_completed_data_ids kf ds ids data \<longleftrightarrow> (\<exists>c \<in> set (chunks_of 500 ids). i \<in> set c \<and>
      (\<exists>st. (i, st) \<in> set data \<and> completed_status (pipeline_status_dataset_key_variants kf ds) st))"
  proof -
    have "i \<in> set (map fst (filter (\<lambda>(i, st). i \<in> set c \<and> P st) data)) \<longleftrightarrow> i \<in> set c \<and> (\<exists>st. (i, st) \<in> set data \<and> P st)"
      for c :: "uuid list" and P by force
    then show ?thesis
      by (cases "ids = []")
         (simp_all add: get_cognify_completed_data_ids_def chunks_of.simps [of 500 "[]"] set_concat UN_iff bex_simps
            del: set_map set_filter, simp add: list.set_map UN_iff del: set_filter)
  qed
  ultimately show ?thesis by blast
qed

text \<open>Two datasets never share a key.\<close>

definition keys_apart :: "key_forms \<Rightarrow> bool" where
  "keys_apart kf \<longleftrightarrow> (\<forall>d e. d \<noteq> e \<longrightarrow>
     set (pipeline_status_dataset_key_variants kf d) \<inter> set (pipeline_status_dataset_key_variants kf e) = {})"

lemma keys_apartD:
  "keys_apart kf \<Longrightarrow> k \<in> set (pipeline_status_dataset_key_variants kf d) \<Longrightarrow>
     k \<in> set (pipeline_status_dataset_key_variants kf e) \<longleftrightarrow> e = d"
  by (auto simp: keys_apart_def)

lemma completed_mark:
  assumes "keys_apart kf"
  shows "completed_status (pipeline_status_dataset_key_variants kf e) (mark_status (pipeline_status_dataset_key kf ds) st)
    \<longleftrightarrow> e = ds \<or> completed_status (pipeline_status_dataset_key_variants kf e) st"
proof -
  have "pipeline_status_dataset_key kf ds \<in> set (pipeline_status_dataset_key_variants kf ds)"
    by (simp add: pipeline_status_dataset_key_variants_def)
  from keys_apartD [OF assms this, of e] show ?thesis
    by (auto simp: completed_entries entries_mark)
qed

lemma completed_restricted:
  assumes "keys_apart kf" and "entries st' = entries st |` (- set (pipeline_status_dataset_key_variants kf ds))"
  shows "completed_status (pipeline_status_dataset_key_variants kf e) st'
    \<longleftrightarrow> e \<noteq> ds \<and> completed_status (pipeline_status_dataset_key_variants kf e) st"
  using keys_apartD [OF assms(1)] by (auto simp: completed_entries assms(2) restrict_map_def)

lemma get_completed_map:
  "i \<in> get_cognify_completed_data_ids kf ds ids (map (\<lambda>(i, st). (i, f i st)) data) \<longleftrightarrow>
     i \<in> set ids \<and> (\<exists>st. (i, st) \<in> set data \<and> completed_status (pipeline_status_dataset_key_variants kf ds) (f i st))"
  by (force simp: get_completed_iff)

lemma read_after_mark:
  assumes "keys_apart kf"
  shows "get_cognify_completed_data_ids kf e ids (mark_cognify_pipeline_status_complete kf d ds data) =
    get_cognify_completed_data_ids kf e ids data \<union> (if e = ds then {d} \<inter> set ids \<inter> fst ` set data else {})"
proof (rule set_eqI)
  fix i
  show "i \<in> get_cognify_completed_data_ids kf e ids (mark_cognify_pipeline_status_complete kf d ds data) \<longleftrightarrow>
      i \<in> get_cognify_completed_data_ids kf e ids data \<union> (if e = ds then {d} \<inter> set ids \<inter> fst ` set data else {})"
    unfolding mark_cognify_pipeline_status_complete_def get_completed_map
    by (auto simp: get_completed_iff completed_mark [OF assms] intro: rev_image_eqI)
qed

text \<open>
  Markers can be read back. Marking an item of a dataset makes exactly that item complete for exactly
  that dataset, whatever its column held; clearing it makes it incomplete again under either spelling of
  the id; and clearing a dataset leaves no linked item complete for it. No other item and no other dataset
  is affected.
\<close>

lemma markers_read_back:
  assumes "keys_apart kf" and "\<forall>r \<in> set data. status_ok (snd r)"
  shows "get_cognify_completed_data_ids kf e ids (mark_cognify_pipeline_status_complete kf d ds data) =
      get_cognify_completed_data_ids kf e ids data \<union> (if e = ds then {d} \<inter> set ids \<inter> fst ` set data else {}) \<and>
    get_cognify_completed_data_ids kf e ids (clear_marker (pipeline_status_dataset_key_variants kf) d ds data) =
      get_cognify_completed_data_ids kf e ids data - (if e = ds then {d} else {}) \<and>
    get_cognify_completed_data_ids kf e ids (fst (clear_pipeline_status_for_dataset kf linked ds data)) =
      get_cognify_completed_data_ids kf e ids data - (if e = ds then set (linked ds) else {})"
proof (intro conjI, rule read_after_mark [OF assms(1)]; rule set_eqI)
  let ?read = "get_cognify_completed_data_ids kf e ids"
  fix i
  show "i \<in> ?read (clear_marker (pipeline_status_dataset_key_variants kf) d ds data) \<longleftrightarrow>
      i \<in> ?read data - (if e = ds then {d} else {})"
    unfolding clear_marker_def get_completed_map
    by (auto simp: get_completed_iff completed_restricted [OF assms(1) entries_clear])
  have "fst (clear_pipeline_status_for_dataset kf linked ds data) =
      map (\<lambda>(i, st). (i, if i \<in> set (linked ds)
         then clear_all_status (pipeline_status_dataset_key_variants kf ds) st else st)) data"
    by (simp add: clear_pipeline_status_for_dataset_def Let_def case_prod_beta')
  then have "i \<in> ?read (fst (clear_pipeline_status_for_dataset kf linked ds data)) \<longleftrightarrow> i \<in> set ids \<and>
      (\<exists>st. (i, st) \<in> set data \<and> completed_status (pipeline_status_dataset_key_variants kf e)
        (if i \<in> set (linked ds) then clear_all_status (pipeline_status_dataset_key_variants kf ds) st else st))"
    by (simp only: get_completed_map)
  moreover have "completed_status (pipeline_status_dataset_key_variants kf e)
      (if i \<in> set (linked ds) then clear_all_status (pipeline_status_dataset_key_variants kf ds) st else st) \<longleftrightarrow>
      completed_status (pipeline_status_dataset_key_variants kf e) st \<and> \<not> (e = ds \<and> i \<in> set (linked ds))"
    if "(i, st) \<in> set data" for st
    using completed_restricted [OF assms(1) entries_clear_all, of st] assms(2) that by force
  ultimately show "i \<in> ?read (fst (clear_pipeline_status_for_dataset kf linked ds data)) \<longleftrightarrow>
      i \<in> ?read data - (if e = ds then set (linked ds) else {})"
    unfolding get_completed_iff Diff_iff by (cases "e = ds") auto
qed

section \<open>Witnesses\<close>

definition sample_forms :: key_forms where
  "sample_forms = \<lparr>kf_dashed = (\<lambda>d. CHR ''d'' # replicate d CHR ''i''), kf_hexed = (\<lambda>d. CHR ''h'' # replicate d CHR ''i'')\<rparr>"

lemma sample_forms_apart: "keys_apart sample_forms"
  by (auto simp: keys_apart_def pipeline_status_dataset_key_variants_def pipeline_status_dataset_key_def
      sample_forms_def replicate_eq_replicate)

end
