(* ===== verification/Cognify_Run.thy ===== *)
theory Cognify_Run
  imports Cognify_Config Completion_Markers Qualification Rollback
begin

text \<open>
  One cognify run, end to end: \<open>cognify_in_scope\<close> of \<open>crates/cognify/src/tasks.rs\<close>. It composes the
  configuration, the qualification gate on the run table, the exclusive-run claim, the completion
  markers, the executor with the watcher that writes the trail, and the policy layer.

  The world of the executor is the stores of the sweep: tasks, sweeps and markers all change them. What
  the run gets from elsewhere are the fields of \<open>cognify_env\<close>: the pipeline that the configuration
  selects, the downcasts of its input, output and errors, the teardown after the run, and which
  statement of a repository fails: the rows of the trail and those of the policy layer may be lost. The
  future of a call may be dropped where it waits (an abort, a disconnect, a timeout): \<open>cf_cut\<close> says where.
\<close>

datatype cognify_error =
    ConfigFailed config_error
  | DatabaseFailed ustr
  | PipelineAlreadyRunning string uuid
  | ContextBuild ustr
  | Execute ustr
  | OutputTypeMismatch string string
  | StageFailed ustr

datatype 'r cognify_outcome =
    EmptyResult
  | AlreadyCompletedResult "uuid option"
  | Cognified 'r

text \<open>
  Where the future of a call is dropped, once it holds the claim: before the executor runs, after some of
  the executor's events, or after some of what the policy layer asks for.
\<close>

datatype cut = CutBeforeRun | CutInRun nat | CutInEffects nat

record cognify_faults =
  cf_qualification :: "ustr option"
  cf_claim :: "ustr option"
  cf_completed :: "ustr option"
  cf_context :: "ustr option"
  cf_sweep :: faults
  cf_mark :: "uuid \<Rightarrow> bool"
  cf_row :: bool
  cf_release :: bool
  cf_lost :: "db_status \<Rightarrow> bool"
  cf_cut :: "cut option"

definition no_faults :: cognify_faults where
  "no_faults = \<lparr>cf_qualification = None, cf_claim = None, cf_completed = None, cf_context = None,
     cf_sweep = (\<lambda>_. None), cf_mark = (\<lambda>_. False), cf_row = False, cf_release = False,
     cf_lost = (\<lambda>_. False), cf_cut = None\<rparr>"

record ('d, 'v, 'r, 'g, 'w) cognify_env =
  ce_compile :: "json \<Rightarrow> ustr option"
  ce_features :: "bool \<times> bool"
  ce_limits :: "nat \<times> nat"
  ce_services :: "('v, ('g, 'w) sweep_world) services"
  ce_row_env :: row_env
  ce_newest :: "stored_run list \<Rightarrow> stored_run list"
  ce_stamps :: "nat \<Rightarrow> int \<times> uuid"
  ce_forms :: key_forms
  ce_sweep :: sweep_env
  ce_ops :: "('g, 'w) artifact_ops"
  ce_pipeline :: "cognify_config \<Rightarrow> ('v, ('g, 'w) sweep_world) pipeline"
  ce_item_id :: "'d \<Rightarrow> uuid"
  ce_input :: "'d list \<Rightarrow> 'v"
  ce_result :: "'v \<Rightarrow> 'r option"
  ce_failures :: "'r \<Rightarrow> failure_report"
  ce_typed :: "task_error \<Rightarrow> cognify_error option"
  ce_show :: "cognify_error \<Rightarrow> ustr"
  ce_teardown :: "'r \<Rightarrow> ('g, 'w) sweep_world \<Rightarrow> ('g, 'w) sweep_world \<times> cognify_error option"
  ce_cut_store :: "nat \<Rightarrow> ('g, 'w) sweep_world \<Rightarrow> ('g, 'w) sweep_world"

text \<open>\<open>cg_ticks\<close> counts the rows that were stamped.\<close>

record ('g, 'w) cognify_state =
  cg_store :: "('g, 'w) sweep_world"
  cg_table :: "stored_run list"
  cg_ticks :: nat
  cg_claims :: claims

text \<open>Who calls, and what is minted for the call: the run's id, the claim's id, and the times of the claim.\<close>

record call =
  ca_dataset_id :: uuid
  ca_user_id :: "uuid option"
  ca_tenant_id :: "uuid option"
  ca_user_label :: "ustr option"
  ca_run_id :: uuid
  ca_claim_id :: uuid
  ca_times :: "int \<times> int \<times> int"
  ca_faults :: cognify_faults

definition pipeline_name :: "cognify_config \<Rightarrow> string" where
  "pipeline_name cfg = (if cc_temporal_cognify cfg then ''temporal-cognify'' else ''cognify_pipeline'')"

definition claim_stale_after :: nat where
  "claim_stale_after = 24 * 60 * 60 * 1000000000"

section \<open>Helpers\<close>

definition unwrap_execution_error :: "(task_error \<Rightarrow> cognify_error option) \<Rightarrow> exec_error \<Rightarrow> cognify_error" where
  "unwrap_execution_error typed e =
     (case e of
        TaskFailed _ _ src \<Rightarrow> (case typed src of Some c \<Rightarrow> c | None \<Rightarrow> Execute src)
      | _ \<Rightarrow> Execute (show_exec_error e))"

definition extract_cognify_outputs :: "('v \<Rightarrow> 'r option) \<Rightarrow> 'v pval list \<Rightarrow> cognify_error + 'r" where
  "extract_cognify_outputs downcast outputs =
     (case outputs of
        [] \<Rightarrow> Inl (OutputTypeMismatch ''CognifyResult'' ''empty'')
      | Plain v # _ \<Rightarrow> (case downcast v of Some r \<Rightarrow> Inr r | None \<Rightarrow> Inl (OutputTypeMismatch ''CognifyResult'' ''unknown''))
      | _ \<Rightarrow> Inl (OutputTypeMismatch ''CognifyResult'' ''unknown''))"

text \<open>\<open>RunIdCapturingWatcher\<close>: the ids of the run, once its first event was seen.\<close>

definition capture :: "event \<Rightarrow> (uuid \<times> uuid) option \<Rightarrow> (uuid \<times> uuid) option" where
  "capture e ids = (case e of OnRunInitiated ri \<Rightarrow> Some (ri_run_id ri, ri_pipeline_id ri) | _ \<Rightarrow> ids)"

definition captured :: "event list \<Rightarrow> (uuid \<times> uuid) option" where
  "captured es = foldl (\<lambda>ids e. capture e ids) None es"

text \<open>What the policy layer asks for, done.\<close>

definition apply_effect ::
  "('d, 'v, 'r, 'g, 'w) cognify_env \<Rightarrow> cognify_faults \<Rightarrow> ('g, 'w) cognify_state \<Rightarrow> effect \<Rightarrow> ('g, 'w) cognify_state" where
  "apply_effect env cf s e =
     (case e of
        Sweep sc \<Rightarrow>
          s\<lparr>cg_store := fst (sweep_logging_failure (ce_sweep env) (ce_ops env) (cf_sweep cf)
              (pipeline_status_dataset_key_variants (ce_forms env)) sc (cg_store s))\<rparr>
      | MarkComplete d ds \<Rightarrow>
          if cf_mark cf d then s
          else s\<lparr>cg_store := (cg_store s)\<lparr>sw_data :=
                  mark_cognify_pipeline_status_complete (ce_forms env) d ds (sw_data (cg_store s))\<rparr>\<rparr>
      | AppendRow run pid name ds status info \<Rightarrow>
          if cf_row cf then s
          else s\<lparr>cg_table := log_pipeline_run (fst (ce_stamps env (cg_ticks s))) (snd (ce_stamps env (cg_ticks s)))
                   run pid (ascii name) (Some ds) status (Some info) (cg_table s),
                 cg_ticks := Suc (cg_ticks s)\<rparr>)"

definition apply_effects ::
  "('d, 'v, 'r, 'g, 'w) cognify_env \<Rightarrow> cognify_faults \<Rightarrow> effect list \<Rightarrow> ('g, 'w) cognify_state \<Rightarrow> ('g, 'w) cognify_state" where
  "apply_effects env cf es s = foldl (apply_effect env cf) s es"

definition cognify_ctx :: "call \<Rightarrow> 'v task_ctx" where
  "cognify_ctx ca = \<lparr>tc_pipeline = Some \<lparr>pc_user_id = ca_user_id ca, pc_tenant_id = ca_tenant_id ca,
     pc_dataset_id = Some (ca_dataset_id ca), pc_user_label = ca_user_label ca, pc_current_data = None,
     pc_run_id = None\<rparr>, tc_progress = 0\<rparr>"

definition run_context_of :: "cognify_config \<Rightarrow> call \<Rightarrow> (uuid \<times> uuid) option \<Rightarrow> uuid list \<Rightarrow> run_context" where
  "run_context_of cfg ca ids processed =
     \<lparr>rc_dataset_id = ca_dataset_id ca, rc_pipeline_run_id = map_option fst ids,
      rc_pipeline_id = map_option snd ids, rc_pipeline_name = pipeline_name cfg, rc_processed = processed,
      rc_scope = cc_rollback_scope cfg, rc_incremental = cc_incremental_loading cfg\<rparr>"

section \<open>The run\<close>

text \<open>The executor on the items that are left, with the trail that its watcher writes.\<close>

definition run_executor ::
  "('d, 'v, 'r, 'g, 'w) cognify_env \<Rightarrow> cognify_config \<Rightarrow> call \<Rightarrow> 'd list \<Rightarrow> ('g, 'w) cognify_state
     \<Rightarrow> ('g, 'w) cognify_state \<times> (uuid \<times> uuid) option \<times> (exec_error + 'v pval list)" where
  "run_executor env cfg ca items s =
     (let (st, result) = execute_unscoped (ce_services env) (ca_run_id ca) (ce_pipeline env cfg)
            [Plain (ce_input env items)] (cognify_ctx ca)
            \<lparr>xs_world = cg_store s, xs_events = [], xs_progress = progress_new\<rparr>;
          trail = foldl (\<lambda>r e. db_watch (ce_row_env env) (cf_lost (ca_faults ca)) e r) [] (xs_events st)
      in (s\<lparr>cg_store := xs_world st, cg_table := log_trail (ce_stamps env) (cg_ticks s) trail (cg_table s),
            cg_ticks := cg_ticks s + length trail\<rparr>,
          captured (xs_events st), result))"

text \<open>
  The executor whose future is dropped after its \<open>k\<close>-th event: the rows of the events so far are written,
  and \<open>ce_cut_store\<close> is what the tasks have done to the stores by then.
\<close>

definition cut_executor ::
  "('d, 'v, 'r, 'g, 'w) cognify_env \<Rightarrow> cognify_config \<Rightarrow> call \<Rightarrow> 'd list \<Rightarrow> nat \<Rightarrow> ('g, 'w) cognify_state
     \<Rightarrow> ('g, 'w) cognify_state" where
  "cut_executor env cfg ca items k s =
     (let (st, result) = execute_unscoped (ce_services env) (ca_run_id ca) (ce_pipeline env cfg)
            [Plain (ce_input env items)] (cognify_ctx ca)
            \<lparr>xs_world = cg_store s, xs_events = [], xs_progress = progress_new\<rparr>;
          trail = foldl (\<lambda>r e. db_watch (ce_row_env env) (cf_lost (ca_faults ca)) e r) [] (take k (xs_events st))
      in s\<lparr>cg_store := ce_cut_store env k (cg_store s), cg_table := log_trail (ce_stamps env) (cg_ticks s) trail (cg_table s),
           cg_ticks := cg_ticks s + length trail\<rparr>)"

text \<open>What the policy layer asks for, all of it or until the future is dropped.\<close>

definition finish_with ::
  "('d, 'v, 'r, 'g, 'w) cognify_env \<Rightarrow> cognify_faults \<Rightarrow> effect list \<Rightarrow> 'o \<Rightarrow> ('g, 'w) cognify_state
     \<Rightarrow> ('g, 'w) cognify_state \<times> 'o option" where
  "finish_with env cf es outcome s =
     (case cf_cut cf of
        Some (CutInEffects k) \<Rightarrow> (apply_effects env cf (take k es) s, None)
      | _ \<Rightarrow> (apply_effects env cf es s, Some outcome))"

text \<open>
  The policy layer on the executor's result. \<open>None\<close> is a call that never returns: a panic unwinds past
  the policy layer, and a dropped future stops in it.
\<close>

definition conclude ::
  "('d, 'v, 'r, 'g, 'w) cognify_env \<Rightarrow> cognify_config \<Rightarrow> call \<Rightarrow> uuid list
     \<Rightarrow> ('g, 'w) cognify_state \<times> (uuid \<times> uuid) option \<times> (exec_error + 'v pval list)
     \<Rightarrow> ('g, 'w) cognify_state \<times> (cognify_error + 'r cognify_outcome) option" where
  "conclude env cfg ca processed ended =
     (let (s, ids, result) = ended;
          ctx = run_context_of cfg ca ids processed;
          show_id = re_show (ce_row_env env);
          cf = ca_faults ca
      in case result of
           Inl Panicked \<Rightarrow> (s, None)
         | Inl e \<Rightarrow>
             (let err = unwrap_execution_error (ce_typed env) e in
              finish_with env cf (on_run_failed show_id ctx (ce_show env err) True) (Inl err) s)
         | Inr outputs \<Rightarrow>
             (let (s', after) =
                (case extract_cognify_outputs (ce_result env) outputs of
                   Inl err \<Rightarrow> (s, Inl err)
                 | Inr r \<Rightarrow>
                     if cc_temporal_cognify cfg then (s, Inr r)
                     else (case ce_teardown env r (cg_store s) of
                             (w, None) \<Rightarrow> (s\<lparr>cg_store := w\<rparr>, Inr r)
                           | (w, Some err) \<Rightarrow> (s\<lparr>cg_store := w\<rparr>, Inl err)))
              in case after of
                   Inr r \<Rightarrow> finish_with env cf (on_run_completed show_id ctx (ce_failures env r)) (Inr (Cognified r)) s'
                 | Inl err \<Rightarrow> finish_with env cf (on_run_failed show_id ctx (ce_show env err) False) (Inl err) s'))"

text \<open>The items that no earlier run has completed, where the configuration asks for it.\<close>

definition remaining_items ::
  "('d, 'v, 'r, 'g, 'w) cognify_env \<Rightarrow> cognify_config \<Rightarrow> call \<Rightarrow> 'd list \<Rightarrow> ('g, 'w) cognify_state
     \<Rightarrow> cognify_error + 'd list" where
  "remaining_items env cfg ca data_items s =
     (if cc_incremental_loading cfg
      then drop_already_complete
        (\<lambda>ids. case cf_completed (ca_faults ca) of
           Some e \<Rightarrow> Inl (DatabaseFailed e)
         | None \<Rightarrow> Inr (get_cognify_completed_data_ids (ce_forms env) (ca_dataset_id ca) ids (sw_data (cg_store s))))
        (ce_item_id env) data_items
      else Inr data_items)"

text \<open>Everything past the claim.\<close>

definition claimed_body ::
  "('d, 'v, 'r, 'g, 'w) cognify_env \<Rightarrow> cognify_config \<Rightarrow> call \<Rightarrow> uuid option \<Rightarrow> 'd list \<Rightarrow> ('g, 'w) cognify_state
     \<Rightarrow> ('g, 'w) cognify_state \<times> (cognify_error + 'r cognify_outcome) option" where
  "claimed_body env cfg ca prior_completed data_items s =
     (if data_items = [] then (s, Some (Inr EmptyResult))
      else if cf_cut (ca_faults ca) = Some CutBeforeRun then (s, None)
      else case remaining_items env cfg ca data_items s of
        Inl e \<Rightarrow> (s, Some (Inl e))
      | Inr items \<Rightarrow>
          if items = [] then (s, Some (Inr (AlreadyCompletedResult prior_completed)))
          else (case cf_context (ca_faults ca) of
             Some e \<Rightarrow> (s, Some (Inl (ContextBuild e)))
           | None \<Rightarrow>
               (case cf_cut (ca_faults ca) of
                  Some (CutInRun k) \<Rightarrow> (cut_executor env cfg ca items k s, None)
                | _ \<Rightarrow> conclude env cfg ca (map (ce_item_id env) items) (run_executor env cfg ca items s))))"

definition claim_pair :: "cognify_config \<Rightarrow> call \<Rightarrow> pair" where
  "claim_pair cfg ca = (ca_dataset_id ca, ascii (pipeline_name cfg))"

text \<open>
  The claim, the body and the release. \<open>cf_claim\<close> is a failure of the first statement of the claim;
  every other interleaving and failure of its statements is in \<open>Run_Claims\<close>.
\<close>

definition under_claim ::
  "('d, 'v, 'r, 'g, 'w) cognify_env \<Rightarrow> cognify_config \<Rightarrow> call \<Rightarrow> uuid option \<Rightarrow> 'd list \<Rightarrow> ('g, 'w) cognify_state
     \<Rightarrow> ('g, 'w) cognify_state \<times> (cognify_error + 'r cognify_outcome) option" where
  "under_claim env cfg ca prior_completed data_items s =
     (let (t1, t2, t3) = ca_times ca;
          (cs, taken) = (case cf_claim (ca_faults ca) of
             Some e \<Rightarrow> (cg_claims s, Inl e)
           | None \<Rightarrow> (case try_claim_pipeline_run claim_stale_after t1 t2 t3 (claim_pair cfg ca) (ca_claim_id ca) (cg_claims s) of
               (cs, Inl _) \<Rightarrow> (cs, Inl (ascii ''Invalid claim staleness duration''))
             | (cs, Inr b) \<Rightarrow> (cs, Inr b)))
      in case taken of
           Inl e \<Rightarrow> (s\<lparr>cg_claims := cs\<rparr>, Some (Inl (DatabaseFailed e)))
         | Inr False \<Rightarrow> (s\<lparr>cg_claims := cs\<rparr>, Some (Inl (PipelineAlreadyRunning (pipeline_name cfg) (ca_dataset_id ca))))
         | Inr True \<Rightarrow>
             (case claimed_body env cfg ca prior_completed data_items (s\<lparr>cg_claims := cs\<rparr>) of
                (s', None) \<Rightarrow> (s', None)
              | (s', Some outcome) \<Rightarrow>
                  (if cf_release (ca_faults ca) then s'
                   else s'\<lparr>cg_claims := release_pipeline_run_claim (claim_pair cfg ca) (ca_claim_id ca) (cg_claims s')\<rparr>,
                   Some outcome)))"

definition cognify_in_scope ::
  "('d, 'v, 'r, 'g, 'w) cognify_env \<Rightarrow> cognify_config \<Rightarrow> call \<Rightarrow> 'd list \<Rightarrow> ('g, 'w) cognify_state
     \<Rightarrow> ('g, 'w) cognify_state \<times> (cognify_error + 'r cognify_outcome) option" where
  "cognify_in_scope env config ca data_items s =
     (case effective_config (ce_compile env) (fst (ce_features env)) (snd (ce_features env))
             (fst (ce_limits env)) (snd (ce_limits env)) config of
        Inl e \<Rightarrow> (s, Some (Inl (ConfigFailed e)))
      | Inr cfg \<Rightarrow>
          (case cf_qualification (ca_faults ca) of
             Some e \<Rightarrow> (s, Some (Inl (DatabaseFailed e)))
           | None \<Rightarrow>
               (case check_pipeline_run_qualification (ce_newest env) (ca_dataset_id ca) (ascii (pipeline_name cfg)) (cg_table s) of
                  AlreadyCompleted prior \<Rightarrow>
                    if cc_use_pipeline_cache cfg \<and> \<not> run_info_has_outstanding_failures (sr_run_info prior)
                    then (s, Some (Inr (AlreadyCompletedResult (Some (sr_run_id prior)))))
                    else under_claim env cfg ca (Some (sr_run_id prior)) data_items s
                | AlreadyRunning _ \<Rightarrow>
                    (s, Some (Inl (PipelineAlreadyRunning (pipeline_name cfg) (ca_dataset_id ca))))
                | Proceed \<Rightarrow> under_claim env cfg ca None data_items s)))"

end
