(* ===== verification/Cognify_Props.thy ===== *)
theory Cognify_Props
  imports Cognify_Run Sweep_Props
begin

text \<open>
  What a cognify run promises to the next one: its claim is given back, a concurrent run is refused
  without a trace, a failure can be repeated, and repeating a success does nothing.
\<close>

section \<open>The claim\<close>

lemma apply_effect_claims [simp]: "cg_claims (apply_effect env cf s e) = cg_claims s"
  by (simp add: apply_effect_def split: effect.split)

lemma apply_effects_claims [simp]: "cg_claims (apply_effects env cf es s) = cg_claims s"
  unfolding apply_effects_def by (induction es arbitrary: s) simp_all

lemma finish_with_claims: "finish_with env cf es outcome s = (s', r) \<Longrightarrow> cg_claims s' = cg_claims s"
  by (auto simp: finish_with_def split: option.splits cut.splits)

lemma cut_executor_claims [simp]: "cg_claims (cut_executor env cfg ca items k s) = cg_claims s"
  by (simp add: cut_executor_def Let_def split: prod.split)

lemma run_executor_claims: "run_executor env cfg ca items s = (s', ids, result) \<Longrightarrow> cg_claims s' = cg_claims s"
  by (auto simp: run_executor_def Let_def split: prod.splits)

lemma conclude_claims: "conclude env cfg ca processed (s, ids, result) = (s', r) \<Longrightarrow> cg_claims s' = cg_claims s"
  by (auto simp: conclude_def Let_def dest!: finish_with_claims split: sum.splits exec_error.splits prod.splits option.splits if_splits)

text \<open>
  The body leaves everything as it was, or runs the executor on the items that are left, or is dropped.
\<close>

lemma claimed_body_cases:
  assumes "claimed_body env cfg ca prior items s = (s', r)"
  obtains x where "s' = s" "r = Some x" "\<And>res. x \<noteq> Inr (Cognified res)"
  | "r = None" "cg_claims s' = cg_claims s"
  | left s1 ids result where "remaining_items env cfg ca items s = Inr left" "left \<noteq> []"
      "run_executor env cfg ca left s = (s1, ids, result)"
      "conclude env cfg ca (map (ce_item_id env) left) (s1, ids, result) = (s', r)"
proof -
  consider x where "s' = s" "r = Some x" "\<And>res. x \<noteq> Inr (Cognified res)"
    | "r = None" "cg_claims s' = cg_claims s"
    | left where "remaining_items env cfg ca items s = Inr left" "left \<noteq> []"
        "conclude env cfg ca (map (ce_item_id env) left) (run_executor env cfg ca left s) = (s', r)"
    using assms by (auto simp: claimed_body_def split: if_splits sum.splits option.splits cut.splits)
  then show thesis
  proof cases
    case (3 left)
    obtain s1 ids result where "run_executor env cfg ca left s = (s1, ids, result)" by (metis prod_cases3)
    with 3 that(3) show ?thesis by simp
  qed (use that in blast)+
qed

lemma claimed_body_claims: "claimed_body env cfg ca prior items s = (s', r) \<Longrightarrow> cg_claims s' = cg_claims s"
  by (erule claimed_body_cases) (simp, simp, metis conclude_claims run_executor_claims)

lemma effective_config_name:
  "effective_config compile hf tk e l config = Inr cfg \<Longrightarrow>
     pipeline_name cfg = pipeline_name config \<and> cc_incremental_loading cfg = cc_incremental_loading config \<and>
     cc_use_pipeline_cache cfg = cc_use_pipeline_cache config"
  by (auto simp: effective_config_def with_auto_chunk_size_def pipeline_name_def Let_def split: option.splits if_splits)

text \<open>A run gets past the gate to the claim, or leaves everything as it was.\<close>

definition effective_of :: "('d, 'v, 'r, 'g, 'w) cognify_env \<Rightarrow> cognify_config \<Rightarrow> config_error + cognify_config" where
  "effective_of env config = effective_config (ce_compile env) (fst (ce_features env)) (snd (ce_features env))
     (fst (ce_limits env)) (snd (ce_limits env)) config"

definition verdict :: "('d, 'v, 'r, 'g, 'w) cognify_env \<Rightarrow> cognify_config \<Rightarrow> uuid \<Rightarrow> ('g, 'w) cognify_state \<Rightarrow> qualification" where
  "verdict env config ds s =
     check_pipeline_run_qualification (ce_newest env) ds (ascii (pipeline_name config)) (cg_table s)"

lemma cognify_cases:
  assumes "cognify_in_scope env config ca items s = (s', r)"
  obtains x where "s' = s" "r = Some x" "\<And>res. x \<noteq> Inr (Cognified res)"
  | cfg prior where "effective_of env config = Inr cfg" "under_claim env cfg ca prior items s = (s', r)"
      "\<And>run. verdict env config (ca_dataset_id ca) s \<noteq> AlreadyRunning run"
  using assms
  by (auto simp: cognify_in_scope_def effective_of_def verdict_def effective_config_name
      split: sum.splits option.splits qualification.splits if_splits)

lemma stale_after_ok: "claim_stale_after \<le> duration_max"
  by (simp add: claim_stale_after_def duration_max_def)

text \<open>The claim is not to be had, or the body runs while the pair is claimed, and only the pair is.\<close>

lemma under_claim_cases:
  assumes "under_claim env cfg ca prior items s = (s', r)" and "distinct (map fst (cg_claims s))"
  obtains x where "s' = s" "r = Some x" "\<And>res. x \<noteq> Inr (Cognified res)"
  | cs t s1 where "cs = filter (\<lambda>x. fst x \<noteq> claim_pair cfg ca) (cg_claims s)"
      "claimed_body env cfg ca prior items
         (s\<lparr>cg_claims := cs @ [(claim_pair cfg ca, \<lparr>cl_claim_id = ca_claim_id ca, cl_claimed_at = t\<rparr>)]\<rparr>) = (s1, r)"
      "cg_claims s1 = cs @ [(claim_pair cfg ca, \<lparr>cl_claim_id = ca_claim_id ca, cl_claimed_at = t\<rparr>)]"
      "s' = (if r = None \<or> cf_release (ca_faults ca) then s1
             else s1\<lparr>cg_claims := release_pipeline_run_claim (claim_pair cfg ca) (ca_claim_id ca) (cg_claims s1)\<rparr>)"
proof -
  obtain t1 t2 t3 where t: "ca_times ca = (t1, t2, t3)" by (metis prod_cases3)
  have none: "filter (\<lambda>x. fst x \<noteq> claim_pair cfg ca) (cg_claims s) = cg_claims s" if "map_of (cg_claims s) (claim_pair cfg ca) = None"
    using that by (force simp: filter_id_conv map_of_eq_None_iff)
  note claim = try_claim_table [OF stale_after_ok assms(2), of t1 t2 t3 "claim_pair cfg ca" "ca_claim_id ca"]
  let ?rest = "filter (\<lambda>x. fst x \<noteq> claim_pair cfg ca) (cg_claims s)"
  let ?claimed = "\<lambda>t. s\<lparr>cg_claims := ?rest @ [(claim_pair cfg ca, \<lparr>cl_claim_id = ca_claim_id ca, cl_claimed_at = t\<rparr>)]\<rparr>"
  let ?finish = "\<lambda>(s1, r). (if r = None \<or> cf_release (ca_faults ca) then s1
      else s1\<lparr>cg_claims := release_pipeline_run_claim (claim_pair cfg ca) (ca_claim_id ca) (cg_claims s1)\<rparr>, r)"
  consider e where "under_claim env cfg ca prior items s = (s, Some (Inl e))"
    | t where "under_claim env cfg ca prior items s = ?finish (claimed_body env cfg ca prior items (?claimed t))"
  proof (cases "cf_claim (ca_faults ca)")
    case (Some e)
    then show ?thesis by (intro that(1)) (simp add: under_claim_def t)
  next
    case None
    show ?thesis
    proof (cases "map_of (cg_claims s) (claim_pair cfg ca)")
      case free: None
      with None none claim show ?thesis by (intro that(2) [of t1]) (simp add: under_claim_def t split: prod.split option.split)
    next
      case (Some old)
      show ?thesis
      proof (cases "t2 < cl_claimed_at old + int claim_stale_after")
        case True
        with None Some claim show ?thesis by (intro that(1)) (simp add: under_claim_def t)
      next
        case False
        with None Some claim show ?thesis by (intro that(2) [of t3]) (simp add: under_claim_def t split: prod.split option.split)
      qed
    qed
  qed
  then show thesis
  proof cases
    case (1 e)
    with assms(1) show ?thesis by (intro that(1)) auto
  next
    case (2 t)
    obtain s1 r1 where run: "claimed_body env cfg ca prior items (?claimed t) = (s1, r1)" by fastforce
    with 2 assms(1) have "r = r1" "s' = (if r = None \<or> cf_release (ca_faults ca) then s1
        else s1\<lparr>cg_claims := release_pipeline_run_claim (claim_pair cfg ca) (ca_claim_id ca) (cg_claims s1)\<rparr>)" by auto
    with run claimed_body_claims [OF run] show ?thesis by (intro that(2) [OF refl]) simp_all
  qed
qed

lemma release_own:
  assumes "cid \<notin> table_ids cs"
  shows "release_pipeline_run_claim pair cid (cs @ [(pair, \<lparr>cl_claim_id = cid, cl_claimed_at = t\<rparr>)]) = cs"
proof -
  have "filter (\<lambda>r. \<not> (case r of (p, c) \<Rightarrow> p = pair \<and> cl_claim_id c = cid)) cs = cs"
    using assms by (force simp: filter_id_conv table_ids_def)
  then show ?thesis by (simp add: release_pipeline_run_claim_def delete_claim_def Let_def)
qed

lemma table_ids_filter: "table_ids (filter P cs) \<subseteq> table_ids cs"
  by (auto simp: table_ids_def)

section \<open>Properties of the claim\<close>

text \<open>
  C10: A cognify call that returns, with a result or an error, has given its claim back: unless the
  statement of the release fails, no claim of its own is in the table afterwards. A call that never
  returns, because a task panicked or because its future was dropped at any point after the claim
  (before, during or after the run), may leave the claim of its pair behind, and so may a failed release;
  in every case the claims of all other pairs are as before. (The claim table has one row per pair, and the
  id of the claim is new.)
\<close>

theorem cognify_gives_claim_back:
  assumes "cognify_in_scope env config ca items s = (s', r)" and "distinct (map fst (cg_claims s))"
    and "ca_claim_id ca \<notin> table_ids (cg_claims s)"
  shows "filter (\<lambda>x. fst x \<noteq> claim_pair config ca) (cg_claims s') = filter (\<lambda>x. fst x \<noteq> claim_pair config ca) (cg_claims s) \<and>
    (r \<noteq> None \<and> \<not> cf_release (ca_faults ca) \<longrightarrow>
       ca_claim_id ca \<notin> table_ids (cg_claims s') \<and>
       (cg_claims s' = cg_claims s \<or> map_of (cg_claims s') (claim_pair config ca) = None))"
  using assms(1)
proof (cases rule: cognify_cases)
  case (2 cfg prior)
  have pair: "claim_pair cfg ca = claim_pair config ca"
    using 2(1) by (simp add: effective_of_def claim_pair_def effective_config_name)
  let ?rest = "filter (\<lambda>x. fst x \<noteq> claim_pair config ca) (cg_claims s)"
  have fresh: "ca_claim_id ca \<notin> table_ids ?rest" using assms(3) table_ids_filter by blast
  have free: "map_of ?rest (claim_pair config ca) = None" by (auto simp: map_of_eq_None_iff)
  from 2(2) assms(2) show ?thesis
  proof (cases rule: under_claim_cases)
    case (2 cs t s1)
    then show ?thesis using fresh free release_own [OF fresh] by (auto simp: pair)
  qed (use assms(3) in simp)
qed (use assms(3) in simp)

text \<open>
  A second run is kept out without a trace: while the newest row of the pair says that a run has
  started, or somebody's claim is younger than a day, the call changes nothing at all and reports the
  pair as running, unless the configuration lets it answer from a completed run.
\<close>

lemma cognify_refuses_concurrent:
  assumes "effective_of env config = Inr cfg" and "cf_qualification (ca_faults ca) = None" and "cf_claim (ca_faults ca) = None"
    and "distinct (map fst (cg_claims s))"
    and "verdict env config (ca_dataset_id ca) s = AlreadyRunning run \<or>
      (map_of (cg_claims s) (claim_pair config ca) = Some c \<and>
       fst (snd (ca_times ca)) < cl_claimed_at c + int claim_stale_after)"
  shows "cognify_in_scope env config ca items s = (s, Some (Inl (PipelineAlreadyRunning (pipeline_name config) (ca_dataset_id ca)))) \<or>
    cc_use_pipeline_cache config \<and>
    (\<exists>prior. verdict env config (ca_dataset_id ca) s = AlreadyCompleted prior \<and>
      cognify_in_scope env config ca items s = (s, Some (Inr (AlreadyCompletedResult (Some (sr_run_id prior))))))"
proof -
  obtain t1 t2 t3 where t: "ca_times ca = (t1, t2, t3)" by (metis prod_cases3)
  note cfg = effective_config_name [OF assms(1) [unfolded effective_of_def]]
  have pair: "claim_pair cfg ca = claim_pair config ca" by (simp add: claim_pair_def cfg)
  have run: "cognify_in_scope env config ca items s =
      (case verdict env config (ca_dataset_id ca) s of
         AlreadyCompleted prior \<Rightarrow>
           if cc_use_pipeline_cache config \<and> \<not> run_info_has_outstanding_failures (sr_run_info prior)
           then (s, Some (Inr (AlreadyCompletedResult (Some (sr_run_id prior)))))
           else under_claim env cfg ca (Some (sr_run_id prior)) items s
       | AlreadyRunning _ \<Rightarrow> (s, Some (Inl (PipelineAlreadyRunning (pipeline_name config) (ca_dataset_id ca))))
       | Proceed \<Rightarrow> under_claim env cfg ca None items s)"
    using assms(1,2) cfg by (simp add: cognify_in_scope_def effective_of_def verdict_def split: qualification.split)
  show ?thesis
  proof (cases "\<exists>run. verdict env config (ca_dataset_id ca) s = AlreadyRunning run")
    case False
    with assms(5) have c: "map_of (cg_claims s) (claim_pair config ca) = Some c" "t2 < cl_claimed_at c + int claim_stale_after"
      by (auto simp: t)
    have "under_claim env cfg ca prior items s =
        (s, Some (Inl (PipelineAlreadyRunning (pipeline_name config) (ca_dataset_id ca))))" for prior
      using c by (simp add: under_claim_def t assms(3) pair try_claim_table [OF stale_after_ok assms(4)] cfg)
    then show ?thesis using False by (simp add: run split: qualification.split)
  qed (auto simp: run)
qed

section \<open>The rows a call adds\<close>

text \<open>The row that a policy effect adds, as the watcher's rows are.\<close>

definition effect_row :: "cognify_faults \<Rightarrow> effect \<Rightarrow> run_row list" where
  "effect_row cf e =
     (case e of
        AppendRow run pid name ds status info \<Rightarrow>
          if cf_row cf then []
          else [\<lparr>rr_run_id = run, rr_pipeline_id = pid, rr_pipeline_name = ascii name, rr_dataset_id = Some ds,
                 rr_status = status, rr_run_info = Some info, rr_user_id = None\<rparr>]
      | _ \<Rightarrow> [])"

lemma apply_effect_table:
  "cg_table (apply_effect env cf s e) = log_trail (ce_stamps env) (cg_ticks s) (effect_row cf e) (cg_table s) \<and>
   cg_ticks (apply_effect env cf s e) = cg_ticks s + length (effect_row cf e)"
  by (cases e) (simp_all add: apply_effect_def effect_row_def log_pipeline_run_def entry_of_def)

lemma apply_effects_table:
  "cg_table (apply_effects env cf es s) =
     log_trail (ce_stamps env) (cg_ticks s) (concat (map (effect_row cf) es)) (cg_table s)"
proof (induction es arbitrary: s)
  case (Cons e es)
  with apply_effect_table [of env cf s e] show ?case
    by (simp add: apply_effects_def log_trail_append)
qed (simp add: apply_effects_def)

lemma captured_append: "captured (es @ fs) = foldl (\<lambda>ids e. capture e ids) (captured es) fs"
  by (simp add: captured_def)

lemma captured_items: "list_all item_event es \<Longrightarrow> foldl (\<lambda>ids e. capture e ids) x es = x"
  by (induction es arbitrary: x) (auto simp: capture_def item_event_def split: event.splits)

text \<open>What the executor of a cognify run leaves behind.\<close>

definition run_of :: "('d, 'v, 'r, 'g, 'w) cognify_env \<Rightarrow> cognify_config \<Rightarrow> call \<Rightarrow> 'd list \<Rightarrow> run_info" where
  "run_of env cfg ca items =
     run_info_of (ce_services env) (ca_run_id ca) (ce_pipeline env cfg) [Plain (ce_input env items)] (cognify_ctx ca)"

definition well_built :: "('d, 'v, 'r, 'g, 'w) cognify_env \<Rightarrow> cognify_config \<Rightarrow> bool" where
  "well_built env cfg \<longleftrightarrow>
     runnable (ce_pipeline env cfg) \<and> 0 \<notin> set (map ti_weight (pl_tasks (ce_pipeline env cfg))) \<and>
     joins (sv_join_all (ce_services env)) (ce_pipeline env cfg) \<and>
     pl_name (ce_pipeline env cfg) = Some (ascii (pipeline_name cfg))"

lemma run_executor_trail:
  assumes "well_built env cfg" and "run_executor env cfg ca items s = (s1, ids, result)" and "result \<noteq> Inl Panicked"
  shows "cg_table s1 = log_trail (ce_stamps env) (cg_ticks s)
      (kept (cf_lost (ca_faults ca)) (run_trail (ce_row_env env) (run_of env cfg ca items) result)) (cg_table s)"
    and "cg_ticks s1 = cg_ticks s +
      length (kept (cf_lost (ca_faults ca)) (run_trail (ce_row_env env) (run_of env cfg ca items) result))"
    and "ids = Some (ca_run_id ca, ri_pipeline_id (run_of env cfg ca items))"
proof -
  let ?p = "ce_pipeline env cfg"
  let ?watch = "db_watch (ce_row_env env) (cf_lost (ca_faults ca))"
  let ?st = "\<lparr>xs_world = cg_store s, xs_events = [], xs_progress = progress_new\<rparr>"
  obtain st where st: "execute_unscoped (ce_services env) (ca_run_id ca) ?p [Plain (ce_input env items)] (cognify_ctx ca) ?st = (st, result)"
    and s1: "cg_table s1 = log_trail (ce_stamps env) (cg_ticks s) (foldl (\<lambda>r e. ?watch e r) [] (xs_events st)) (cg_table s)"
      "cg_ticks s1 = cg_ticks s + length (foldl (\<lambda>r e. ?watch e r) [] (xs_events st))" "ids = captured (xs_events st)"
    using assms(2) by (auto simp: run_executor_def Let_def split: prod.splits)
  have wb: "runnable ?p" "joins (sv_join_all (ce_services env)) ?p" "0 \<notin> set (map ti_weight (pl_tasks ?p))"
    using assms(1) by (auto simp: well_built_def)
  have trail: "foldl (\<lambda>r e. ?watch e r) [] (xs_events st) =
      kept (cf_lost (ca_faults ca)) (run_trail (ce_row_env env) (run_of env cfg ca items) result)"
    using watched_run(1) [OF wb(2) _ st, of "ce_row_env env" "cf_lost (ca_faults ca)" "[]"] wb(1,3) assms(3)
    by (simp add: run_of_def call_trail_def Let_def)
  show "cg_table s1 = log_trail (ce_stamps env) (cg_ticks s)
      (kept (cf_lost (ca_faults ca)) (run_trail (ce_row_env env) (run_of env cfg ca items) result)) (cg_table s)"
    "cg_ticks s1 = cg_ticks s +
      length (kept (cf_lost (ca_faults ca)) (run_trail (ce_row_env env) (run_of env cfg ca items) result))"
    unfolding s1 trail by simp_all
  obtain mid where mid: "list_all item_event mid" "xs_events st =
      start_events (ce_services env) (ca_run_id ca) ?p [Plain (ce_input env items)] (cognify_ctx ca) @ mid @
      end_events (started_info (ce_services env) (ca_run_id ca) ?p [Plain (ce_input env items)] (cognify_ctx ca)) result"
    using run_lifecycle_events [OF wb st assms(3)] by auto
  show "ids = Some (ca_run_id ca, ri_pipeline_id (run_of env cfg ca items))"
    unfolding s1(3) mid(2) captured_append append_assoc foldl_append captured_items [OF mid(1)]
    by (simp add: start_events_def end_events_def captured_def capture_def run_of_def run_info_of_def Let_def split: sum.split)
qed

lemma finish_with_returns: "finish_with env cf es outcome s = (s', Some out) \<Longrightarrow> s' = apply_effects env cf es s \<and> out = outcome"
  by (auto simp: finish_with_def split: option.splits cut.splits)

lemma conclude_cases:
  assumes "conclude env cfg ca processed (s1, ids, result) = (s', Some outcome)"
  obtains e err where "result = Inl e" "e \<noteq> Panicked" "outcome = Inl err"
      "s' = apply_effects env (ca_faults ca)
         (on_run_failed (re_show (ce_row_env env)) (run_context_of cfg ca ids processed) (ce_show env err) True) s1"
  | outputs err w where "result = Inr outputs" "outcome = Inl err"
      "s' = apply_effects env (ca_faults ca)
         (on_run_failed (re_show (ce_row_env env)) (run_context_of cfg ca ids processed) (ce_show env err) False) (s1\<lparr>cg_store := w\<rparr>)"
  | outputs res w where "result = Inr outputs" "outcome = Inr (Cognified res)"
      "w = cg_store s1 \<or> w = fst (ce_teardown env res (cg_store s1))"
      "s' = apply_effects env (ca_faults ca)
         (on_run_completed (re_show (ce_row_env env)) (run_context_of cfg ca ids processed) (ce_failures env res)) (s1\<lparr>cg_store := w\<rparr>)"
proof (cases result)
  case (Inl e)
  with assms that(1) show thesis by (cases e) (auto simp: conclude_def Let_def dest!: finish_with_returns)
next
  case (Inr outputs)
  show thesis
  proof (cases "extract_cognify_outputs (ce_result env) outputs")
    case bad: (Inl err)
    with assms Inr that(2) [of outputs err "cg_store s1"] show thesis by (auto simp: conclude_def Let_def dest!: finish_with_returns)
  next
    case ok: (Inr res)
    show thesis
    proof (cases "cc_temporal_cognify cfg")
      case True
      with assms Inr ok that(3) [of outputs res "cg_store s1"] show thesis
        by (auto simp: conclude_def Let_def dest!: finish_with_returns)
    next
      case False
      obtain w e where w: "ce_teardown env res (cg_store s1) = (w, e)" by fastforce
      from assms Inr ok False w that(2) [of outputs _ w] that(3) [of outputs res w] show thesis
        by (cases e) (auto simp: conclude_def Let_def dest!: finish_with_returns)
    qed
  qed
qed

text \<open>No policy effect of a failed run that the executor has recorded is a row.\<close>

lemma failed_rows:
  "concat (map (effect_row cf) (on_run_failed show_id (run_context_of cfg ca ids processed) err True)) = []"
  by (auto simp: on_run_failed_def effect_row_def split: sweep_decision.split option.split)

lemma teardown_rows:
  assumes "ids = Some (ca_run_id ca, pid)"
  shows "concat (map (effect_row cf) (on_run_failed show_id (run_context_of cfg ca ids processed) err False)) =
    (if cf_row cf then []
     else [\<lparr>rr_run_id = ca_run_id ca, rr_pipeline_id = pid, rr_pipeline_name = ascii (pipeline_name cfg),
            rr_dataset_id = Some (ca_dataset_id ca), rr_status = Errored,
            rr_run_info = Some (run_info_for_errored show_id processed err), rr_user_id = None\<rparr>])"
  by (auto simp: assms on_run_failed_def effect_row_def append_run_row_def run_context_of_def split: sweep_decision.split)

lemma run_of_pair:
  assumes "well_built env cfg"
  shows "ri_dataset_id (run_of env cfg ca items) = Some (ca_dataset_id ca)"
    "ri_pipeline_name (run_of env cfg ca items) = ascii (pipeline_name cfg)"
    "ri_run_id (run_of env cfg ca items) = ca_run_id ca"
  using assms
  by (simp_all add: run_of_def run_info_of_def Let_def ctx_dataset_def cognify_ctx_def name_or_empty_def well_built_def)

lemma info_row_simps [simp]:
  "rr_status (info_row ri st info) = st" "rr_dataset_id (info_row ri st info) = ri_dataset_id ri"
  "rr_pipeline_name (info_row ri st info) = ri_pipeline_name ri" "rr_run_id (info_row ri st info) = ri_run_id ri"
  "rr_run_info (info_row ri st info) = info"
  by (simp_all add: info_row_def)

lemma info_row_pair:
  assumes "well_built env cfg"
  shows "rr_dataset_id (info_row (run_of env cfg ca items) st info) = Some (ca_dataset_id ca)"
    "rr_pipeline_name (info_row (run_of env cfg ca items) st info) = ascii (pipeline_name cfg)"
  using run_of_pair [OF assms, of ca items] by simp_all

lemma run_trail_rows:
  assumes "well_built env cfg" and "r \<in> set (run_trail re (run_of env cfg ca items) result)"
  shows "rr_dataset_id r = Some (ca_dataset_id ca) \<and> rr_pipeline_name r = ascii (pipeline_name cfg) \<and> rr_run_id r = ca_run_id ca"
  using assms(2) run_of_pair [OF assms(1), of ca items] by (cases result) (auto simp: run_trail_def)

section \<open>Properties of repeated calls\<close>

text \<open>The clock of the run table is ahead of its rows.\<close>

definition clock_ahead :: "('d, 'v, 'r, 'g, 'w) cognify_env \<Rightarrow> ('g, 'w) cognify_state \<Rightarrow> bool" where
  "clock_ahead env s \<longleftrightarrow> ticking (\<lambda>j. ce_stamps env (cg_ticks s + j)) (cg_table s)"

text \<open>A table to which the call has added the rows \<open>added\<close> of its run.\<close>

definition adds_rows ::
  "('d, 'v, 'r, 'g, 'w) cognify_env \<Rightarrow> call \<Rightarrow> run_row list \<Rightarrow> ('g, 'w) cognify_state \<Rightarrow> ('g, 'w) cognify_state \<Rightarrow> bool" where
  "adds_rows env ca added s s' \<longleftrightarrow>
     cg_table s' = log_trail (ce_stamps env) (cg_ticks s) added (cg_table s) \<and>
     (\<forall>r \<in> set added. rr_run_id r = ca_run_id ca)"

lemma failed_call_rows:
  assumes "cognify_in_scope env config ca items s = (s', Some (Inl err))" and "distinct (map fst (cg_claims s))"
    and "\<And>cfg. effective_of env config = Inr cfg \<Longrightarrow> well_built env cfg"
  obtains added where "adds_rows env ca added s s'"
    and "\<forall>r \<in> set added. rr_dataset_id r = Some (ca_dataset_id ca) \<and> rr_pipeline_name r = ascii (pipeline_name config)"
    and "added = [] \<or> rr_status (last added) = Errored \<or> cf_lost (ca_faults ca) Errored \<or> cf_row (ca_faults ca)"
  using assms(1)
proof (cases rule: cognify_cases)
  case 1
  then show thesis by (intro that [of "[]"]) (simp_all add: adds_rows_def)
next
  case (2 cfg prior)
  note wb = assms(3) [OF 2(1)]
  have name: "pipeline_name cfg = pipeline_name config"
    using 2(1) by (simp add: effective_of_def effective_config_name)
  from 2(2) assms(2) show thesis
  proof (cases rule: under_claim_cases)
    case 1
    then show thesis by (intro that [of "[]"]) (simp_all add: adds_rows_def)
  next
    case (2 cs t s1)
    have table: "cg_table s' = cg_table s1" using 2(4) by simp
    from 2(2) show thesis
    proof (cases rule: claimed_body_cases)
      case 1
      then show thesis by (intro that [of "[]"]) (simp_all add: adds_rows_def table)
    next
      case (3 left s2 ids result)
      note ran = 3(3)
      let ?lost = "cf_lost (ca_faults ca)"
      let ?trail = "kept ?lost (run_trail (ce_row_env env) (run_of env cfg ca left) result)"
      have pair: "\<forall>r \<in> set ?trail. rr_dataset_id r = Some (ca_dataset_id ca) \<and>
          rr_pipeline_name r = ascii (pipeline_name config) \<and> rr_run_id r = ca_run_id ca"
        using run_trail_rows [OF wb, of _ "ce_row_env env" ca left result] by (auto simp: kept_def name)
      from 3(4) show thesis
      proof (cases rule: conclude_cases)
        case (1 e err')
        note trail = run_executor_trail [OF wb ran]
        have "cg_table s' = log_trail (ce_stamps env) (cg_ticks s) ?trail (cg_table s)"
          using trail(1) 1 by (simp add: table apply_effects_table failed_rows)
        moreover have "rr_status (last ?trail) = Errored" if "\<not> ?lost Errored"
          using that by (simp add: 1(1) run_trail_def)
        ultimately show thesis using pair by (intro that [of ?trail]) (auto simp: adds_rows_def)
      next
        case (2 outputs err' w)
        note trail = run_executor_trail [OF wb ran]
        let ?more = "concat (map (effect_row (ca_faults ca)) (on_run_failed (re_show (ce_row_env env))
              (run_context_of cfg ca ids (map (ce_item_id env) left)) (ce_show env err') False))"
        have "ids = Some (ca_run_id ca, ri_pipeline_id (run_of env cfg ca left))" using trail(3) 2(1) by simp
        note more = teardown_rows [OF this, of "ca_faults ca" "re_show (ce_row_env env)" cfg "map (ce_item_id env) left" "ce_show env err'"]
        have "cg_table s' = log_trail (ce_stamps env) (cg_ticks s) (?trail @ ?more) (cg_table s)"
          unfolding table 2(3) apply_effects_table log_trail_append
          using 2(1) trail(1,2) by simp
        moreover have "\<forall>r \<in> set (?trail @ ?more). rr_dataset_id r = Some (ca_dataset_id ca) \<and>
            rr_pipeline_name r = ascii (pipeline_name config) \<and> rr_run_id r = ca_run_id ca"
          using pair by (auto simp: more name)
        moreover have "rr_status (last (?trail @ ?more)) = Errored" if "\<not> cf_row (ca_faults ca)"
          using that by (simp add: more)
        ultimately show thesis by (intro that [of "?trail @ ?more"]) (auto simp: adds_rows_def)
      qed simp
    qed simp
  qed
qed


section \<open>Repeating a success\<close>

lemma running_info_stored_clean:
  "\<not> run_info_has_outstanding_failures (Some (sanitize_json (run_info_for_running show_id ids)))"
proof -
  have "\<exists>v. sanitize_json (run_info_for_running show_id ids) = JObj [(''data'', v)]"
    by (simp add: run_info_for_running_def rebuild_object_def sanitize_string_def has_nul_def)
  then show ?thesis by (auto simp: run_info_has_outstanding_failures_def failures_key_def)
qed

lemma clean_run_only_marks:
  "outstanding_items r = [] \<Longrightarrow> on_run_completed show_id ctx r = mark_complete ctx (rc_processed ctx)"
  by (simp add: on_run_completed_def decide_sweep_def Let_def split: rollback_scope.split)

lemma apply_marks:
  assumes "\<And>d. \<not> cf_mark cf d" and "keys_apart (ce_forms env)"
    and "s' = apply_effects env cf (map (\<lambda>d. MarkComplete d ds) ids_done) s"
  shows "cg_table s' = cg_table s \<and>
    fst ` set (sw_data (cg_store s')) = fst ` set (sw_data (cg_store s)) \<and>
    get_cognify_completed_data_ids (ce_forms env) ds ids (sw_data (cg_store s')) =
       get_cognify_completed_data_ids (ce_forms env) ds ids (sw_data (cg_store s)) \<union>
       (set ids_done \<inter> set ids \<inter> fst ` set (sw_data (cg_store s)))"
  using assms(3)
proof (induction ids_done arbitrary: s)
  case (Cons d ids_done)
  have keys: "fst ` set (mark_cognify_pipeline_status_complete kf d ds data) = fst ` set data" for kf data
    by (force simp: mark_cognify_pipeline_status_complete_def)
  let ?s1 = "s\<lparr>cg_store := (cg_store s)\<lparr>sw_data :=
      mark_cognify_pipeline_status_complete (ce_forms env) d ds (sw_data (cg_store s))\<rparr>\<rparr>"
  have "apply_effect env cf s (MarkComplete d ds) = ?s1" by (simp add: apply_effect_def assms(1))
  with Cons.prems have "s' = apply_effects env cf (map (\<lambda>d. MarkComplete d ds) ids_done) ?s1"
    by (simp add: apply_effects_def)
  note IH = Cons.IH [OF this]
  show ?case
    unfolding conjunct1 [OF IH] conjunct1 [OF conjunct2 [OF IH]] conjunct2 [OF conjunct2 [OF IH]]
    by (simp add: keys read_after_mark [OF assms(2)]) blast
qed (simp add: apply_effects_def)

text \<open>The tasks and the teardown of a run leave the markers alone.\<close>

definition keeps_markers :: "('d, 'v, 'r, 'g, 'w) cognify_env \<Rightarrow> bool" where
  "keeps_markers env \<longleftrightarrow>
     (\<forall>cfg ca items s. sw_data (cg_store (fst (run_executor env cfg ca items s))) = sw_data (cg_store s)) \<and>
     (\<forall>r w. sw_data (fst (ce_teardown env r w)) = sw_data w)"

text \<open>After a call that cognified without outstanding items.\<close>

lemma cognified_state:
  assumes "cognify_in_scope env config ca items s = (s', Some (Inr (Cognified res)))"
    and "newest_order (ce_newest env)" and "clock_ahead env s" and "distinct (map fst (cg_claims s))"
    and "\<And>cfg. effective_of env config = Inr cfg \<Longrightarrow> well_built env cfg"
    and "keys_apart (ce_forms env)" and "keeps_markers env"
    and "outstanding_items (ce_failures env res) = []" and "ca_faults ca = no_faults"
    and "ca_claim_id ca \<notin> table_ids (cg_claims s)"
    and "ce_item_id env ` set items \<subseteq> fst ` set (sw_data (cg_store s))"
  obtains cfg row where "effective_of env config = Inr cfg"
    and "cg_claims s' = filter (\<lambda>x. fst x \<noteq> claim_pair config ca) (cg_claims s)"
    and "verdict env config (ca_dataset_id ca) s' = AlreadyCompleted row" and "sr_run_id row = ca_run_id ca"
    and "\<not> run_info_has_outstanding_failures (sr_run_info row)"
    and "\<And>ids. cc_incremental_loading config \<Longrightarrow> set ids \<subseteq> ce_item_id env ` set items \<Longrightarrow>
      get_cognify_completed_data_ids (ce_forms env) (ca_dataset_id ca) ids (sw_data (cg_store s')) = set ids"
  using assms(1)
proof (cases rule: cognify_cases)
  case (2 cfg prior)
  note cfg = 2(1)
  note wb = assms(5) [OF cfg]
  note same = effective_config_name [OF cfg [unfolded effective_of_def]]
  have pair: "claim_pair cfg ca = claim_pair config ca" by (simp add: claim_pair_def same)
  let ?rest = "filter (\<lambda>x. fst x \<noteq> claim_pair config ca) (cg_claims s)"
  from 2(2) assms(4) show thesis
  proof (cases rule: under_claim_cases)
    case (2 cs t s1)
    let ?s0 = "s\<lparr>cg_claims := cs @ [(claim_pair cfg ca, \<lparr>cl_claim_id = ca_claim_id ca, cl_claimed_at = t\<rparr>)]\<rparr>"
    have "ca_claim_id ca \<notin> table_ids ?rest" using assms(10) table_ids_filter by blast
    note release = release_own [OF this]
    have s': "s' = s1\<lparr>cg_claims := ?rest\<rparr>" using 2 release by (simp add: pair assms(9) no_faults_def)
    from 2(2) show thesis
    proof (cases rule: claimed_body_cases)
      case (3 left s2 ids result)
      note ran = 3(3) and left_items = 3(1) and concluded = 3(4)
      from 3(4) show thesis
      proof (cases rule: conclude_cases)
        case (3 outputs res' w)
        note trail = run_executor_trail(1) [OF wb ran]
        have res: "res' = res" using 3(2) by simp
        let ?ids = "if cc_incremental_loading cfg then map (ce_item_id env) left else []"
        have w: "sw_data w = sw_data (cg_store s)"
        proof -
          have "sw_data (cg_store s2) = sw_data (cg_store ?s0)"
            using assms(7) ran unfolding keeps_markers_def by (metis fst_conv)
          with 3(3) assms(7) show ?thesis by (auto simp: keeps_markers_def)
        qed
        let ?s3 = "s2\<lparr>cg_store := w\<rparr>"
        have s1: "s1 = apply_effects env no_faults (map (\<lambda>d. MarkComplete d (ca_dataset_id ca)) ?ids) ?s3"
          using 3(4) 2(2) assms(8,9)
          by (simp add: res clean_run_only_marks mark_complete_def run_context_of_def)
        note marks = apply_marks [where env = env and cf = no_faults and s = ?s3 and ids_done = ?ids
            and ds = "ca_dataset_id ca", OF _ assms(6) s1]
        have clean: "\<not> cf_mark no_faults d" for d by (simp add: no_faults_def)
        let ?row = "info_row (run_of env cfg ca left) Completed
          (Some (run_info_for_running (re_show (ce_row_env env)) (ri_data_ids (run_of env cfg ca left))))"
        let ?stored = "stored_as (fst (ce_stamps env (cg_ticks s + 2))) (snd (ce_stamps env (cg_ticks s + 2))) ?row"
        have "cg_table s' = log_trail (ce_stamps env) (cg_ticks s)
            (take 2 (run_trail (ce_row_env env) (run_of env cfg ca left) result) @ [?row]) (cg_table s)"
          using marks [OF clean] trail 3(1) by (simp add: s' run_trail_def assms(9) no_faults_def kept_def)
        then have verdict: "verdict env config (ca_dataset_id ca) s' = AlreadyCompleted ?stored"
          using verdict_after [OF assms(2,3) [unfolded clock_ahead_def] info_row_pair [OF wb],
              where rs = "take 2 (run_trail (ce_row_env env) (run_of env cfg ca left) result)" and
              st1 = Completed and info1 = "Some (run_info_for_running (re_show (ce_row_env env)) (ri_data_ids (run_of env cfg ca left)))"]
          by (simp add: verdict_def same run_trail_def Let_def numeral_2_eq_2)
        have ids: "sr_run_id ?stored = ca_run_id ca" "\<not> run_info_has_outstanding_failures (sr_run_info ?stored)"
          using run_of_pair(3) [OF wb, of ca left] running_info_stored_clean
          by (simp_all add: stored_as_def)
        have read: "get_cognify_completed_data_ids (ce_forms env) (ca_dataset_id ca) ids (sw_data (cg_store s')) = set ids"
          if inc0: "cc_incremental_loading config" and sub: "set ids \<subseteq> ce_item_id env ` set items" for ids
        proof -
          have inc: "cc_incremental_loading cfg" using inc0 same by simp
          let ?read = "\<lambda>ids. get_cognify_completed_data_ids (ce_forms env) (ca_dataset_id ca) ids (sw_data (cg_store s))"
          have left: "set left = {x \<in> set items. ce_item_id env x \<notin> ?read (map (ce_item_id env) items)}"
            using left_items inc by (auto simp: remaining_items_def drop_already_complete_def assms(9) no_faults_def split: if_splits)
          have same_read: "ce_item_id env x \<in> ?read ids \<longleftrightarrow> ce_item_id env x \<in> ?read (map (ce_item_id env) items)"
            if "x \<in> set items" "ce_item_id env x \<in> set ids" for x
            using that by (simp add: get_completed_iff)
          have "i \<in> ?read ids \<union> set ?ids \<inter> set ids \<inter> fst ` set (sw_data (cg_store s))" if i: "i \<in> set ids" for i
          proof -
            from i sub obtain x where x: "x \<in> set items" "i = ce_item_id env x" by blast
            then have "i \<in> fst ` set (sw_data (cg_store s))" using assms(11) by blast
            with i x same_read [of x] left inc show ?thesis by auto
          qed
          moreover have "?read ids \<subseteq> set ids" by (auto simp: get_completed_iff)
          ultimately have "?read ids \<union> set ?ids \<inter> set ids \<inter> fst ` set (sw_data (cg_store s)) = set ids"
            by blast
          with marks [OF clean, of ids] show ?thesis by (simp add: s' w)
        qed
        show thesis
          by (rule that [OF cfg _ verdict ids read]) (simp_all add: s')
      qed simp_all
    qed (use 2 in auto)
  qed auto
qed auto

lemma remaining_none:
  assumes "cc_incremental_loading cfg" and "cf_completed (ca_faults ca) = None"
    and "get_cognify_completed_data_ids (ce_forms env) (ca_dataset_id ca) (map (ce_item_id env) items) (sw_data (cg_store s))
      = ce_item_id env ` set items"
  shows "remaining_items env cfg ca items s = Inr []"
  using assms by (auto simp: remaining_items_def drop_already_complete_def filter_empty_conv)

text \<open>
  C2: Repeating a success does nothing, where the configuration lets a call skip work that is done: with
  incremental loading, which is the default, or with the pipeline cache. Suppose a call without faults has
  cognified a dataset with nothing outstanding; its tasks and its teardown leave the completion markers
  alone, its items have rows in the database, and the clock of the run table is ahead of the rows there.
  Then a second call without faults on any of its items, with the same configuration, by anybody, in any
  process, changes nothing at all, runs nothing, and reports the run that did the work. (With both switches
  off the items are processed again. The claim table has one row per pair, claim
  ids are new, and the pipeline has the name of the claim and tasks of positive weight.)
\<close>

theorem recognify_is_noop:
  assumes "cognify_in_scope env config ca items s = (s', Some (Inr (Cognified res)))"
    and "newest_order (ce_newest env)" and "clock_ahead env s" and "distinct (map fst (cg_claims s))"
    and "\<And>cfg. effective_of env config = Inr cfg \<Longrightarrow> well_built env cfg"
    and "keys_apart (ce_forms env)" and "keeps_markers env"
    and "outstanding_items (ce_failures env res) = []" and "ca_faults ca = no_faults"
    and "ca_claim_id ca \<notin> table_ids (cg_claims s)"
    and "ce_item_id env ` set items \<subseteq> fst ` set (sw_data (cg_store s))"
    and again: "ca_dataset_id ca' = ca_dataset_id ca" "ca_faults ca' = no_faults" "ca_claim_id ca' \<notin> table_ids (cg_claims s)"
      "items' \<noteq> []" "ce_item_id env ` set items' \<subseteq> ce_item_id env ` set items"
    and skips: "cc_incremental_loading config \<or> cc_use_pipeline_cache config"
  shows "cognify_in_scope env config ca' items' s' = (s', Some (Inr (AlreadyCompletedResult (Some (ca_run_id ca)))))"
proof (rule cognified_state [OF assms(1-11)])
  fix cfg row
  assume cfg: "effective_of env config = Inr cfg"
    and claims: "cg_claims s' = filter (\<lambda>x. fst x \<noteq> claim_pair config ca) (cg_claims s)"
    and row: "verdict env config (ca_dataset_id ca) s' = AlreadyCompleted row" "sr_run_id row = ca_run_id ca"
      "\<not> run_info_has_outstanding_failures (sr_run_info row)"
    and read: "\<And>ids. cc_incremental_loading config \<Longrightarrow> set ids \<subseteq> ce_item_id env ` set items \<Longrightarrow>
      get_cognify_completed_data_ids (ce_forms env) (ca_dataset_id ca) ids (sw_data (cg_store s')) = set ids"
  note same = effective_config_name [OF cfg [unfolded effective_of_def]]
  have pair: "claim_pair cfg ca' = claim_pair config ca" by (simp add: claim_pair_def same again)
  obtain t1 t2 t3 where t: "ca_times ca' = (t1, t2, t3)" by (metis prod_cases3)
  let ?claim = "(claim_pair config ca, \<lparr>cl_claim_id = ca_claim_id ca', cl_claimed_at = t1\<rparr>)"
  have dist: "distinct (map fst (cg_claims s'))" using assms(4) by (simp add: claims distinct_map_filter)
  have free: "map_of (cg_claims s') (claim_pair config ca) = None" by (auto simp: claims map_of_eq_None_iff)
  have "ca_claim_id ca' \<notin> table_ids (cg_claims s')" using again(3) table_ids_filter unfolding claims by blast
  note release = release_own [OF this]
  have body: "claimed_body env cfg ca' prior items' (s'\<lparr>cg_claims := cs\<rparr>) =
      (s'\<lparr>cg_claims := cs\<rparr>, Some (Inr (AlreadyCompletedResult prior)))" if "cc_incremental_loading config" for prior cs
    using read [of "map (ce_item_id env) items'"] remaining_none [of cfg ca' env items' "s'\<lparr>cg_claims := cs\<rparr>"] again that same
    by (simp add: claimed_body_def no_faults_def)
  have "under_claim env cfg ca' prior items' s' = (s', Some (Inr (AlreadyCompletedResult prior)))"
    if "cc_incremental_loading config" for prior
    using again(2) free release that
    by (simp add: under_claim_def t pair try_claim_table [OF stale_after_ok dist] body no_faults_def)
  with row cfg same again skips show ?thesis
    by (auto simp: cognify_in_scope_def effective_of_def verdict_def no_faults_def)
qed

section \<open>Witnesses\<close>

text \<open>
  A cognify run whose pipeline is one task; it hands on the ids it was given. The ids of the items are the
  items, and an empty input makes the task fail.
\<close>

type_synonym small_world = "((unit, unit) memory_graph, unit memory_vectors) sweep_world"

definition echo_task :: "(ustr, small_world) task" where
  "echo_task = Sync (\<lambda>v c w. (w, if v = Plain [13] then Inl [13] else Inr v))"

definition echo_pipeline :: "cognify_config \<Rightarrow> (ustr, small_world) pipeline" where
  "echo_pipeline cfg = (pipeline_new 5)\<lparr>pl_name := Some (ascii (pipeline_name cfg)), pl_tasks := [task_info_new echo_task]\<rparr>"

definition small_prov :: "(ustr, small_world) prov_hooks" where
  "small_prov = \<lparr>ph_node_set = (\<lambda>_. None), ph_content_hash = (\<lambda>_. None),
     ph_meta_node_set = (\<lambda>_. None), ph_stamp_boxed = (\<lambda>_ v s. (s, v)),
     ph_stamp_shared = (\<lambda>_ v s. (s, v)), ph_clear_visited = id\<rparr>"

definition small_services :: "(ustr, small_world) services" where
  "small_services = \<lparr>sv_v5 = length, sv_show_uuid = show_nat, sv_parse_uuid = (\<lambda>_. None),
     sv_cancelled = (\<lambda>_. False), sv_exec_status = noop_exec_status, sv_prov = small_prov, sv_join_all = join_in_turn\<rparr>"

definition small_cognify :: "(uuid, ustr, ustr, (unit, unit) memory_graph, unit memory_vectors) cognify_env" where
  "small_cognify = \<lparr>ce_compile = (\<lambda>_. None), ce_features = (True, True), ce_limits = (512, 16384),
     ce_services = small_services, ce_row_env = \<lparr>re_v5 = length, re_show = show_nat\<rparr>, ce_newest = by_time_desc,
     ce_stamps = sample_stamps, ce_forms = sample_forms, ce_sweep = small_env, ce_ops = memory_ops,
     ce_pipeline = echo_pipeline, ce_item_id = (\<lambda>d. d), ce_input = (\<lambda>items. items), ce_result = Some,
     ce_failures = (\<lambda>_. report_default), ce_typed = (\<lambda>_. None), ce_show = (\<lambda>_. []),
     ce_teardown = (\<lambda>r w. (w, None)), ce_cut_store = (\<lambda>_ w. w)\<rparr>"

lemma echo_well_built: "well_built small_cognify cfg"
  by (simp add: well_built_def small_cognify_def echo_pipeline_def runnable_def pipeline_new_def task_info_new_def
      joins_def)

lemma world_simps:
  "xs_world (emit es st) = xs_world st" "xs_world (with_world w st) = w" "xs_world (complete_token env i st) = xs_world st"
  "xs_world (announce_end ri r st) = xs_world st" "xs_world (task_begins env t i st) = xs_world st"
  by (simp_all add: emit_def with_world_def complete_token_def announce_end_def task_begins_def
      split: sum.split exec_error.split)

lemma echo_run:
  "execute_unscoped small_services run (echo_pipeline cfg) [Plain v] (cognify_ctx ca)
     \<lparr>xs_world = w, xs_events = [], xs_progress = progress_new\<rparr> = (st, result) \<Longrightarrow>
   xs_world st = w \<and> result = (if v = [13] then Inl (TaskFailed 0 1 [13]) else Inr [Plain v])"
  by (auto simp: run_eval echo_pipeline_def small_services_def small_prov_def noop_exec_status_def pipeline_new_def
      task_info_new_def echo_task_def progress_split_def acquire_def effective_limiter_def exec_env_of_def
      max_attempts_def with_run_id_def with_current_data_def cognify_ctx_def world_simps task_ends_def)

definition small_call :: "uuid \<Rightarrow> uuid \<Rightarrow> call" where
  "small_call run claim = \<lparr>ca_dataset_id = 4, ca_user_id = Some 9, ca_tenant_id = None, ca_user_label = None,
     ca_run_id = run, ca_claim_id = claim, ca_times = (0, 0, 0), ca_faults = no_faults\<rparr>"

definition small_start :: "((unit, unit) memory_graph, unit memory_vectors) cognify_state" where
  "small_start = \<lparr>cg_store = sample_world, cg_table = [], cg_ticks = 0, cg_claims = []\<rparr>"

lemma small_state: "newest_order (ce_newest small_cognify)" "clock_ahead small_cognify small_start"
  "distinct (map fst (cg_claims small_start))" "keys_apart (ce_forms small_cognify)" "cg_claims small_start = []"
  using newest_by_time sample_forms_apart
  by (simp_all add: small_cognify_def small_start_def clock_ahead_def ticking_def sample_stamps_def)

lemma small_call_simps:
  "ca_dataset_id (small_call run claim) = 4" "ca_times (small_call run claim) = (0, 0, 0)"
  "ca_run_id (small_call run claim) = run" "ca_claim_id (small_call run claim) = claim"
  "ca_faults (small_call run claim) = no_faults"
  by (simp_all add: small_call_def)

lemma no_faults_simps:
  "cf_qualification no_faults = None" "cf_claim no_faults = None" "cf_completed no_faults = None"
  "cf_context no_faults = None" "\<not> cf_release no_faults" "\<not> cf_row no_faults" "cf_cut no_faults = None"
  "cf_lost no_faults = (\<lambda>_. False)"
  by (simp_all add: no_faults_def)

lemma run_executor_echo:
  "run_executor small_cognify cfg ca items s = (s', ids, result) \<Longrightarrow>
     cg_store s' = cg_store s \<and> result = (if items = [13] then Inl (TaskFailed 0 1 [13]) else Inr [Plain items])"
  unfolding run_executor_def Let_def
  by (auto simp: small_cognify_def split: prod.splits dest: echo_run)

lemma small_keeps_markers: "keeps_markers small_cognify"
  unfolding keeps_markers_def
proof (intro conjI allI)
  fix cfg ca items s
  obtain s' ids result where "run_executor small_cognify cfg ca items s = (s', ids, result)" by (metis prod_cases3)
  with run_executor_echo [OF this] show "sw_data (cg_store (fst (run_executor small_cognify cfg ca items s))) = sw_data (cg_store s)"
    by simp
qed (simp add: small_cognify_def)

lemma small_config: "\<exists>cfg. effective_of small_cognify (config_default False) = Inr cfg"
  unfolding effective_of_def effective_config_valid [OF default_is_valid] by blast

lemma small_outcome_of:
  assumes "items \<in> {[5], [13]}"
  shows "snd (cognify_in_scope small_cognify (config_default False) (small_call run claim) items small_start) =
    Some (if items = [13] then Inl (Execute [13]) else Inr (Cognified items))"
proof -
  obtain cfg where cfg: "effective_of small_cognify (config_default False) = Inr cfg" using small_config ..
  note same = effective_config_name [OF cfg [unfolded effective_of_def]]
  have fields: "cc_incremental_loading cfg" "pipeline_name cfg = ''cognify_pipeline''" "\<not> cc_temporal_cognify cfg"
    using same by (simp_all add: config_default_def pipeline_name_def split: if_splits)
  have proceed: "check_pipeline_run_qualification (ce_newest small_cognify) ds name (cg_table small_start) = Proceed" for ds name
    by (simp add: check_pipeline_run_qualification_def get_pipeline_run_by_dataset_def small_start_def small_cognify_def by_time_desc_def)
  let ?s = "small_start\<lparr>cg_claims := [(claim_pair cfg (small_call run claim), \<lparr>cl_claim_id = claim, cl_claimed_at = 0\<rparr>)]\<rparr>"
  obtain s1 ids result where ran: "run_executor small_cognify cfg (small_call run claim) items ?s = (s1, ids, result)"
    by (metis prod_cases3)
  have "get_cognify_completed_data_ids (ce_forms small_cognify) 4 items (sw_data (cg_store ?s)) = {}"
    by (auto simp: get_completed_iff small_cognify_def small_start_def sample_world_def completed_status_def
        pipeline_status_dataset_key_variants_def pipeline_status_dataset_key_def sample_forms_def cognify_key_def numeral_eq_Suc)
  moreover have "ce_item_id small_cognify = (\<lambda>d. d)" by (simp add: small_cognify_def)
  ultimately have left: "remaining_items small_cognify cfg (small_call run claim) items ?s = Inr items"
    using fields by (simp add: remaining_items_def drop_already_complete_def small_call_simps no_faults_simps)
  have downcasts: "ce_result small_cognify = Some" "ce_typed small_cognify = (\<lambda>_. None)"
    "ce_teardown small_cognify = (\<lambda>r w. (w, None))" by (simp_all add: small_cognify_def)
  have "snd (conclude small_cognify cfg (small_call run claim) processed (s1, ids, result)) =
      Some (if items = [13] then Inl (Execute [13]) else Inr (Cognified items))" for processed
    using run_executor_echo [OF ran] fields(3)
    by (simp add: conclude_def Let_def unwrap_execution_error_def extract_cognify_outputs_def downcasts
        finish_with_def small_call_simps no_faults_simps)
  note concluded = this
  have body: "snd (claimed_body small_cognify cfg (small_call run claim) None items ?s) =
      Some (if items = [13] then Inl (Execute [13]) else Inr (Cognified items))"
  proof -
    have "items \<noteq> []" using assms by auto
    then show ?thesis using concluded by (simp add: claimed_body_def left small_call_simps no_faults_simps ran)
  qed
  have "try_claim_pipeline_run claim_stale_after 0 0 0 (claim_pair cfg (small_call run claim)) claim (cg_claims small_start) =
      (cg_claims ?s, Inr True)"
    using try_claim_table [OF stale_after_ok small_state(3), of 0 0 0 "claim_pair cfg (small_call run claim)" claim]
    by (simp add: small_state(5))
  then have "snd (under_claim small_cognify cfg (small_call run claim) None items small_start) =
      Some (if items = [13] then Inl (Execute [13]) else Inr (Cognified items))"
    using body by (auto simp: under_claim_def small_call_simps no_faults_simps split: prod.split option.split)
  then show ?thesis
    using cfg by (simp add: cognify_in_scope_def effective_of_def proceed small_call_simps no_faults_simps)
qed

lemma small_runs:
  obtains s' where "cognify_in_scope small_cognify (config_default False) (small_call run claim) [5] small_start = (s', Some (Inr (Cognified [5])))"
  using small_outcome_of [of "[5]" run claim] by (cases "cognify_in_scope small_cognify (config_default False) (small_call run claim) [5] small_start") auto

lemma small_fails:
  obtains s' where "cognify_in_scope small_cognify (config_default False) (small_call run claim) [13] small_start = (s', Some (Inl (Execute [13])))"
  using small_outcome_of [of "[13]" run claim] by (cases "cognify_in_scope small_cognify (config_default False) (small_call run claim) [13] small_start") auto

theorem cognify_gives_claim_back_witness:
  "\<exists>s'. cognify_in_scope small_cognify (config_default False) (small_call 9 4) [5] small_start = (s', Some (Inr (Cognified [5]))) \<and>
     4 \<notin> table_ids (cg_claims s')"
proof -
  obtain s' where run: "cognify_in_scope small_cognify (config_default False) (small_call 9 4) [5] small_start =
      (s', Some (Inr (Cognified [5])))"
    by (rule small_runs)
  show ?thesis
    using cognify_gives_claim_back [OF run small_state(3)] run
    by (simp add: small_state(5) table_ids_def small_call_simps no_faults_simps)
qed


theorem recognify_is_noop_witness:
  "\<exists>s'. cognify_in_scope small_cognify (config_default False) (small_call 8 3) [5] s' =
     (s', Some (Inr (AlreadyCompletedResult (Some 9))))"
proof -
  obtain s' where run: "cognify_in_scope small_cognify (config_default False) (small_call 9 4) [5] small_start =
      (s', Some (Inr (Cognified [5])))"
    by (rule small_runs)
  have "outstanding_items (ce_failures small_cognify [5]) = []"
    by (simp add: small_cognify_def outstanding_items_def report_default_def)
  moreover have "ce_item_id small_cognify ` set [5] \<subseteq> fst ` set (sw_data (cg_store small_start))"
    by (simp add: small_cognify_def small_start_def sample_world_def)
  ultimately have "cognify_in_scope small_cognify (config_default False) (small_call 8 3) [5] s' =
     (s', Some (Inr (AlreadyCompletedResult (Some 9))))"
    using recognify_is_noop [OF run small_state(1-3) echo_well_built small_state(4) small_keeps_markers, of "small_call 8 3" "[5]"]
    by (simp add: small_call_simps small_state(5) table_ids_def config_default_def)
  then show ?thesis by blast
qed

end
