(* ===== verification/Pacing.thy ===== *)
theory Pacing
  imports Complex_Main Prelude
begin

text \<open>Request pacing (\<^verbatim>\<open>src/crates/utils/src/pacing.rs\<close>): the token bucket, the
  overload policy and the pacer that couples them.  An instant and a duration are rational
  numbers of seconds (the code's \<^verbatim>\<open>f64\<close> arithmetic is exact here); the operations take the
  clock as an argument, as the \<^verbatim>\<open>_at\<close> functions of the code do.  Each operation is one step of
  the model: the mutex of the bucket is held over \<^verbatim>\<open>reserve\<close>, and the release of
  \<^verbatim>\<open>reserve_within\<close>, which takes the lock a second time, is folded into the same step.\<close>

type_synonym instant = rat
type_synonym duration = rat

subsection \<open>The token bucket\<close>

record token_bucket =
  capacity :: rat
  refill_per_sec :: rat
  tokens :: rat
  last_at :: instant

definition bucket_new :: "nat \<Rightarrow> duration \<Rightarrow> instant \<Rightarrow> token_bucket" where
  "bucket_new requests interval now =
     (let cap = of_nat (max requests 1); seconds = max interval 1 in
      \<lparr>capacity = cap, refill_per_sec = cap / seconds, tokens = cap, last_at = now\<rparr>)"

definition saturating_since :: "instant \<Rightarrow> instant \<Rightarrow> duration" where
  "saturating_since now earlier = max 0 (now - earlier)"

definition reserve :: "token_bucket \<Rightarrow> instant \<Rightarrow> duration \<times> token_bucket" where
  "reserve b now =
     (let elapsed = saturating_since now (last_at b);
          filled = min (tokens b + elapsed * refill_per_sec b) (capacity b);
          left = filled - 1;
          b' = b\<lparr>tokens := left, last_at := now\<rparr>
      in (if left \<ge> 0 then 0 else - left / refill_per_sec b, b'))"

definition reserve_within ::
    "token_bucket \<Rightarrow> instant \<Rightarrow> duration \<Rightarrow> duration option \<times> token_bucket" where
  "reserve_within b now budget =
     (case reserve b now of (wait, b') \<Rightarrow>
        if wait \<le> budget then (Some wait, b')
        else (None, b'\<lparr>tokens := tokens b' + 1\<rparr>))"

text \<open>The two waiting forms: the caller goes on at the given instant; \<^const>\<open>None\<close> is the
  \<^verbatim>\<open>false\<close> of \<^verbatim>\<open>acquire_within\<close>.\<close>

definition bucket_acquire :: "token_bucket \<Rightarrow> instant \<Rightarrow> instant \<times> token_bucket" where
  "bucket_acquire b now = (case reserve b now of (wait, b') \<Rightarrow> (now + wait, b'))"

definition bucket_acquire_within ::
    "token_bucket \<Rightarrow> instant \<Rightarrow> duration \<Rightarrow> instant option \<times> token_bucket" where
  "bucket_acquire_within b now budget =
     (case reserve_within b now budget of
        (Some wait, b') \<Rightarrow> (Some (now + wait), b')
      | (None, b') \<Rightarrow> (None, b'))"

subsection \<open>The overload policy\<close>

definition u64_max :: nat where
  "u64_max = 2 ^ 64 - 1"

record overload_policy =
  cooldown :: duration
  origin :: instant
  paced_until_ms :: nat

definition policy_new :: "duration \<Rightarrow> instant \<Rightarrow> overload_policy" where
  "policy_new cd now = \<lparr>cooldown = cd, origin = now, paced_until_ms = 0\<rparr>"

text \<open>\<^verbatim>\<open>as_millis() as u64\<close>: whole milliseconds, truncated to 64 bits.\<close>

definition as_millis :: "duration \<Rightarrow> nat" where
  "as_millis d = nat \<lfloor>d * 1000\<rfloor> mod 2 ^ 64"

definition millis_since_origin :: "overload_policy \<Rightarrow> instant \<Rightarrow> nat" where
  "millis_since_origin p now = as_millis (saturating_since now (origin p))"

definition is_paced_at :: "overload_policy \<Rightarrow> instant \<Rightarrow> bool" where
  "is_paced_at p now \<longleftrightarrow> paced_until_ms p > millis_since_origin p now"

definition record_evidence_at :: "overload_policy \<Rightarrow> instant \<Rightarrow> bool \<times> overload_policy" where
  "record_evidence_at p now =
     (let now_ms = millis_since_origin p now;
          until_ms = min u64_max (now_ms + as_millis (cooldown p));
          previous = paced_until_ms p
      in (previous \<le> now_ms, p\<lparr>paced_until_ms := max previous until_ms\<rparr>))"

subsection \<open>The pacer\<close>

record pacer_settings =
  requests :: nat
  pace_interval :: duration
  enabled_by_config :: bool
  auto_react :: bool

record pacer =
  bucket :: token_bucket
  policy :: overload_policy
  settings :: pacer_settings

definition overload_cooldown :: duration where
  "overload_cooldown = 900"

definition pacer_with_cooldown :: "pacer_settings \<Rightarrow> duration \<Rightarrow> instant \<Rightarrow> pacer" where
  "pacer_with_cooldown st cd now =
     \<lparr>bucket = bucket_new (requests st) (pace_interval st) now,
      policy = policy_new cd now, settings = st\<rparr>"

definition should_pace_at :: "pacer \<Rightarrow> instant \<Rightarrow> bool" where
  "should_pace_at p now \<longleftrightarrow> enabled_by_config (settings p) \<or> is_paced_at (policy p) now"

text \<open>\<^verbatim>\<open>admit\<close>: whether a token was taken, and when the caller goes on.\<close>

definition admit :: "pacer \<Rightarrow> instant \<Rightarrow> (bool \<times> instant) \<times> pacer" where
  "admit p now =
     (if \<not> should_pace_at p now then ((False, now), p)
      else case bucket_acquire (bucket p) now of (go, b') \<Rightarrow> ((True, go), p\<lparr>bucket := b'\<rparr>))"

definition admit_within ::
    "pacer \<Rightarrow> instant \<Rightarrow> duration option \<Rightarrow> (bool \<times> instant) option \<times> pacer" where
  "admit_within p now budget =
     (case budget of
        None \<Rightarrow> (case admit p now of (r, p') \<Rightarrow> (Some r, p'))
      | Some bud \<Rightarrow>
          if \<not> should_pace_at p now then (Some (False, now), p)
          else case bucket_acquire_within (bucket p) now bud of
                 (Some go, b') \<Rightarrow> (Some (True, go), p\<lparr>bucket := b'\<rparr>)
               | (None, b') \<Rightarrow> (None, p\<lparr>bucket := b'\<rparr>))"

definition record_overload :: "pacer \<Rightarrow> instant \<Rightarrow> pacer" where
  "record_overload p now =
     (if auto_react (settings p) then p\<lparr>policy := snd (record_evidence_at (policy p) now)\<rparr>
      else p)"

text \<open>The process-wide slots: the first call installs the pacer, a later one gets it; the
  flag is the warning that other settings were asked for.\<close>

definition init_pacer ::
    "pacer option \<Rightarrow> pacer_settings \<Rightarrow> duration \<Rightarrow> instant \<Rightarrow> (pacer \<times> bool) \<times> pacer option" where
  "init_pacer slot requested cd now =
     (let p = (case slot of Some p \<Rightarrow> p | None \<Rightarrow> pacer_with_cooldown requested cd now)
      in ((p, settings p \<noteq> requested), Some p))"

definition init_llm_pacer ::
    "pacer option \<Rightarrow> pacer_settings \<Rightarrow> instant \<Rightarrow> (pacer \<times> bool) \<times> pacer option" where
  "init_llm_pacer slot requested now = init_pacer slot requested overload_cooldown now"

definition init_embedding_pacer ::
    "pacer option \<Rightarrow> nat \<Rightarrow> duration \<Rightarrow> bool \<Rightarrow> instant \<Rightarrow> pacer \<times> pacer option" where
  "init_embedding_pacer slot reqs ival on now =
     (let p = (case slot of Some p \<Rightarrow> p
               | None \<Rightarrow> pacer_with_cooldown
                   \<lparr>requests = reqs, pace_interval = ival, enabled_by_config = on,
                    auto_react = False\<rparr> overload_cooldown now)
      in (p, Some p))"

subsection \<open>Runs of a pacer\<close>

text \<open>The calls the adapters make: an admission, with or without a budget, and an overload
  report; a run gives the admitted attempts in order, each with its flag and its instant.\<close>

datatype pacer_call = Attempt instant "duration option" | Evidence instant

primrec call_time :: "pacer_call \<Rightarrow> instant" where
  "call_time (Attempt now _) = now"
| "call_time (Evidence now) = now"

fun pacer_run :: "pacer \<Rightarrow> pacer_call list \<Rightarrow> (bool \<times> instant) list \<times> pacer" where
  "pacer_run p [] = ([], p)"
| "pacer_run p (Attempt now budget # cs) =
     (case admit_within p now budget of (r, p') \<Rightarrow>
        case pacer_run p' cs of (outs, p'') \<Rightarrow>
          ((case r of None \<Rightarrow> outs | Some a \<Rightarrow> a # outs), p''))"
| "pacer_run p (Evidence now # cs) = pacer_run (record_overload p now) cs"

text \<open>The instants at which the paced attempts go on.\<close>

definition paced_sends :: "pacer \<Rightarrow> pacer_call list \<Rightarrow> instant list" where
  "paced_sends p cs = map snd (filter fst (fst (pacer_run p cs)))"

definition free_sends :: "pacer \<Rightarrow> pacer_call list \<Rightarrow> instant list" where
  "free_sends p cs = map snd (filter (\<lambda>a. \<not> fst a) (fst (pacer_run p cs)))"

text \<open>The bucket alone, on the calls it sees.\<close>

fun bucket_call :: "token_bucket \<Rightarrow> instant \<Rightarrow> duration option \<Rightarrow> instant option \<times> token_bucket" where
  "bucket_call b now None = (case bucket_acquire b now of (go, b') \<Rightarrow> (Some go, b'))"
| "bucket_call b now (Some bud) = bucket_acquire_within b now bud"

text \<open>A bucket is sound when its rate is positive, it holds at least one request and never
  more tokens than its capacity.\<close>

definition bucket_ok :: "token_bucket \<Rightarrow> bool" where
  "bucket_ok b \<longleftrightarrow> refill_per_sec b > 0 \<and> capacity b \<ge> 1 \<and> tokens b \<le> capacity b"

lemma bucket_new_ok: "bucket_ok (bucket_new r i now)"
  by (auto simp: bucket_ok_def bucket_new_def Let_def)

definition refilled :: "token_bucket \<Rightarrow> instant \<Rightarrow> rat" where
  "refilled b now = min (tokens b + saturating_since now (last_at b) * refill_per_sec b) (capacity b)"

lemma reserve_eq:
  assumes "refill_per_sec b > 0"
  shows "reserve b now =
    (max 0 ((1 - refilled b now) / refill_per_sec b),
     b\<lparr>tokens := refilled b now - 1, last_at := now\<rparr>)"
proof -
  have le: "(1 - refilled b now) / refill_per_sec b \<le> 0 \<longleftrightarrow> refilled b now \<ge> 1"
    using assms by (simp add: divide_le_0_iff)
  have wait: "- (refilled b now - 1) / refill_per_sec b = (1 - refilled b now) / refill_per_sec b"
    by simp
  have "reserve b now =
      (if refilled b now \<ge> 1 then 0 else (1 - refilled b now) / refill_per_sec b,
       b\<lparr>tokens := refilled b now - 1, last_at := now\<rparr>)"
    by (simp only: reserve_def Let_def refilled_def [symmetric] wait diff_ge_0_iff_ge)
  then show ?thesis
    using le by (cases "refilled b now \<ge> 1") (simp_all add: max_absorb1 max_absorb2)
qed

text \<open>The one case analysis of the bucket: a call at \<open>now\<close> finds \<open>refilled b now\<close> tokens; an
  admitted caller takes one and goes on when the debt is paid, a refused one takes none.\<close>

lemma bucket_call_cases:
  assumes "refill_per_sec b > 0"
  obtains (Admitted) "bucket_call b now bud =
      (Some (now + max 0 ((1 - refilled b now) / refill_per_sec b)),
       b\<lparr>tokens := refilled b now - 1, last_at := now\<rparr>)"
  | (Refused) "bucket_call b now bud = (None, b\<lparr>tokens := refilled b now, last_at := now\<rparr>)"
proof (cases bud)
  case None
  then show thesis
    by (intro Admitted) (simp add: bucket_acquire_def reserve_eq [OF assms])
next
  case (Some d)
  then show thesis
    using Admitted Refused
    by (cases "max 0 ((1 - refilled b now) / refill_per_sec b) \<le> d")
      (simp_all add: bucket_acquire_within_def reserve_within_def reserve_eq [OF assms])
qed

lemma paced_sends_simps:
  "paced_sends p [] = []"
  "paced_sends p (Evidence now # cs) = paced_sends (record_overload p now) cs"
  "paced_sends p (Attempt now bud # cs) =
     (if should_pace_at p now then
        (case bucket_call (bucket p) now bud of (r, b') \<Rightarrow>
           (case r of None \<Rightarrow> [] | Some go \<Rightarrow> [go]) @ paced_sends (p\<lparr>bucket := b'\<rparr>) cs)
      else paced_sends p cs)"
  by (auto simp: paced_sends_def admit_within_def admit_def
      split: prod.splits option.splits)

lemma record_overload_bucket [simp]: "bucket (record_overload p now) = bucket p"
  by (simp add: record_overload_def)

text \<open>The number of instants of a list in a window.\<close>

definition sends_between :: "instant \<Rightarrow> instant \<Rightarrow> instant list \<Rightarrow> nat" where
  "sends_between a z es = length (filter (\<lambda>e. a \<le> e \<and> e \<le> z) es)"

lemma sends_between_le: "sends_between a z es \<le> length (filter (\<lambda>e. e \<le> z) es)"
  unfolding sends_between_def by (induction es) auto

text \<open>Every call of a run happens at or after the one before it, and after the bucket's clock.\<close>

definition in_clock_order :: "instant \<Rightarrow> pacer_call list \<Rightarrow> bool" where
  "in_clock_order t cs \<longleftrightarrow> (\<forall>c\<in>set cs. t \<le> call_time c) \<and> sorted (map call_time cs)"

lemma in_clock_order_Cons:
  "in_clock_order t (c # cs) \<longleftrightarrow> t \<le> call_time c \<and> in_clock_order (call_time c) cs"
  by (auto simp: in_clock_order_def)

lemma in_clock_order_earlier: "in_clock_order t cs \<Longrightarrow> s \<le> t \<Longrightarrow> in_clock_order s cs"
  by (auto simp: in_clock_order_def)

lemma refilled_le_capacity: "refilled b now \<le> capacity b"
  by (simp add: refilled_def)

lemma refilled_le:
  assumes "last_at b \<le> now"
  shows "refilled b now \<le> tokens b + refill_per_sec b * (now - last_at b)"
  using assms by (simp add: refilled_def saturating_since_def min_def mult.commute)

text \<open>One paced call of a run: the instants that follow it, in both cases.\<close>

lemma paced_call_cases:
  assumes "should_pace_at p now" "refill_per_sec (bucket p) > 0"
  obtains (Admitted) b' go where
    "paced_sends p (Attempt now bud # cs) = go # paced_sends (p\<lparr>bucket := b'\<rparr>) cs"
    "go = now + max 0 ((1 - refilled (bucket p) now) / refill_per_sec (bucket p))"
    "tokens b' = refilled (bucket p) now - 1" "last_at b' = now"
    "refill_per_sec b' = refill_per_sec (bucket p)" "capacity b' = capacity (bucket p)"
  | (Refused) b' where
    "paced_sends p (Attempt now bud # cs) = paced_sends (p\<lparr>bucket := b'\<rparr>) cs"
    "tokens b' = refilled (bucket p) now" "last_at b' = now"
    "refill_per_sec b' = refill_per_sec (bucket p)" "capacity b' = capacity (bucket p)"
  using assms(2)
proof (cases rule: bucket_call_cases [where b = "bucket p" and now = now and bud = bud])
  case Admitted
  then show thesis
    using assms(1)
    by (intro that(1) [where b' = "(bucket p)\<lparr>tokens := refilled (bucket p) now - 1, last_at := now\<rparr>"])
      (simp_all add: paced_sends_simps)
next
  case Refused
  then show thesis
    using assms(1)
    by (intro that(2) [where b' = "(bucket p)\<lparr>tokens := refilled (bucket p) now, last_at := now\<rparr>"])
      (simp_all add: paced_sends_simps)
qed

text \<open>The instant a debt is paid: a caller that goes on by \<open>z\<close> finds its token there.\<close>

lemma paid_by:
  fixes r :: rat
  assumes "r > 0" "now + max 0 ((1 - x) / r) \<le> z"
  shows "now \<le> z" "0 \<le> x - 1 + r * (z - now)"
proof -
  show "now \<le> z" using assms(2) by (simp add: max_def split: if_splits)
  have "(1 - x) / r \<le> z - now" using assms(2) by (simp add: max_def split: if_splits)
  then show "0 \<le> x - 1 + r * (z - now)"
    using assms(1) by (simp add: divide_le_eq mult.commute)
qed

lemma sends_until:
  assumes "refill_per_sec (bucket p) = r" "r > 0"
    and "in_clock_order (last_at (bucket p)) cs"
  shows "of_nat (length (filter (\<lambda>e. e \<le> z) (paced_sends p cs)))
           \<le> max 0 (tokens (bucket p) + r * (z - last_at (bucket p)))"
  using assms
proof (induction cs arbitrary: p)
  case (Cons c cs)
  have order: "last_at (bucket p) \<le> call_time c" "in_clock_order (call_time c) cs"
    using Cons.prems(3) by (simp_all add: in_clock_order_Cons)
  show ?case
  proof (cases "\<exists>now bud. c = Attempt now bud \<and> should_pace_at p now")
    case False
    then obtain p' where p': "paced_sends p (c # cs) = paced_sends p' cs" "bucket p' = bucket p"
      by (cases c) (auto simp: paced_sends_simps)
    then show ?thesis
      using Cons.IH [of p'] Cons.prems order in_clock_order_earlier by simp
  next
    case True
    then obtain now bud where c: "c = Attempt now bud" and paced: "should_pace_at p now" by blast
    define x where "x = refilled (bucket p) now"
    have x: "x \<le> tokens (bucket p) + r * (now - last_at (bucket p))"
      using refilled_le [of "bucket p" now] order(1) Cons.prems(1) by (simp add: x_def c)
    have grow: "x + r * (z - now) \<le> tokens (bucket p) + r * (z - last_at (bucket p))"
      using x by (simp add: algebra_simps)
    have rate: "refill_per_sec (bucket p) > 0" using Cons.prems by simp
    from paced rate show ?thesis
    proof (cases rule: paced_call_cases [where bud = bud and cs = cs])
      case (Admitted b' go)
      have IH: "of_nat (length (filter (\<lambda>e. e \<le> z) (paced_sends (p\<lparr>bucket := b'\<rparr>) cs)))
                  \<le> max 0 (x - 1 + r * (z - now))"
        using Cons.IH [of "p\<lparr>bucket := b'\<rparr>"] Admitted Cons.prems order by (simp add: c x_def)
      show ?thesis
      proof (cases "go \<le> z")
        case True
        then have "0 \<le> x - 1 + r * (z - now)"
          using paid_by [of r now x z] Admitted(2) Cons.prems by (simp add: x_def)
        then show ?thesis using IH grow True Admitted(1) by (simp add: c)
      next
        case False
        then show ?thesis
          using IH grow Admitted(1) by (simp add: c)
      qed
    next
      case (Refused b')
      then show ?thesis
        using Cons.IH [of "p\<lparr>bucket := b'\<rparr>"] Cons.prems order grow by (simp add: c x_def)
    qed
  qed
qed (simp add: paced_sends_simps)


lemma sends_in_window:
  assumes "bucket_ok (bucket p)" "refill_per_sec (bucket p) = r" "capacity (bucket p) = cap"
    and "in_clock_order (last_at (bucket p)) cs" "a \<le> z"
  shows "of_nat (sends_between a z (paced_sends p cs)) \<le> cap + r * (z - a)"
  using assms
proof (induction cs arbitrary: p)
  case Nil
  then show ?case by (simp add: paced_sends_simps sends_between_def bucket_ok_def)
next
  case (Cons c cs)
  have order: "last_at (bucket p) \<le> call_time c" "in_clock_order (call_time c) cs"
    using Cons.prems(4) by (simp_all add: in_clock_order_Cons)
  have r: "r > 0" and cap: "cap \<ge> 1" using Cons.prems by (auto simp: bucket_ok_def)
  have span: "0 \<le> r * (z - a)" using r Cons.prems(5) by simp
  show ?case
  proof (cases "\<exists>now bud. c = Attempt now bud \<and> should_pace_at p now")
    case False
    then obtain p' where p': "paced_sends p (c # cs) = paced_sends p' cs" "bucket p' = bucket p"
      by (cases c) (auto simp: paced_sends_simps)
    then show ?thesis
      using Cons.IH [of p'] Cons.prems order in_clock_order_earlier by simp
  next
    case True
    then obtain now bud where c: "c = Attempt now bud" and paced: "should_pace_at p now" by blast
    define x where "x = refilled (bucket p) now"
    have x: "x \<le> cap" using refilled_le_capacity [of "bucket p" now] Cons.prems(3) by (simp add: x_def)
    have rate: "refill_per_sec (bucket p) > 0" using Cons.prems r by simp
    from paced rate show ?thesis
    proof (cases rule: paced_call_cases [where bud = bud and cs = cs])
      case (Refused b')
      then show ?thesis
        using Cons.IH [of "p\<lparr>bucket := b'\<rparr>"] Cons.prems order x by (simp add: c x_def bucket_ok_def)
    next
      case (Admitted b' go)
      let ?rest = "paced_sends (p\<lparr>bucket := b'\<rparr>) cs"
      have IH: "of_nat (sends_between a z ?rest) \<le> cap + r * (z - a)"
        using Cons.IH [of "p\<lparr>bucket := b'\<rparr>"] Admitted Cons.prems order x
        by (simp add: c x_def bucket_ok_def)
      have until: "of_nat (length (filter (\<lambda>e. e \<le> z) ?rest)) \<le> max 0 (x - 1 + r * (z - now))"
        using sends_until [of "p\<lparr>bucket := b'\<rparr>" r cs z] Admitted Cons.prems order r
        by (simp add: c x_def)
      have between: "sends_between a z ?rest \<le> length (filter (\<lambda>e. e \<le> z) ?rest)"
        by (rule sends_between_le)
      show ?thesis
      proof (cases "a \<le> go \<and> go \<le> z")
        case False
        then show ?thesis using IH Admitted(1) by (auto simp: c sends_between_def)
      next
        case True
        have "x - 1 + r * (z - now) \<le> cap - 1 + r * (z - a)"
        proof (cases "a \<le> now")
          case True
          then have "r * (z - now) \<le> r * (z - a)" using r by simp
          then show ?thesis using x by simp
        next
          case False
          have "x - 1 + r * (a - now) \<le> 0"
            using True False Admitted(2) Cons.prems(2) r
            by (auto simp: x_def max_def field_simps split: if_splits)
          then show ?thesis using cap by (simp add: algebra_simps)
        qed
        then have "max 0 (x - 1 + r * (z - now)) \<le> cap - 1 + r * (z - a)"
          using cap span by simp
        then have "of_nat (sends_between a z ?rest) \<le> cap - 1 + r * (z - a)"
          using until between by (meson le_less_trans not_le of_nat_mono order_trans)
        then show ?thesis using True Admitted(1) by (simp add: c sends_between_def)
      qed
    qed
  qed
qed


subsection \<open>The rate of paced attempts\<close>

lemma pacer_new_simps [simp]:
  "bucket (pacer_with_cooldown st cd now) = bucket_new (requests st) (pace_interval st) now"
  "policy (pacer_with_cooldown st cd now) = policy_new cd now"
  "settings (pacer_with_cooldown st cd now) = st"
  by (simp_all add: pacer_with_cooldown_def)

lemma bucket_new_simps [simp]:
  "capacity (bucket_new n d now) = of_nat (max n 1)"
  "refill_per_sec (bucket_new n d now) = of_nat (max n 1) / max d 1"
  "tokens (bucket_new n d now) = of_nat (max n 1)"
  "last_at (bucket_new n d now) = now"
  by (simp_all add: bucket_new_def Let_def)

text \<open>C30: Over any window of time, the attempts the pacer paced and let through number at most
  one burst of \<open>requests\<close> and what the bucket refills in the window, \<open>requests\<close> per
  \<open>interval\<close>: whatever the calls, the budgets they bring, the refused callers among them and
  the overload reports that open and close episodes, as long as the calls reach the pacer
  in the order of their clocks (both settings are clamped to at least 1).\<close>

theorem paced_rate_bound:
  assumes "in_clock_order start cs" and "a \<le> z"
  shows "of_nat (sends_between a z (paced_sends (pacer_with_cooldown st cd start) cs))
           \<le> of_nat (max (requests st) 1)
             + of_nat (max (requests st) 1) / max (pace_interval st) 1 * (z - a)"
  using assms by (intro sends_in_window) (simp_all add: bucket_new_ok)

theorem paced_rate_bound_witness:
  "of_nat (sends_between 0 3 (paced_sends
      (pacer_with_cooldown \<lparr>requests = 1, pace_interval = 1, enabled_by_config = True,
         auto_react = True\<rparr> 900 0) [Attempt 0 None, Attempt 0 None, Attempt 1 (Some 0)]))
     \<le> (4 :: rat)"
proof -
  have "in_clock_order 0 [Attempt 0 None, Attempt 0 None, Attempt 1 (Some 0)]"
    by (simp add: in_clock_order_def)
  from paced_rate_bound [OF this, of 0 3 "\<lparr>requests = 1, pace_interval = 1,
      enabled_by_config = True, auto_react = True\<rparr>" 900]
  show ?thesis by simp
qed

subsection \<open>Arrival order\<close>

text \<open>The instant from which the next paced attempt can go on at the earliest: the frontier of
  the debt.\<close>

definition frontier :: "token_bucket \<Rightarrow> instant" where
  "frontier b = last_at b + max 0 (- tokens b / refill_per_sec b)"

lemma frontier_refilled:
  assumes "refill_per_sec b > 0" "last_at b \<le> now" "tokens b \<le> capacity b" "capacity b \<ge> 1"
  shows "frontier b \<le> now + max 0 (- refilled b now / refill_per_sec b)"
proof (cases "refilled b now \<ge> 0")
  case True
  then have "0 \<le> tokens b + refill_per_sec b * (now - last_at b)"
    using refilled_le [OF assms(2)] by linarith
  then have "- tokens b \<le> (now - last_at b) * refill_per_sec b"
    by (simp add: mult.commute)
  then have "- tokens b / refill_per_sec b \<le> now - last_at b"
    by (simp only: pos_divide_le_eq [OF assms(1)])
  then show ?thesis using assms(2) by (simp add: frontier_def)
next
  case False
  have "refilled b now \<le> tokens b + refill_per_sec b * (now - last_at b)"
    by (rule refilled_le [OF assms(2)])
  then have "- tokens b \<le> (now - last_at b) * refill_per_sec b + - refilled b now"
    by (simp add: mult.commute)
  then have "- tokens b / refill_per_sec b \<le> ((now - last_at b) * refill_per_sec b + - refilled b now) / refill_per_sec b"
    by (rule divide_right_mono) (use assms(1) in simp)
  also have "\<dots> = now - last_at b + - refilled b now / refill_per_sec b"
    using assms(1) by (simp add: diff_divide_distrib)
  finally show ?thesis using assms(1,2) False by (simp add: frontier_def max_def)
qed


lemma paced_sends_after_frontier:
  assumes "bucket_ok (bucket p)" "in_clock_order (last_at (bucket p)) cs"
  shows "sorted (paced_sends p cs) \<and> (\<forall>e\<in>set (paced_sends p cs). frontier (bucket p) \<le> e)"
  using assms
proof (induction cs arbitrary: p)
  case (Cons c cs)
  have order: "last_at (bucket p) \<le> call_time c" "in_clock_order (call_time c) cs"
    using Cons.prems(2) by (simp_all add: in_clock_order_Cons)
  show ?case
  proof (cases "\<exists>now bud. c = Attempt now bud \<and> should_pace_at p now")
    case False
    then obtain p' where p': "paced_sends p (c # cs) = paced_sends p' cs" "bucket p' = bucket p"
      by (cases c) (auto simp: paced_sends_simps)
    then show ?thesis
      using Cons.IH [of p'] Cons.prems order in_clock_order_earlier by simp
  next
    case True
    then obtain now bud where c: "c = Attempt now bud" and paced: "should_pace_at p now" by blast
    define x r where "x = refilled (bucket p) now" and "r = refill_per_sec (bucket p)"
    have r: "r > 0" using Cons.prems(1) by (simp add: r_def bucket_ok_def)
    have reach: "frontier (bucket p) \<le> now + max 0 (- x / r)"
      using frontier_refilled [of "bucket p" now] Cons.prems(1) order(1)
      by (simp add: bucket_ok_def c x_def r_def)
    have x: "x \<le> capacity (bucket p)"
      by (simp add: x_def refilled_le_capacity)
    from paced r [unfolded r_def] show ?thesis
    proof (cases rule: paced_call_cases [where bud = bud and cs = cs])
      case (Refused b')
      have "frontier b' = now + max 0 (- x / r)"
        using Refused by (simp add: frontier_def x_def r_def)
      then show ?thesis
        using Cons.IH [of "p\<lparr>bucket := b'\<rparr>"] Refused Cons.prems order x reach
        by (force simp: c x_def bucket_ok_def)
    next
      case (Admitted b' go)
      have go: "frontier b' = go"
        using Admitted by (simp add: frontier_def x_def r_def)
      have "- x / r \<le> (1 - x) / r"
        by (rule divide_right_mono) (use r in simp_all)
      then have "frontier (bucket p) \<le> go"
        using reach Admitted(2) by (simp add: x_def r_def max_def split: if_splits)
      moreover have "sorted (paced_sends (p\<lparr>bucket := b'\<rparr>) cs)
          \<and> (\<forall>e\<in>set (paced_sends (p\<lparr>bucket := b'\<rparr>) cs). go \<le> e)"
        using Cons.IH [of "p\<lparr>bucket := b'\<rparr>"] Admitted Cons.prems order x go
        by (simp add: c x_def bucket_ok_def)
      ultimately show ?thesis using Admitted(1) by (auto simp: c)
    qed
  qed
qed (simp add: paced_sends_simps)

text \<open>Concurrent waiters go on in the order in which they came.\<close>

lemma paced_sends_in_arrival_order:
  assumes "in_clock_order start cs"
  shows "sorted (paced_sends (pacer_with_cooldown st cd start) cs)"
  using paced_sends_after_frontier [of "pacer_with_cooldown st cd start" cs] assms
  by (simp add: bucket_new_ok)

subsection \<open>Episodes\<close>

definition pacer_after :: "pacer \<Rightarrow> pacer_call list \<Rightarrow> pacer" where
  "pacer_after p cs = snd (pacer_run p cs)"

text \<open>The millisecond at which an episode opened by one report ends.\<close>

definition episode_end :: "overload_policy \<Rightarrow> instant \<Rightarrow> nat" where
  "episode_end p t = min u64_max (millis_since_origin p t + as_millis (cooldown p))"

lemma pacer_after_simps:
  "pacer_after p [] = p"
  "pacer_after p (Evidence now # cs) = pacer_after (record_overload p now) cs"
  "pacer_after p (Attempt now bud # cs) = pacer_after (snd (admit_within p now bud)) cs"
  by (simp_all add: pacer_after_def split: prod.splits)

lemma admit_within_keeps:
  "policy (snd (admit_within p now bud)) = policy p"
  "settings (snd (admit_within p now bud)) = settings p"
  by (auto simp: admit_within_def admit_def split: option.splits prod.splits)

lemma record_overload_settings [simp]: "settings (record_overload p now) = settings p"
  by (simp add: record_overload_def)

lemma pacer_after_policy:
  "settings (pacer_after p cs) = settings p
   \<and> origin (policy (pacer_after p cs)) = origin (policy p)
   \<and> cooldown (policy (pacer_after p cs)) = cooldown (policy p)
   \<and> (n < paced_until_ms (policy (pacer_after p cs)) \<longleftrightarrow>
       n < paced_until_ms (policy p)
       \<or> auto_react (settings p) \<and> (\<exists>t. Evidence t \<in> set cs \<and> n < episode_end (policy p) t))"
proof (induction cs arbitrary: p)
  case (Cons c cs)
  show ?case
  proof (cases c)
    case (Attempt now bud)
    then show ?thesis
      using Cons.IH [of "snd (admit_within p now bud)"]
      by (simp add: pacer_after_simps admit_within_keeps)
  next
    case (Evidence now)
    define p' where "p' = record_overload p now"
    have keep: "origin (policy p') = origin (policy p)" "cooldown (policy p') = cooldown (policy p)"
      by (simp_all add: p'_def record_overload_def record_evidence_at_def Let_def)
    have ends: "episode_end (policy p') t = episode_end (policy p) t" for t
      by (simp add: episode_end_def millis_since_origin_def keep)
    have "n < paced_until_ms (policy p') \<longleftrightarrow> n < paced_until_ms (policy p)
        \<or> auto_react (settings p) \<and> n < episode_end (policy p) now"
      by (auto simp: p'_def record_overload_def record_evidence_at_def Let_def episode_end_def)
    moreover have "settings p' = settings p" by (simp add: p'_def)
    ultimately show ?thesis
      using Cons.IH [of p'] keep
      by (auto simp: Evidence pacer_after_simps p'_def [symmetric] ends)
  qed
qed (simp add: pacer_after_simps)

text \<open>An attempt passes the pacer without a token exactly when pacing is not switched on by
  configuration and no episode is open: either the pacer does not react to overload, or no
  report it has received so far is less than the cooldown old (in whole milliseconds of the
  policy's clock, with saturation).  The budget does not matter, and a paced attempt is never
  let through free: it takes a token or is refused.\<close>

lemma free_pass_iff_quiet:
  "(\<exists>go. fst (admit_within (pacer_after (pacer_with_cooldown st cd start) cs) now bud)
            = Some (False, go))
   \<longleftrightarrow> \<not> enabled_by_config st
       \<and> (auto_react st \<longrightarrow>
           (\<forall>t. Evidence t \<in> set cs \<longrightarrow>
              min u64_max (as_millis (saturating_since t start) + as_millis cd)
                \<le> as_millis (saturating_since now start)))"
  (is "?free \<longleftrightarrow> ?quiet")
proof -
  let ?new = "pacer_with_cooldown st cd start"
  let ?p = "pacer_after ?new cs"
  have "?free \<longleftrightarrow> \<not> should_pace_at ?p now"
    by (auto simp: admit_within_def admit_def split: option.splits prod.splits)
  also have "\<dots> \<longleftrightarrow> ?quiet"
  proof -
    have after: "settings ?p = st" "origin (policy ?p) = start" "cooldown (policy ?p) = cd"
      using pacer_after_policy [of ?new cs 0] by (simp_all add: policy_new_def)
    have "n < paced_until_ms (policy ?p) \<longleftrightarrow> auto_react st \<and>
        (\<exists>t. Evidence t \<in> set cs \<and>
           n < min u64_max (as_millis (saturating_since t start) + as_millis cd))" for n
      using pacer_after_policy [of ?new cs n]
      by (simp add: policy_new_def episode_end_def millis_since_origin_def)
    then show ?thesis
      by (auto simp only: should_pace_at_def is_paced_at_def millis_since_origin_def after not_less
          de_Morgan_disj not_all not_ex)
  qed
  finally show ?thesis .
qed

subsection \<open>The clock read before the lock\<close>

text \<open>The clock of a call is read before the lock of the bucket is taken, so two calls can
  reach the bucket in the other order; the older one sets \<open>last_at\<close> back, and the time
  between them is refilled twice.  Here a caller with the clock at 9 comes after the one at
  10, and the next caller waits one second where it is owed two.\<close>

lemma late_clock_refills_twice:
  "fst (reserve (snd (reserve (snd (reserve (bucket_new 1 1 0) 10)) 9)) 10) = 1"
  "fst (reserve (snd (reserve (snd (reserve (bucket_new 1 1 0) 10)) 10)) 10) = 2"
  by (simp_all add: reserve_def bucket_new_def saturating_since_def Let_def)

lemma init_pacer_first_wins:
  "fst (fst (init_pacer (snd (init_pacer None st cd t)) st' cd' t')) = pacer_with_cooldown st cd t"
  "snd (fst (init_pacer (snd (init_pacer None st cd t)) st' cd' t')) \<longleftrightarrow> st \<noteq> st'"
  by (auto simp: init_pacer_def Let_def)

end
