(* ===== verification/Ontology_Match.thy ===== *)
theory Ontology_Match
  imports Complex_Main Prelude
begin

text \<open>
  Entity names against the ontology (\<open>crates/ontology/src/matching.rs\<close>, \<open>uri_to_key\<close> of
  \<open>models.rs\<close>): the gestalt similarity of two strings and the choice of the best candidate.
  \<open>str::to_lowercase\<close> is the parameter \<open>lower\<close>; the similarity is taken over UTF-8 bytes, a
  score is an exact rational.
\<close>

section \<open>Keys\<close>

text \<open>\<open>rsplit(['#', '/']).next()\<close> is what follows the last separator.\<close>

definition uri_to_key :: "(ustr \<Rightarrow> ustr) \<Rightarrow> ustr \<Rightarrow> ustr" where
  "uri_to_key lower uri =
     map (\<lambda>c. if c = 0x20 then 0x5F else c)
       (lower (rev (takeWhile (\<lambda>c. c \<noteq> 0x23 \<and> c \<noteq> 0x2F) (rev uri))))"

section \<open>Matching blocks\<close>

text \<open>The inner \<open>while\<close> loop: how far two strings agree.\<close>

fun common_prefix :: "'a list \<Rightarrow> 'a list \<Rightarrow> nat" where
  "common_prefix (x # xs) (y # ys) = (if x = y then Suc (common_prefix xs ys) else 0)"
| "common_prefix _ _ = 0"

text \<open>The two \<open>for\<close> loops: the first longest block, as (position in \<open>a\<close>, position in \<open>b\<close>,
  length).\<close>

definition longer_block :: "'a list \<Rightarrow> 'a list \<Rightarrow> nat \<Rightarrow> nat \<times> nat \<times> nat \<Rightarrow> nat \<Rightarrow> nat \<times> nat \<times> nat" where
  "longer_block a b i best j =
     (let k = common_prefix (drop i a) (drop j b) in
      if k > snd (snd best) then (i, j, k) else best)"

definition best_block :: "'a list \<Rightarrow> 'a list \<Rightarrow> nat \<times> nat \<times> nat" where
  "best_block a b =
     foldl (\<lambda>best i. foldl (longer_block a b i) best [0..<length b]) (0, 0, 0) [0..<length a]"

lemma common_prefix_le: "common_prefix a b \<le> length a" "common_prefix a b \<le> length b"
  by (induction a b rule: common_prefix.induct) auto

lemma common_prefix_take: "take (common_prefix a b) a = take (common_prefix a b) b"
  by (induction a b rule: common_prefix.induct) auto

lemma common_prefix_self [simp]: "common_prefix a a = length a"
  by (induction a) auto

text \<open>What the scan keeps: a common block of the two strings.\<close>

definition block_of :: "'a list \<Rightarrow> 'a list \<Rightarrow> nat \<times> nat \<times> nat \<Rightarrow> bool" where
  "block_of a b = (\<lambda>(i, j, k). i + k \<le> length a \<and> j + k \<le> length b \<and>
     take k (drop i a) = take k (drop j b))"

lemma longer_block_of:
  assumes "block_of a b best" "i < length a" "j < length b"
  shows "block_of a b (longer_block a b i best j)"
  using assms common_prefix_le [of "drop i a" "drop j b"] common_prefix_take [of "drop i a" "drop j b"]
  by (auto simp: block_of_def longer_block_def Let_def)

lemma longer_block_length:
  "snd (snd best) \<le> snd (snd (longer_block a b i best j))"
  "common_prefix (drop i a) (drop j b) \<le> snd (snd (longer_block a b i best j))"
  by (simp_all add: longer_block_def Let_def)

lemma row_of_blocks:
  assumes "block_of a b best" "i < length a"
  shows "block_of a b (foldl (longer_block a b i) best [0..<length b])
    \<and> snd (snd best) \<le> snd (snd (foldl (longer_block a b i) best [0..<length b]))
    \<and> (\<forall>j < length b. common_prefix (drop i a) (drop j b)
         \<le> snd (snd (foldl (longer_block a b i) best [0..<length b])))"
proof -
  have "n \<le> length b \<Longrightarrow> block_of a b (foldl (longer_block a b i) best [0..<n])
    \<and> snd (snd best) \<le> snd (snd (foldl (longer_block a b i) best [0..<n]))
    \<and> (\<forall>j < n. common_prefix (drop i a) (drop j b)
         \<le> snd (snd (foldl (longer_block a b i) best [0..<n])))" for n
  proof (induction n)
    case (Suc n)
    then show ?case
      using longer_block_of [OF _ assms(2), of b "foldl (longer_block a b i) best [0..<n]" n]
        longer_block_length [where best = "foldl (longer_block a b i) best [0..<n]"
            and a = a and b = b and i = i and j = n]
      by (auto simp: less_Suc_eq intro: order_trans)
  qed (simp add: assms)
  from this [of "length b"] show ?thesis by simp
qed

lemma best_block_longest:
  "block_of a b (best_block a b)
   \<and> (\<forall>i < length a. \<forall>j < length b. common_prefix (drop i a) (drop j b) \<le> snd (snd (best_block a b)))"
proof -
  let ?rows = "\<lambda>m. foldl (\<lambda>best i. foldl (longer_block a b i) best [0..<length b]) (0, 0, 0) [0..<m]"
  have "m \<le> length a \<Longrightarrow> block_of a b (?rows m)
     \<and> (\<forall>i < m. \<forall>j < length b. common_prefix (drop i a) (drop j b) \<le> snd (snd (?rows m)))" for m
  proof (induction m)
    case (Suc m)
    then show ?case
      using row_of_blocks [of a b "?rows m" m] by (auto simp: less_Suc_eq intro: order_trans)
  qed (simp add: block_of_def)
  from this [of "length a"] show ?thesis by (simp add: best_block_def)
qed

lemma best_block_block:
  assumes "best_block a b = (i, j, k)"
  shows "i + k \<le> length a" "j + k \<le> length b" "take k (drop i a) = take k (drop j b)"
  using best_block_longest [of a b] by (simp_all add: assms block_of_def)

text \<open>\<open>count_matching_chars\<close>: the longest block, and recursively what is to its left and to
  its right.\<close>

function count_matching_chars :: "'a list \<Rightarrow> 'a list \<Rightarrow> nat" where
  "count_matching_chars a b =
     (if a = [] \<or> b = [] then 0
      else case best_block a b of (i, j, k) \<Rightarrow>
        if k = 0 then 0
        else count_matching_chars (take i a) (take j b) + k
             + count_matching_chars (drop (i + k) a) (drop (j + k) b))"
  by pat_completeness auto
termination
proof (relation "measure (\<lambda>(a, b). length a)", goal_cases)
  case (2 a b i jk j k)
  then show ?case using best_block_block(1) [of a b i j k] by auto
qed auto

declare count_matching_chars.simps [simp del]

lemma count_matching_chars_cases:
  obtains (Nothing) "count_matching_chars a b = 0" "a = [] \<or> b = [] \<or> snd (snd (best_block a b)) = 0"
  | (Block) i j k where "a \<noteq> []" "b \<noteq> []" "best_block a b = (i, j, k)" "k \<noteq> 0"
      "count_matching_chars a b =
         count_matching_chars (take i a) (take j b) + k
         + count_matching_chars (drop (i + k) a) (drop (j + k) b)"
proof (cases "a = [] \<or> b = [] \<or> snd (snd (best_block a b)) = 0")
  case True
  then show thesis
    by (intro Nothing) (subst count_matching_chars.simps, auto split: prod.splits)
next
  case False
  obtain i j k where "best_block a b = (i, j, k)" by (cases "best_block a b") auto
  with False show thesis
    by (intro Block [of i j k]) (simp_all, subst count_matching_chars.simps, simp)
qed

text \<open>No character of either string is counted twice.\<close>

lemma count_matching_chars_le:
  "count_matching_chars a b \<le> length a \<and> count_matching_chars a b \<le> length b"
proof (induction "length a" arbitrary: a b rule: less_induct)
  case less
  show ?case
  proof (cases rule: count_matching_chars_cases [of a b])
    case (Block i j k)
    note b = best_block_block [OF Block(3)]
    have "count_matching_chars (take i a) (take j b) \<le> i
        \<and> count_matching_chars (take i a) (take j b) \<le> j"
      using less [of "take i a" "take j b"] b(1,2) Block(4) by auto
    moreover have "count_matching_chars (drop (i + k) a) (drop (j + k) b) \<le> length a - (i + k)
        \<and> count_matching_chars (drop (i + k) a) (drop (j + k) b) \<le> length b - (j + k)"
      using less [of "drop (i + k) a" "drop (j + k) b"] Block(1,4) by auto
    ultimately show ?thesis using b(1,2) Block(5) by linarith
  qed simp
qed

lemma count_matching_chars_bounds:
  "count_matching_chars a b \<le> length a" "count_matching_chars a b \<le> length b"
  using count_matching_chars_le [of a b] by simp_all

text \<open>Every character is matched exactly when the strings are equal.\<close>

lemma best_block_self:
  assumes "a \<noteq> []"
  shows "length a \<le> snd (snd (best_block a a))"
proof -
  have "common_prefix (drop 0 a) (drop 0 a) \<le> snd (snd (best_block a a))"
    using best_block_longest [of a a] assms by blast
  then show ?thesis by simp
qed

lemma count_matching_chars_self: "count_matching_chars a a = length a"
proof (cases rule: count_matching_chars_cases [of a a])
  case Nothing
  have "a = []" if "snd (snd (best_block a a)) = 0"
    using best_block_self [of a] that by auto
  with Nothing show ?thesis by auto
next
  case (Block i j k)
  have "length a \<le> k"
    using best_block_self [OF Block(1)] Block(3) by simp
  then show ?thesis using best_block_block [OF Block(3)] Block(5) count_matching_chars_le [of "[]"]
    by (simp add: count_matching_chars.simps)
qed

lemma count_matching_chars_full:
  assumes "count_matching_chars a b = length a" "count_matching_chars a b = length b"
  shows "a = b"
  using assms
proof (induction "length a" arbitrary: a b rule: less_induct)
  case less
  show ?case
  proof (cases rule: count_matching_chars_cases [of a b])
    case Nothing
    then show ?thesis using less.prems by simp
  next
    case (Block i j k)
    note b = best_block_block [OF Block(3)]
    let ?left = "count_matching_chars (take i a) (take j b)"
    let ?right = "count_matching_chars (drop (i + k) a) (drop (j + k) b)"
    have "?left \<le> i" "?left \<le> j" "?right \<le> length a - (i + k)" "?right \<le> length b - (j + k)"
      using count_matching_chars_bounds [of "take i a" "take j b"]
        count_matching_chars_bounds [of "drop (i + k) a" "drop (j + k) b"] by simp_all
    moreover have "?left + k + ?right = length a" "?left + k + ?right = length b"
      by (rule trans [OF Block(5) [symmetric] less.prems(1)],
        rule trans [OF Block(5) [symmetric] less.prems(2)])
    ultimately have "?left = i" "?left = j" "?right = length a - (i + k)"
      "?right = length b - (j + k)"
      using b(1,2) by linarith+
    moreover have "length (take i a) < length a" "length (drop (i + k) a) < length a"
      "length (take i a) = i" "length (take j b) = j"
      using b(1,2) Block(1,4) by auto
    ultimately have "take i a = take j b" "drop (i + k) a = drop (j + k) b"
      by (metis less.hyps length_drop)+
    moreover have "xs = take n xs @ take k (drop n xs) @ drop (n + k) xs" for n and xs :: "'a list"
      by (metis append_take_drop_id drop_drop add.commute)
    ultimately show ?thesis using b(3) by metis
  qed
qed


section \<open>Similarity\<close>

text \<open>\<open>str::as_bytes\<close>: UTF-8.\<close>

definition utf8_char :: "uchar \<Rightarrow> nat list" where
  "utf8_char c =
     (if c < 0x80 then [c]
      else if c < 0x800 then [0xC0 + c div 0x40, 0x80 + c mod 0x40]
      else if c < 0x10000 then [0xE0 + c div 0x1000, 0x80 + c div 0x40 mod 0x40, 0x80 + c mod 0x40]
      else [0xF0 + c div 0x40000, 0x80 + c div 0x1000 mod 0x40, 0x80 + c div 0x40 mod 0x40,
            0x80 + c mod 0x40])"

definition as_bytes :: "ustr \<Rightarrow> nat list" where
  "as_bytes s = concat (map utf8_char s)"

definition gestalt_ratio :: "ustr \<Rightarrow> ustr \<Rightarrow> rat" where
  "gestalt_ratio a b =
     (let total = length (as_bytes a) + length (as_bytes b) in
      if total = 0 then 1
      else 2 * of_nat (count_matching_chars (as_bytes a) (as_bytes b)) / of_nat total)"

lemma gestalt_ratio_bounds: "0 \<le> gestalt_ratio a b" "gestalt_ratio a b \<le> 1"
proof -
  show "0 \<le> gestalt_ratio a b" by (simp add: gestalt_ratio_def Let_def)
  have "2 * count_matching_chars (as_bytes a) (as_bytes b)
      \<le> length (as_bytes a) + length (as_bytes b)"
    using count_matching_chars_le [of "as_bytes a" "as_bytes b"] by linarith
  then have "2 * (of_nat (count_matching_chars (as_bytes a) (as_bytes b)) :: rat)
      \<le> of_nat (length (as_bytes a) + length (as_bytes b))"
    by (metis of_nat_mono of_nat_mult of_nat_numeral)
  then show "gestalt_ratio a b \<le> 1"
    by (cases "length (as_bytes a) + length (as_bytes b) = 0")
      (auto simp: gestalt_ratio_def Let_def divide_le_eq_1 simp del: of_nat_add)
qed

lemma gestalt_ratio_1_iff: "gestalt_ratio a b = 1 \<longleftrightarrow> as_bytes a = as_bytes b"
proof -
  let ?a = "as_bytes a" and ?b = "as_bytes b"
  let ?m = "count_matching_chars ?a ?b"
  have "gestalt_ratio a b = 1 \<longleftrightarrow> ?a = [] \<and> ?b = [] \<or> (?a \<noteq> [] \<or> ?b \<noteq> []) \<and> 2 * ?m = length ?a + length ?b"
  proof (cases "?a = [] \<and> ?b = []")
    case False
    then have "gestalt_ratio a b = 1 \<longleftrightarrow> 2 * (of_nat ?m :: rat) = of_nat (length ?a + length ?b)"
      by (auto simp: gestalt_ratio_def Let_def simp del: of_nat_add)
    also have "\<dots> \<longleftrightarrow> 2 * ?m = length ?a + length ?b"
      by (simp only: of_nat_eq_iff [symmetric, where 'a = rat] of_nat_mult of_nat_numeral)
    finally show ?thesis using False by blast
  qed (simp add: gestalt_ratio_def)
  also have "\<dots> \<longleftrightarrow> ?m = length ?a \<and> ?m = length ?b"
    using count_matching_chars_bounds [of ?a ?b] by auto
  also have "\<dots> \<longleftrightarrow> ?a = ?b"
    using count_matching_chars_full [of ?a ?b] count_matching_chars_self [of ?a] by metis
  finally show ?thesis .
qed

section \<open>The best candidate\<close>

text \<open>\<open>FuzzyMatchingStrategy::new\<close> panics on a cutoff outside \<open>0..=1\<close>; the default is 0.8.\<close>

definition new_matcher :: "rat \<Rightarrow> rat option" where
  "new_matcher cutoff = (if 0 \<le> cutoff \<and> cutoff \<le> 1 then Some cutoff else None)"

definition default_cutoff :: rat where
  "default_cutoff = 4 / 5"

definition better_match ::
    "(ustr \<Rightarrow> ustr) \<Rightarrow> rat \<Rightarrow> ustr \<Rightarrow> (ustr \<times> rat) option \<Rightarrow> ustr \<Rightarrow> (ustr \<times> rat) option" where
  "better_match lower cutoff query_lower best candidate =
     (let similarity = gestalt_ratio query_lower (lower candidate) in
      if similarity \<ge> cutoff then
        (case best of
           None \<Rightarrow> Some (candidate, similarity)
         | Some (_, best_score) \<Rightarrow>
             if similarity > best_score then Some (candidate, similarity) else best)
      else best)"

definition find_match :: "(ustr \<Rightarrow> ustr) \<Rightarrow> rat \<Rightarrow> ustr \<Rightarrow> ustr list \<Rightarrow> ustr option" where
  "find_match lower cutoff query candidates =
     (if candidates = [] then None
      else case find (\<lambda>c. lower c = lower query) candidates of
        Some c \<Rightarrow> Some c
      | None \<Rightarrow> map_option fst (foldl (better_match lower cutoff (lower query)) None candidates))"


definition match_score :: "(ustr \<Rightarrow> ustr) \<Rightarrow> ustr \<Rightarrow> ustr \<Rightarrow> rat" where
  "match_score lower query_lower c = gestalt_ratio query_lower (lower c)"

lemma better_match_simps:
  "better_match lower cutoff q None c =
     (if match_score lower q c < cutoff then None else Some (c, match_score lower q c))"
  "better_match lower cutoff q (Some (b, s)) c =
     (if cutoff \<le> match_score lower q c \<and> s < match_score lower q c
      then Some (c, match_score lower q c) else Some (b, s))"
  by (auto simp: better_match_def Let_def match_score_def)

text \<open>The first of the elements with the highest score.\<close>

definition first_best :: "('a \<Rightarrow> rat) \<Rightarrow> 'a list \<Rightarrow> 'a \<Rightarrow> bool" where
  "first_best score cs b \<longleftrightarrow> (\<exists>before after. cs = before @ b # after
     \<and> (\<forall>c\<in>set before. score c < score b) \<and> (\<forall>c\<in>set after. score c \<le> score b))"

lemma first_best_keep:
  assumes "first_best score cs b" "score c \<le> score b"
  shows "first_best score (cs @ [c]) b"
proof -
  obtain before after where cs: "cs = before @ b # after"
    "\<forall>c\<in>set before. score c < score b" "\<forall>c\<in>set after. score c \<le> score b"
    using assms(1) by (auto simp: first_best_def)
  then have "cs @ [c] = before @ b # (after @ [c])" "\<forall>d\<in>set (after @ [c]). score d \<le> score b"
    using assms(2) by auto
  then show ?thesis unfolding first_best_def using cs(2) by blast
qed

lemma first_best_new:
  assumes "\<forall>d\<in>set cs. score d < score c"
  shows "first_best score (cs @ [c]) c"
  unfolding first_best_def using assms by (intro exI [of _ cs] exI [of _ "[]"]) simp

lemma first_best_upper: "first_best score cs b \<Longrightarrow> d \<in> set cs \<Longrightarrow> score d \<le> score b"
  by (force simp: first_best_def)

lemma first_best_in: "first_best score cs b \<Longrightarrow> b \<in> set cs"
  by (auto simp: first_best_def)

lemma better_match_fold:
  "case foldl (better_match lower cutoff q) None cs of
      None \<Rightarrow> (\<forall>c\<in>set cs. match_score lower q c < cutoff)
    | Some (best, s) \<Rightarrow> s = match_score lower q best \<and> cutoff \<le> s
        \<and> first_best (match_score lower q) cs best"
proof (induction cs rule: rev_induct)
  case (snoc c cs)
  let ?score = "match_score lower q"
  show ?case
  proof (cases "foldl (better_match lower cutoff q) None cs")
    case None
    then have below: "\<forall>d\<in>set cs. ?score d < cutoff" using snoc by simp
    then show ?thesis
      using first_best_new [of cs ?score c]
      by (cases "?score c < cutoff") (force simp: better_match_simps None)+
  next
    case (Some bs)
    then obtain best where
      bs: "foldl (better_match lower cutoff q) None cs = Some (best, ?score best)"
      and ok: "cutoff \<le> ?score best" and best: "first_best ?score cs best"
      using snoc by (cases bs) auto
    show ?thesis
    proof (cases "?score best < ?score c")
      case True
      then have "first_best ?score (cs @ [c]) c"
        using first_best_upper [OF best] by (intro first_best_new) force
      then show ?thesis using True ok by (simp add: better_match_simps bs)
    next
      case False
      then show ?thesis
        using ok first_best_keep [OF best, of c] by (simp add: better_match_simps bs)
    qed
  qed
qed simp

text \<open>The choice, on every branch: no candidates give nothing; else the first candidate that
  equals the name up to case; else the first of the most similar candidates, when its score
  reaches the cutoff.\<close>

lemma find_match_exact:
  assumes "candidates = before @ c # after" "lower c = lower query"
    and "\<forall>d\<in>set before. lower d \<noteq> lower query"
  shows "find_match lower cutoff query candidates = Some c"
proof -
  have "find (\<lambda>c. lower c = lower query) candidates = Some c"
    using assms(3) unfolding assms(1) by (induction before) (auto simp: assms(2))
  then show ?thesis using assms(1) by (simp add: find_match_def)
qed

lemma find_match_fuzzy:
  assumes "\<forall>d\<in>set candidates. lower d \<noteq> lower query"
  shows "case find_match lower cutoff query candidates of
      None \<Rightarrow> \<forall>c\<in>set candidates. match_score lower (lower query) c < cutoff
    | Some best \<Rightarrow> cutoff \<le> match_score lower (lower query) best
        \<and> first_best (match_score lower (lower query)) candidates best"
proof -
  have "find (\<lambda>c. lower c = lower query) candidates = None"
    using assms by (simp add: find_None_iff)
  then have "find_match lower cutoff query candidates =
      map_option fst (foldl (better_match lower cutoff (lower query)) None candidates)"
    by (simp add: find_match_def)
  then show ?thesis
    using better_match_fold [where lower = lower and cutoff = cutoff
        and q = "lower query" and cs = candidates]
    by (auto split: option.splits)
qed

lemma find_match_in:
  assumes found: "find_match lower cutoff query candidates = Some c"
  shows "c \<in> set candidates"
proof (cases "\<exists>d\<in>set candidates. lower d = lower query")
  case True
  then obtain d where "find (\<lambda>c. lower c = lower query) candidates = Some d" "d \<in> set candidates"
    by (cases "find (\<lambda>c. lower c = lower query) candidates")
      (auto simp: find_None_iff find_Some_iff)
  with found show ?thesis by (auto simp: find_match_def split: if_splits)
next
  case False
  then show ?thesis
    using find_match_fuzzy [where candidates = candidates and lower = lower and query = query
        and cutoff = cutoff] found
    by (auto dest: first_best_in)
qed

text \<open>A similarity of 1 means equal bytes, so with the cutoff 1 the fuzzy search finds
  nothing that the exact search did not find.\<close>

lemma find_match_cutoff_1:
  assumes "find_match lower 1 query candidates = Some c"
  shows "as_bytes (lower c) = as_bytes (lower query)"
proof (cases "\<exists>d\<in>set candidates. lower d = lower query")
  case True
  then obtain d where "find (\<lambda>c. lower c = lower query) candidates = Some d" "lower d = lower query"
    by (cases "find (\<lambda>c. lower c = lower query) candidates")
      (auto simp: find_None_iff find_Some_iff)
  with assms show ?thesis by (auto simp: find_match_def split: if_splits)
next
  case False
  then have "1 \<le> gestalt_ratio (lower query) (lower c)"
    using find_match_fuzzy [where candidates = candidates and lower = lower and query = query
        and cutoff = 1] assms by (auto simp: match_score_def)
  then have "gestalt_ratio (lower query) (lower c) = 1"
    using gestalt_ratio_bounds(2) by (rule antisym [rotated])
  then show ?thesis by (simp add: gestalt_ratio_1_iff)
qed

end
