(* ===== verification/Ontology.thy ===== *)
theory Ontology
  imports Ontology_Match "HOL-Library.While_Combinator" "HOL-Library.List_Lexorder"
begin

text \<open>
  The ontology resolver (\<open>crates/ontology/src/{models,builder,rdflib}.rs\<close>): the lookup built
  from an RDF graph, and the subgraph a breadth-first search extracts. A graph is the list of
  its triples in the order the store iterates them (an in-memory store, whose iteration does
  not fail); a \<open>HashMap\<close> is an association list, a \<open>HashSet\<close> a set.
\<close>

section \<open>Graphs\<close>

datatype rdf_term = Iri ustr | Literal ustr | Blank ustr

type_synonym triple = "rdf_term \<times> rdf_term \<times> rdf_term"

definition term_iri :: "rdf_term \<Rightarrow> ustr option" where
  "term_iri t = (case t of Iri u \<Rightarrow> Some u | _ \<Rightarrow> None)"

lemma term_iri_Some [simp]: "term_iri t = Some u \<longleftrightarrow> t = Iri u"
  by (cases t) (auto simp: term_iri_def)

lemma term_iri_Iri [simp]: "term_iri (Iri u) = Some u"
  by (simp add: term_iri_def)

definition rdf_type :: ustr where
  "rdf_type = ascii ''http://www.w3.org/1999/02/22-rdf-syntax-ns#type''"

definition rdfs_subclass :: ustr where
  "rdfs_subclass = ascii ''http://www.w3.org/2000/01/rdf-schema#subClassOf''"

definition owl_class :: ustr where
  "owl_class = ascii ''http://www.w3.org/2002/07/owl#Class''"

definition owl_object_property :: ustr where
  "owl_object_property = ascii ''http://www.w3.org/2002/07/owl#ObjectProperty''"

section \<open>Lookup\<close>

datatype node_category = Classes | Individuals

definition parse_category :: "ustr \<Rightarrow> node_category option" where
  "parse_category s =
     (if s = ascii ''classes'' then Some Classes
      else if s = ascii ''individuals'' then Some Individuals
      else None)"

definition category_str :: "node_category \<Rightarrow> ustr" where
  "category_str c = (case c of Classes \<Rightarrow> ascii ''classes'' | Individuals \<Rightarrow> ascii ''individuals'')"

record attached_node =
  an_uri :: ustr
  an_name :: ustr
  an_category :: node_category

definition attached_node_new :: "(ustr \<Rightarrow> ustr) \<Rightarrow> ustr \<Rightarrow> node_category \<Rightarrow> attached_node" where
  "attached_node_new lower uri c = \<lparr>an_uri = uri, an_name = uri_to_key lower uri, an_category = c\<rparr>"

record ontology_lookup =
  lk_classes :: "(ustr \<times> ustr) list"
  lk_individuals :: "(ustr \<times> ustr) list"

definition lookup_table :: "ontology_lookup \<Rightarrow> node_category \<Rightarrow> (ustr \<times> ustr) list" where
  "lookup_table lk c = (case c of Classes \<Rightarrow> lk_classes lk | Individuals \<Rightarrow> lk_individuals lk)"

definition get_candidates :: "ontology_lookup \<Rightarrow> node_category \<Rightarrow> ustr list" where
  "get_candidates lk c = map fst (lookup_table lk c)"

definition get_uri :: "ontology_lookup \<Rightarrow> ustr \<Rightarrow> node_category \<Rightarrow> ustr option" where
  "get_uri lk name c = map_of (lookup_table lk c) name"

definition hash_insert :: "'k \<Rightarrow> 'v \<Rightarrow> ('k \<times> 'v) list \<Rightarrow> ('k \<times> 'v) list" where
  "hash_insert k v m = (k, v) # filter (\<lambda>(k', _). k' \<noteq> k) m"

lemma map_of_hash_insert [simp]: "map_of (hash_insert k v m) = (map_of m)(k \<mapsto> v)"
proof
  fix x
  have "map_of (filter (\<lambda>(k', _). k' \<noteq> k) m) x = (if x = k then None else map_of m x)"
    by (induction m) auto
  then show "map_of (hash_insert k v m) x = ((map_of m)(k \<mapsto> v)) x"
    by (simp add: hash_insert_def)
qed

definition extract_classes ::
    "(ustr \<Rightarrow> ustr) \<Rightarrow> triple list \<Rightarrow> ontology_lookup \<Rightarrow> ontology_lookup" where
  "extract_classes lower g lk =
     foldl (\<lambda>lk (s, p, v).
       if term_iri p = Some rdf_type \<and> term_iri v = Some owl_class then
         (case term_iri s of
            Some uri \<Rightarrow> lk\<lparr>lk_classes := hash_insert (uri_to_key lower uri) uri (lk_classes lk)\<rparr>
          | None \<Rightarrow> lk)
       else lk) lk g"

definition extract_individuals ::
    "(ustr \<Rightarrow> ustr) \<Rightarrow> triple list \<Rightarrow> (ustr \<times> ustr) list \<Rightarrow> ontology_lookup \<Rightarrow> ontology_lookup" where
  "extract_individuals lower g cls lk =
     foldl (\<lambda>lk (s, p, v).
       if term_iri p = Some rdf_type \<and> (\<exists>c\<in>set (map snd cls). term_iri v = Some c) then
         (case term_iri s of
            Some uri \<Rightarrow>
              (let key = uri_to_key lower uri in
               if map_of cls key = None
               then lk\<lparr>lk_individuals := hash_insert key uri (lk_individuals lk)\<rparr>
               else lk)
          | None \<Rightarrow> lk)
       else lk) lk g"

definition build_lookup :: "(ustr \<Rightarrow> ustr) \<Rightarrow> triple list \<Rightarrow> ontology_lookup" where
  "build_lookup lower g =
     (let lk = extract_classes lower g \<lparr>lk_classes = [], lk_individuals = []\<rparr>
      in extract_individuals lower g (lk_classes lk) lk)"

text \<open>What the tables hold: an entry's URI is a class, or an instance of a class, with the
  entry's key, and every class has an entry under its key (of several, one).\<close>

lemma extract_classes_foldl:
  "map_of (lk_classes (extract_classes lower g lk)) key = Some uri \<Longrightarrow>
     map_of (lk_classes lk) key = Some uri
     \<or> (Iri uri, Iri rdf_type, Iri owl_class) \<in> set g \<and> key = uri_to_key lower uri"
  "(Iri u, Iri rdf_type, Iri owl_class) \<in> set g \<or> map_of (lk_classes lk) (uri_to_key lower u) \<noteq> None \<Longrightarrow>
     map_of (lk_classes (extract_classes lower g lk)) (uri_to_key lower u) \<noteq> None"
  "lk_individuals (extract_classes lower g lk) = lk_individuals lk"
proof (induction g rule: rev_induct)
  case (snoc t g)
  {
    case 1
    then show ?case using snoc(1)
      by (auto simp: extract_classes_def split: if_splits option.splits prod.splits)
  next
    case 2
    then show ?case using snoc(2)
      by (auto simp: extract_classes_def split: if_splits option.splits prod.splits)
  next
    case 3
    then show ?case using snoc(3)
      by (auto simp: extract_classes_def split: if_splits option.splits prod.splits)
  }
qed (auto simp: extract_classes_def)

lemma extract_individuals_foldl:
  "map_of (lk_individuals (extract_individuals lower g cls lk)) key = Some uri \<Longrightarrow>
     map_of (lk_individuals lk) key = Some uri
     \<or> key = uri_to_key lower uri \<and> map_of cls key = None
       \<and> (\<exists>c\<in>set (map snd cls). (Iri uri, Iri rdf_type, Iri c) \<in> set g)"
  "lk_classes (extract_individuals lower g cls lk) = lk_classes lk"
proof (induction g rule: rev_induct)
  case (snoc t g)
  {
    case 1
    then show ?case using snoc(1)
      by (auto simp: extract_individuals_def Let_def split: if_splits option.splits prod.splits)
  next
    case 2
    then show ?case using snoc(2)
      by (auto simp: extract_individuals_def Let_def split: if_splits option.splits prod.splits)
  }
qed (auto simp: extract_individuals_def)

lemma lookup_of_classes:
  "get_uri (build_lookup lower g) key Classes = Some uri \<Longrightarrow>
     (Iri uri, Iri rdf_type, Iri owl_class) \<in> set g \<and> key = uri_to_key lower uri"
  "(Iri u, Iri rdf_type, Iri owl_class) \<in> set g \<Longrightarrow>
     get_uri (build_lookup lower g) (uri_to_key lower u) Classes \<noteq> None"
  using extract_classes_foldl [where lower = lower and g = g
      and lk = "\<lparr>lk_classes = [], lk_individuals = []\<rparr>"]
  by (auto simp: get_uri_def build_lookup_def Let_def lookup_table_def extract_individuals_foldl(2))

lemma lookup_of_individuals:
  assumes "get_uri (build_lookup lower g) key Individuals = Some uri"
  shows "key = uri_to_key lower uri" "get_uri (build_lookup lower g) key Classes = None"
    "\<exists>c. (Iri uri, Iri rdf_type, Iri c) \<in> set g"
  using extract_individuals_foldl(1) assms extract_classes_foldl(3)
  by (fastforce simp: get_uri_def build_lookup_def Let_def lookup_table_def
      extract_individuals_foldl(2))+

section \<open>Extracting a subgraph\<close>

definition is_object_property :: "triple list \<Rightarrow> ustr \<Rightarrow> bool" where
  "is_object_property g pred \<longleftrightarrow>
     (\<exists>(s, p, v)\<in>set g. term_iri s = Some pred \<and> term_iri p = Some rdf_type
        \<and> term_iri v = Some owl_object_property)"

type_synonym ontology_edge = "ustr \<times> ustr \<times> ustr"

record bfs_state =
  bs_visited :: "ustr set"
  bs_queue :: "ustr list"
  bs_nodes :: "attached_node list"
  bs_edges :: "ontology_edge list"

text \<open>What a triple adds while the search stands at \<open>current\<close>: an edge, and the node at its
  other end with its category. The first form follows the triples that leave the node, the
  second the object properties that enter it.\<close>

definition out_edge ::
    "(ustr \<Rightarrow> ustr) \<Rightarrow> triple list \<Rightarrow> ustr \<Rightarrow> triple \<Rightarrow> (ontology_edge \<times> ustr \<times> node_category) option" where
  "out_edge lower g current = (\<lambda>(s, p, v).
     (case term_iri s of
        None \<Rightarrow> None
      | Some source \<Rightarrow>
          if source \<noteq> current then None
          else (case (term_iri p, term_iri v) of
             (Some pred, Some target) \<Rightarrow>
               if pred = rdf_type \<or> pred = rdfs_subclass then
                 Some ((uri_to_key lower current, ascii ''is_a'', uri_to_key lower target), target, Classes)
               else if is_object_property g pred then
                 Some ((uri_to_key lower current, uri_to_key lower pred, uri_to_key lower target),
                       target, Individuals)
               else None
           | _ \<Rightarrow> None)))"

definition in_edge ::
    "(ustr \<Rightarrow> ustr) \<Rightarrow> triple list \<Rightarrow> ustr \<Rightarrow> triple \<Rightarrow> (ontology_edge \<times> ustr \<times> node_category) option" where
  "in_edge lower g current = (\<lambda>(s, p, v).
     (case (term_iri s, term_iri p, term_iri v) of
        (Some src, Some pred, Some obj) \<Rightarrow>
          if obj \<noteq> current then None
          else if is_object_property g pred then
            Some ((uri_to_key lower src, uri_to_key lower pred, uri_to_key lower current),
                  src, Individuals)
          else None
      | _ \<Rightarrow> None))"

definition visit ::
    "(ustr \<Rightarrow> ustr) \<Rightarrow> ontology_edge \<times> ustr \<times> node_category \<Rightarrow> bfs_state \<Rightarrow> bfs_state" where
  "visit lower = (\<lambda>(e, uri, c) st.
     (let st = st\<lparr>bs_edges := bs_edges st @ [e]\<rparr> in
      if uri \<in> bs_visited st then st
      else st\<lparr>bs_visited := insert uri (bs_visited st), bs_queue := bs_queue st @ [uri],
              bs_nodes := bs_nodes st @ [attached_node_new lower uri c]\<rparr>))"

definition scan ::
    "(ustr \<Rightarrow> ustr) \<Rightarrow> (triple \<Rightarrow> (ontology_edge \<times> ustr \<times> node_category) option) \<Rightarrow> triple list
       \<Rightarrow> bfs_state \<Rightarrow> bfs_state" where
  "scan lower step g st =
     foldl (\<lambda>st tr. case step tr of None \<Rightarrow> st | Some f \<Rightarrow> visit lower f st) st g"

definition bfs_step :: "(ustr \<Rightarrow> ustr) \<Rightarrow> triple list \<Rightarrow> bool \<Rightarrow> bfs_state \<Rightarrow> bfs_state" where
  "bfs_step lower g directed st =
     (case bs_queue st of
        [] \<Rightarrow> st
      | current # rest \<Rightarrow>
          (let st1 = scan lower (out_edge lower g current) g (st\<lparr>bs_queue := rest\<rparr>) in
           if directed then st1 else scan lower (in_edge lower g current) g st1))"

definition bfs_start :: "ustr \<Rightarrow> bfs_state" where
  "bfs_start start_uri =
     \<lparr>bs_visited = {start_uri}, bs_queue = [start_uri], bs_nodes = [], bs_edges = []\<rparr>"

text \<open>The \<open>while\<close> loop; \<^const>\<open>None\<close> would be a loop that never ends.\<close>

definition bfs_extract_subgraph ::
    "(ustr \<Rightarrow> ustr) \<Rightarrow> triple list \<Rightarrow> ustr \<Rightarrow> bool
       \<Rightarrow> (attached_node list \<times> ontology_edge list) option" where
  "bfs_extract_subgraph lower g start_uri directed =
     map_option (\<lambda>st. (bs_nodes st, bs_edges st))
       (while_option (\<lambda>st. bs_queue st \<noteq> []) (bfs_step lower g directed) (bfs_start start_uri))"


subsection \<open>One step\<close>

text \<open>All that one step adds.\<close>

definition finds ::
    "(ustr \<Rightarrow> ustr) \<Rightarrow> triple list \<Rightarrow> bool \<Rightarrow> ustr \<Rightarrow> (ontology_edge \<times> ustr \<times> node_category) list" where
  "finds lower g directed current =
     List.map_filter (out_edge lower g current) g
     @ (if directed then [] else List.map_filter (in_edge lower g current) g)"

lemma scan_eq_fold: "scan lower step g st = fold (visit lower) (List.map_filter step g) st"
  unfolding scan_def
  by (induction g arbitrary: st) (auto simp: List.map_filter_simps split: option.splits)

lemma bfs_step_Cons:
  assumes "bs_queue st = current # rest"
  shows "bfs_step lower g directed st =
    fold (visit lower) (finds lower g directed current) (st\<lparr>bs_queue := rest\<rparr>)"
  using assms by (simp add: bfs_step_def finds_def scan_eq_fold)

lemma visit_simps:
  "bs_visited (visit lower (e, uri, c) st) = insert uri (bs_visited st)"
  "bs_edges (visit lower (e, uri, c) st) = bs_edges st @ [e]"
  "bs_queue (visit lower (e, uri, c) st) =
     bs_queue st @ (if uri \<in> bs_visited st then [] else [uri])"
  "bs_nodes (visit lower (e, uri, c) st) =
     bs_nodes st @ (if uri \<in> bs_visited st then [] else [attached_node_new lower uri c])"
  by (auto simp: visit_def Let_def)

definition well_named :: "(ustr \<Rightarrow> ustr) \<Rightarrow> attached_node \<Rightarrow> bool" where
  "well_named lower n \<longleftrightarrow> an_name n = uri_to_key lower (an_uri n)"

lemma attached_node_new_simps [simp]:
  "an_uri (attached_node_new lower uri c) = uri"
  "well_named lower (attached_node_new lower uri c)"
  by (simp_all add: attached_node_new_def well_named_def)

lemma visits:
  obtains new where
    "bs_visited (fold (visit lower) fs st) = bs_visited st \<union> (\<lambda>f. fst (snd f)) ` set fs"
    "bs_edges (fold (visit lower) fs st) = bs_edges st @ map fst fs"
    "bs_queue (fold (visit lower) fs st) = bs_queue st @ map an_uri new"
    "bs_nodes (fold (visit lower) fs st) = bs_nodes st @ new"
    "distinct (map an_uri new)" "list_all (well_named lower) new"
    "an_uri ` set new = (\<lambda>f. fst (snd f)) ` set fs - bs_visited st"
proof (induction fs arbitrary: st thesis)
  case Nil
  show thesis by (rule Nil [of "[]"]) auto
next
  case (Cons f fs)
  obtain e uri c where f: "f = (e, uri, c)" by (cases f) auto
  show thesis
  proof (rule Cons.IH [of "visit lower f st"])
    fix new
    assume new: "bs_visited (fold (visit lower) fs (visit lower f st))
          = bs_visited (visit lower f st) \<union> (\<lambda>f. fst (snd f)) ` set fs"
      "bs_edges (fold (visit lower) fs (visit lower f st)) = bs_edges (visit lower f st) @ map fst fs"
      "bs_queue (fold (visit lower) fs (visit lower f st)) = bs_queue (visit lower f st) @ map an_uri new"
      "bs_nodes (fold (visit lower) fs (visit lower f st)) = bs_nodes (visit lower f st) @ new"
      "distinct (map an_uri new)" "list_all (well_named lower) new"
      "an_uri ` set new = (\<lambda>f. fst (snd f)) ` set fs - bs_visited (visit lower f st)"
    show thesis
    proof (cases "uri \<in> bs_visited st")
      case True
      then show thesis
        using new by (intro Cons.prems [of new]) (auto simp: f visit_simps)
    next
      case False
      then show thesis
        using new
        by (intro Cons.prems [of "attached_node_new lower uri c # new"])
          (auto simp: f visit_simps)
    qed
  qed
qed

subsection \<open>What the search has to find\<close>

definition linked :: "triple list \<Rightarrow> bool \<Rightarrow> ustr \<Rightarrow> ustr \<Rightarrow> bool" where
  "linked g directed a b \<longleftrightarrow>
     (\<exists>p. (Iri a, Iri p, Iri b) \<in> set g \<and>
        (p = rdf_type \<or> p = rdfs_subclass \<or> is_object_property g p))
     \<or> \<not> directed \<and> (\<exists>p. (Iri b, Iri p, Iri a) \<in> set g \<and> is_object_property g p)"

definition reachable :: "triple list \<Rightarrow> bool \<Rightarrow> ustr \<Rightarrow> ustr set" where
  "reachable g directed start_uri = {b. (linked g directed)\<^sup>*\<^sup>* start_uri b}"

lemma out_edge_Some:
  "out_edge lower g a (s, p, v) = Some (e, b, c) \<longleftrightarrow>
     s = Iri a \<and> v = Iri b \<and> (\<exists>q. p = Iri q \<and>
       ((q = rdf_type \<or> q = rdfs_subclass) \<and> c = Classes
          \<and> e = (uri_to_key lower a, ascii ''is_a'', uri_to_key lower b)
        \<or> q \<noteq> rdf_type \<and> q \<noteq> rdfs_subclass \<and> is_object_property g q \<and> c = Individuals
          \<and> e = (uri_to_key lower a, uri_to_key lower q, uri_to_key lower b)))"
  by (cases s; cases p; cases v) (auto simp: out_edge_def term_iri_def)

lemma in_edge_Some:
  "in_edge lower g a (s, p, v) = Some (e, b, c) \<longleftrightarrow>
     s = Iri b \<and> v = Iri a \<and> c = Individuals \<and> (\<exists>q. p = Iri q \<and> is_object_property g q
       \<and> e = (uri_to_key lower b, uri_to_key lower q, uri_to_key lower a))"
  by (cases s; cases p; cases v) (auto simp: in_edge_def term_iri_def)

lemma set_map_filter_iff: "y \<in> set (List.map_filter f xs) \<longleftrightarrow> (\<exists>x\<in>set xs. f x = Some y)"
  by (induction xs) (auto simp: List.map_filter_simps split: option.splits)

lemma out_finds:
  "(e, b, c) \<in> set (List.map_filter (out_edge lower g a) g) \<longleftrightarrow>
     (\<exists>p. (Iri a, Iri p, Iri b) \<in> set g \<and>
       ((p = rdf_type \<or> p = rdfs_subclass) \<and> c = Classes
          \<and> e = (uri_to_key lower a, ascii ''is_a'', uri_to_key lower b)
        \<or> p \<noteq> rdf_type \<and> p \<noteq> rdfs_subclass \<and> is_object_property g p \<and> c = Individuals
          \<and> e = (uri_to_key lower a, uri_to_key lower p, uri_to_key lower b)))"
  unfolding set_map_filter_iff Bex_def split_paired_Ex out_edge_Some by blast

lemma in_finds:
  "(e, b, c) \<in> set (List.map_filter (in_edge lower g a) g) \<longleftrightarrow>
     (\<exists>p. (Iri b, Iri p, Iri a) \<in> set g \<and> is_object_property g p
        \<and> c = Individuals \<and> e = (uri_to_key lower b, uri_to_key lower p, uri_to_key lower a))"
  unfolding set_map_filter_iff Bex_def split_paired_Ex in_edge_Some by blast

lemma finds_iff:
  "(e, b, c) \<in> set (finds lower g directed a) \<longleftrightarrow>
     (\<exists>p. (Iri a, Iri p, Iri b) \<in> set g \<and>
       ((p = rdf_type \<or> p = rdfs_subclass) \<and> c = Classes
          \<and> e = (uri_to_key lower a, ascii ''is_a'', uri_to_key lower b)
        \<or> p \<noteq> rdf_type \<and> p \<noteq> rdfs_subclass \<and> is_object_property g p \<and> c = Individuals
          \<and> e = (uri_to_key lower a, uri_to_key lower p, uri_to_key lower b)))
     \<or> \<not> directed \<and> (\<exists>p. (Iri b, Iri p, Iri a) \<in> set g \<and> is_object_property g p
          \<and> c = Individuals \<and> e = (uri_to_key lower b, uri_to_key lower p, uri_to_key lower a))"
  unfolding finds_def
  by (cases directed) (auto simp only: set_append Un_iff out_finds in_finds if_True if_False empty_iff list.set)

lemma finds_linked: "(\<lambda>f. fst (snd f)) ` set (finds lower g directed a) = {b. linked g directed a b}"
proof -
  have link: "(\<exists>e c. (e, b, c) \<in> set (finds lower g directed a)) \<longleftrightarrow> linked g directed a b" for b
  proof
    assume "\<exists>e c. (e, b, c) \<in> set (finds lower g directed a)"
    then show "linked g directed a b" by (auto simp: finds_iff linked_def)
  next
    assume "linked g directed a b"
    then consider (Hierarchy) p where "(Iri a, Iri p, Iri b) \<in> set g" "p = rdf_type \<or> p = rdfs_subclass"
      | (Property) p where "(Iri a, Iri p, Iri b) \<in> set g" "is_object_property g p"
          "p \<noteq> rdf_type" "p \<noteq> rdfs_subclass"
      | (Inverse) p where "\<not> directed" "(Iri b, Iri p, Iri a) \<in> set g" "is_object_property g p"
      unfolding linked_def by metis
    then show "\<exists>e c. (e, b, c) \<in> set (finds lower g directed a)"
      by cases (simp only: finds_iff, metis)+
  qed
  have found: "b \<in> (\<lambda>f. fst (snd f)) ` S \<longleftrightarrow> (\<exists>e c. (e, b, c) \<in> S)"
    for b and S :: "(ontology_edge \<times> ustr \<times> node_category) set"
    by force
  show ?thesis by (rule set_eqI) (simp only: link found mem_Collect_eq)
qed


subsection \<open>The search\<close>

text \<open>The invariant of the loop: what is on the queue has been visited and is still to be
  processed; what has been processed is closed under links, and its edges are recorded.\<close>

definition bfs_ok ::
    "(ustr \<Rightarrow> ustr) \<Rightarrow> triple list \<Rightarrow> bool \<Rightarrow> ustr \<Rightarrow> bfs_state \<Rightarrow> bool" where
  "bfs_ok lower g directed start_uri st \<longleftrightarrow>
     start_uri \<in> bs_visited st \<and> bs_visited st \<subseteq> reachable g directed start_uri
     \<and> set (bs_queue st) \<subseteq> bs_visited st \<and> distinct (bs_queue st)
     \<and> (\<forall>a\<in>bs_visited st - set (bs_queue st). \<forall>b. linked g directed a b \<longrightarrow> b \<in> bs_visited st)
     \<and> set (bs_edges st) = (\<Union>a\<in>bs_visited st - set (bs_queue st). fst ` set (finds lower g directed a))
     \<and> distinct (map an_uri (bs_nodes st)) \<and> list_all (well_named lower) (bs_nodes st)
     \<and> an_uri ` set (bs_nodes st) = bs_visited st - {start_uri}"

lemma bfs_ok_start: "bfs_ok lower g directed start_uri (bfs_start start_uri)"
  by (simp add: bfs_ok_def bfs_start_def reachable_def)

lemma bfs_ok_step:
  assumes ok: "bfs_ok lower g directed start_uri st" and queue: "bs_queue st = a # rest"
  defines "st' \<equiv> bfs_step lower g directed st"
  shows "bfs_ok lower g directed start_uri st'"
    "bs_visited st' - set (bs_queue st') = insert a (bs_visited st - set (bs_queue st))"
    "a \<notin> bs_visited st - set (bs_queue st)"
proof -
  let ?fs = "finds lower g directed a"
  obtain new where new:
    "bs_visited st' = bs_visited st \<union> (\<lambda>f. fst (snd f)) ` set ?fs"
    "bs_edges st' = bs_edges st @ map fst ?fs"
    "bs_queue st' = rest @ map an_uri new" "bs_nodes st' = bs_nodes st @ new"
    "distinct (map an_uri new)" "list_all (well_named lower) new"
    "an_uri ` set new = (\<lambda>f. fst (snd f)) ` set ?fs - bs_visited st"
    using visits [of lower ?fs "st\<lparr>bs_queue := rest\<rparr>"]
    by (auto simp: st'_def bfs_step_Cons [OF queue])
  have visited: "bs_visited st' = bs_visited st \<union> {b. linked g directed a b}"
    and fresh: "an_uri ` set new = {b. linked g directed a b} - bs_visited st"
    using new(1,7) by (simp_all add: finds_linked)
  have a: "a \<in> bs_visited st" "a \<notin> set rest" "set rest \<subseteq> bs_visited st" "distinct rest"
    "a \<in> reachable g directed start_uri"
    using ok queue by (auto simp: bfs_ok_def)
  show processed: "bs_visited st' - set (bs_queue st') = insert a (bs_visited st - set (bs_queue st))"
    using a by (auto simp: visited new(3) queue fresh)
  show "a \<notin> bs_visited st - set (bs_queue st)" by (simp add: queue)
  have linked: "bs_visited st' \<subseteq> reachable g directed start_uri"
    using ok a(5) by (auto simp: bfs_ok_def visited reachable_def intro: rtranclp.rtrancl_into_rtrancl)
  show "bfs_ok lower g directed start_uri st'"
    unfolding bfs_ok_def processed
  proof (intro conjI linked)
    show "start_uri \<in> bs_visited st'" using ok by (auto simp: bfs_ok_def visited)
    show "set (bs_queue st') \<subseteq> bs_visited st'" using a(3) by (auto simp: visited new(3) fresh)
    show "distinct (bs_queue st')" using a(3,4) new(5) by (auto simp: new(3) fresh)
    show "\<forall>b\<in>insert a (bs_visited st - set (bs_queue st)). \<forall>c. linked g directed b c \<longrightarrow> c \<in> bs_visited st'"
      using ok by (auto simp: bfs_ok_def visited)
    show "set (bs_edges st') = (\<Union>b\<in>insert a (bs_visited st - set (bs_queue st)). fst ` set (finds lower g directed b))"
      using ok by (simp add: bfs_ok_def new(2) Un_commute)
    have "an_uri ` set (bs_nodes st) \<inter> an_uri ` set new = {}"
      using ok by (auto simp: bfs_ok_def fresh)
    then show "distinct (map an_uri (bs_nodes st'))"
      using ok new(5) by (simp add: bfs_ok_def new(4))
    show "list_all (well_named lower) (bs_nodes st')"
      using ok new(6) by (simp add: bfs_ok_def new(4))
    show "an_uri ` set (bs_nodes st') = bs_visited st' - {start_uri}"
      using ok by (auto simp: bfs_ok_def new(4) image_Un fresh visited)
  qed
qed

lemma reachable_finite: "finite (reachable g directed start_uri)"
proof -
  have "reachable g directed start_uri \<subseteq>
      insert start_uri (\<Union>(s, p, v)\<in>set g. {u. s = Iri u \<or> v = Iri u})"
  proof
    fix b
    assume "b \<in> reachable g directed start_uri"
    then have "(linked g directed)\<^sup>*\<^sup>* start_uri b" by (simp add: reachable_def)
    then show "b \<in> insert start_uri (\<Union>(s, p, v)\<in>set g. {u. s = Iri u \<or> v = Iri u})"
      by cases (auto simp: linked_def)
  qed
  moreover have "finite (\<Union>(s, p, v)\<in>set g. {u. s = Iri u \<or> v = Iri u})"
  proof (rule finite_UN_I)
    fix t :: triple
    obtain s p v where t: "t = (s, p, v)" by (cases t)
    have "{u. s = Iri u \<or> v = Iri u} \<subseteq> {case s of Iri u \<Rightarrow> u | _ \<Rightarrow> [], case v of Iri u \<Rightarrow> u | _ \<Rightarrow> []}"
      by auto
    then show "finite (case t of (s, p, v) \<Rightarrow> {u. s = Iri u \<or> v = Iri u})"
      unfolding t prod.case by (rule finite_subset) simp
  qed simp
  ultimately show ?thesis by (meson finite.insertI finite_subset)
qed

lemma bfs_ok_processed:
  assumes "bfs_ok lower g directed start_uri st"
  shows "bs_visited st - set (bs_queue st) \<subseteq> reachable g directed start_uri"
    "finite (bs_visited st - set (bs_queue st))"
  using assms reachable_finite [of g directed start_uri]
  by (auto simp: bfs_ok_def intro: finite_subset)

lemma bfs_ok_end:
  assumes ok: "bfs_ok lower g directed start_uri st" and "bs_queue st = []"
  shows "bs_visited st = reachable g directed start_uri"
proof (rule antisym)
  show "bs_visited st \<subseteq> reachable g directed start_uri" using ok by (simp add: bfs_ok_def)
  have "(linked g directed)\<^sup>*\<^sup>* start_uri b \<Longrightarrow> b \<in> bs_visited st" for b
    by (induction rule: rtranclp_induct) (use assms in \<open>auto simp: bfs_ok_def\<close>)
  then show "reachable g directed start_uri \<subseteq> bs_visited st" by (auto simp: reachable_def)
qed

text \<open>One node is processed per step.\<close>

lemma bfs_ok_steps:
  assumes "\<forall>i < k. bs_queue ((bfs_step lower g directed ^^ i) (bfs_start start_uri)) \<noteq> []"
  defines "st \<equiv> (bfs_step lower g directed ^^ k) (bfs_start start_uri)"
  shows "bfs_ok lower g directed start_uri st \<and> card (bs_visited st - set (bs_queue st)) = k"
  using assms(1) unfolding st_def
proof (induction k)
  case 0
  show ?case using bfs_ok_start by (simp add: bfs_start_def)
next
  case (Suc k)
  let ?st = "(bfs_step lower g directed ^^ k) (bfs_start start_uri)"
  have IH: "bfs_ok lower g directed start_uri ?st" "card (bs_visited ?st - set (bs_queue ?st)) = k"
    using Suc by auto
  obtain a rest where "bs_queue ?st = a # rest" using Suc.prems by (cases "bs_queue ?st") auto
  from bfs_ok_step [OF IH(1) this] IH bfs_ok_processed [OF IH(1)] show ?case by simp
qed


lemma bfs_loop:
  fixes lower g directed start_uri
  defines "step \<equiv> bfs_step lower g directed" and "n \<equiv> card (reachable g directed start_uri)"
  shows "bs_queue ((step ^^ n) (bfs_start start_uri)) = []"
    "i < n \<Longrightarrow> bs_queue ((step ^^ i) (bfs_start start_uri)) \<noteq> []"
proof -
  let ?st = "\<lambda>k. (step ^^ k) (bfs_start start_uri)"
  have "\<not> (\<forall>i < Suc n. bs_queue (?st i) \<noteq> [])"
  proof
    assume "\<forall>i < Suc n. bs_queue (?st i) \<noteq> []"
    then have "bfs_ok lower g directed start_uri (?st (Suc n))"
      "card (bs_visited (?st (Suc n)) - set (bs_queue (?st (Suc n)))) = Suc n"
      using bfs_ok_steps [of "Suc n" lower g directed start_uri] unfolding step_def by auto
    then show False
      using bfs_ok_processed(1) card_mono [OF reachable_finite] unfolding n_def
      by (metis not_less_eq_eq order_refl)
  qed
  then obtain k where k: "bs_queue (?st k) = []" "k \<le> n" and least: "\<forall>i < k. bs_queue (?st i) \<noteq> []"
    using exists_least_iff [of "\<lambda>k. bs_queue (?st k) = []"] by (metis less_Suc_eq_le not_less order_less_le_trans)
  have "bfs_ok lower g directed start_uri (?st k)" "card (bs_visited (?st k)) = k"
    using bfs_ok_steps [of k lower g directed start_uri] least k(1) unfolding step_def by simp_all
  then have "k = n" using bfs_ok_end k(1) unfolding n_def by metis
  then show "bs_queue ((step ^^ n) (bfs_start start_uri)) = []"
    "i < n \<Longrightarrow> bs_queue ((step ^^ i) (bfs_start start_uri)) \<noteq> []"
    using k(1) least by simp_all
qed

lemma bfs_least:
  "(LEAST k. bs_queue ((bfs_step lower g directed ^^ k) (bfs_start start_uri)) = [])
     = card (reachable g directed start_uri)"
proof (rule Least_equality)
  fix k
  assume "bs_queue ((bfs_step lower g directed ^^ k) (bfs_start start_uri)) = []"
  then show "card (reachable g directed start_uri) \<le> k"
    using bfs_loop(2) by (meson not_le)
qed (rule bfs_loop(1))

lemma bfs_result:
  fixes lower g directed start_uri
  defines "st \<equiv> (bfs_step lower g directed ^^ card (reachable g directed start_uri)) (bfs_start start_uri)"
  shows "bfs_extract_subgraph lower g start_uri directed = Some (bs_nodes st, bs_edges st)"
    "bfs_ok lower g directed start_uri st" "bs_queue st = []"
proof -
  have ends: "(\<exists>k. bs_queue ((bfs_step lower g directed ^^ k) (bfs_start start_uri)) = []) = True"
    using bfs_loop(1) [where lower = lower and g = g and directed = directed
        and start_uri = start_uri] by blast
  have "while_option (\<lambda>st. bs_queue st \<noteq> []) (bfs_step lower g directed) (bfs_start start_uri) = Some st"
    unfolding while_option_def not_not bfs_least st_def by (simp only: ends if_True)
  then show "bfs_extract_subgraph lower g start_uri directed = Some (bs_nodes st, bs_edges st)"
    by (simp add: bfs_extract_subgraph_def)
  show "bs_queue st = []" unfolding st_def by (rule bfs_loop(1))
  show "bfs_ok lower g directed start_uri st"
    unfolding st_def by (rule bfs_ok_steps [THEN conjunct1]) (use bfs_loop(2) in blast)
qed

lemma search_answers: "\<exists>r. bfs_extract_subgraph lower g start_uri directed = Some r"
  using bfs_result(1) by blast

text \<open>C26: The search ends on every graph, cyclic ones included: the loop empties its queue
  after exactly one step per IRI that can be reached from the start, and not before.\<close>

theorem search_terminates:
  "finite (reachable g directed start_uri)
   \<and> bfs_extract_subgraph lower g start_uri directed \<noteq> None
   \<and> (LEAST k. bs_queue ((bfs_step lower g directed ^^ k) (bfs_start start_uri)) = [])
       = card (reachable g directed start_uri)"
proof (intro conjI reachable_finite)
  show "bfs_extract_subgraph lower g start_uri directed \<noteq> None" by (simp add: bfs_result(1))
  show "(LEAST k. bs_queue ((bfs_step lower g directed ^^ k) (bfs_start start_uri)) = [])
      = card (reachable g directed start_uri)"
    by (rule bfs_least)
qed

text \<open>The edges of the subgraph around a set of IRIs: the hierarchy as \<open>is_a\<close>, the object
  properties by their names, and in an undirected search the properties that lead into it.\<close>

definition subgraph_edges ::
    "(ustr \<Rightarrow> ustr) \<Rightarrow> triple list \<Rightarrow> bool \<Rightarrow> ustr set \<Rightarrow> ontology_edge set" where
  "subgraph_edges lower g directed R =
     {e. \<exists>a p b. (Iri a, Iri p, Iri b) \<in> set g \<and>
        (a \<in> R \<and> (p = rdf_type \<or> p = rdfs_subclass)
           \<and> e = (uri_to_key lower a, ascii ''is_a'', uri_to_key lower b)
         \<or> (a \<in> R \<and> p \<noteq> rdf_type \<and> p \<noteq> rdfs_subclass \<or> \<not> directed \<and> b \<in> R)
           \<and> is_object_property g p
           \<and> e = (uri_to_key lower a, uri_to_key lower p, uri_to_key lower b))}"

lemma finds_edges: "(\<Union>a\<in>R. fst ` set (finds lower g directed a)) = subgraph_edges lower g directed R"
proof (rule set_eqI)
  fix e
  have "e \<in> (\<Union>a\<in>R. fst ` set (finds lower g directed a)) \<longleftrightarrow>
      (\<exists>a\<in>R. \<exists>b c. (e, b, c) \<in> set (finds lower g directed a))"
    by force
  also have "\<dots> \<longleftrightarrow> e \<in> subgraph_edges lower g directed R"
    unfolding finds_iff subgraph_edges_def mem_Collect_eq by blast
  finally show "e \<in> (\<Union>a\<in>R. fst ` set (finds lower g directed a)) \<longleftrightarrow>
    e \<in> subgraph_edges lower g directed R" .
qed

text \<open>C27: What the search returns is the subgraph of what can be reached: each IRI but the
  start is a node exactly once, under the name its URI gives, and the edges are exactly those
  of the triples at the reached IRIs.\<close>

theorem subgraph_is_what_is_reachable:
  "\<exists>nodes edges. bfs_extract_subgraph lower g start_uri directed = Some (nodes, edges)
     \<and> distinct (map an_uri nodes)
     \<and> an_uri ` set nodes = reachable g directed start_uri - {start_uri}
     \<and> map an_name nodes = map (\<lambda>n. uri_to_key lower (an_uri n)) nodes
     \<and> set edges = subgraph_edges lower g directed (reachable g directed start_uri)"
proof -
  define st where "st = (bfs_step lower g directed ^^ card (reachable g directed start_uri)) (bfs_start start_uri)"
  note result = bfs_result [where lower = lower and g = g and directed = directed
      and start_uri = start_uri, folded st_def]
  have "set (bs_edges st) = subgraph_edges lower g directed (reachable g directed start_uri)"
    using result(2) finds_edges bfs_ok_end [OF result(2,3)] by (simp add: bfs_ok_def result(3))
  moreover have "map an_name (bs_nodes st) = map (\<lambda>n. uri_to_key lower (an_uri n)) (bs_nodes st)"
    using result(2) by (auto simp: bfs_ok_def list_all_iff well_named_def)
  ultimately show ?thesis
    using result bfs_ok_end [OF result(2,3)] by (auto simp: bfs_ok_def)
qed


section \<open>The resolver\<close>

datatype ontology_error =
    FileNotFound ustr
  | ParseError ustr
  | MatchingError ustr
  | InvalidFormat ustr
  | OntologyNotFound ustr
  | DuplicateKey ustr
  | OntologyIo ustr

text \<open>\<open>RdfLibOntologyResolver\<close>: the graph when a file could be loaded, its lookup, and the
  matching strategy.\<close>

record resolver =
  rv_graph :: "triple list option"
  rv_lookup :: ontology_lookup
  rv_match :: "ustr \<Rightarrow> ustr list \<Rightarrow> ustr option"

definition resolver_with_strategy ::
    "(ustr \<Rightarrow> ustr) \<Rightarrow> triple list option \<Rightarrow> (ustr \<Rightarrow> ustr list \<Rightarrow> ustr option) \<Rightarrow> resolver" where
  "resolver_with_strategy lower graph strategy =
     \<lparr>rv_graph = graph,
      rv_lookup = (case graph of Some g \<Rightarrow> build_lookup lower g
                   | None \<Rightarrow> \<lparr>lk_classes = [], lk_individuals = []\<rparr>),
      rv_match = strategy\<rparr>"

definition resolver_new :: "(ustr \<Rightarrow> ustr) \<Rightarrow> triple list option \<Rightarrow> resolver" where
  "resolver_new lower graph = resolver_with_strategy lower graph (find_match lower default_cutoff)"

lemma resolver_simps [simp]:
  "rv_graph (resolver_with_strategy lower graph strategy) = graph"
  "rv_match (resolver_with_strategy lower graph strategy) = strategy"
  by (simp_all add: resolver_with_strategy_def)

definition invalid_category :: "ustr \<Rightarrow> ontology_error" where
  "invalid_category category =
     MatchingError (ascii ''Invalid category '' @ [39] @ category @ [39]
       @ ascii ''. Must be '' @ [39] @ ascii ''classes'' @ [39] @ ascii '' or '' @ [39]
       @ ascii ''individuals'' @ [39])"

definition find_closest_match :: "resolver \<Rightarrow> ustr \<Rightarrow> ustr \<Rightarrow> ontology_error + ustr option" where
  "find_closest_match r name category =
     (if rv_graph r = None then Inr None
      else case parse_category category of
        None \<Rightarrow> Inl (invalid_category category)
      | Some c \<Rightarrow> Inr (rv_match r name (get_candidates (rv_lookup r) c)))"

type_synonym subgraph = "attached_node list \<times> ontology_edge list \<times> attached_node option"

text \<open>The outer \<^const>\<open>None\<close> is a search that does not return.\<close>

definition get_subgraph ::
    "(ustr \<Rightarrow> ustr) \<Rightarrow> resolver \<Rightarrow> ustr \<Rightarrow> ustr \<Rightarrow> bool \<Rightarrow> (ontology_error + subgraph) option" where
  "get_subgraph lower r node_name node_type directed =
     (case rv_graph r of
        None \<Rightarrow> Some (Inr ([], [], None))
      | Some g \<Rightarrow>
          (case find_closest_match r node_name node_type of
             Inl e \<Rightarrow> Some (Inl e)
           | Inr None \<Rightarrow> Some (Inr ([], [], None))
           | Inr (Some matched) \<Rightarrow>
               (case parse_category node_type of
                  None \<Rightarrow> Some (Inl (MatchingError (ascii ''Invalid node type '' @ [39] @ node_type @ [39])))
                | Some c \<Rightarrow>
                    (case get_uri (rv_lookup r) matched c of
                       None \<Rightarrow> Some (Inl (MatchingError (ascii ''URI not found for '' @ [39] @ matched @ [39])))
                     | Some start_uri \<Rightarrow>
                         map_option (\<lambda>(nodes, edges).
                             Inr (nodes, edges, Some (attached_node_new lower start_uri c)))
                           (bfs_extract_subgraph lower g start_uri directed)))))"

text \<open>The no-op resolver answers like one without a graph.\<close>

definition noop_resolver :: resolver where
  "noop_resolver = \<lparr>rv_graph = None, rv_lookup = \<lparr>lk_classes = [], lk_individuals = []\<rparr>,
     rv_match = (\<lambda>_ _. None)\<rparr>"

lemma noop_finds_nothing:
  "find_closest_match noop_resolver name category = Inr None"
  "get_subgraph lower noop_resolver name category directed = Some (Inr ([], [], None))"
  by (simp_all add: find_closest_match_def get_subgraph_def noop_resolver_def)

text \<open>What the resolver needs of a strategy (the trait \<open>MatchingStrategy\<close>): it answers with one
  of the candidates. A match is then a key of the table it was searched in, so its URI is
  there.\<close>

locale matching_strategy =
  fixes strategy :: "ustr \<Rightarrow> ustr list \<Rightarrow> ustr option"
  assumes answers_candidate: "strategy query candidates = Some c \<Longrightarrow> c \<in> set candidates"
begin

lemma matched_has_uri:
  assumes "strategy name (get_candidates lk c) = Some matched"
  obtains uri where "get_uri lk matched c = Some uri"
proof -
  have "matched \<in> set (get_candidates lk c)"
    using assms by (rule answers_candidate)
  then have "get_uri lk matched c \<noteq> None"
    by (auto simp: get_candidates_def get_uri_def map_of_eq_None_iff)
  then show thesis using that by blast
qed

end

interpretation fuzzy: matching_strategy "find_match lower cutoff" for lower cutoff
  by unfold_locales (rule find_match_in)

interpretation no_strategy: matching_strategy "\<lambda>_ _. None"
  by unfold_locales simp

text \<open>A resolver with the fuzzy strategy always answers, and fails in one case only: an
  ontology is loaded and the category is neither of the two. In particular a match never
  lacks its URI, and without a loaded ontology even a wrong category is accepted.\<close>

lemma get_subgraph_fails_on_category_only:
  "get_subgraph lower (resolver_with_strategy lower graph (find_match lower cutoff)) name node_type directed \<noteq> None
   \<and> (get_subgraph lower (resolver_with_strategy lower graph (find_match lower cutoff)) name node_type directed
        = Some (Inl e)
      \<longleftrightarrow> graph \<noteq> None \<and> parse_category node_type = None \<and> e = invalid_category node_type)"
proof -
  let ?r = "resolver_with_strategy lower graph (find_match lower cutoff)"
  show ?thesis
  proof (cases "graph = None \<or> parse_category node_type = None")
    case True
    then show ?thesis
      by (cases graph) (auto simp: get_subgraph_def find_closest_match_def)
  next
    case False
    then obtain g c where g: "graph = Some g" and c: "parse_category node_type = Some c" by auto
    show ?thesis
    proof (cases "find_match lower cutoff name (get_candidates (rv_lookup ?r) c)")
      case None
      then show ?thesis by (simp add: get_subgraph_def find_closest_match_def g c)
    next
      case (Some matched)
      then obtain uri where "get_uri (rv_lookup ?r) matched c = Some uri"
        by (rule fuzzy.matched_has_uri)
      then show ?thesis
        using Some search_answers [where lower = lower and g = g and start_uri = uri and directed = directed]
        by (auto simp: get_subgraph_def find_closest_match_def g c)
    qed
  qed
qed


section \<open>Terms\<close>

definition rdfs_label :: ustr where
  "rdfs_label = ascii ''http://www.w3.org/2000/01/rdf-schema#label''"

definition rdfs_comment :: ustr where
  "rdfs_comment = ascii ''http://www.w3.org/2000/01/rdf-schema#comment''"

record ontology_term =
  ot_uri :: ustr
  ot_label :: "ustr option"
  ot_comment :: "ustr option"

record ontology_terms =
  os_classes :: "ontology_term list"
  os_object_properties :: "ontology_term list"

text \<open>\<open>sort\<close> and \<open>dedup\<close> of the IRI subjects of a type; code points order strings as bytes do.\<close>

definition typed_subject_uris :: "triple list \<Rightarrow> ustr \<Rightarrow> ustr list" where
  "typed_subject_uris g ty =
     remdups_adj (sort (List.map_filter (\<lambda>(s, p, v).
       if term_iri p = Some rdf_type \<and> term_iri v = Some ty then term_iri s else None) g))"

definition lexical_form :: "rdf_term \<Rightarrow> ustr option" where
  "lexical_form t = (case t of Literal s \<Rightarrow> Some s | _ \<Rightarrow> None)"

definition first_literal_by_predicate ::
    "triple list \<Rightarrow> ustr \<Rightarrow> ustr set \<Rightarrow> (ustr \<times> ustr) list" where
  "first_literal_by_predicate g predicate wanted =
     foldl (\<lambda>found (s, p, v).
       if term_iri p \<noteq> Some predicate then found
       else (case term_iri s of
          None \<Rightarrow> found
        | Some subject \<Rightarrow>
            if subject \<notin> wanted then found
            else (case lexical_form v of
               None \<Rightarrow> found
             | Some value \<Rightarrow>
                 (case map_of found subject of
                    None \<Rightarrow> hash_insert subject value found
                  | Some _ \<Rightarrow> found)))) [] g"

definition collect_terms :: "triple list \<Rightarrow> ontology_terms" where
  "collect_terms g =
     (let class_uris = typed_subject_uris g owl_class;
          property_uris = typed_subject_uris g owl_object_property;
          wanted = set class_uris \<union> set property_uris;
          labels = first_literal_by_predicate g rdfs_label wanted;
          comments = first_literal_by_predicate g rdfs_comment wanted;
          build = map (\<lambda>uri. \<lparr>ot_uri = uri, ot_label = map_of labels uri,
                              ot_comment = map_of comments uri\<rparr>)
      in \<lparr>os_classes = build class_uris, os_object_properties = build property_uris\<rparr>)"

definition terms :: "resolver \<Rightarrow> ontology_terms" where
  "terms r = (case rv_graph r of Some g \<Rightarrow> collect_terms g
              | None \<Rightarrow> \<lparr>os_classes = [], os_object_properties = []\<rparr>)"

lemma strict_sorted_remdups_adj:
  fixes xs :: "'a::linorder list"
  shows "sorted xs \<Longrightarrow> sorted_wrt (<) (remdups_adj xs)"
proof (induction xs rule: remdups_adj.induct)
  case (3 x y xs)
  then have "y \<le> z" if "z \<in> set (remdups_adj (y # xs))" for z using that by auto
  with 3 show ?case by (cases "x = y") (auto intro: le_neq_trans order_less_le_trans)
qed auto

lemma typed_subject_uris_sorted:
  "sorted_wrt (<) (typed_subject_uris g ty)"
  "uri \<in> set (typed_subject_uris g ty) \<longleftrightarrow> (Iri uri, Iri rdf_type, Iri ty) \<in> set g"
proof -
  show "sorted_wrt (<) (typed_subject_uris g ty)"
    by (simp add: typed_subject_uris_def strict_sorted_remdups_adj)
  show "uri \<in> set (typed_subject_uris g ty) \<longleftrightarrow> (Iri uri, Iri rdf_type, Iri ty) \<in> set g"
    by (auto simp: typed_subject_uris_def set_map_filter_iff Bex_def split_paired_Ex split: if_splits)
qed

text \<open>The first literal of the wanted subjects wins.\<close>

lemma map_of_first_literal:
  "map_of (first_literal_by_predicate g predicate wanted) uri =
     (if uri \<in> wanted
      then List.find (\<lambda>_. True) (List.map_filter (\<lambda>(s, p, v).
             if s = Iri uri \<and> p = Iri predicate then lexical_form v else None) g)
      else None)"
proof (induction g rule: rev_induct)
  case (snoc t g)
  obtain s p v where t: "t = (s, p, v)" by (cases t)
  have find: "List.find (\<lambda>_. True) (xs @ ys) =
      (case List.find (\<lambda>_. True) xs of None \<Rightarrow> List.find (\<lambda>_. True) ys | Some x \<Rightarrow> Some x)"
    for xs ys :: "ustr list"
    by (cases xs) auto
  have filter: "List.map_filter f (xs @ ys) = List.map_filter f xs @ List.map_filter f ys"
    for f :: "triple \<Rightarrow> ustr option" and xs ys
    by (simp add: List.map_filter_def)
  show ?case
    using snoc
    by (auto simp: t find filter first_literal_by_predicate_def List.map_filter_simps
        split: option.splits)
qed (simp add: first_literal_by_predicate_def)

end
