(* ===== verification/Ontology_Files.thy ===== *)
theory Ontology_Files
  imports Ontology
begin

text \<open>
  The ontology files of the users (\<open>crates/ontology/src/manager.rs\<close>): upload, listing,
  reading and deletion over a directory per user and its \<open>metadata.json\<close>. Every call to the
  file system may fail, as the faults of an operation say; writing the metadata is atomic
  (a temporary file and a rename), writing the ontology file is not.
\<close>

section \<open>Paths and keys\<close>

definition valid_extensions :: "ustr list" where
  "valid_extensions = map ascii [''owl'', ''ttl'', ''rdf'', ''xml'', ''nt'', ''jsonld'']"

definition contains :: "ustr \<Rightarrow> ustr \<Rightarrow> bool" where
  "contains s pat \<longleftrightarrow> 1 < length (split_str pat s)"

definition validate_ontology_key :: "ustr \<Rightarrow> ontology_error + unit" where
  "validate_ontology_key key =
     (if key = [] then Inl (InvalidFormat (ascii ''Ontology key must not be empty''))
      else if 0x2F \<in> set key \<or> 0x5C \<in> set key \<or> 0 \<in> set key \<or> contains key (ascii ''..'')
              \<or> key = ascii ''.''
        then Inl (InvalidFormat (ascii ''Ontology key must not contain path separators, '' @ [39]
               @ ascii ''..'' @ [39] @ ascii '', or null bytes''))
      else Inr ())"

text \<open>\<open>Path::file_name\<close> and \<open>Path::extension\<close>: the last component, without a trailing slash or
  dot component, and what follows its last dot unless that is its first character.\<close>

definition file_name :: "ustr \<Rightarrow> ustr option" where
  "file_name path =
     (case rev (filter (\<lambda>c. c \<noteq> [] \<and> c \<noteq> ascii ''.'') (split_str [0x2F] path)) of
        [] \<Rightarrow> None
      | c # _ \<Rightarrow> if c = ascii ''..'' then None else Some c)"

definition path_extension :: "ustr \<Rightarrow> ustr option" where
  "path_extension path =
     (case file_name path of
        None \<Rightarrow> None
      | Some n \<Rightarrow>
          (let ext = rev (takeWhile (\<lambda>c. c \<noteq> 0x2E) (rev n)) in
           if length n \<le> Suc (length ext) then None else Some ext))"

definition stored_filename :: "ustr \<Rightarrow> ustr \<Rightarrow> ustr" where
  "stored_filename key ext_lower = key @ [0x2E] @ ext_lower"

section \<open>State\<close>

record ontology_metadata =
  om_key :: ustr
  om_filename :: ustr
  om_size_bytes :: nat
  om_uploaded_at :: int
  om_description :: "ustr option"

text \<open>A user's directory: the ontology files by name, and the metadata file when there is one.\<close>

record user_dir =
  ud_files :: "ustr \<rightharpoonup> nat list"
  ud_metadata :: "(ustr \<rightharpoonup> ontology_metadata) option"

type_synonym ontology_store = "uuid \<Rightarrow> user_dir"

definition empty_store :: ontology_store where
  "empty_store = (\<lambda>_. \<lparr>ud_files = Map.empty, ud_metadata = None\<rparr>)"

text \<open>What fails in one operation. A failing write of the file leaves it as given: untouched, or
  with other contents.\<close>

record file_faults =
  ff_load :: "ontology_error option"
  ff_mkdir :: "ustr option"
  ff_write :: "(ustr \<times> nat list option) option"
  ff_save :: "ontology_error option"
  ff_read :: "ustr option"
  ff_remove :: "ustr option"

definition no_file_faults :: file_faults where
  "no_file_faults = \<lparr>ff_load = None, ff_mkdir = None, ff_write = None, ff_save = None,
     ff_read = None, ff_remove = None\<rparr>"

lemma no_file_faults_simps [simp]:
  "ff_load no_file_faults = None" "ff_read no_file_faults = None"
  by (simp_all add: no_file_faults_def)

definition load_metadata ::
    "file_faults \<Rightarrow> uuid \<Rightarrow> ontology_store \<Rightarrow> ontology_error + (ustr \<rightharpoonup> ontology_metadata)" where
  "load_metadata ff user st =
     (case ud_metadata (st user) of
        None \<Rightarrow> Inr Map.empty
      | Some m \<Rightarrow> (case ff_load ff of Some e \<Rightarrow> Inl e | None \<Rightarrow> Inr m))"

definition save_metadata ::
    "file_faults \<Rightarrow> uuid \<Rightarrow> (ustr \<rightharpoonup> ontology_metadata) \<Rightarrow> ontology_store
       \<Rightarrow> ontology_store \<times> (ontology_error + unit)" where
  "save_metadata ff user m st =
     (case ff_save ff of
        Some e \<Rightarrow> (st, Inl e)
      | None \<Rightarrow> (st(user := (st user)\<lparr>ud_metadata := Some m\<rparr>), Inr ()))"

definition put_file :: "uuid \<Rightarrow> ustr \<Rightarrow> nat list option \<Rightarrow> ontology_store \<Rightarrow> ontology_store" where
  "put_file user name content st =
     st(user := (st user)\<lparr>ud_files := (ud_files (st user))(name := content)\<rparr>)"

section \<open>Operations\<close>

definition unsupported_extension :: "ustr \<Rightarrow> ontology_error" where
  "unsupported_extension ext =
     InvalidFormat (ascii ''Unsupported extension '' @ [39, 0x2E] @ ext @ [39]
       @ ascii ''. Accepted: '' @ join (ascii '', '') valid_extensions)"

definition upload ::
    "(ustr \<Rightarrow> ustr) \<Rightarrow> file_faults \<Rightarrow> int \<Rightarrow> uuid \<Rightarrow> ustr \<Rightarrow> ustr \<Rightarrow> nat list \<Rightarrow> ustr option
       \<Rightarrow> ontology_store \<Rightarrow> ontology_store \<times> (ontology_error + ontology_metadata)" where
  "upload lower ff now user key filename content description st =
     (case validate_ontology_key key of
        Inl e \<Rightarrow> (st, Inl e)
      | Inr _ \<Rightarrow>
     (case path_extension filename of
        None \<Rightarrow> (st, Inl (InvalidFormat (ascii ''File must have a recognized RDF extension'')))
      | Some ext \<Rightarrow>
          (let ext_lower = lower ext in
           if ext_lower \<notin> set valid_extensions then (st, Inl (unsupported_extension ext))
           else
     (case load_metadata ff user st of
        Inl e \<Rightarrow> (st, Inl e)
      | Inr m \<Rightarrow>
          if m key \<noteq> None then (st, Inl (DuplicateKey key))
          else
     (case ff_mkdir ff of
        Some e \<Rightarrow> (st, Inl (OntologyIo e))
      | None \<Rightarrow>
          (let name = stored_filename key ext_lower in
     (case ff_write ff of
        Some (e, left) \<Rightarrow> (put_file user name left st, Inl (OntologyIo e))
      | None \<Rightarrow>
          (let meta = \<lparr>om_key = key, om_filename = filename, om_size_bytes = length content,
                       om_uploaded_at = now, om_description = description\<rparr>
           in case save_metadata ff user (m(key \<mapsto> meta)) (put_file user name (Some content) st) of
                (st', Inl e) \<Rightarrow> (st', Inl e)
              | (st', Inr _) \<Rightarrow> (st', Inr meta)))))))))"

fun upload_all ::
    "(ustr \<Rightarrow> ustr) \<Rightarrow> (nat \<Rightarrow> file_faults) \<Rightarrow> int \<Rightarrow> uuid
       \<Rightarrow> (ustr \<times> ustr \<times> nat list \<times> ustr option) list
       \<Rightarrow> ontology_store \<Rightarrow> ontology_store \<times> (ontology_error + ontology_metadata list)" where
  "upload_all lower ffs now user [] st = (st, Inr [])"
| "upload_all lower ffs now user ((key, filename, content, description) # items) st =
     (case upload lower (ffs 0) now user key filename content description st of
        (st', Inl e) \<Rightarrow> (st', Inl e)
      | (st', Inr meta) \<Rightarrow>
          (case upload_all lower (\<lambda>i. ffs (Suc i)) now user items st' of
             (st'', Inl e) \<Rightarrow> (st'', Inl e)
           | (st'', Inr metas) \<Rightarrow> (st'', Inr (meta # metas))))"

definition upload_batch ::
    "(ustr \<Rightarrow> ustr) \<Rightarrow> (nat \<Rightarrow> file_faults) \<Rightarrow> int \<Rightarrow> uuid
       \<Rightarrow> (ustr \<times> ustr \<times> nat list \<times> ustr option) list
       \<Rightarrow> ontology_store \<Rightarrow> ontology_store \<times> (ontology_error + ontology_metadata list)" where
  "upload_batch lower ffs now user items st =
     (if \<not> distinct (map fst items) then (st, Inl (DuplicateKey (ascii ''Duplicate keys in batch'')))
      else upload_all lower ffs now user items st)"

definition list_ontologies ::
    "file_faults \<Rightarrow> uuid \<Rightarrow> ontology_store \<Rightarrow> ontology_error + (ustr \<rightharpoonup> ontology_metadata)" where
  "list_ontologies ff user st = load_metadata ff user st"

definition key_not_found :: "ustr \<Rightarrow> ontology_error" where
  "key_not_found key = OntologyNotFound (ascii ''Ontology key '' @ [39] @ key @ [39] @ ascii '' not found'')"

definition metadata_path :: "(ustr \<Rightarrow> ustr) \<Rightarrow> ustr \<Rightarrow> ontology_metadata \<Rightarrow> ustr" where
  "metadata_path lower key meta =
     stored_filename key (lower (case path_extension (om_filename meta) of
        Some ext \<Rightarrow> ext | None \<Rightarrow> ascii ''owl''))"

definition get_contents ::
    "(ustr \<Rightarrow> ustr) \<Rightarrow> file_faults \<Rightarrow> uuid \<Rightarrow> ustr \<Rightarrow> ontology_store \<Rightarrow> ontology_error + nat list" where
  "get_contents lower ff user key st =
     (case validate_ontology_key key of
        Inl e \<Rightarrow> Inl e
      | Inr _ \<Rightarrow>
     (case load_metadata ff user st of
        Inl e \<Rightarrow> Inl e
      | Inr m \<Rightarrow>
     (case m key of
        None \<Rightarrow> Inl (key_not_found key)
      | Some meta \<Rightarrow>
     (case ud_files (st user) (metadata_path lower key meta) of
        None \<Rightarrow> Inl (OntologyNotFound (ascii ''Ontology file for key '' @ [39] @ key @ [39]
                  @ ascii '' not found on disk''))
      | Some content \<Rightarrow>
          (case ff_read ff of Some e \<Rightarrow> Inl (OntologyIo e) | None \<Rightarrow> Inr content)))))"

fun get_contents_batch ::
    "(ustr \<Rightarrow> ustr) \<Rightarrow> (nat \<Rightarrow> file_faults) \<Rightarrow> uuid \<Rightarrow> ustr list \<Rightarrow> ontology_store
       \<Rightarrow> ontology_error + nat list list" where
  "get_contents_batch lower ffs user [] st = Inr []"
| "get_contents_batch lower ffs user (key # keys) st =
     (case get_contents lower (ffs 0) user key st of
        Inl e \<Rightarrow> Inl e
      | Inr c \<Rightarrow>
          (case get_contents_batch lower (\<lambda>i. ffs (Suc i)) user keys st of
             Inl e \<Rightarrow> Inl e
           | Inr cs \<Rightarrow> Inr (c # cs)))"

definition delete_ontology ::
    "(ustr \<Rightarrow> ustr) \<Rightarrow> file_faults \<Rightarrow> uuid \<Rightarrow> ustr \<Rightarrow> ontology_store
       \<Rightarrow> ontology_store \<times> (ontology_error + unit)" where
  "delete_ontology lower ff user key st =
     (case validate_ontology_key key of
        Inl e \<Rightarrow> (st, Inl e)
      | Inr _ \<Rightarrow>
     (case load_metadata ff user st of
        Inl e \<Rightarrow> (st, Inl e)
      | Inr m \<Rightarrow>
     (case m key of
        None \<Rightarrow> (st, Inl (key_not_found key))
      | Some meta \<Rightarrow>
          (let name = metadata_path lower key meta in
           if ud_files (st user) name \<noteq> None then
             (case ff_remove ff of
                Some e \<Rightarrow> (st, Inl (OntologyIo e))
              | None \<Rightarrow> save_metadata ff user (m(key := None)) (put_file user name None st))
           else save_metadata ff user (m(key := None)) st))))"


section \<open>What is listed can be read\<close>

lemma stored_filename_inject:
  assumes "stored_filename k e = stored_filename k' e'" "0x2E \<notin> set e" "0x2E \<notin> set e'"
  shows "k = k'" "e = e'"
proof -
  have ext: "takeWhile (\<lambda>c. c \<noteq> 0x2E) (rev (stored_filename x y)) = rev y" if "0x2E \<notin> set y" for x y
    using that by (auto simp: stored_filename_def takeWhile_append)
  from assms show "e = e'" by (metis ext rev_rev_ident)
  with assms(1) show "k = k'" by (simp add: stored_filename_def)
qed

lemma valid_extension_plain: "e \<in> set valid_extensions \<Longrightarrow> 0x2E \<notin> set e"
  by (auto simp: valid_extensions_def)

text \<open>An entry of the metadata has a safe key, a supported extension and its file.\<close>

definition entry_ok :: "(ustr \<Rightarrow> ustr) \<Rightarrow> ustr \<Rightarrow> ontology_metadata \<Rightarrow> bool" where
  "entry_ok lower key meta \<longleftrightarrow> validate_ontology_key key = Inr ()
     \<and> (\<exists>ext. path_extension (om_filename meta) = Some ext \<and> lower ext \<in> set valid_extensions)"

definition store_ok :: "(ustr \<Rightarrow> ustr) \<Rightarrow> ontology_store \<Rightarrow> bool" where
  "store_ok lower st \<longleftrightarrow> (\<forall>user m key meta.
     ud_metadata (st user) = Some m \<and> m key = Some meta \<longrightarrow>
       entry_ok lower key meta \<and> ud_files (st user) (metadata_path lower key meta) \<noteq> None)"

lemma store_ok_empty: "store_ok lower empty_store"
  by (simp add: store_ok_def empty_store_def)

lemma store_okD:
  assumes "store_ok lower st" "ud_metadata (st user) = Some m" "m key = Some meta"
  shows "entry_ok lower key meta" "ud_files (st user) (metadata_path lower key meta) \<noteq> None"
  using assms unfolding store_ok_def by blast+

text \<open>The files of two entries differ when their keys do.\<close>

lemma metadata_path_inject:
  assumes "entry_ok lower k meta" "entry_ok lower k' meta'"
    and "metadata_path lower k meta = metadata_path lower k' meta'"
  shows "k = k'"
proof -
  obtain ext ext' where "path_extension (om_filename meta) = Some ext" "lower ext \<in> set valid_extensions"
    "path_extension (om_filename meta') = Some ext'" "lower ext' \<in> set valid_extensions"
    using assms(1,2) by (auto simp: entry_ok_def)
  then show ?thesis
    using assms(3) by (auto simp: metadata_path_def dest!: valid_extension_plain stored_filename_inject(1))
qed

lemma load_metadata_Some:
  "load_metadata no_file_faults user st = Inr (case ud_metadata (st user) of None \<Rightarrow> Map.empty | Some m \<Rightarrow> m)"
  by (simp add: load_metadata_def no_file_faults_def split: option.splits)

lemma load_metadata_is:
  "load_metadata ff user st = Inr m \<Longrightarrow> m = (case ud_metadata (st user) of None \<Rightarrow> Map.empty | Some m \<Rightarrow> m)"
  by (auto simp: load_metadata_def split: option.splits)

text \<open>An upload either changes at most a file no entry refers to, or adds the entry and its
  file.\<close>

lemma upload_cases:
  assumes "upload lower ff now user key filename content description st = (st', r)"
  obtains (Refused) e where "r = Inl e" "st' = st"
  | (Broken) e ext left where "r = Inl e" "path_extension filename = Some ext"
      "lower ext \<in> set valid_extensions"
      "\<forall>m. ud_metadata (st user) = Some m \<longrightarrow> m key = None"
      "st' = put_file user (stored_filename key (lower ext)) left st"
  | (Stored) meta ext m where "r = Inr meta" "om_filename meta = filename" "om_key meta = key"
      "validate_ontology_key key = Inr ()"
      "path_extension filename = Some ext" "lower ext \<in> set valid_extensions"
      "m = (case ud_metadata (st user) of None \<Rightarrow> Map.empty | Some m \<Rightarrow> m)" "m key = None"
      "st' = st(user := \<lparr>ud_files = (ud_files (st user))(stored_filename key (lower ext) \<mapsto> content),
                         ud_metadata = Some (m(key \<mapsto> meta))\<rparr>)"
proof (cases "\<exists>e. r = Inl e \<and> st' = st")
  case True
  then show thesis using Refused by blast
next
  case False
  obtain ext where key: "validate_ontology_key key = Inr ()" and ext: "path_extension filename = Some ext"
    and valid: "lower ext \<in> set valid_extensions"
    using assms False by (auto simp: upload_def Let_def split: sum.splits option.splits if_splits)
  obtain m where load: "load_metadata ff user st = Inr m" and new: "m key = None"
    using assms False by (auto simp: upload_def Let_def key ext valid split: sum.splits if_splits)
  note m = load_metadata_is [OF load]
  have "ff_mkdir ff = None"
    using assms False by (auto simp: upload_def Let_def key ext valid load new split: option.splits)
  then have rest: "(case ff_write ff of
        Some (e, left) \<Rightarrow> (put_file user (stored_filename key (lower ext)) left st, Inl (OntologyIo e))
      | None \<Rightarrow>
          (case save_metadata ff user (m(key \<mapsto> \<lparr>om_key = key, om_filename = filename,
                 om_size_bytes = length content, om_uploaded_at = now, om_description = description\<rparr>))
               (put_file user (stored_filename key (lower ext)) (Some content) st) of
             (st', Inl e) \<Rightarrow> (st', Inl e)
           | (st', Inr _) \<Rightarrow> (st', Inr \<lparr>om_key = key, om_filename = filename,
                 om_size_bytes = length content, om_uploaded_at = now, om_description = description\<rparr>)))
      = (st', r)"
    using assms by (cases "ff_write ff") (simp_all add: upload_def Let_def key ext valid load new)
  have absent: "\<forall>m. ud_metadata (st user) = Some m \<longrightarrow> m key = None"
    using m new by (auto split: option.splits)
  show thesis
  proof (cases "ff_write ff = None \<and> ff_save ff = None")
    case True
    with rest show thesis
      by (intro Stored [OF _ _ _ key ext valid m new])
        (auto simp: save_metadata_def put_file_def)
  next
    case no_save: False
    with rest obtain e left where "r = Inl e" "st' = put_file user (stored_filename key (lower ext)) left st"
      by (cases "ff_write ff") (auto simp: save_metadata_def split: option.splits)
    from Broken [OF this(1) ext valid absent this(2)] show thesis .
  qed
qed


lemma put_file_simps [simp]:
  "ud_metadata (put_file user name c st u) = ud_metadata (st u)"
  "ud_files (put_file user name c st u) =
     (if u = user then (ud_files (st u))(name := c) else ud_files (st u))"
  by (simp_all add: put_file_def)

lemma metadata_path_eq:
  "path_extension (om_filename meta) = Some ext \<Longrightarrow>
     metadata_path lower key meta = stored_filename key (lower ext)"
  by (simp add: metadata_path_def)

lemma other_path:
  assumes "entry_ok lower k meta" "lower ext \<in> set valid_extensions" "k \<noteq> key"
  shows "metadata_path lower k meta \<noteq> stored_filename key (lower ext)"
proof
  assume same: "metadata_path lower k meta = stored_filename key (lower ext)"
  obtain e where "path_extension (om_filename meta) = Some e" "lower e \<in> set valid_extensions"
    using assms(1) by (auto simp: entry_ok_def)
  with same assms(2) have "k = key"
    by (auto simp: metadata_path_eq dest!: valid_extension_plain stored_filename_inject(1))
  with assms(3) show False ..
qed

lemma upload_store_ok:
  assumes ok: "store_ok lower st"
    and up: "upload lower ff now user key filename content description st = (st', r)"
  shows "store_ok lower st'"
  unfolding store_ok_def
proof (intro allI impI)
  fix u m k meta
  assume entry: "ud_metadata (st' u) = Some m \<and> m k = Some meta"
  from up show "entry_ok lower k meta \<and> ud_files (st' u) (metadata_path lower k meta) \<noteq> None"
  proof (cases rule: upload_cases)
    case Refused
    then show ?thesis using entry ok unfolding store_ok_def by blast
  next
    case (Broken e ext left)
    from Broken(5) entry have old: "ud_metadata (st u) = Some m" "m k = Some meta" by simp_all
    have "k \<noteq> key" if "u = user"
      using Broken(4) old that by auto
    then have "metadata_path lower k meta \<noteq> stored_filename key (lower ext)" if "u = user"
      using other_path [OF store_okD(1) [OF ok old] Broken(3)] that by blast
    then show ?thesis using Broken(5) store_okD [OF ok old] by (cases "u = user") auto
  next
    case (Stored meta' ext m')
    show ?thesis
    proof (cases "u = user \<and> k = key")
      case True
      then have "m = m'(key \<mapsto> meta')" using entry Stored(9) by auto
      then have "meta = meta'" using entry True by simp
      then show ?thesis
        using True Stored by (auto simp: entry_ok_def metadata_path_eq)
    next
      case False
      then obtain m0 where old: "ud_metadata (st u) = Some m0" "m0 k = Some meta"
        using entry Stored(7,9) by (auto split: if_splits option.splits)
      then show ?thesis
        using store_okD [OF ok old] Stored(9) by (cases "u = user") auto
    qed
  qed
qed

lemma dir_without_file:
  "ud_files d name = None \<Longrightarrow>
     d\<lparr>ud_files := (ud_files d)(name := None), ud_metadata := x\<rparr> = d\<lparr>ud_metadata := x\<rparr>"
  by (cases d) (auto simp: fun_upd_idem)

lemma delete_store_ok:
  assumes ok: "store_ok lower st" and "ff_save ff = None"
    and del: "delete_ontology lower ff user key st = (st', r)"
  shows "store_ok lower st'"
proof (cases "st' = st")
  case True
  with ok show ?thesis by simp
next
  case False
  obtain m meta where m: "ud_metadata (st user) = Some m" "m key = Some meta"
    and st': "st' = st(user := (st user)\<lparr>ud_files := (ud_files (st user))(metadata_path lower key meta := None),
                               ud_metadata := Some (m(key := None))\<rparr>)"
    using False del assms(2)
    by (auto simp: delete_ontology_def Let_def load_metadata_def save_metadata_def put_file_def
        dir_without_file split: sum.splits option.splits if_splits)
  show ?thesis
    unfolding store_ok_def
  proof (intro allI impI)
    fix u n k meta'
    assume entry: "ud_metadata (st' u) = Some n \<and> n k = Some meta'"
    then have "\<exists>m0. ud_metadata (st u) = Some m0 \<and> m0 k = Some meta'" and diff: "u = user \<Longrightarrow> k \<noteq> key"
      using m by (auto simp: st' split: if_splits)
    then obtain m0 where old: "ud_metadata (st u) = Some m0" "m0 k = Some meta'" by blast
    have "metadata_path lower k meta' \<noteq> metadata_path lower key meta" if "u = user"
      using metadata_path_inject store_okD(1) [OF ok old] store_okD(1) [OF ok m] diff [OF that] by metis
    then show "entry_ok lower k meta' \<and> ud_files (st' u) (metadata_path lower k meta') \<noteq> None"
      using store_okD [OF ok old] by (cases "u = user") (auto simp: st')
  qed
qed

lemma get_contents_no_faults:
  assumes "store_ok lower st"
  shows "get_contents lower no_file_faults user key st =
    (case validate_ontology_key key of
       Inl e \<Rightarrow> Inl e
     | Inr _ \<Rightarrow>
         (case Option.bind (ud_metadata (st user)) (\<lambda>m. m key) of
            None \<Rightarrow> Inl (key_not_found key)
          | Some meta \<Rightarrow> Inr (the (ud_files (st user) (metadata_path lower key meta)))))"
proof (cases "Option.bind (ud_metadata (st user)) (\<lambda>m. m key)")
  case None
  then show ?thesis
    by (cases "ud_metadata (st user)")
      (auto simp: get_contents_def load_metadata_Some split: sum.splits)
next
  case (Some meta)
  then obtain m where m: "ud_metadata (st user) = Some m" "m key = Some meta"
    by (cases "ud_metadata (st user)") auto
  from store_okD(2) [OF assms m] show ?thesis
    by (auto simp: get_contents_def load_metadata_Some m split: sum.splits)
qed

text \<open>Operations on the store, with their faults; a deletion whose metadata write fails is left
  out, since it has already removed the file.\<close>

datatype store_op =
    Upload file_faults int uuid ustr ustr "nat list" "ustr option"
  | Delete file_faults uuid ustr

fun run_store :: "(ustr \<Rightarrow> ustr) \<Rightarrow> store_op list \<Rightarrow> ontology_store \<Rightarrow> ontology_store" where
  "run_store lower [] st = st"
| "run_store lower (Upload ff now user key filename content description # ops) st =
     run_store lower ops (fst (upload lower ff now user key filename content description st))"
| "run_store lower (Delete ff user key # ops) st =
     run_store lower ops (fst (delete_ontology lower (ff\<lparr>ff_save := None\<rparr>) user key st))"

lemma run_store_ok: "store_ok lower st \<Longrightarrow> store_ok lower (run_store lower ops st)"
proof (induction lower ops st rule: run_store.induct)
  case (2 lower ff now user key filename content description ops st)
  then show ?case using upload_store_ok by (metis prod.collapse run_store.simps(2))
next
  case (3 lower ff user key ops st)
  have "store_ok lower (fst (delete_ontology lower (ff\<lparr>ff_save := None\<rparr>) user key st))"
    using delete_store_ok [OF "3.prems", of "ff\<lparr>ff_save := None\<rparr>"] by (metis file_faults.select_convs(4) file_faults.update_convs(4) file_faults.surjective prod.collapse)
  then show ?case using 3 by simp
qed simp


text \<open>C29: After any operations, of all users and with failures of every call but the metadata
  write of a deletion, each key a user lists can be read, and has the supported extension and
  the safe form that were demanded of it.\<close>

theorem listed_ontology_is_readable:
  assumes "list_ontologies no_file_faults user (run_store lower ops empty_store) = Inr m"
    and "m key = Some meta"
  shows "(\<exists>content. get_contents lower no_file_faults user key (run_store lower ops empty_store) = Inr content)
    \<and> entry_ok lower key meta"
proof -
  let ?st = "run_store lower ops empty_store"
  have ok: "store_ok lower ?st" by (rule run_store_ok [OF store_ok_empty])
  have m: "ud_metadata (?st user) = Some m"
    using assms by (auto simp: list_ontologies_def load_metadata_Some split: option.splits)
  from store_okD(1) [OF ok m assms(2)] show ?thesis
    by (simp add: get_contents_no_faults [OF ok] m assms(2) entry_ok_def)
qed

definition ascii_lowercase :: "ustr \<Rightarrow> ustr" where
  "ascii_lowercase = map (\<lambda>c. if 65 \<le> c \<and> c \<le> 90 then c + 32 else c)"

definition sample_upload :: "store_op list" where
  "sample_upload = [Upload no_file_faults 5 7 (ascii ''cars'') (ascii ''cars.TTL'') [1, 2] None]"

lemma sample_upload_listed:
  "map_option (\<lambda>m. map_option om_size_bytes (m (ascii ''cars'')))
     (ud_metadata (run_store ascii_lowercase sample_upload empty_store 7)) = Some (Some 2)"
  by code_simp

theorem listed_ontology_is_readable_witness:
  "\<exists>content. get_contents ascii_lowercase no_file_faults 7 (ascii ''cars'')
     (run_store ascii_lowercase sample_upload empty_store) = Inr content"
proof -
  obtain m meta where "ud_metadata (run_store ascii_lowercase sample_upload empty_store 7) = Some m"
    and meta: "m (ascii ''cars'') = Some meta"
    using sample_upload_listed by auto
  then have "list_ontologies no_file_faults 7 (run_store ascii_lowercase sample_upload empty_store) = Inr m"
    by (simp add: list_ontologies_def load_metadata_Some)
  from listed_ontology_is_readable [OF this meta] show ?thesis by blast
qed

text \<open>C28: What has been uploaded is what is read back, byte for byte, and no other key of any
  user is touched; an upload that is refused or breaks off changes nothing that can be read.\<close>

theorem upload_is_read_back:
  assumes ok: "store_ok lower st"
    and up: "upload lower ff now user key filename content description st = (st', r)"
  shows "(case r of Inr _ \<Rightarrow> get_contents lower no_file_faults user key st' = Inr content
          | Inl _ \<Rightarrow> get_contents lower no_file_faults user key st' = get_contents lower no_file_faults user key st)
    \<and> ((u, k) \<noteq> (user, key) \<longrightarrow>
         get_contents lower no_file_faults u k st' = get_contents lower no_file_faults u k st)"
proof -
  have ok': "store_ok lower st'" by (rule upload_store_ok [OF ok up])
  note get = get_contents_no_faults [OF ok] get_contents_no_faults [OF ok']
  have frame: "get_contents lower no_file_faults u k st' = get_contents lower no_file_faults u k st"
    if same: "Option.bind (ud_metadata (st' u)) (\<lambda>m. m k) = Option.bind (ud_metadata (st u)) (\<lambda>m. m k)"
      and files: "\<And>m meta. ud_metadata (st u) = Some m \<Longrightarrow> m k = Some meta \<Longrightarrow>
        ud_files (st' u) (metadata_path lower k meta) = ud_files (st u) (metadata_path lower k meta)"
    for u k
    unfolding get same using files
    by (auto split: option.splits sum.splits simp: bind_eq_Some_conv)
  from up show ?thesis
  proof (cases rule: upload_cases)
    case Refused
    then show ?thesis by simp
  next
    case (Broken e ext left)
    have "get_contents lower no_file_faults u k st' = get_contents lower no_file_faults u k st" for u k
    proof (rule frame)
      fix m meta
      assume old: "ud_metadata (st u) = Some m" "m k = Some meta"
      then have "u = user \<Longrightarrow> k \<noteq> key" using Broken(4) by auto
      then show "ud_files (st' u) (metadata_path lower k meta) = ud_files (st u) (metadata_path lower k meta)"
        using other_path [OF store_okD(1) [OF ok old] Broken(3)] by (auto simp: Broken(5))
    qed (simp add: Broken(5))
    then show ?thesis by (simp add: Broken(1))
  next
    case (Stored meta ext m)
    have "get_contents lower no_file_faults u k st' = get_contents lower no_file_faults u k st"
      if "(u, k) \<noteq> (user, key)"
    proof (rule frame)
      show "Option.bind (ud_metadata (st' u)) (\<lambda>m. m k) = Option.bind (ud_metadata (st u)) (\<lambda>m. m k)"
        using that by (auto simp: Stored(7,9) split: option.splits)
    next
      fix m meta
      assume old: "ud_metadata (st u) = Some m" "m k = Some meta"
      show "ud_files (st' u) (metadata_path lower k meta) = ud_files (st u) (metadata_path lower k meta)"
        using other_path [OF store_okD(1) [OF ok old] Stored(6)] that by (auto simp: Stored(9))
    qed
    moreover have "get_contents lower no_file_faults user key st' = Inr content"
      unfolding get_contents_no_faults [OF ok']
      by (simp add: Stored(2,4,5,9) metadata_path_eq)
    ultimately show ?thesis by (simp add: Stored(1))
  qed
qed


theorem upload_is_read_back_witness:
  "case upload ascii_lowercase no_file_faults 5 7 (ascii ''cars'') (ascii ''cars.TTL'') [1, 2] None empty_store of
     (st', Inr _) \<Rightarrow> get_contents ascii_lowercase no_file_faults 7 (ascii ''cars'') st' = Inr [1, 2]
   | (_, Inl _) \<Rightarrow> False"
proof -
  let ?up = "upload ascii_lowercase no_file_faults 5 7 (ascii ''cars'') (ascii ''cars.TTL'') [1, 2] None empty_store"
  have "\<not> isl (snd ?up)" by code_simp
  then obtain st' meta where up: "?up = (st', Inr meta)" by (cases ?up; cases "snd ?up") auto
  from upload_is_read_back [OF store_ok_empty up, of 0 "[]"]
  have "get_contents ascii_lowercase no_file_faults 7 (ascii ''cars'') st' = Inr [1, 2]" by simp
  then show ?thesis unfolding up by simp
qed

text \<open>The deletion removes the file first: when its metadata cannot be written the key is still
  listed, its contents are gone, and the deletion can be repeated.\<close>

lemma delete_can_leave_listed_key:
  "let st = run_store ascii_lowercase sample_upload empty_store;
       ff = no_file_faults\<lparr>ff_save := Some (OntologyIo [])\<rparr>;
       st1 = fst (delete_ontology ascii_lowercase ff 7 (ascii ''cars'') st);
       st2 = fst (delete_ontology ascii_lowercase no_file_faults 7 (ascii ''cars'') st1)
   in map_option (\<lambda>m. m (ascii ''cars'') = None) (ud_metadata (st1 7)) = Some False
      \<and> isl (get_contents ascii_lowercase no_file_faults 7 (ascii ''cars'') st1)
      \<and> map_option (\<lambda>m. m (ascii ''cars'') = None) (ud_metadata (st2 7)) = Some True"
  by code_simp

end
