(* ===== verification/Data_Points.thy ===== *)
theory Data_Points
  imports Sweep
begin

text \<open>
  The data points that flow through the pipelines (\<open>crates/models/src\<close>): the base record, the
  containers that embed it, their deterministic ids (\<open>crates/utils/src/id_generation.rs\<close>), and
  the classification of data items into documents. The clock and fresh UUIDs are arguments;
  \<open>uuid5\<close>, the display of a UUID and lower case come from \<^typ>\<open>sweep_env\<close>.
\<close>

section \<open>The base record\<close>

record data_point =
  dp_id :: uuid
  dp_created_at :: int
  dp_updated_at :: int
  dp_ontology_valid :: bool
  dp_version :: int
  dp_topological_rank :: "int option"
  dp_metadata :: "string \<rightharpoonup> json"
  dp_data_type :: ustr
  dp_belongs_to_set :: "json list option"
  dp_source_pipeline :: "ustr option"
  dp_source_task :: "ustr option"
  dp_source_node_set :: "ustr option"
  dp_source_user :: "ustr option"
  dp_source_content_hash :: "ustr option"
  dp_feedback_weight :: rat
  dp_importance_weight :: "rat option"

definition data_point_with_metadata ::
    "sweep_env \<Rightarrow> int \<Rightarrow> uuid \<Rightarrow> ustr \<Rightarrow> uuid option \<Rightarrow> (string \<rightharpoonup> json) \<Rightarrow> data_point" where
  "data_point_with_metadata env now fresh data_type dataset_id metadata =
     \<lparr>dp_id = fresh, dp_created_at = now, dp_updated_at = now, dp_ontology_valid = False,
      dp_version = 1, dp_topological_rank = Some 0, dp_metadata = metadata,
      dp_data_type = data_type,
      dp_belongs_to_set = map_option (\<lambda>i. [JStr (se_show env i)]) dataset_id,
      dp_source_pipeline = None, dp_source_task = None, dp_source_node_set = None,
      dp_source_user = None, dp_source_content_hash = None,
      dp_feedback_weight = 1 / 2, dp_importance_weight = Some (1 / 2)\<rparr>"

definition data_point_new :: "sweep_env \<Rightarrow> int \<Rightarrow> uuid \<Rightarrow> ustr \<Rightarrow> uuid option \<Rightarrow> data_point" where
  "data_point_new env now fresh data_type dataset_id =
     data_point_with_metadata env now fresh data_type dataset_id Map.empty"

definition touch :: "int \<Rightarrow> data_point \<Rightarrow> data_point" where
  "touch now dp = dp\<lparr>dp_updated_at := now\<rparr>"

definition update_version :: "int \<Rightarrow> data_point \<Rightarrow> data_point" where
  "update_version now dp = touch now (dp\<lparr>dp_version := dp_version dp + 1\<rparr>)"

definition set_ontology_valid :: "int \<Rightarrow> bool \<Rightarrow> data_point \<Rightarrow> data_point" where
  "set_ontology_valid now valid dp = touch now (dp\<lparr>dp_ontology_valid := valid\<rparr>)"

definition set_metadata :: "int \<Rightarrow> string \<Rightarrow> json \<Rightarrow> data_point \<Rightarrow> data_point" where
  "set_metadata now key val dp = touch now (dp\<lparr>dp_metadata := (dp_metadata dp)(key \<mapsto> val)\<rparr>)"

definition get_metadata :: "string \<Rightarrow> data_point \<Rightarrow> json option" where
  "get_metadata key dp = dp_metadata dp key"

section \<open>Deterministic ids\<close>

definition generate_node_id :: "sweep_env \<Rightarrow> ustr \<Rightarrow> uuid" where
  "generate_node_id env node_id = se_v5 env (normalize_identifier (se_lower env) node_id)"

definition data_point_id_for :: "sweep_env \<Rightarrow> ustr \<Rightarrow> ustr list \<Rightarrow> uuid" where
  "data_point_id_for env class_name vals =
     se_v5 env (class_name @ [0x3A] @
       join (ascii ''|'') (map (normalize_identifier (se_lower env)) vals))"

definition generate_edge_name :: "sweep_env \<Rightarrow> ustr \<Rightarrow> ustr" where
  "generate_edge_name env name = normalize_identifier (se_lower env) name"

definition generate_node_name :: "sweep_env \<Rightarrow> ustr \<Rightarrow> ustr" where
  "generate_node_name env name = filter (\<lambda>c. c \<noteq> 0x27) (se_lower env name)"

text \<open>The class name is hashed along, so kinds do not collide, unless \<open>uuid5\<close> does.\<close>

lemma data_point_ids_of_classes:
  assumes "inj (se_v5 env)" "c \<noteq> c'" "0x3A \<notin> set c" "0x3A \<notin> set c'"
  shows "data_point_id_for env c vs \<noteq> data_point_id_for env c' vs'"
proof
  assume "data_point_id_for env c vs = data_point_id_for env c' vs'"
  then have "c @ [0x3A] @ join (ascii ''|'') (map (normalize_identifier (se_lower env)) vs)
      = c' @ [0x3A] @ join (ascii ''|'') (map (normalize_identifier (se_lower env)) vs')"
    using assms(1) by (simp add: data_point_id_for_def inj_eq)
  moreover have "takeWhile (\<lambda>x. x \<noteq> 0x3A) (xs @ [0x3A] @ ys) = xs" if "0x3A \<notin> set xs"
    for xs ys :: ustr
    using that by (induction xs) auto
  ultimately show False using assms(2-4) by metis
qed

section \<open>Entities, entity types, edge types\<close>

definition index_fields :: "string \<Rightarrow> (string \<rightharpoonup> json)" where
  "index_fields f = [''index_fields'' \<mapsto> JArr [JStr (ascii f)]]"

record entity =
  en_base :: data_point
  en_name :: ustr
  en_is_a :: "uuid option"
  en_description :: ustr

definition entity_id_for :: "sweep_env \<Rightarrow> ustr \<Rightarrow> uuid" where
  "entity_id_for env val = data_point_id_for env (ascii ''Entity'') [val]"

definition entity_new ::
    "sweep_env \<Rightarrow> int \<Rightarrow> uuid \<Rightarrow> ustr \<Rightarrow> uuid option \<Rightarrow> ustr \<Rightarrow> uuid option \<Rightarrow> entity" where
  "entity_new env now fresh name entity_type_id description dataset_id =
     \<lparr>en_base = (data_point_with_metadata env now fresh (ascii ''Entity'') dataset_id
        (index_fields ''name''))\<lparr>dp_id := entity_id_for env name\<rparr>,
      en_name = name, en_is_a = entity_type_id, en_description = description\<rparr>"

definition entity_from_node ::
    "sweep_env \<Rightarrow> int \<Rightarrow> uuid \<Rightarrow> ustr \<Rightarrow> ustr \<Rightarrow> ustr \<Rightarrow> uuid \<Rightarrow> uuid option \<Rightarrow> entity" where
  "entity_from_node env now fresh node_id node_name node_description entity_type_id dataset_id =
     (let e = entity_new env now fresh node_name (Some entity_type_id) node_description dataset_id
      in e\<lparr>en_base := set_metadata now ''original_node_id'' (JStr node_id)
              ((en_base e)\<lparr>dp_id := entity_id_for env node_id\<rparr>)\<rparr>)"

definition set_entity_description :: "int \<Rightarrow> ustr \<Rightarrow> entity \<Rightarrow> entity" where
  "set_entity_description now d e = e\<lparr>en_description := d, en_base := touch now (en_base e)\<rparr>"

definition set_entity_type :: "int \<Rightarrow> uuid \<Rightarrow> entity \<Rightarrow> entity" where
  "set_entity_type now t e = e\<lparr>en_is_a := Some t, en_base := touch now (en_base e)\<rparr>"

record entity_type =
  et_base :: data_point
  et_name :: ustr
  et_description :: ustr

definition entity_type_id_for :: "sweep_env \<Rightarrow> ustr \<Rightarrow> uuid" where
  "entity_type_id_for env val = data_point_id_for env (ascii ''EntityType'') [val]"

definition entity_type_new ::
    "sweep_env \<Rightarrow> int \<Rightarrow> uuid \<Rightarrow> ustr \<Rightarrow> ustr \<Rightarrow> uuid option \<Rightarrow> entity_type" where
  "entity_type_new env now fresh name description dataset_id =
     \<lparr>et_base = (data_point_with_metadata env now fresh (ascii ''EntityType'') dataset_id
        (index_fields ''name''))\<lparr>dp_id := entity_type_id_for env name\<rparr>,
      et_name = name,
      et_description = (if description = [] then ascii ''Entity type: '' @ name else description)\<rparr>"

definition entity_type_from_node_type ::
    "sweep_env \<Rightarrow> int \<Rightarrow> uuid \<Rightarrow> ustr \<Rightarrow> uuid option \<Rightarrow> entity_type" where
  "entity_type_from_node_type env now fresh type_name dataset_id =
     entity_type_new env now fresh type_name (ascii ''Entity type: '' @ type_name) dataset_id"

definition mark_ontology_valid :: "int \<Rightarrow> ustr option \<Rightarrow> entity_type \<Rightarrow> entity_type" where
  "mark_ontology_valid now canonical_name et =
     (let et = et\<lparr>et_base := set_ontology_valid now True (et_base et)\<rparr> in
      case canonical_name of
        None \<Rightarrow> et
      | Some canonical \<Rightarrow>
          if canonical = et_name et then et
          else et\<lparr>et_base := set_metadata now ''original_name'' (JStr (et_name et)) (et_base et),
                  et_name := canonical\<rparr>)"

record edge_type =
  ed_base :: data_point
  ed_relationship_name :: ustr
  ed_number_of_edges :: int

definition edge_deterministic_id :: "sweep_env \<Rightarrow> ustr \<Rightarrow> uuid" where
  "edge_deterministic_id env relationship_name =
     data_point_id_for env (ascii ''EdgeType'') [relationship_name]"

definition edge_point_id_for :: "sweep_env \<Rightarrow> ustr option \<Rightarrow> ustr \<Rightarrow> uuid option" where
  "edge_point_id_for env edge_text relationship_name =
     (let text = retrieval_text edge_text relationship_name in
      if text = [] then None else Some (edge_deterministic_id env text))"

definition edge_type_new :: "sweep_env \<Rightarrow> int \<Rightarrow> uuid \<Rightarrow> ustr \<Rightarrow> uuid option \<Rightarrow> edge_type" where
  "edge_type_new env now fresh relationship_name dataset_id =
     \<lparr>ed_base = data_point_with_metadata env now fresh (ascii ''EdgeType'') dataset_id
        (index_fields ''relationship_name''),
      ed_relationship_name = relationship_name, ed_number_of_edges = 0\<rparr>"

definition edge_type_new_deterministic ::
    "sweep_env \<Rightarrow> int \<Rightarrow> ustr \<Rightarrow> uuid option \<Rightarrow> edge_type" where
  "edge_type_new_deterministic env now name dataset_id =
     \<lparr>ed_base = data_point_with_metadata env now (edge_deterministic_id env name)
        (ascii ''EdgeType'') dataset_id (index_fields ''relationship_name''),
      ed_relationship_name = name, ed_number_of_edges = 0\<rparr>"

definition increment_count :: "int \<Rightarrow> edge_type \<Rightarrow> edge_type" where
  "increment_count now e =
     e\<lparr>ed_number_of_edges := ed_number_of_edges e + 1, ed_base := touch now (ed_base e)\<rparr>"

definition set_count :: "int \<Rightarrow> int \<Rightarrow> edge_type \<Rightarrow> edge_type" where
  "set_count now n e = e\<lparr>ed_number_of_edges := n, ed_base := touch now (ed_base e)\<rparr>"

text \<open>A reader that recomputes the id of an edge's vector point lands on the one the writer
  used.\<close>

lemma edge_point_id_of_writer:
  assumes "retrieval_text edge_text relationship_name = text" "text \<noteq> []"
  shows "edge_point_id_for env edge_text relationship_name
    = Some (dp_id (ed_base (edge_type_new_deterministic env now text dataset_id)))"
  using assms by (simp add: edge_point_id_for_def edge_type_new_deterministic_def
      data_point_with_metadata_def)

lemma edge_ids_agree: "edge_deterministic_id env text = edge_type_id env text"
  by (simp add: edge_deterministic_id_def edge_type_id_def data_point_id_for_def)

end
