(* ===== verification/Documents.thy ===== *)
theory Documents
  imports Data_Points
begin

text \<open>
  Data items and the documents they are classified into (\<open>crates/models/src/data.rs\<close>,
  \<open>document.rs\<close>). Parsing and pretty-printing JSON are parameters.
\<close>

record data =
  da_id :: uuid
  da_name :: ustr
  da_raw_data_location :: ustr
  da_original_data_location :: ustr
  da_extension :: ustr
  da_mime_type :: ustr
  da_content_hash :: ustr
  da_owner_id :: uuid
  da_created_at :: int
  da_updated_at :: "int option"
  da_label :: "ustr option"
  da_original_extension :: "ustr option"
  da_original_mime_type :: "ustr option"
  da_loader_engine :: "ustr option"
  da_raw_content_hash :: "ustr option"
  da_tenant_id :: "uuid option"
  da_external_metadata :: "ustr option"
  da_node_set :: "ustr option"
  da_pipeline_status :: "ustr option"
  da_token_count :: int
  da_data_size :: int
  da_last_accessed :: "int option"
  da_importance_weight :: "rat option"

record document =
  do_base :: data_point
  do_document_type :: ustr
  do_name :: ustr
  do_raw_data_location :: ustr
  do_mime_type :: ustr
  do_extension :: ustr
  do_data_id :: uuid
  do_external_metadata :: "ustr option"

record json_codec =
  jc_parse :: "ustr \<Rightarrow> json option"
  jc_pretty :: "json \<Rightarrow> ustr option"

section \<open>Document types\<close>

definition extension_table :: "(ustr \<times> string) list" where
  "extension_table =
     [(ascii ''pdf'', ''pdf''), (ascii ''txt'', ''text'')]
     @ map (\<lambda>e. (ascii e, ''text'')) [''md'', ''json'', ''xml'', ''yaml'']
     @ [(ascii ''csv'', ''csv'')]
     @ map (\<lambda>e. (ascii e, ''unstructured''))
         [''docx'', ''doc'', ''odt'', ''xls'', ''xlsx'', ''ppt'', ''pptx'', ''odp'', ''ods'']
     @ map (\<lambda>e. (ascii e, ''image''))
         [''png'', ''dwg'', ''xcf'', ''jpg'', ''jpx'', ''apng'', ''gif'', ''webp'', ''cr2'', ''tif'',
          ''bmp'', ''jxr'', ''psd'', ''ico'', ''heic'', ''avif'']
     @ map (\<lambda>e. (ascii e, ''audio''))
         [''aac'', ''mid'', ''mp3'', ''m4a'', ''ogg'', ''flac'', ''wav'', ''amr'', ''aiff'']
     @ map (\<lambda>e. (ascii e, ''html'')) [''html'', ''htm'']"

definition extension_to_doc_type :: "(ustr \<Rightarrow> ustr) \<Rightarrow> ustr \<Rightarrow> string option" where
  "extension_to_doc_type lower ext = map_of extension_table (lower ext)"

definition doc_type_to_class_name :: "string \<Rightarrow> string" where
  "doc_type_to_class_name doc_type =
     (case map_of [(''text'', ''TextDocument''), (''pdf'', ''PdfDocument''), (''csv'', ''CsvDocument''),
        (''image'', ''ImageDocument''), (''audio'', ''AudioDocument''), (''html'', ''TextDocument''),
        (''unstructured'', ''UnstructuredDocument''), (''dlt_row'', ''DltRowDocument'')] doc_type of
        Some c \<Rightarrow> c
      | None \<Rightarrow> ''Document'')"

lemma map_of_size: "map_of kvs k = Some v \<Longrightarrow> size v < size (JObj kvs)"
proof (induction kvs)
  case (Cons kv kvs)
  then show ?case by (cases kv) (auto split: if_splits)
qed simp

lemma json_get_size: "json_get v k = Some v' \<Longrightarrow> size v' < size v"
  by (cases v) (auto simp: json_get_def dest: map_of_size)

text \<open>Metadata can be nested; the search for the source descends into it.\<close>

function metadata_value_is_dlt_sourced :: "json \<Rightarrow> bool" where
  "metadata_value_is_dlt_sourced v =
     (json_get v ''source'' = Some (JStr (ascii ''dlt''))
      \<or> (case json_get v ''data_item_external_metadata'' of
           None \<Rightarrow> False
         | Some inner \<Rightarrow> metadata_value_is_dlt_sourced inner))"
  by pat_completeness auto
termination
  by (relation "measure size") (auto dest: json_get_size)

declare metadata_value_is_dlt_sourced.simps [simp del]

definition is_dlt_sourced :: "json_codec \<Rightarrow> ustr option \<Rightarrow> bool" where
  "is_dlt_sourced jc external_metadata =
     (case Option.bind external_metadata (jc_parse jc) of
        None \<Rightarrow> False
      | Some v \<Rightarrow> metadata_value_is_dlt_sourced v)"

section \<open>Node sets\<close>

definition node_set_value :: "json_codec \<Rightarrow> ustr option \<Rightarrow> ustr option \<Rightarrow> json option" where
  "node_set_value jc external_metadata node_set_column =
     (case Option.bind (Option.bind external_metadata (jc_parse jc)) (\<lambda>v. json_get v ''node_set'') of
        Some v \<Rightarrow> Some v
      | None \<Rightarrow> Option.bind node_set_column (jc_parse jc))"

definition json_str :: "json \<Rightarrow> ustr option" where
  "json_str v = (case v of JStr s \<Rightarrow> Some s | _ \<Rightarrow> None)"

definition node_set_json :: "sweep_env \<Rightarrow> ustr \<Rightarrow> json" where
  "node_set_json env name =
     JObj [(''id'', JStr (se_show env (generate_node_id env (ascii ''NodeSet:'' @ name)))),
           (''name'', JStr name), (''type'', JStr (ascii ''NodeSet''))]"

definition tag_node_set :: "sweep_env \<Rightarrow> json option \<Rightarrow> data_point \<Rightarrow> data_point" where
  "tag_node_set env value base =
     (case Option.bind value json_array of
        None \<Rightarrow> base
      | Some vs \<Rightarrow>
          (let names = List.map_filter json_str vs in
           if names = [] then base
           else base\<lparr>dp_source_node_set := Some (join (ascii '', '') names),
                     dp_belongs_to_set := Some (map (node_set_json env) names)\<rparr>))"

section \<open>Classification\<close>

definition document_type_of :: "sweep_env \<Rightarrow> json_codec \<Rightarrow> data \<Rightarrow> string option" where
  "document_type_of env jc d =
     (if is_dlt_sourced jc (da_external_metadata d) then Some ''dlt_row''
      else extension_to_doc_type (se_lower env) (da_extension d))"

definition classify_document :: "sweep_env \<Rightarrow> json_codec \<Rightarrow> int \<Rightarrow> data \<Rightarrow> document option" where
  "classify_document env jc now d =
     (case document_type_of env jc d of
        None \<Rightarrow> None
      | Some doc_type \<Rightarrow>
          (let base = (data_point_new env now (da_id d) (ascii (doc_type_to_class_name doc_type)) None)
                 \<lparr>dp_importance_weight := Some (case da_importance_weight d of Some w \<Rightarrow> w | None \<Rightarrow> 1 / 2)\<rparr>;
               base = set_metadata now ''index_fields'' (JArr [JStr (ascii ''name'')]) base;
               formatted = Option.bind (Option.bind (da_external_metadata d) (jc_parse jc)) (jc_pretty jc);
               metadata = (case formatted of Some m \<Rightarrow> Some m | None \<Rightarrow> da_external_metadata d)
           in Some \<lparr>do_base = tag_node_set env (node_set_value jc metadata (da_node_set d)) base,
                    do_document_type = ascii doc_type, do_name = da_name d,
                    do_raw_data_location = da_raw_data_location d, do_mime_type = da_mime_type d,
                    do_extension = da_extension d, do_data_id = da_id d,
                    do_external_metadata = metadata\<rparr>))"

definition classify_documents :: "sweep_env \<Rightarrow> json_codec \<Rightarrow> int \<Rightarrow> data list \<Rightarrow> document list" where
  "classify_documents env jc now items = List.map_filter (classify_document env jc now) items"

lemma tag_node_set_id [simp]: "dp_id (tag_node_set env v base) = dp_id base"
  by (simp add: tag_node_set_def Let_def split: option.splits)

lemma classify_document_ids:
  assumes "classify_document env jc now d = Some doc"
  shows "dp_id (do_base doc) = da_id d" "do_data_id doc = da_id d"
    "document_type_of env jc d \<noteq> None"
  using assms
  by (auto simp: classify_document_def Let_def set_metadata_def touch_def data_point_new_def
      data_point_with_metadata_def split: option.splits)

lemma classify_document_None: "classify_document env jc now d = None \<longleftrightarrow> document_type_of env jc d = None"
  by (simp add: classify_document_def Let_def split: option.splits)

text \<open>Each classifiable item becomes one document, with the item's id, in order.\<close>

lemma classified_ids:
  "map (\<lambda>doc. dp_id (do_base doc)) (classify_documents env jc now items)
     = map da_id (filter (\<lambda>d. document_type_of env jc d \<noteq> None) items)"
proof (induction items)
  case (Cons d items)
  then show ?case
    using classify_document_ids [of env jc now d] classify_document_None [of env jc now d]
    by (cases "classify_document env jc now d")
      (auto simp: classify_documents_def List.map_filter_simps)
qed (simp add: classify_documents_def List.map_filter_simps)

text \<open>The metadata key decides before the column, even when it holds no array.\<close>

lemma node_set_key_wins:
  assumes "jc_parse jc m = Some v" "json_get v ''node_set'' = Some ns"
  shows "node_set_value jc (Some m) column = Some ns"
  using assms by (simp add: node_set_value_def)

end
