(* ===== verification/Prov_Stamp.thy ===== *)
theory Prov_Stamp
  imports Documents Pipeline_Exec
begin

text \<open>
  Provenance stamping (\<open>crates/core/src/provenance.rs\<close>) and its place in the executor
  (\<open>stamp_boxed_item\<close>, \<open>stamp_single_output\<close> of \<open>pipeline.rs\<close>). A value that implements
  \<open>HasDataPoint\<close> is a tree: its embedded data point and the children it owns, which
  \<open>for_each_child_mut\<close> visits in order (the containers of the code own none). A type-erased
  value is one of the registered containers, a vector of one of them, a data item, or anything
  else.
\<close>

section \<open>Values\<close>

datatype dp_tree = DP (tree_point: data_point) (tree_children: "dp_tree list")

datatype container = CDocument | CDocumentChunk | CEntity | CEntityType | CEdgeType

datatype dyn_value = VOne container dp_tree | VMany container "dp_tree list" | VData data
  | VTagged dyn_value "ustr option" | VOther ustr

record prov_context =
  pv_pipeline_name :: ustr
  pv_task_name :: ustr
  pv_user_label :: "ustr option"
  pv_node_set :: "ustr option"
  pv_content_hash :: "ustr option"
  pv_task_rank :: "int option"

section \<open>Stamping\<close>

text \<open>What a field holds after a guarded assignment.\<close>

definition or_else :: "'a option \<Rightarrow> 'a option \<Rightarrow> 'a option" where
  "or_else x y = (case x of Some _ \<Rightarrow> x | None \<Rightarrow> y)"

definition stamp_rank :: "prov_context \<Rightarrow> int option \<Rightarrow> int option" where
  "stamp_rank ctx rank =
     (case pv_task_rank ctx of
        Some r \<Rightarrow> if r > 0 \<and> (rank = None \<or> rank = Some 0) then Some r else rank
      | None \<Rightarrow> rank)"

definition stamp_point :: "prov_context \<Rightarrow> data_point \<Rightarrow> data_point" where
  "stamp_point ctx dp =
     dp\<lparr>dp_source_pipeline := or_else (dp_source_pipeline dp) (Some (pv_pipeline_name ctx)),
        dp_source_task := or_else (dp_source_task dp) (Some (pv_task_name ctx)),
        dp_source_user := or_else (dp_source_user dp) (pv_user_label ctx),
        dp_topological_rank := stamp_rank ctx (dp_topological_rank dp),
        dp_source_node_set := or_else (dp_source_node_set dp) (pv_node_set ctx),
        dp_source_content_hash := or_else (dp_source_content_hash dp) (pv_content_hash ctx)\<rparr>"

definition child_context :: "prov_context \<Rightarrow> data_point \<Rightarrow> prov_context" where
  "child_context ctx dp =
     ctx\<lparr>pv_node_set := or_else (dp_source_node_set dp) (pv_node_set ctx),
         pv_content_hash := or_else (dp_source_content_hash dp) (pv_content_hash ctx)\<rparr>"

fun stamp_tree :: "prov_context \<Rightarrow> dp_tree \<Rightarrow> uuid set \<Rightarrow> dp_tree \<times> uuid set"
  and stamp_trees :: "prov_context \<Rightarrow> dp_tree list \<Rightarrow> uuid set \<Rightarrow> dp_tree list \<times> uuid set" where
  "stamp_tree ctx (DP dp children) visited =
     (if dp_id dp \<in> visited then (DP dp children, visited)
      else case stamp_trees (child_context ctx dp) children (insert (dp_id dp) visited) of
             (children', visited') \<Rightarrow> (DP (stamp_point ctx dp) children', visited'))"
| "stamp_trees ctx [] visited = ([], visited)"
| "stamp_trees ctx (t # ts) visited =
     (case stamp_tree ctx t visited of
        (t', visited') \<Rightarrow>
          (case stamp_trees ctx ts visited' of (ts', visited'') \<Rightarrow> (t' # ts', visited'')))"

text \<open>The third component says whether the type was recognised.\<close>

definition stamp_tree_dyn ::
    "prov_context \<Rightarrow> dyn_value \<Rightarrow> uuid set \<Rightarrow> dyn_value \<times> uuid set \<times> bool" where
  "stamp_tree_dyn ctx v visited =
     (case v of
        VOne c t \<Rightarrow> (case stamp_tree ctx t visited of (t', vis) \<Rightarrow> (VOne c t', vis, True))
      | VMany c ts \<Rightarrow> (case stamp_trees ctx ts visited of (ts', vis) \<Rightarrow> (VMany c ts', vis, True))
      | _ \<Rightarrow> (v, visited, False))"

definition downcast_to_datapoint :: "dyn_value \<Rightarrow> data_point option" where
  "downcast_to_datapoint v = (case v of VOne _ t \<Rightarrow> Some (tree_point t) | _ \<Rightarrow> None)"

definition extract_node_set_from_value :: "dyn_value \<Rightarrow> ustr option" where
  "extract_node_set_from_value v = Option.bind (downcast_to_datapoint v) dp_source_node_set"

definition extract_content_hash_from_value :: "dyn_value \<Rightarrow> ustr option" where
  "extract_content_hash_from_value v =
     (case v of
        VData d \<Rightarrow> (if da_content_hash d \<noteq> [] then Some (da_content_hash d) else None)
      | _ \<Rightarrow> Option.bind (downcast_to_datapoint v) dp_source_content_hash)"

section \<open>What stamping changes\<close>

fun tree_points :: "dp_tree \<Rightarrow> data_point list" where
  "tree_points (DP dp children) = dp # concat (map tree_points children)"

text \<open>A data point without its stamps.\<close>

definition unstamped :: "data_point \<Rightarrow> data_point" where
  "unstamped dp =
     dp\<lparr>dp_source_pipeline := None, dp_source_task := None, dp_source_user := None,
        dp_topological_rank := None, dp_source_node_set := None, dp_source_content_hash := None\<rparr>"

fun bare :: "dp_tree \<Rightarrow> dp_tree" where
  "bare (DP dp children) = DP (unstamped dp) (map bare children)"

definition bare_value :: "dyn_value \<Rightarrow> dyn_value" where
  "bare_value v = (case v of VOne c t \<Rightarrow> VOne c (bare t) | VMany c ts \<Rightarrow> VMany c (map bare ts) | _ \<Rightarrow> v)"

definition is_container :: "dyn_value \<Rightarrow> bool" where
  "is_container v = (case v of VOne _ _ \<Rightarrow> True | VMany _ _ \<Rightarrow> True | _ \<Rightarrow> False)"

lemma stamp_point_simps [simp]:
  "dp_id (stamp_point ctx dp) = dp_id dp"
  "unstamped (stamp_point ctx dp) = unstamped dp"
  by (simp_all add: stamp_point_def unstamped_def)

lemma stamp_tree_bare:
  "bare (fst (stamp_tree ctx t visited)) = bare t"
  "map bare (fst (stamp_trees ctx ts visited)) = map bare ts"
proof (induction ctx t visited and ctx ts visited rule: stamp_tree_stamp_trees.induct)
  case (1 ctx dp children visited)
  then show ?case by (auto split: prod.splits)
next
  case (3 ctx t ts visited)
  then show ?case by (auto split: prod.splits)
qed simp

lemma stamping_keeps_fields: "bare_value (fst (stamp_tree_dyn ctx v visited)) = bare_value v"
proof (cases v)
  case (VOne c t)
  then show ?thesis
    using stamp_tree_bare(1) [of ctx t visited]
    by (cases "stamp_tree ctx t visited") (simp add: stamp_tree_dyn_def bare_value_def)
next
  case (VMany c ts)
  then show ?thesis
    using stamp_tree_bare(2) [of ctx ts visited]
    by (cases "stamp_trees ctx ts visited") (simp add: stamp_tree_dyn_def bare_value_def)
qed (simp_all add: stamp_tree_dyn_def bare_value_def)

text \<open>C31: Stamping keeps the type of a value: it is still the same container, or vector of
  containers, with the same tree of data points, the same ids and the same fields, apart from
  the six fields of provenance; a value of any other type is not touched at all.\<close>

theorem stamping_keeps_values:
  "bare_value (fst (stamp_tree_dyn ctx v visited)) = bare_value v
   \<and> snd (snd (stamp_tree_dyn ctx v visited)) = is_container v
   \<and> (if is_container v then True else stamp_tree_dyn ctx v visited = (v, visited, False))"
  by (intro conjI stamping_keeps_fields)
    (cases v; simp add: stamp_tree_dyn_def is_container_def split: prod.splits)+

text \<open>A stamp never replaces a value that is there.\<close>

definition keeps :: "data_point \<Rightarrow> data_point \<Rightarrow> bool" where
  "keeps dp dp' \<longleftrightarrow>
     (\<forall>f\<in>{dp_source_pipeline, dp_source_task, dp_source_user, dp_source_node_set, dp_source_content_hash}.
        f dp \<noteq> None \<longrightarrow> f dp' = f dp)
     \<and> (dp_topological_rank dp \<noteq> None \<and> dp_topological_rank dp \<noteq> Some 0 \<longrightarrow>
          dp_topological_rank dp' = dp_topological_rank dp)"

lemma keeps_refl: "keeps dp dp"
  by (simp add: keeps_def)

lemma keeps_stamp_point: "keeps dp (stamp_point ctx dp)"
  by (auto simp: keeps_def stamp_point_def or_else_def stamp_rank_def split: option.splits)

lemma tree_points_keep:
  "list_all2 keeps (tree_points t) (tree_points (fst (stamp_tree ctx t visited)))"
  "list_all2 keeps (concat (map tree_points ts)) (concat (map tree_points (fst (stamp_trees ctx ts visited))))"
proof (induction ctx t visited and ctx ts visited rule: stamp_tree_stamp_trees.induct)
  case (1 ctx dp children visited)
  then show ?case
    by (auto simp: keeps_stamp_point list.rel_refl keeps_refl split: prod.splits)
next
  case (3 ctx t ts visited)
  then show ?case by (auto intro!: list_all2_appendI split: prod.splits)
qed simp

section \<open>Stamping without the visited set\<close>

text \<open>What stamping means when no id repeats: each point gets what it lacks from the context,
  and node set and content hash from the nearest ancestor that has them.\<close>

fun stamped :: "prov_context \<Rightarrow> dp_tree \<Rightarrow> dp_tree" where
  "stamped ctx (DP dp children) = DP (stamp_point ctx dp) (map (stamped (child_context ctx dp)) children)"

definition tree_ids :: "dp_tree \<Rightarrow> uuid list" where
  "tree_ids t = map dp_id (tree_points t)"

lemma tree_ids_DP: "tree_ids (DP dp children) = dp_id dp # concat (map tree_ids children)"
  by (simp add: tree_ids_def [abs_def] map_concat comp_def)

lemma stamp_tree_visited:
  "distinct (tree_ids t) \<Longrightarrow> set (tree_ids t) \<inter> visited = {} \<Longrightarrow>
     stamp_tree ctx t visited = (stamped ctx t, visited \<union> set (tree_ids t))"
  "distinct (concat (map tree_ids ts)) \<Longrightarrow> set (concat (map tree_ids ts)) \<inter> visited = {} \<Longrightarrow>
     stamp_trees ctx ts visited = (map (stamped ctx) ts, visited \<union> set (concat (map tree_ids ts)))"
proof (induction ctx t visited and ctx ts visited rule: stamp_tree_stamp_trees.induct)
  case (1 ctx dp children visited)
  then show ?case by (auto simp: tree_ids_DP)
next
  case (3 ctx t ts visited)
  from 3(3,4) have "stamp_tree ctx t visited = (stamped ctx t, visited \<union> set (tree_ids t))"
    by (intro 3(1)) auto
  moreover from this 3(3,4)
  have "stamp_trees ctx ts (visited \<union> set (tree_ids t))
      = (map (stamped ctx) ts, visited \<union> set (tree_ids t) \<union> set (concat (map tree_ids ts)))"
    by (intro 3(2)) auto
  ultimately show ?case by auto
qed simp

text \<open>A context that has everything to give, and a point that lacks nothing.\<close>

definition full_context :: "prov_context \<Rightarrow> bool" where
  "full_context ctx \<longleftrightarrow> pv_user_label ctx \<noteq> None \<and> pv_node_set ctx \<noteq> None
     \<and> pv_content_hash ctx \<noteq> None \<and> (\<exists>r > 0. pv_task_rank ctx = Some r)"

definition full_point :: "data_point \<Rightarrow> bool" where
  "full_point dp \<longleftrightarrow> dp_source_pipeline dp \<noteq> None \<and> dp_source_task dp \<noteq> None
     \<and> dp_source_user dp \<noteq> None \<and> dp_source_node_set dp \<noteq> None \<and> dp_source_content_hash dp \<noteq> None
     \<and> dp_topological_rank dp \<noteq> None \<and> dp_topological_rank dp \<noteq> Some 0"

lemma full_point_stamped: "full_context ctx \<Longrightarrow> full_point (stamp_point ctx dp)"
  by (auto simp: full_context_def full_point_def stamp_point_def or_else_def stamp_rank_def
      split: option.splits)

lemma full_point_final: "full_point dp \<Longrightarrow> stamp_point ctx dp = dp"
  by (cases dp) (auto simp: full_point_def stamp_point_def or_else_def stamp_rank_def split: option.splits)

lemma full_context_child: "full_context ctx \<Longrightarrow> full_context (child_context ctx dp)"
  by (auto simp: full_context_def child_context_def or_else_def split: option.splits)

lemma stamped_full: "full_context ctx \<Longrightarrow> list_all full_point (tree_points (stamped ctx t))"
  by (induction ctx t rule: stamped.induct)
    (auto simp: full_point_stamped full_context_child list_all_iff)

lemma stamped_final: "list_all full_point (tree_points t) \<Longrightarrow> stamped ctx t = t"
  by (induction ctx t rule: stamped.induct)
    (auto simp: full_point_final list_all_iff intro!: map_idI)


lemma full_trees_final:
  "list_all full_point (tree_points t) \<Longrightarrow> fst (stamp_tree ctx t visited) = t"
  "list_all full_point (concat (map tree_points ts)) \<Longrightarrow> fst (stamp_trees ctx ts visited) = ts"
proof (induction ctx t visited and ctx ts visited rule: stamp_tree_stamp_trees.induct)
  case (1 ctx dp children visited)
  then show ?case by (auto simp: full_point_final split: prod.splits)
next
  case (3 ctx t ts visited)
  then show ?case by (auto split: prod.splits)
qed simp

text \<open>C32: The stamping of a tree whose ids do not repeat and have not been visited is the
  inheritance of provenance along the tree, whatever the visited set holds besides; and the
  first complete stamp is the last: a later task that stamps the same value, with any context
  and any visited set, changes nothing.\<close>

theorem first_stamp_is_final:
  assumes "distinct (tree_ids t)" "set (tree_ids t) \<inter> visited = {}"
  shows "stamp_tree ctx t visited = (stamped ctx t, visited \<union> set (tree_ids t))
    \<and> (full_context ctx \<longrightarrow>
         fst (stamp_tree later (fst (stamp_tree ctx t visited)) visited') = fst (stamp_tree ctx t visited))"
  using stamp_tree_visited(1) [OF assms] full_trees_final(1) [OF stamped_full] by simp

definition sample_point :: "uuid \<Rightarrow> data_point" where
  "sample_point i =
     \<lparr>dp_id = i, dp_created_at = 0, dp_updated_at = 0, dp_ontology_valid = False, dp_version = 1,
      dp_topological_rank = Some 0, dp_metadata = Map.empty, dp_data_type = [],
      dp_belongs_to_set = None, dp_source_pipeline = None, dp_source_task = None,
      dp_source_node_set = (if i = 2 then Some (ascii ''mine'') else None),
      dp_source_user = None, dp_source_content_hash = None,
      dp_feedback_weight = 1, dp_importance_weight = None\<rparr>"

definition sample_prov_context :: "ustr \<Rightarrow> prov_context" where
  "sample_prov_context task =
     \<lparr>pv_pipeline_name = ascii ''p'', pv_task_name = task, pv_user_label = Some (ascii ''u''),
      pv_node_set = Some (ascii ''n''), pv_content_hash = Some (ascii ''h''), pv_task_rank = Some 1\<rparr>"

theorem first_stamp_is_final_witness:
  "let t = DP (sample_point 1) [DP (sample_point 2) [DP (sample_point 3) []]];
       once = fst (stamp_tree (sample_prov_context (ascii ''a'')) t {})
   in fst (stamp_tree (sample_prov_context (ascii ''b'')) once {}) = once
      \<and> map dp_source_node_set (tree_points once) = map (Some \<circ> ascii) [''n'', ''mine'', ''mine'']"
proof -
  let ?t = "DP (sample_point 1) [DP (sample_point 2) [DP (sample_point 3) []]]"
  have "distinct (tree_ids ?t)" "set (tree_ids ?t) \<inter> {} = {}"
    by (simp_all add: tree_ids_def sample_point_def)
  note stamp = first_stamp_is_final [OF this, where ctx = "sample_prov_context (ascii ''a'')"
      and later = "sample_prov_context (ascii ''b'')" and visited' = "{}"]
  have full: "full_context (sample_prov_context (ascii ''a''))"
    by (simp add: full_context_def sample_prov_context_def)
  have "fst (stamp_tree (sample_prov_context (ascii ''a'')) ?t {}) = stamped (sample_prov_context (ascii ''a'')) ?t"
    by (simp only: stamp [THEN conjunct1] fst_conv)
  moreover note stamp [THEN conjunct2, rule_format, OF full]
  moreover have "map dp_source_node_set (tree_points (stamped (sample_prov_context (ascii ''a'')) ?t))
      = map (Some \<circ> ascii) [''n'', ''mine'', ''mine'']"
    by (simp add: sample_prov_context_def sample_point_def stamp_point_def child_context_def or_else_def)
  ultimately show ?thesis unfolding Let_def by (simp only: simp_thms)
qed

section \<open>Stamping in the executor\<close>

definition context_of_inputs :: "prov_inputs \<Rightarrow> prov_context" where
  "context_of_inputs inputs =
     \<lparr>pv_pipeline_name = pi_pipeline_name inputs, pv_task_name = pi_task_name inputs,
      pv_user_label = pi_user_label inputs, pv_node_set = pi_node_set inputs,
      pv_content_hash = pi_content_hash inputs, pv_task_rank = Some (int (pi_task_rank inputs))\<rparr>"

text \<open>\<open>extract_node_set\<close> of \<open>task.rs\<close>, which looks at \<open>TaggedMeta\<close> only.\<close>

definition extract_node_set :: "dyn_value \<Rightarrow> ustr option" where
  "extract_node_set v = (case v of VTagged _ ns \<Rightarrow> ns | _ \<Rightarrow> None)"

definition on_plain :: "(dyn_value \<Rightarrow> 'a option) \<Rightarrow> dyn_value pval \<Rightarrow> 'a option" where
  "on_plain f v = (case v of Plain x \<Rightarrow> f x | _ \<Rightarrow> None)"

text \<open>The world of the executor is a visited set and whatever else the tasks see; \<open>shared\<close> says
  whether an \<open>Arc\<close> has other owners, in which case \<open>Arc::get_mut\<close> fails.\<close>

definition stamp_boxed :: "prov_inputs \<Rightarrow> dyn_value pval \<Rightarrow> uuid set \<times> 'w \<Rightarrow> (uuid set \<times> 'w) \<times> dyn_value pval" where
  "stamp_boxed inputs v w =
     (case v of
        Plain x \<Rightarrow> (case stamp_tree_dyn (context_of_inputs inputs) x (fst w) of
                      (x', vis, _) \<Rightarrow> ((vis, snd w), Plain x'))
      | _ \<Rightarrow> (w, v))"

definition code_hooks ::
    "(dyn_value pval \<Rightarrow> uuid set \<times> 'w \<Rightarrow> bool) \<Rightarrow> (dyn_value, uuid set \<times> 'w) prov_hooks" where
  "code_hooks shared =
     \<lparr>ph_node_set = on_plain extract_node_set_from_value,
      ph_content_hash = on_plain extract_content_hash_from_value,
      ph_meta_node_set = on_plain extract_node_set,
      ph_stamp_boxed = stamp_boxed,
      ph_stamp_shared = (\<lambda>inputs v w. if shared v w then (w, v) else stamp_boxed inputs v w),
      ph_clear_visited = (\<lambda>w. ({}, snd w))\<rparr>"

definition bare_pval :: "dyn_value pval \<Rightarrow> dyn_value pval" where
  "bare_pval v = (case v of Plain x \<Rightarrow> Plain (bare_value x) | _ \<Rightarrow> v)"

text \<open>In a run with the code's own stamping, what the executor passes on differs from what the
  task produced in its provenance only, and the rest of the world is not touched.\<close>

lemma stamp_boxed_bare:
  "bare_pval (snd (stamp_boxed inputs v w)) = bare_pval v" "snd (fst (stamp_boxed inputs v w)) = snd w"
  using stamping_keeps_fields [of "context_of_inputs inputs" _ "fst w"]
  by (auto simp: stamp_boxed_def bare_pval_def split: pval.splits prod.splits) (metis fst_conv)

lemma executor_stamps_keep_values:
  assumes "ee_prov env = code_hooks shared"
  shows "bare_pval (snd (stamp_boxed_item env prov v st)) = bare_pval v"
    "bare_pval (snd (stamp_single_output env prov v st)) = bare_pval v"
  using stamp_boxed_bare(1) [of prov v "xs_world st"]
  by (cases "tc_pipeline (ee_ctx env)"; cases "stamp_boxed prov v (xs_world st)";
      simp add: stamp_boxed_item_def stamp_single_output_def stamp_with_def assms code_hooks_def)+

end
