(* ===== verification/Timestamps.thy ===== *)
theory Timestamps
  imports Data_Points
begin

text \<open>
  Time strings and the points and periods they name (\<open>crates/models/src/timestamp.rs\<close>): the
  parser of normalized forms, prose dates and spans, and the \<open>Timestamp\<close> data point built from
  one. The calendar of \<open>chrono\<close> is written out for the years it is used on (1 to 10000). The
  lengths the code compares are those of ASCII strings, so bytes and characters agree.
\<close>

section \<open>Calendar\<close>

record date_time =
  dt_year :: nat
  dt_month :: nat
  dt_day :: nat
  dt_hour :: nat
  dt_minute :: nat
  dt_second :: nat

definition leap_year :: "nat \<Rightarrow> bool" where
  "leap_year y \<longleftrightarrow> y mod 4 = 0 \<and> (y mod 100 \<noteq> 0 \<or> y mod 400 = 0)"

definition days_in_month :: "nat \<Rightarrow> nat \<Rightarrow> nat" where
  "days_in_month y m =
     (if m = 2 then if leap_year y then 29 else 28 else if m \<in> {4, 6, 9, 11} then 30 else 31)"

definition valid_date :: "nat \<Rightarrow> nat \<Rightarrow> nat \<Rightarrow> bool" where
  "valid_date y m d \<longleftrightarrow> 1 \<le> m \<and> m \<le> 12 \<and> 1 \<le> d \<and> d \<le> days_in_month y m"

text \<open>\<open>NaiveDate::from_ymd_opt\<close> and \<open>and_hms_opt\<close>.\<close>

definition from_ymd_hms :: "nat \<Rightarrow> nat \<Rightarrow> nat \<Rightarrow> nat \<Rightarrow> nat \<Rightarrow> nat \<Rightarrow> date_time option" where
  "from_ymd_hms y m d h mi s =
     (if valid_date y m d \<and> h < 24 \<and> mi < 60 \<and> s < 60
      then Some \<lparr>dt_year = y, dt_month = m, dt_day = d, dt_hour = h, dt_minute = mi, dt_second = s\<rparr>
      else None)"

definition with_year :: "nat \<Rightarrow> date_time \<Rightarrow> date_time option" where
  "with_year y t = (if valid_date y (dt_month t) (dt_day t) then Some (t\<lparr>dt_year := y\<rparr>) else None)"

definition with_month :: "nat \<Rightarrow> date_time \<Rightarrow> date_time option" where
  "with_month m t = (if valid_date (dt_year t) m (dt_day t) then Some (t\<lparr>dt_month := m\<rparr>) else None)"

definition next_day :: "date_time \<Rightarrow> date_time" where
  "next_day t =
     (if dt_day t < days_in_month (dt_year t) (dt_month t) then t\<lparr>dt_day := dt_day t + 1\<rparr>
      else if dt_month t < 12 then t\<lparr>dt_month := dt_month t + 1, dt_day := 1\<rparr>
      else t\<lparr>dt_year := dt_year t + 1, dt_month := 1, dt_day := 1\<rparr>)"

definition next_second :: "date_time \<Rightarrow> date_time" where
  "next_second t =
     (if dt_second t < 59 then t\<lparr>dt_second := dt_second t + 1\<rparr>
      else if dt_minute t < 59 then t\<lparr>dt_minute := dt_minute t + 1, dt_second := 0\<rparr>
      else if dt_hour t < 23 then t\<lparr>dt_hour := dt_hour t + 1, dt_minute := 0, dt_second := 0\<rparr>
      else next_day (t\<lparr>dt_hour := 0, dt_minute := 0, dt_second := 0\<rparr>))"

text \<open>Days since 1 January of the year 1, and milliseconds since the epoch.\<close>

definition day_number :: "nat \<Rightarrow> nat \<Rightarrow> nat \<Rightarrow> int" where
  "day_number y m d =
     (let k = int y - 1 in
      365 * k + k div 4 - k div 100 + k div 400
        + int (sum_list (map (days_in_month y) [1..<m])) + int d - 1)"

definition timestamp_millis :: "date_time \<Rightarrow> int" where
  "timestamp_millis t =
     ((day_number (dt_year t) (dt_month t) (dt_day t) - 719162) * 86400
      + int (dt_hour t * 3600 + dt_minute t * 60 + dt_second t)) * 1000"

section \<open>Normalized forms\<close>

datatype precision = Year | Month | Day | Second | Span

definition precision_str :: "precision \<Rightarrow> string" where
  "precision_str p =
     (case p of Year \<Rightarrow> ''year'' | Month \<Rightarrow> ''month'' | Day \<Rightarrow> ''day'' | Second \<Rightarrow> ''second'' | Span \<Rightarrow> ''span'')"

record normalized =
  no_year :: nat
  no_month :: nat
  no_day :: nat
  no_hour :: nat
  no_minute :: nat
  no_second :: nat
  no_precision :: precision

definition is_digit :: "uchar \<Rightarrow> bool" where
  "is_digit c \<longleftrightarrow> 0x30 \<le> c \<and> c \<le> 0x39"

definition number :: "ustr \<Rightarrow> nat" where
  "number s = foldl (\<lambda>n c. 10 * n + (c - 0x30)) 0 s"

definition all_digits :: "ustr \<Rightarrow> nat \<Rightarrow> nat option" where
  "all_digits s n = (if length s = n \<and> list_all is_digit s then Some (number s) else None)"

text \<open>\<open>Iterator::next\<close> on the parts of a split, and an optional part: absent, valid or wrong.\<close>

definition part :: "'a list \<Rightarrow> nat \<Rightarrow> 'a option" where
  "part xs i = (if i < length xs then Some (xs ! i) else None)"

definition optional :: "'a option \<Rightarrow> ('a \<Rightarrow> 'b option) \<Rightarrow> 'b option option" where
  "optional x parse = (case x of None \<Rightarrow> Some None | Some v \<Rightarrow> map_option Some (parse v))"

definition required :: "'a option \<Rightarrow> ('a \<Rightarrow> 'b option) \<Rightarrow> 'b option" where
  "required x parse = Option.bind x parse"

definition split_once :: "uchar \<Rightarrow> ustr \<Rightarrow> (ustr \<times> ustr) option" where
  "split_once c s =
     (if c \<in> set s then Some (takeWhile (\<lambda>x. x \<noteq> c) s, tl (dropWhile (\<lambda>x. x \<noteq> c) s)) else None)"

definition match_time :: "ustr option \<Rightarrow> nat option \<Rightarrow> (nat \<times> nat \<times> nat) option" where
  "match_time time day =
     (case time of
        None \<Rightarrow> Some (0, 0, 0)
      | Some t \<Rightarrow>
          (if day = None then None
           else let fields = split_str [0x3A] t in
             Option.bind (required (part fields 0) (\<lambda>f. all_digits f 2)) (\<lambda>h.
             Option.bind (required (part fields 1) (\<lambda>f. all_digits f 2)) (\<lambda>mi.
             Option.bind (required (part fields 2) (\<lambda>f. all_digits f 2)) (\<lambda>s.
               if part fields 3 \<noteq> None then None else Some (h, mi, s))))))"

definition stated_precision :: "nat option \<Rightarrow> nat option \<Rightarrow> ustr option \<Rightarrow> precision" where
  "stated_precision month day time =
     (if time \<noteq> None then Second else if month \<noteq> None \<and> day \<noteq> None then Day
      else if month \<noteq> None then Month else Year)"

definition or_default :: "'a option \<Rightarrow> 'a \<Rightarrow> 'a" where
  "or_default x d = (case x of Some v \<Rightarrow> v | None \<Rightarrow> d)"

definition match_normalized :: "ustr \<Rightarrow> normalized option" where
  "match_normalized text =
     (let (date, time) = (case split_once 0x20 text of Some (d, t) \<Rightarrow> (d, Some t) | None \<Rightarrow> (text, None));
          parts = split_str [0x2D] date
      in Option.bind (required (part parts 0) (\<lambda>p. all_digits p 4)) (\<lambda>year.
         Option.bind (optional (part parts 1) (\<lambda>p. all_digits p 2)) (\<lambda>month.
         Option.bind (optional (part parts 2) (\<lambda>p. all_digits p 2)) (\<lambda>day.
         if part parts 3 \<noteq> None then None
         else Option.bind (match_time time day) (\<lambda>(h, mi, s).
           Some \<lparr>no_year = year, no_month = or_default month 1, no_day = or_default day 1,
                 no_hour = h, no_minute = mi, no_second = s,
                 no_precision = stated_precision month day time\<rparr>)))))"

section \<open>Absolute dates in prose\<close>

definition to_ascii_lowercase :: "ustr \<Rightarrow> ustr" where
  "to_ascii_lowercase s = map (\<lambda>c. if 0x41 \<le> c \<and> c \<le> 0x5A then c + 0x20 else c) s"

definition months :: "(ustr \<times> nat) list" where
  "months = zip (map ascii [''january'', ''february'', ''march'', ''april'', ''may'', ''june'', ''july'',
     ''august'', ''september'', ''october'', ''november'', ''december'']) [1..<13]"

definition starts_with :: "ustr \<Rightarrow> ustr \<Rightarrow> bool" where
  "starts_with s pre \<longleftrightarrow> take (length pre) s = pre"

definition month_from_word :: "ustr \<Rightarrow> nat option" where
  "month_from_word w =
     (let word = rev (dropWhile (\<lambda>c. c = 0x2E) (rev (to_ascii_lowercase w))) in
      if word = ascii ''sept'' then Some 9
      else map_option snd
        (List.find (\<lambda>(name, _). name = word \<or> length word = 3 \<and> starts_with name word) months))"

definition is_filler :: "ustr \<Rightarrow> bool" where
  "is_filler w \<longleftrightarrow> to_ascii_lowercase w \<in> ascii ` set
     [''on'', ''of'', ''the'', ''at'', ''in'', ''utc'', ''gmt'', ''z'', ''monday'', ''tuesday'', ''wednesday'',
      ''thursday'', ''friday'', ''saturday'', ''sunday'', ''mon'', ''tue'', ''wed'', ''thu'', ''fri'', ''sat'', ''sun'']"

definition strip_suffix :: "ustr \<Rightarrow> ustr \<Rightarrow> ustr option" where
  "strip_suffix s suf =
     (if length suf \<le> length s \<and> drop (length s - length suf) s = suf
      then Some (take (length s - length suf) s) else None)"

definition day_from_word :: "ustr \<Rightarrow> nat option" where
  "day_from_word w =
     (let lower = to_ascii_lowercase w;
          digits = (case List.map_filter (strip_suffix lower) (map ascii [''st'', ''nd'', ''rd'', ''th'']) of
                      d # _ \<Rightarrow> d | [] \<Rightarrow> lower)
      in if digits = [] \<or> length digits > 2 \<or> \<not> list_all is_digit digits then None
         else if 1 \<le> number digits \<and> number digits \<le> 31 then Some (number digits) else None)"

definition time_from_word :: "ustr \<Rightarrow> (nat \<times> nat \<times> nat) option" where
  "time_from_word w =
     (let fields = split_str [0x3A] w; hour = hd fields in
      if hour = [] \<or> length hour > 2 \<or> \<not> list_all is_digit hour then None
      else Option.bind (required (part fields 1) (\<lambda>f. all_digits f 2)) (\<lambda>minute.
           Option.bind (optional (part fields 2) (\<lambda>f. all_digits f 2)) (\<lambda>sec.
           let second = or_default sec 0 in
           if part fields 3 \<noteq> None \<or> number hour > 23 \<or> minute > 59 \<or> second > 59 then None
           else Some (number hour, minute, second))))"

definition small :: "ustr \<Rightarrow> nat option" where
  "small s = (if s \<noteq> [] \<and> length s \<le> 2 \<and> list_all is_digit s then Some (number s) else None)"

definition numeric_date :: "ustr \<Rightarrow> (nat \<times> nat \<times> nat option) option" where
  "numeric_date w =
     (if 0x2D \<in> set w then
        (let parts = split_str [0x2D] w in
         Option.bind (required (part parts 0) (\<lambda>p. all_digits p 4)) (\<lambda>year.
         Option.bind (required (part parts 1) small) (\<lambda>month.
         Option.bind (optional (part parts 2) small) (\<lambda>day.
         if part parts 3 \<noteq> None then None else Some (year, month, day)))))
      else
        (let parts = split_str [0x2F] w in
         Option.bind (required (part parts 0) small) (\<lambda>first.
         Option.bind (required (part parts 1) small) (\<lambda>second.
         Option.bind (required (part parts 2) (\<lambda>p. all_digits p 4)) (\<lambda>year.
         if part parts 3 \<noteq> None then None
         else let (month, day) = (if first > 12 then (second, first) else (first, second))
              in Some (year, month, Some day))))))"

text \<open>What the words have said so far; \<open>set\<close> refuses to say a part twice.\<close>

record date_parts =
  ap_year :: "nat option"
  ap_month :: "nat option"
  ap_day :: "nat option"
  ap_time :: "(nat \<times> nat \<times> nat) option"

definition set_slot :: "'a option \<Rightarrow> 'a \<Rightarrow> 'a option option" where
  "set_slot slot v = (if slot = None then Some (Some v) else None)"

definition set_year :: "nat \<Rightarrow> date_parts \<Rightarrow> date_parts option" where
  "set_year y p = map_option (\<lambda>v. p\<lparr>ap_year := v\<rparr>) (set_slot (ap_year p) y)"

definition set_month :: "nat \<Rightarrow> date_parts \<Rightarrow> date_parts option" where
  "set_month m p = map_option (\<lambda>v. p\<lparr>ap_month := v\<rparr>) (set_slot (ap_month p) m)"

definition set_day :: "nat \<Rightarrow> date_parts \<Rightarrow> date_parts option" where
  "set_day d p = map_option (\<lambda>v. p\<lparr>ap_day := v\<rparr>) (set_slot (ap_day p) d)"

definition set_time :: "nat \<times> nat \<times> nat \<Rightarrow> date_parts \<Rightarrow> date_parts option" where
  "set_time t p = map_option (\<lambda>v. p\<lparr>ap_time := v\<rparr>) (set_slot (ap_time p) t)"

definition set_date :: "nat \<times> nat \<times> nat option \<Rightarrow> date_parts \<Rightarrow> date_parts option" where
  "set_date ymd p =
     (case ymd of (y, m, d) \<Rightarrow>
        Option.bind (set_year y p) (\<lambda>p. Option.bind (set_month m p) (\<lambda>p.
          case d of None \<Rightarrow> Some p | Some d \<Rightarrow> set_day d p)))"

text \<open>The hour after \<open>am\<close> or \<open>pm\<close>, and whether the word that says so is consumed.\<close>

definition meridian :: "nat \<Rightarrow> ustr list \<Rightarrow> nat \<times> bool" where
  "meridian h ws =
     (case ws of
        [] \<Rightarrow> (h, False)
      | w # _ \<Rightarrow>
          if to_ascii_lowercase w \<in> {ascii ''am'', ascii ''a.m.''} then (if h = 12 then 0 else h, True)
          else if to_ascii_lowercase w \<in> {ascii ''pm'', ascii ''p.m.''} then (if h = 12 then 12 else h + 12, True)
          else (h, False))"

function date_words :: "ustr list \<Rightarrow> date_parts \<Rightarrow> date_parts option" where
  "date_words [] p = Some p"
| "date_words (w # ws) p =
     (case all_digits w 4 of
        Some y \<Rightarrow> Option.bind (set_year y p) (date_words ws)
      | None \<Rightarrow>
     (case month_from_word w of
        Some m \<Rightarrow> Option.bind (set_month m p) (date_words ws)
      | None \<Rightarrow>
     (case day_from_word w of
        Some d \<Rightarrow> Option.bind (set_day d p) (date_words ws)
      | None \<Rightarrow>
     (case time_from_word w of
        Some (h, mi, s) \<Rightarrow>
          (case meridian h ws of (hour, consumed) \<Rightarrow>
             if hour > 23 then None
             else Option.bind (set_time (hour, mi, s) p) (date_words (if consumed then tl ws else ws)))
      | None \<Rightarrow>
     (case numeric_date w of
        Some ymd \<Rightarrow> Option.bind (set_date ymd p) (date_words ws)
      | None \<Rightarrow> if is_filler w then date_words ws p else None)))))"
  by pat_completeness auto
termination
  by (relation "measure (\<lambda>(ws, p). length ws)") (auto simp: less_Suc_eq_le)

declare date_words.simps(2) [simp del]

text \<open>\<open>split\<close> on a predicate, and the words it leaves.\<close>

fun split_where :: "(uchar \<Rightarrow> bool) \<Rightarrow> ustr \<Rightarrow> ustr \<Rightarrow> ustr list" where
  "split_where P cur [] = [cur]"
| "split_where P cur (c # s) = (if P c then cur # split_where P [] s else split_where P (cur @ [c]) s)"

definition is_separator :: "uchar \<Rightarrow> bool" where
  "is_separator c \<longleftrightarrow> is_whitespace c \<or> c \<in> {0x2C, 0x28, 0x29}"

definition date_text_words :: "ustr \<Rightarrow> ustr list" where
  "date_text_words text = filter (\<lambda>w. w \<noteq> []) (split_where is_separator [] text)"

text \<open>\<open>{:02}\<close> and \<open>{:04}\<close>.\<close>

definition padded :: "nat \<Rightarrow> nat \<Rightarrow> ustr" where
  "padded width n = replicate (width - length (show_nat n)) 0x30 @ show_nat n"

definition format_date :: "nat \<Rightarrow> date_parts \<Rightarrow> ustr option" where
  "format_date year p =
     (case (ap_month p, ap_day p, ap_time p) of
        (Some m, Some d, Some (h, mi, s)) \<Rightarrow>
          Some (padded 4 year @ [0x2D] @ padded 2 m @ [0x2D] @ padded 2 d @ [0x20] @
                padded 2 h @ [0x3A] @ padded 2 mi @ [0x3A] @ padded 2 s)
      | (Some m, Some d, None) \<Rightarrow> Some (padded 4 year @ [0x2D] @ padded 2 m @ [0x2D] @ padded 2 d)
      | (Some m, None, None) \<Rightarrow> Some (padded 4 year @ [0x2D] @ padded 2 m)
      | (None, None, None) \<Rightarrow> Some (padded 4 year)
      | _ \<Rightarrow> None)"

definition normalize_absolute_date :: "ustr \<Rightarrow> ustr option" where
  "normalize_absolute_date text =
     Option.bind (date_words (date_text_words text)
         \<lparr>ap_year = None, ap_month = None, ap_day = None, ap_time = None\<rparr>) (\<lambda>p.
     Option.bind (ap_year p) (\<lambda>year.
     Option.bind (format_date year p) (\<lambda>formatted.
       if valid_date year (or_default (ap_month p) 1) (or_default (ap_day p) 1)
       then Some formatted else None)))"

section \<open>Periods\<close>

record time_period =
  tp_normalized :: ustr
  tp_precision :: precision
  tp_lower :: date_time
  tp_until :: int

definition period_end :: "date_time \<Rightarrow> precision \<Rightarrow> date_time option" where
  "period_end lower p =
     Option.bind
       (case p of
          Year \<Rightarrow> with_year (dt_year lower + 1) lower
        | Month \<Rightarrow>
            (if dt_month lower = 12
             then Option.bind (with_year (dt_year lower + 1) lower) (with_month 1)
             else with_month (dt_month lower + 1) lower)
        | Day \<Rightarrow> Some (next_day lower)
        | Second \<Rightarrow> Some (next_second lower)
        | Span \<Rightarrow> Some (next_second lower))
       (\<lambda>end. if dt_year end \<le> 9999 then Some end else None)"

definition point_source :: "ustr \<Rightarrow> (ustr \<times> normalized) option" where
  "point_source text =
     (let trimmed = trim text in
      case match_normalized trimmed of
        Some n \<Rightarrow> Some (trimmed, n)
      | None \<Rightarrow>
          Option.bind (normalize_absolute_date text) (\<lambda>s.
            map_option (Pair s) (match_normalized s)))"

definition point_period :: "ustr \<Rightarrow> time_period option" where
  "point_period text =
     Option.bind (point_source text) (\<lambda>(s, n).
       if no_year n < 1 then None
       else Option.bind (from_ymd_hms (no_year n) (no_month n) (no_day n)
                (no_hour n) (no_minute n) (no_second n)) (\<lambda>lower.
            Option.bind (period_end lower (no_precision n)) (\<lambda>upper.
              Some \<lparr>tp_normalized = s, tp_precision = no_precision n, tp_lower = lower,
                    tp_until = timestamp_millis upper\<rparr>)))"

definition span_words :: "ustr list" where
  "span_words = map ascii [''to'', ''and'', ''until'', ''till'', ''through'']"

text \<open>What follows a connecting word, in a text that starts with the white space before it.\<close>

definition after_span_word :: "ustr \<Rightarrow> ustr option" where
  "after_span_word text =
     (let rest = dropWhile is_whitespace (to_ascii_lowercase text);
          word_start = length text - length rest;
          delimited = (\<lambda>w. starts_with rest w \<and>
            (case drop (length w) rest of c # _ \<Rightarrow> is_whitespace c | [] \<Rightarrow> False))
      in map_option (\<lambda>w. drop (word_start + length w) text) (List.find delimited span_words))"

definition year_dash :: "ustr \<Rightarrow> ustr \<Rightarrow> bool" where
  "year_dash pre post \<longleftrightarrow>
     4 \<le> length pre \<and> list_all is_digit (drop (length pre - 4) pre)
     \<and> 4 \<le> length post \<and> list_all is_digit (take 4 post)"

fun split_scan :: "ustr \<Rightarrow> ustr \<Rightarrow> (ustr \<times> ustr) option" where
  "split_scan pre [] = None"
| "split_scan pre (c # rest) =
     (if c \<in> {0x2F, 0x2013, 0x2014} then Some (pre, rest)
      else if c = 0x2D then
        if year_dash pre rest then Some (pre, rest) else split_scan (pre @ [c]) rest
      else if is_whitespace c then
        (case after_span_word (c # rest) of
           Some after \<Rightarrow> Some (pre, after)
         | None \<Rightarrow> split_scan (pre @ [c]) rest)
      else split_scan (pre @ [c]) rest)"

definition strip_span_prefix :: "ustr \<Rightarrow> ustr" where
  "strip_span_prefix text =
     (case List.find (starts_with (to_ascii_lowercase text)) [ascii ''from '', ascii ''between ''] of
        Some p \<Rightarrow> dropWhile is_whitespace (drop (length p) text)
      | None \<Rightarrow> text)"

definition split_span :: "ustr \<Rightarrow> (ustr \<times> ustr) option" where
  "split_span text = split_scan [] (strip_span_prefix (trim text))"

definition span_period :: "ustr \<Rightarrow> time_period option" where
  "span_period text =
     Option.bind (split_span text) (\<lambda>(a, b).
     Option.bind (point_period a) (\<lambda>start.
     Option.bind (point_period b) (\<lambda>end.
       if timestamp_millis (tp_lower start) \<ge> timestamp_millis (tp_lower end) then None
       else Some \<lparr>tp_normalized = tp_normalized start @ [0x2F] @ tp_normalized end,
                  tp_precision = Span, tp_lower = tp_lower start, tp_until = tp_until end\<rparr>)))"

definition parse_time_period :: "ustr \<Rightarrow> time_period option" where
  "parse_time_period text = (case point_period text of Some p \<Rightarrow> Some p | None \<Rightarrow> span_period text)"

definition timestamp_overlaps :: "int \<Rightarrow> int option \<Rightarrow> int option \<Rightarrow> int option \<Rightarrow> bool" where
  "timestamp_overlaps time_at time_until start end =
     (let until = or_default time_until (time_at + 1000) in
      (case end of None \<Rightarrow> True | Some e \<Rightarrow> time_at < e)
      \<and> (case start of None \<Rightarrow> True | Some s \<Rightarrow> until > s))"

section \<open>The data point\<close>

record timestamp =
  ti_base :: data_point
  ti_name :: ustr
  ti_timestamp_str :: ustr
  ti_precision :: precision
  ti_time_at :: int
  ti_time_until :: int
  ti_lower :: date_time

definition timestamp_id_for :: "sweep_env \<Rightarrow> ustr \<Rightarrow> uuid" where
  "timestamp_id_for env s = data_point_id_for env (ascii ''Timestamp'') [s]"

definition timestamp_build :: "sweep_env \<Rightarrow> int \<Rightarrow> uuid \<Rightarrow> time_period \<Rightarrow> timestamp" where
  "timestamp_build env now fresh p =
     \<lparr>ti_base = (data_point_with_metadata env now fresh (ascii ''Timestamp'') None
          [''index_fields'' \<mapsto> JArr [],
           ''identity_fields'' \<mapsto> JArr [JStr (ascii ''timestamp_str'')]])
          \<lparr>dp_id := timestamp_id_for env (tp_normalized p)\<rparr>,
      ti_name = tp_normalized p, ti_timestamp_str = tp_normalized p, ti_precision = tp_precision p,
      ti_time_at = timestamp_millis (tp_lower p), ti_time_until = tp_until p, ti_lower = tp_lower p\<rparr>"

definition timestamp_from_text :: "sweep_env \<Rightarrow> int \<Rightarrow> uuid \<Rightarrow> ustr \<Rightarrow> timestamp option" where
  "timestamp_from_text env now fresh text =
     map_option (timestamp_build env now fresh) (parse_time_period text)"

section \<open>A period has a length\<close>

lemma month_sums:
  "sum_list (map (days_in_month y) [1..<m])
    \<le> sum_list (map (days_in_month y') [1..<m]) + (if 2 < m then 1 else 0)"
proof (induction m)
  case (Suc m)
  then show ?case by (cases "1 \<le> m") (auto simp: days_in_month_def split: if_splits)
qed simp

lemma day_number_later_year:
  assumes "1 \<le> y"
  shows "day_number y m d < day_number (Suc y) m d"
proof -
  have "int (sum_list (map (days_in_month y) [1..<m]))
      \<le> int (sum_list (map (days_in_month (Suc y)) [1..<m])) + 1"
    using month_sums [of y m "Suc y"] by (auto split: if_splits)
  moreover have "(int y - 1) div 4 \<le> int y div 4" "(int y - 1) div 400 \<le> int y div 400"
    by (simp_all add: zdiv_mono1)
  moreover have "int y div 100 \<le> (int y - 1 + 100) div 100"
    by (rule zdiv_mono1) simp_all
  then have "int y div 100 \<le> (int y - 1) div 100 + 1"
    by (simp only: div_add_self2)
  ultimately show ?thesis unfolding day_number_def Let_def by simp
qed

lemma day_number_month:
  "1 \<le> m \<Longrightarrow> day_number y (Suc m) d = day_number y m d + int (days_in_month y m)"
  by (simp add: day_number_def Let_def)

lemma day_number_day: "day_number y m (Suc d) = day_number y m d + 1"
  by (simp add: day_number_def Let_def)

lemma div_pred:
  fixes x n :: int
  assumes "0 < n"
  shows "x div n = (x - 1) div n + (if x mod n = 0 then 1 else 0)"
proof (cases "x mod n = 0")
  case True
  then have "x - 1 = n * (x div n - 1) + (n - 1)"
    using mult_div_mod_eq [of n x] by (simp add: right_diff_distrib)
  from int_div_pos_eq [OF this] assms True show ?thesis by simp
next
  case False
  then have "x - 1 = n * (x div n) + (x mod n - 1)"
    using mult_div_mod_eq [of n x] by simp
  moreover have "0 \<le> x mod n - 1" "x mod n - 1 < n"
    using False pos_mod_bound [OF assms, of x] pos_mod_sign [OF assms, of x] by simp_all
  ultimately show ?thesis using int_div_pos_eq [of "x - 1" n "x div n" "x mod n - 1"] False by simp
qed

lemma day_number_new_year:
  assumes "1 \<le> y"
  shows "day_number (Suc y) 1 1 = day_number y 12 31 + 1"
proof -
  have "sum_list (map (days_in_month y) [1..<12]) = (if leap_year y then 335 else 334)"
    by (simp add: upt_rec days_in_month_def)
  moreover have "int y div 4 - int y div 100 + int y div 400
      = (int y - 1) div 4 - (int y - 1) div 100 + (int y - 1) div 400 + (if leap_year y then 1 else 0)"
  proof -
    have leap: "leap_year y \<longleftrightarrow> int y mod 4 = 0 \<and> (int y mod 100 \<noteq> 0 \<or> int y mod 400 = 0)"
    proof -
      have "int y mod 4 = int (y mod 4)" "int y mod 100 = int (y mod 100)" "int y mod 400 = int (y mod 400)"
        by (simp_all add: of_nat_mod)
      then show ?thesis by (simp only: leap_year_def of_nat_eq_0_iff)
    qed
    have m: "int y mod 400 = 0 \<Longrightarrow> int y mod 100 = 0" "int y mod 100 = 0 \<Longrightarrow> int y mod 4 = 0"
      using dvd_trans [of 100 400 "int y"] dvd_trans [of 4 100 "int y"] by (simp_all add: dvd_eq_mod_eq_0)
    have "(if leap_year y then 1 else 0 :: int)
        = (if int y mod 4 = 0 then 1 else 0) - (if int y mod 100 = 0 then 1 else 0)
          + (if int y mod 400 = 0 then 1 else 0)"
      using m leap by (cases "int y mod 4 = 0"; cases "int y mod 100 = 0"; cases "int y mod 400 = 0"; simp)
    moreover have "int y div 4 = (int y - 1) div 4 + (if int y mod 4 = 0 then 1 else 0)"
      "int y div 100 = (int y - 1) div 100 + (if int y mod 100 = 0 then 1 else 0)"
      "int y div 400 = (int y - 1) div 400 + (if int y mod 400 = 0 then 1 else 0)"
      by (rule div_pred; simp)+
    ultimately show ?thesis by linarith
  qed
  ultimately show ?thesis by (cases "leap_year y"; simp add: day_number_def Let_def; linarith)
qed

definition valid_time :: "date_time \<Rightarrow> bool" where
  "valid_time t \<longleftrightarrow> 1 \<le> dt_year t \<and> valid_date (dt_year t) (dt_month t) (dt_day t)
     \<and> dt_hour t < 24 \<and> dt_minute t < 60 \<and> dt_second t < 60"

lemma next_day_millis:
  assumes "valid_time t"
  shows "timestamp_millis (next_day t) = timestamp_millis t + 86400000"
proof -
  let ?y = "dt_year t" and ?m = "dt_month t" and ?d = "dt_day t"
  have v: "1 \<le> ?m" "?m \<le> 12" "1 \<le> ?d" "?d \<le> days_in_month ?y ?m" "1 \<le> ?y"
    using assms by (simp_all add: valid_time_def valid_date_def)
  consider "?d < days_in_month ?y ?m" | "?d = days_in_month ?y ?m" "?m < 12"
    | "?d = days_in_month ?y ?m" "?m = 12"
    using v by linarith
  then show ?thesis
  proof cases
    case 1
    then show ?thesis by (simp add: next_day_def timestamp_millis_def day_number_day)
  next
    case 2
    have "day_number ?y ?m ?d = day_number ?y ?m 1 + int (days_in_month ?y ?m) - 1"
      unfolding 2(1) by (simp add: day_number_def Let_def)
    then show ?thesis using 2 v
      by (simp add: next_day_def timestamp_millis_def day_number_month)
  next
    case 3
    then have "?d = 31" by (simp add: days_in_month_def)
    with 3 v show ?thesis
      by (simp add: next_day_def timestamp_millis_def day_number_new_year [unfolded One_nat_def])
  qed
qed

lemma next_second_millis:
  assumes "valid_time t"
  shows "timestamp_millis (next_second t) = timestamp_millis t + 1000"
proof -
  let ?t = "t\<lparr>dt_hour := 0, dt_minute := 0, dt_second := 0\<rparr>"
  have "valid_time ?t" using assms by (simp add: valid_time_def)
  from next_day_millis [OF this] assms show ?thesis
    by (auto simp: next_second_def valid_time_def timestamp_millis_def)
qed

lemma later_year_millis:
  "1 \<le> dt_year t \<Longrightarrow> dt_year t' = Suc (dt_year t) \<Longrightarrow> dt_month t' = dt_month t \<Longrightarrow> dt_day t' = dt_day t
    \<Longrightarrow> dt_hour t' = dt_hour t \<Longrightarrow> dt_minute t' = dt_minute t \<Longrightarrow> dt_second t' = dt_second t
    \<Longrightarrow> timestamp_millis t < timestamp_millis t'"
  using day_number_later_year [of "dt_year t" "dt_month t" "dt_day t"]
  by (simp add: timestamp_millis_def)

lemma period_end_later:
  assumes v: "valid_time t" and e: "period_end t p = Some e"
  shows "timestamp_millis t < timestamp_millis e"
proof (cases p)
  case Year
  with e v show ?thesis
    by (auto simp: period_end_def with_year_def valid_time_def bind_eq_Some_conv split: if_splits
        intro!: later_year_millis)
next
  case Month
  show ?thesis
  proof (cases "dt_month t = 12")
    case True
    have d: "dt_day t \<le> 31" "1 \<le> dt_year t"
      using v True by (simp_all add: valid_time_def valid_date_def days_in_month_def)
    have "e = t\<lparr>dt_year := Suc (dt_year t), dt_month := 1\<rparr>"
      using e Month True
      by (auto simp: period_end_def with_year_def with_month_def bind_eq_Some_conv split: if_splits)
    moreover have "day_number (dt_year t) 12 (dt_day t) < day_number (Suc (dt_year t)) 1 (dt_day t)"
      using day_number_new_year [OF d(2)] d(1) by (simp add: day_number_def Let_def)
    ultimately show ?thesis using True by (simp add: timestamp_millis_def)
  next
    case False
    then have "e = t\<lparr>dt_month := Suc (dt_month t)\<rparr>"
      using e Month by (auto simp: period_end_def with_month_def bind_eq_Some_conv split: if_splits)
    moreover have "0 < days_in_month (dt_year t) (dt_month t)" by (simp add: days_in_month_def)
    ultimately show ?thesis using v
      by (simp add: timestamp_millis_def day_number_month valid_time_def valid_date_def)
  qed
next
  case Day
  with e v show ?thesis
    by (auto simp: period_end_def next_day_millis bind_eq_Some_conv split: if_splits)
qed (use e v in \<open>auto simp: period_end_def next_second_millis bind_eq_Some_conv split: if_splits\<close>)

lemma from_ymd_hms_valid:
  "from_ymd_hms y m d h mi s = Some t \<Longrightarrow> 1 \<le> y \<Longrightarrow> valid_time t"
  by (auto simp: from_ymd_hms_def valid_time_def split: if_splits)

lemma point_periodE:
  assumes "point_period t = Some p"
  obtains s n lower upper where "point_source t = Some (s, n)" "1 \<le> no_year n"
    "from_ymd_hms (no_year n) (no_month n) (no_day n) (no_hour n) (no_minute n) (no_second n) = Some lower"
    "period_end lower (no_precision n) = Some upper"
    "p = \<lparr>tp_normalized = s, tp_precision = no_precision n, tp_lower = lower,
          tp_until = timestamp_millis upper\<rparr>"
  using assms by (auto simp: point_period_def bind_eq_Some_conv split: if_splits)

lemma point_period_length:
  assumes "point_period t = Some p"
  shows "valid_time (tp_lower p) \<and> timestamp_millis (tp_lower p) < tp_until p"
  using assms
proof (rule point_periodE)
  fix s n lower upper
  assume "1 \<le> no_year n" "period_end lower (no_precision n) = Some upper"
    and l: "from_ymd_hms (no_year n) (no_month n) (no_day n) (no_hour n) (no_minute n) (no_second n) = Some lower"
    and p: "p = \<lparr>tp_normalized = s, tp_precision = no_precision n, tp_lower = lower,
          tp_until = timestamp_millis upper\<rparr>"
  moreover from this have "valid_time lower" by (intro from_ymd_hms_valid [OF l])
  ultimately show ?thesis by (simp add: period_end_later)
qed

lemma parsed_period_length:
  assumes "parse_time_period text = Some p"
  shows "valid_time (tp_lower p) \<and> timestamp_millis (tp_lower p) < tp_until p"
proof (cases "point_period text")
  case None
  with assms obtain a b pa pb where "point_period a = Some pa" "point_period b = Some pb"
    "timestamp_millis (tp_lower pa) < timestamp_millis (tp_lower pb)"
    "tp_lower p = tp_lower pa" "tp_until p = tp_until pb"
    by (auto simp: parse_time_period_def span_period_def bind_eq_Some_conv split: if_splits)
  with point_period_length [of a pa] point_period_length [of b pb] show ?thesis by simp
next
  case (Some q)
  with assms point_period_length [OF Some] show ?thesis by (simp add: parse_time_period_def)
qed

lemma split_on_char:
  "c \<notin> set s \<Longrightarrow> split_on [c] cur s = [cur @ s]"
  "c \<notin> set s \<Longrightarrow> split_on [c] cur (s @ c # s') = (cur @ s) # split_on [c] [] s'"
  by (induction s arbitrary: cur) (subst split_on.simps, simp)+

lemma split_str_char:
  "c \<notin> set s \<Longrightarrow> split_str [c] s = [s]"
  "c \<notin> set s \<Longrightarrow> split_str [c] (s @ c # s') = s # split_str [c] s'"
  by (simp_all add: split_str_def split_on_char)

text \<open>C33: A time string that parses names a period with a positive length, and the window test of
  its Timestamp says exactly whether an instant lies in both the period and the half-open window
  \<open>[start, end)\<close>, open on the sides that are not given; a window with both sides starts before it ends.\<close>

theorem overlap_is_a_common_instant:
  assumes "parse_time_period s = Some p"
    and "\<forall>a b. start = Some a \<and> end = Some b \<longrightarrow> a < b"
  shows "timestamp_millis (tp_lower p) < tp_until p
    \<and> timestamp_overlaps (timestamp_millis (tp_lower p)) (Some (tp_until p)) start end
      = (\<exists>t. timestamp_millis (tp_lower p) \<le> t \<and> t < tp_until p
           \<and> (\<forall>a. start = Some a \<longrightarrow> a \<le> t) \<and> (\<forall>b. end = Some b \<longrightarrow> t < b))"
proof -
  let ?l = "timestamp_millis (tp_lower p)"
  let ?t = "case start of Some a \<Rightarrow> max ?l a | None \<Rightarrow> ?l"
  have l: "?l < tp_until p" using parsed_period_length [OF assms(1)] by simp
  have "?l \<le> ?t \<and> ?t < tp_until p \<and> (\<forall>a. start = Some a \<longrightarrow> a \<le> ?t) \<and> (\<forall>b. end = Some b \<longrightarrow> ?t < b)"
    if "timestamp_overlaps ?l (Some (tp_until p)) start end"
    using that l assms(2)
    by (auto simp: timestamp_overlaps_def or_default_def split: option.splits)
  moreover have "timestamp_overlaps ?l (Some (tp_until p)) start end"
    if "?l \<le> t" "t < tp_until p" "\<forall>a. start = Some a \<longrightarrow> a \<le> t" "\<forall>b. end = Some b \<longrightarrow> t < b" for t
    using that by (auto simp: timestamp_overlaps_def or_default_def split: option.splits)
  ultimately show ?thesis using l by blast
qed

theorem overlap_is_a_common_instant_witness:
  "\<exists>p. parse_time_period (ascii ''1969'') = Some p
     \<and> timestamp_overlaps (timestamp_millis (tp_lower p)) (Some (tp_until p)) (Some (-1)) None"
proof -
  let ?p = "\<lparr>tp_normalized = ascii ''1969'', tp_precision = Year,
     tp_lower = \<lparr>dt_year = 1969, dt_month = 1, dt_day = 1, dt_hour = 0, dt_minute = 0, dt_second = 0\<rparr>,
     tp_until = 0\<rparr>"
  have p: "parse_time_period (ascii ''1969'') = Some ?p"
    by (simp add: parse_time_period_def point_period_def point_source_def trim_def is_whitespace_def
        match_normalized_def split_once_def split_str_char part_def required_def optional_def
        match_time_def all_digits_def is_digit_def number_def or_default_def stated_precision_def
        from_ymd_hms_def valid_date_def days_in_month_def period_end_def with_year_def
        timestamp_millis_def day_number_def)
  have c: "\<forall>a b. Some (- 1 :: int) = Some a \<and> None = Some b \<longrightarrow> a < b" by simp
  have "timestamp_overlaps (timestamp_millis (tp_lower ?p)) (Some (tp_until ?p)) (Some (- 1)) None"
    by (rule overlap_is_a_common_instant [OF p c, THEN conjunct2, THEN iffD2], rule exI [of _ "- 1"])
      (simp add: timestamp_millis_def day_number_def)
  with p show ?thesis by blast
qed

end
