(* ===== verification/Timestamp_Forms.thy ===== *)
theory Timestamp_Forms
  imports Timestamps
begin

text \<open>The normalized string of a time is read back as the same time.\<close>

section \<open>The shape of a normalized point\<close>

definition digits :: "ustr \<Rightarrow> bool" where
  "digits s \<longleftrightarrow> s \<noteq> [] \<and> list_all is_digit s"

lemma all_digits_digits: "all_digits s n = Some v \<Longrightarrow> 0 < n \<Longrightarrow> digits s \<and> length s = n"
  by (auto simp: all_digits_def digits_def split: if_splits)

lemma digits_simps [simp]: "digits [] = False" "digits (c # s) \<longleftrightarrow> is_digit c \<and> (s = [] \<or> digits s)"
  by (auto simp: digits_def)

lemma part_None: "part xs i = None \<longleftrightarrow> length xs \<le> i"
  by (simp add: part_def)

text \<open>A date has a four-digit year and up to two more parts of two digits; a time three.\<close>

definition date_shape :: "ustr \<Rightarrow> bool" where
  "date_shape d \<longleftrightarrow>
     (\<exists>y ps. d = join [0x2D] (y # ps) \<and> digits y \<and> length y = 4 \<and> length ps \<le> 2
        \<and> (\<forall>p \<in> set ps. digits p \<and> length p = 2))"

definition time_shape :: "ustr \<Rightarrow> bool" where
  "time_shape t \<longleftrightarrow>
     (\<exists>h m s. t = h @ [0x3A] @ m @ [0x3A] @ s \<and> digits h \<and> digits m \<and> digits s
        \<and> length h = 2 \<and> length m = 2 \<and> length s = 2)"

definition point_shape :: "ustr \<Rightarrow> bool" where
  "point_shape p \<longleftrightarrow> date_shape p \<or> (\<exists>d t. p = d @ [0x20] @ t \<and> date_shape d \<and> time_shape t)"

lemma split_parts:
  assumes "split_str [c] s = xs"
  shows "s = join [c] xs" "xs \<noteq> []"
  using assms join_split_str [of "[c]" s] by (auto simp: split_str_def)

lemma optional_Some: "optional x f = Some r \<longleftrightarrow> (x = None \<and> r = None \<or> (\<exists>v w. x = Some v \<and> f v = Some w \<and> r = Some w))"
  by (auto simp: optional_def split: option.splits)

lemma date_parts_shape:
  assumes "required (part parts 0) (\<lambda>p. all_digits p 4) = Some y"
    and "optional (part parts 1) (\<lambda>p. all_digits p 2) = Some m"
    and "optional (part parts 2) (\<lambda>p. all_digits p 2) = Some d"
    and "part parts 3 = None" "parts = split_str [0x2D] date"
  shows "date_shape date"
proof -
  have date: "date = join [0x2D] parts" using split_parts assms(5) by metis
  consider a where "parts = [a]" | a b where "parts = [a, b]" | a b c where "parts = [a, b, c]"
    using assms(4) split_parts(2) [OF assms(5) [symmetric]]
    by (cases parts; cases "tl parts"; cases "tl (tl parts)"; auto simp: part_None)
  then show ?thesis
    unfolding date_shape_def date using assms(1-3)
    by cases (auto simp: required_def part_def optional_Some intro!: exI dest!: all_digits_digits
        simp del: join.simps)
qed

lemma time_parts_shape:
  assumes "match_time (Some t) day = Some hms"
  shows "time_shape t \<and> day \<noteq> None"
proof -
  obtain parts where parts: "parts = split_str [0x3A] t" by simp
  then have t: "t = join [0x3A] parts" using split_parts by metis
  have "day \<noteq> None" "length parts \<le> 3"
    and f: "\<exists>h. required (part parts 0) (\<lambda>f. all_digits f 2) = Some h"
      "\<exists>h. required (part parts 1) (\<lambda>f. all_digits f 2) = Some h"
      "\<exists>h. required (part parts 2) (\<lambda>f. all_digits f 2) = Some h"
    using assms parts by (auto simp: match_time_def Let_def bind_eq_Some_conv part_None split: if_splits)
  moreover obtain a b c where abc: "parts = [a, b, c]"
    using calculation(2-5) by (cases parts; cases "tl parts"; cases "tl (tl parts)";
        auto simp: required_def part_def bind_eq_Some_conv split: if_splits)
  ultimately show ?thesis
    unfolding time_shape_def t abc
    by (auto simp: required_def part_def intro!: exI dest!: all_digits_digits)
qed

lemma split_once_Some:
  assumes "split_once c s = Some (a, b)"
  shows "s = a @ [c] @ b"
proof -
  from assms have "c \<in> set s" by (simp add: split_once_def split: if_splits)
  then obtain x y where "s = x @ c # y" "c \<notin> set x" by (metis split_list_first)
  moreover from this(2) have "takeWhile (\<lambda>z. z \<noteq> c) (x @ c # y) = x" "dropWhile (\<lambda>z. z \<noteq> c) (x @ c # y) = c # y"
    by (induction x) auto
  ultimately show ?thesis using assms by (simp add: split_once_def split: if_splits)
qed

lemma match_normalized_shape:
  assumes "match_normalized s = Some n"
  shows "point_shape s"
proof (cases "split_once 0x20 s")
  case None
  with assms have "date_shape s"
    by (auto simp: match_normalized_def Let_def bind_eq_Some_conv split: if_splits
        intro: date_parts_shape [OF _ _ _ _ refl])
  then show ?thesis by (simp add: point_shape_def)
next
  case (Some dt)
  then obtain d t where dt: "split_once 0x20 s = Some (d, t)" by (cases dt) auto
  with assms have "date_shape d" "\<exists>day hms. match_time (Some t) day = Some hms"
    by (auto simp: match_normalized_def Let_def bind_eq_Some_conv split: if_splits
        intro: date_parts_shape [OF _ _ _ _ refl])
  with split_once_Some [OF dt] time_parts_shape show ?thesis unfolding point_shape_def by blast
qed

section \<open>Characters of a normalized point\<close>

definition time_char :: "uchar \<Rightarrow> bool" where
  "time_char c \<longleftrightarrow> is_digit c \<or> c \<in> {0x20, 0x2D, 0x3A}"

lemma digits_chars: "digits s \<Longrightarrow> list_all is_digit s"
  by (simp add: digits_def)

lemma list_all_join:
  "list_all P (join sep xs) \<longleftrightarrow> list_all (list_all P) xs \<and> (length xs \<le> 1 \<or> list_all P sep)"
  by (induction sep xs rule: join.induct) auto

lemma time_shape_chars: "time_shape t \<Longrightarrow> list_all (\<lambda>c. is_digit c \<or> c = 0x3A) t"
  by (auto simp: time_shape_def digits_def list_all_iff)

lemma no_slash: "list_all time_char p \<Longrightarrow> 0x2F \<notin> set p"
  by (auto simp: list_all_iff time_char_def is_digit_def)

lemma digit_no_space: "is_digit c \<Longrightarrow> \<not> is_whitespace c"
  by (auto simp: is_digit_def is_whitespace_def)

lemma date_shape_cases:
  assumes "date_shape d"
  obtains y where "d = y" "digits y" "length y = 4"
  | y m where "d = y @ [0x2D] @ m" "digits y" "length y = 4" "digits m" "length m = 2"
  | y m dd where "d = y @ [0x2D] @ m @ [0x2D] @ dd" "digits y" "length y = 4" "digits m" "length m = 2"
      "digits dd" "length dd = 2"
proof -
  from assms obtain y ps where d: "d = join [0x2D] (y # ps)" and y: "digits y" "length y = 4"
    and ps: "length ps \<le> 2" "\<forall>p \<in> set ps. digits p \<and> length p = 2"
    by (auto simp: date_shape_def)
  consider "ps = []" | m where "ps = [m]" | m dd where "ps = [m, dd]"
    using ps(1) by (cases ps; cases "tl ps"; auto)
  then show thesis using that d y ps(2) by cases auto
qed

lemma date_shape_chars: "date_shape d \<Longrightarrow> list_all (\<lambda>c. is_digit c \<or> c = 0x2D) d"
  by (erule date_shape_cases) (auto simp: digits_def list_all_iff)

lemma point_shape_chars: "point_shape p \<Longrightarrow> list_all time_char p"
  using date_shape_chars time_shape_chars
  by (fastforce simp: point_shape_def time_char_def list_all_iff)

lemma date_shape_ends:
  assumes "date_shape d"
  shows "d \<noteq> [] \<and> is_digit (hd d) \<and> is_digit (last d)"
proof -
  have "is_digit (hd s)" "is_digit (last s)" if "digits s" for s
    using that by (auto simp: digits_def list_all_iff)
  with assms show ?thesis
    by (cases rule: date_shape_cases) (auto simp: hd_append)
qed

lemma point_shape_ends:
  assumes "point_shape p"
  shows "p \<noteq> [] \<and> is_digit (hd p) \<and> is_digit (last p)"
  using assms date_shape_ends
  by (auto simp: point_shape_def time_shape_def digits_def list_all_iff hd_append)

lemma trim_ends:
  assumes "s \<noteq> []" "is_digit (hd s)" "is_digit (last s)"
  shows "trim s = s"
proof -
  have "dropWhile is_whitespace s = s"
    using assms(1,2) by (cases s) (auto simp: digit_no_space)
  moreover have "dropWhile is_whitespace (rev s) = rev s"
    using assms(1,3) by (cases s rule: rev_cases) (auto simp: digit_no_space)
  ultimately show ?thesis by (simp add: trim_def)
qed

lemma point_sourceD:
  assumes "point_source text = Some (s, n)"
  shows "match_normalized s = Some n \<and> point_shape s \<and> trim s = s"
proof -
  from assms have "match_normalized s = Some n"
    by (auto simp: point_source_def Let_def bind_eq_Some_conv split: option.splits)
  with match_normalized_shape [OF this] point_shape_ends [of s] trim_ends [of s] show ?thesis by simp
qed

lemma point_period_stable:
  assumes "point_period text = Some p"
  shows "point_period (tp_normalized p) = Some p \<and> point_shape (tp_normalized p)"
  using assms
proof (rule point_periodE)
  fix s n lower upper
  assume src: "point_source text = Some (s, n)" and rest: "1 \<le> no_year n"
    "from_ymd_hms (no_year n) (no_month n) (no_day n) (no_hour n) (no_minute n) (no_second n) = Some lower"
    "period_end lower (no_precision n) = Some upper"
    "p = \<lparr>tp_normalized = s, tp_precision = no_precision n, tp_lower = lower,
          tp_until = timestamp_millis upper\<rparr>"
  from point_sourceD [OF src] have "point_source s = Some (s, n)" by (simp add: point_source_def)
  with rest point_sourceD [OF src] show ?thesis by (simp add: point_period_def)
qed

section \<open>A span is not a point\<close>

lemma lower_slash: "0x2F \<in> set w \<Longrightarrow> 0x2F \<in> set (to_ascii_lowercase w)"
  by (force simp: to_ascii_lowercase_def)

lemma dropWhile_mem: "x \<in> set s \<Longrightarrow> \<not> P x \<Longrightarrow> x \<in> set (dropWhile P s)"
  by (induction s) auto

lemma slash_no_digits: "0x2F \<in> set w \<Longrightarrow> \<not> list_all is_digit w"
  by (force simp: list_all_iff is_digit_def)

lemma slash_no_month:
  assumes "0x2F \<in> set w"
  shows "month_from_word w = None"
proof -
  let ?w = "rev (dropWhile (\<lambda>c. c = 0x2E) (rev (to_ascii_lowercase w)))"
  have w: "0x2F \<in> set ?w"
    using dropWhile_mem [of "0x2F" "rev (to_ascii_lowercase w)" "\<lambda>c. c = 0x2E"] lower_slash [OF assms]
    by simp
  have names: "\<forall>(name, _) \<in> set months. 0x2F \<notin> set name" by code_simp
  have "\<not> (name = ?w \<or> length ?w = 3 \<and> starts_with name ?w)" if "(name, m) \<in> set months" for name m
    using names that w by (metis (no_types, lifting) case_prodD in_set_takeD starts_with_def)
  then have "List.find (\<lambda>(name, _). name = ?w \<or> length ?w = 3 \<and> starts_with name ?w) months = None"
    by (auto simp: find_None_iff)
  moreover have "?w \<noteq> ascii ''sept''"
  proof
    assume "?w = ascii ''sept''"
    with w show False by simp
  qed
  ultimately show ?thesis by (simp add: month_from_word_def Let_def)
qed

lemma strip_suffix_Some: "strip_suffix s suf = Some d \<Longrightarrow> s = d @ suf"
  by (metis append_take_drop_id option.distinct(1) option.inject strip_suffix_def)

lemma slash_no_day:
  assumes "0x2F \<in> set w"
  shows "day_from_word w = None"
proof -
  let ?l = "to_ascii_lowercase w"
  have "0x2F \<in> set d" if "strip_suffix ?l suf = Some d" "0x2F \<notin> set suf" for suf d
    using that lower_slash [OF assms] strip_suffix_Some [OF that(1)] by auto
  then have "0x2F \<in> set d" if "List.map_filter (strip_suffix ?l) (map ascii [''st'', ''nd'', ''rd'', ''th'']) = d # ds" for d ds
    using that by (auto simp: List.map_filter_simps split: option.splits)
  then show ?thesis
    using slash_no_digits lower_slash [OF assms]
    by (auto simp: day_from_word_def Let_def split: list.splits)
qed

lemma slash_no_time:
  assumes "0x2F \<in> set w"
  shows "time_from_word w = None"
proof (rule ccontr)
  assume "time_from_word w \<noteq> None"
  moreover obtain parts where parts: "parts = split_str [0x3A] w" by simp
  ultimately have p: "list_all is_digit (hd parts)" "length parts \<le> 3"
      "\<exists>m. required (part parts 1) (\<lambda>f. all_digits f 2) = Some m"
      "\<exists>m. optional (part parts 2) (\<lambda>f. all_digits f 2) = Some m"
    by (auto simp: time_from_word_def Let_def part_None bind_eq_Some_conv split: if_splits)
  have w: "w = join [0x3A] parts" "parts \<noteq> []" using split_parts parts by metis+
  have "list_all is_digit q" if "q \<in> set parts" for q
    using that p w(2)
    by (cases parts; cases "tl parts"; cases "tl (tl parts)")
      (auto simp: required_def part_def optional_Some dest: all_digits_digits digits_chars)
  then have "list_all (\<lambda>c. is_digit c \<or> c = 0x3A) w"
    unfolding w(1) by (simp add: list_all_join) (simp add: list_all_iff)
  with assms show False by (auto simp: list_all_iff is_digit_def)
qed

text \<open>A word that joins a long part and a date by a slash.\<close>

lemma slash_no_numeric_date:
  assumes "length a > 2" "0x2F \<notin> set a"
  shows "numeric_date (a @ 0x2F # b) = None"
proof (cases "0x2D \<in> set (a @ 0x2F # b)")
  case False
  then show ?thesis using assms
    by (simp add: numeric_date_def split_str_char(2) Let_def required_def part_def small_def)
next
  case True
  let ?w = "a @ 0x2F # b"
  show ?thesis
  proof (rule ccontr)
    assume "numeric_date ?w \<noteq> None"
    moreover obtain parts where parts: "parts = split_str [0x2D] ?w" by simp
    ultimately have p: "length parts \<le> 3"
      "\<exists>y. required (part parts 0) (\<lambda>p. all_digits p 4) = Some y"
      "\<exists>m. required (part parts 1) small = Some m" "\<exists>d. optional (part parts 2) small = Some d"
      using True by (auto simp: numeric_date_def Let_def part_None bind_eq_Some_conv split: if_splits)
    have w: "?w = join [0x2D] parts" "parts \<noteq> []" using split_parts parts by metis+
    have "list_all is_digit q" if "q \<in> set parts" for q
      using that p w(2)
      by (cases parts; cases "tl parts"; cases "tl (tl parts)")
        (auto simp: required_def part_def optional_Some small_def split: if_splits
          dest: all_digits_digits digits_chars)
    then have "list_all (\<lambda>c. is_digit c \<or> c = 0x2D) (join [0x2D] parts)"
      by (simp add: list_all_join) (simp add: list_all_iff)
    then show False unfolding w(1) [symmetric] by (simp add: is_digit_def)
  qed
qed

lemma slash_no_filler:
  assumes "0x2F \<in> set w"
  shows "\<not> is_filler w" "to_ascii_lowercase w \<notin> {ascii ''am'', ascii ''a.m.''}"
    "to_ascii_lowercase w \<notin> {ascii ''pm'', ascii ''p.m.''}"
proof -
  have "to_ascii_lowercase w \<noteq> x" if "0x2F \<notin> set x" for x
    using lower_slash [OF assms] that by blast
  then show "\<not> is_filler w" "to_ascii_lowercase w \<notin> {ascii ''am'', ascii ''a.m.''}"
    "to_ascii_lowercase w \<notin> {ascii ''pm'', ascii ''p.m.''}"
    by (simp_all add: is_filler_def)
qed

lemma date_words_slash:
  assumes "w \<in> set ws" "w = a @ 0x2F # b" "length a > 2" "0x2F \<notin> set a"
  shows "date_words ws p = None"
  using assms(1)
proof (induction ws arbitrary: p rule: length_induct)
  case (1 ws)
  have slash: "0x2F \<in> set w" by (simp add: assms(2))
  obtain v vs where ws: "ws = v # vs" using 1(2) by (cases ws) auto
  show ?case
  proof (cases "v = w")
    case True
    have "all_digits w 4 = None" using slash_no_digits [OF slash] by (simp add: all_digits_def)
    moreover have "numeric_date w = None" unfolding assms(2) by (rule slash_no_numeric_date [OF assms(3,4)])
    ultimately show ?thesis
      unfolding True ws using slash_no_month slash_no_day slash_no_time slash_no_filler(1) slash
      by (simp add: date_words.simps(2))
  next
    case False
    then have w: "w \<in> set vs" using 1(2) ws by simp
    have m: "w \<in> set (if consumed then tl vs else vs)" if "meridian h vs = (hour, consumed)" for h hour consumed
      using that w slash_no_filler(2,3) [OF slash]
      by (cases vs) (auto simp: meridian_def split: if_splits)
    have none: "date_words us = (\<lambda>_. None)" if "w \<in> set us" "length us \<le> length vs" for us
      using 1(1) that ws by (auto simp: fun_eq_iff)
    have "date_words (tl vs) = (\<lambda>_. None)" if "meridian h vs = (hour, True)" for h hour
      using m [OF that] by (intro none) auto
    then show ?thesis unfolding ws
      by (auto simp add: date_words.simps(2) none [OF w order_refl] split: option.split prod.split)
  qed
qed

lemma split_where_skip:
  "list_all (\<lambda>c. \<not> P c) u \<Longrightarrow> split_where P cur (u @ s) = split_where P (cur @ u) s"
  by (induction u arbitrary: cur) auto

lemma split_where_first: "\<exists>w ws. split_where P cur s = (cur @ w) # ws"
  by (induction P cur s rule: split_where.induct) auto

lemma no_separator:
  "date_shape d \<Longrightarrow> list_all (\<lambda>c. \<not> is_separator c) d" "time_shape t \<Longrightarrow> list_all (\<lambda>c. \<not> is_separator c) t"
proof -
  have "\<not> is_separator c" if "is_digit c \<or> c = 0x2D \<or> c = 0x3A" for c
    using that by (auto simp: is_separator_def is_whitespace_def is_digit_def)
  then show "date_shape d \<Longrightarrow> list_all (\<lambda>c. \<not> is_separator c) d"
    "time_shape t \<Longrightarrow> list_all (\<lambda>c. \<not> is_separator c) t"
    using date_shape_chars [of d] time_shape_chars [of t] by (auto simp: list_all_iff)
qed

lemma slash_word:
  assumes "point_shape a"
  shows "\<exists>x y. x @ 0x2F # y \<in> set (date_text_words (a @ 0x2F # b)) \<and> length x > 2 \<and> 0x2F \<notin> set x"
proof -
  have sep: "\<not> is_separator 0x2F" "is_separator 0x20"
    by (simp_all add: is_separator_def is_whitespace_def)
  have word: "\<exists>y. x @ 0x2F # y \<in> set (split_where is_separator [] (x @ 0x2F # b))"
    if "list_all (\<lambda>c. \<not> is_separator c) x" for x
    using split_where_first [of is_separator "x @ [0x2F]" b] sep(1)
    by (auto simp: split_where_skip [OF that])
  from assms consider "date_shape a" | d t where "a = d @ [0x20] @ t" "date_shape d" "time_shape t"
    by (auto simp: point_shape_def)
  then show ?thesis
  proof cases
    case 1
    then have "length a > 2" by (cases rule: date_shape_cases) auto
    with word [OF no_separator(1) [OF 1]] no_slash [OF point_shape_chars [OF assms]]
    show ?thesis by (auto simp: date_text_words_def)
  next
    case 2
    have "length t > 2" using 2(3) by (auto simp: time_shape_def)
    moreover have "0x2F \<notin> set t" using no_slash [OF point_shape_chars [OF assms]] 2(1) by simp
    moreover have "split_where is_separator [] (a @ 0x2F # b)
        = d # split_where is_separator [] (t @ 0x2F # b)"
      using split_where_skip [OF no_separator(1) [OF 2(2)], of "[]"] sep(2) by (simp add: 2(1))
    ultimately show ?thesis using word [OF no_separator(2) [OF 2(3)]]
      by (auto simp: date_text_words_def)
  qed
qed

lemma span_is_no_point:
  assumes "point_shape a" "point_shape b"
  shows "point_period (a @ 0x2F # b) = None" "trim (a @ 0x2F # b) = a @ 0x2F # b"
proof -
  show t: "trim (a @ 0x2F # b) = a @ 0x2F # b"
    using point_shape_ends [OF assms(1)] point_shape_ends [OF assms(2)] by (intro trim_ends) auto
  have "match_normalized (a @ 0x2F # b) = None"
  proof (rule ccontr)
    assume "match_normalized (a @ 0x2F # b) \<noteq> None"
    then have "point_shape (a @ 0x2F # b)" using match_normalized_shape by auto
    from no_slash [OF point_shape_chars [OF this]] show False by simp
  qed
  moreover have "normalize_absolute_date (a @ 0x2F # b) = None"
    using slash_word [OF assms(1), of b] date_words_slash [OF _ refl]
    by (auto simp: normalize_absolute_date_def)
  ultimately show "point_period (a @ 0x2F # b) = None"
    by (simp add: point_period_def point_source_def t)
qed

section \<open>A span splits at its slash\<close>

fun quiet :: "ustr \<Rightarrow> ustr \<Rightarrow> bool" where
  "quiet [] s = True"
| "quiet (c # u) s =
     (c \<notin> {0x2F, 0x2013, 0x2014}
      \<and> (c = 0x2D \<longrightarrow> \<not> (4 \<le> length (u @ s) \<and> list_all is_digit (take 4 (u @ s))))
      \<and> (is_whitespace c \<longrightarrow> after_span_word (c # u @ s) = None) \<and> quiet u s)"

lemma split_scan_quiet:
  "quiet u (0x2F # b) \<Longrightarrow> split_scan pre (u @ 0x2F # b) = Some (pre @ u, b)"
  by (induction u arbitrary: pre) (auto simp: year_dash_def)

lemma quiet_append: "quiet (x @ y) s \<longleftrightarrow> quiet x (y @ s) \<and> quiet y s"
  by (induction x) auto

lemma quiet_digits: "list_all is_digit x \<Longrightarrow> quiet x s"
  by (induction x) (auto simp: digit_no_space, auto simp: is_digit_def)

lemma quiet_dash:
  assumes "digits m" "length m = 2" "\<not> is_digit c"
  shows "quiet [0x2D] (m @ c # s)"
proof -
  obtain x y where "m = [x, y]" using assms(2) by (cases m; cases "tl m"; auto)
  then show ?thesis using assms(3) by (simp add: is_whitespace_def)
qed

lemma quiet_space:
  assumes "digits h"
  shows "quiet [0x20] (h @ s)"
proof -
  obtain c r where h: "h = c # r" and c: "is_digit c" using assms by (cases h) auto
  then have "to_ascii_lowercase (0x20 # h @ s) = 0x20 # c # to_ascii_lowercase (r @ s)"
    by (auto simp: to_ascii_lowercase_def is_digit_def)
  moreover have "is_whitespace 0x20" "\<not> is_whitespace c" using c digit_no_space
    by (simp_all add: is_whitespace_def)
  ultimately have rest: "dropWhile is_whitespace (to_ascii_lowercase (0x20 # h @ s))
      = c # to_ascii_lowercase (r @ s)" by simp
  have "\<not> starts_with (c # x) w" if "w \<in> set span_words" for w x
    using that c by (auto simp: span_words_def starts_with_def is_digit_def)
  then have "after_span_word (0x20 # h @ s) = None"
    unfolding after_span_word_def rest Let_def by (auto simp: find_None_iff)
  then show ?thesis by simp
qed

lemma quiet_date:
  assumes "date_shape d" "\<not> is_digit c"
  shows "quiet d (c # s)"
  using assms(1)
proof (cases rule: date_shape_cases)
  case (2 y m)
  then show ?thesis using quiet_dash [OF _ _ assms(2), of m s]
    by (simp only: quiet_append) (simp add: quiet_digits digits_chars)
next
  case (3 y m dd)
  have "\<not> is_digit 0x2D" by (simp add: is_digit_def)
  then show ?thesis
    using quiet_dash [OF 3(6,7) assms(2), of s] quiet_dash [OF 3(4,5), of "0x2D" "dd @ c # s"] 3
    unfolding 3(1) quiet_append by (simp add: quiet_digits digits_chars del: quiet.simps(2))
qed (simp add: quiet_digits digits_chars)

lemma quiet_point:
  assumes "point_shape a"
  shows "quiet a (0x2F # b)"
proof -
  have "\<not> is_digit 0x2F" "\<not> is_digit 0x20" "quiet [0x3A] s" for s
    by (simp_all add: is_digit_def is_whitespace_def)
  moreover have "quiet t s" if "time_shape t" for t s
    using that calculation(3) unfolding time_shape_def
    by (auto simp: quiet_append quiet_digits digits_chars simp del: quiet.simps(2) append_Cons append_Nil)
  moreover have "quiet [0x20] (t @ s)" if ts: "time_shape t" for t s
  proof -
    obtain h m r where "t = h @ [0x3A] @ m @ [0x3A] @ r" "digits h"
      using ts unfolding time_shape_def by blast
    then show ?thesis using quiet_space [of h "[0x3A] @ m @ [0x3A] @ r @ s"] by simp
  qed
  ultimately show ?thesis
    using assms quiet_date unfolding point_shape_def
    by (auto simp: quiet_append simp del: quiet.simps(2) append_Cons append_Nil) (simp add: quiet_date)
qed

lemma split_span_slash:
  assumes "point_shape a" "point_shape b"
  shows "split_span (a @ 0x2F # b) = Some (a, b)"
proof -
  obtain c r where a: "a = c # r" "is_digit c" using point_shape_ends [OF assms(1)] by (cases a) auto
  then have "strip_span_prefix (a @ 0x2F # b) = a @ 0x2F # b"
    by (auto simp: strip_span_prefix_def starts_with_def to_ascii_lowercase_def is_digit_def)
  then show ?thesis
    using split_scan_quiet [OF quiet_point [OF assms(1)], of "[]"]
    by (simp add: split_span_def span_is_no_point(2) [OF assms])
qed

text \<open>C34: The normalized string of a time is its normal form: whatever string a time was parsed
  from (a normalized form, prose, a period in words), reading the normalized string gives the
  same period, with the same precision and bounds. The id of a Timestamp, which is derived from
  that string, is therefore the id of the time.\<close>

theorem normalized_time_is_read_back:
  assumes "parse_time_period s = Some p"
  shows "parse_time_period (tp_normalized p) = Some p"
proof (cases "point_period s")
  case (Some q)
  with assms point_period_stable [OF Some] show ?thesis by (simp add: parse_time_period_def)
next
  case None
  with assms obtain a b pa pb where pa: "point_period a = Some pa" and pb: "point_period b = Some pb"
    and before: "timestamp_millis (tp_lower pa) < timestamp_millis (tp_lower pb)"
    and p: "p = \<lparr>tp_normalized = tp_normalized pa @ [0x2F] @ tp_normalized pb,
                  tp_precision = Span, tp_lower = tp_lower pa, tp_until = tp_until pb\<rparr>"
    by (auto simp: parse_time_period_def span_period_def bind_eq_Some_conv split: if_splits)
  note a = point_period_stable [OF pa] and b = point_period_stable [OF pb]
  from a b before have "span_period (tp_normalized p) = Some p"
    unfolding p by (simp add: span_period_def split_span_slash)
  moreover have "point_period (tp_normalized p) = None"
    unfolding p using span_is_no_point(1) [of "tp_normalized pa" "tp_normalized pb"] a b by simp
  ultimately show ?thesis by (simp add: parse_time_period_def)
qed

theorem normalized_time_is_read_back_witness:
  "\<exists>p. parse_time_period (ascii ''(1969)'') = Some p \<and> parse_time_period (tp_normalized p) = Some p"
proof -
  let ?p = "\<lparr>tp_normalized = ascii ''1969'', tp_precision = Year,
     tp_lower = \<lparr>dt_year = 1969, dt_month = 1, dt_day = 1, dt_hour = 0, dt_minute = 0, dt_second = 0\<rparr>,
     tp_until = 0\<rparr>"
  have "normalize_absolute_date (ascii ''(1969)'') = Some (ascii ''1969'')"
    by (simp add: normalize_absolute_date_def date_text_words_def is_separator_def is_whitespace_def
        date_words.simps(2) all_digits_def is_digit_def number_def set_year_def set_slot_def
        format_date_def padded_def show_nat.simps valid_date_def or_default_def days_in_month_def)
  then have p: "parse_time_period (ascii ''(1969)'') = Some ?p"
    by (simp add: parse_time_period_def point_period_def point_source_def trim_def is_whitespace_def
        match_normalized_def split_once_def split_str_char part_def required_def optional_def
        match_time_def all_digits_def is_digit_def number_def or_default_def stated_precision_def
        from_ymd_hms_def valid_date_def days_in_month_def period_end_def with_year_def
        timestamp_millis_def day_number_def)
  with normalized_time_is_read_back [OF p] show ?thesis by blast
qed

end
