(* ===== verification/Graph_Expand.thy ===== *)
theory Graph_Expand
  imports "HOL-Library.Product_Lexorder" Ontology Prov_Stamp Timestamps
begin

text \<open>
  From the graphs a model extracted from chunks to entities, types, timestamps and edges with
  deterministic ids (\<open>crates/cognify/src/graph_integration/expansion.rs\<close>, \<open>types.rs\<close>,
  \<open>db_deduplication.rs\<close>, \<open>deduplication.rs\<close>).

  The hash maps of the pass whose values are collected at its end are association lists with
  distinct keys (their order is that of a hash map in the code, so no lemma depends on it); maps
  that are only looked up are functions. The \<open>timestamp_map\<close> and \<open>timestamp_order\<close> of the code
  are one list in order of first declaration. An \<open>expect\<close> that fails is \<^const>\<open>None\<close>. Log lines and
  the sample of unresolved references are left out. The clock stands still during a pass.
\<close>

section \<open>Extracted graphs and stored pairs\<close>

record kg_node =
  kn_id :: ustr
  kn_name :: ustr
  kn_type :: ustr
  kn_description :: ustr

record kg_edge =
  ke_source :: ustr
  ke_target :: ustr
  ke_relationship :: ustr
  ke_description :: "ustr option"

record knowledge_graph =
  kg_nodes :: "kg_node list"
  kg_edges :: "kg_edge list"

record node_pair =
  np_entity :: entity
  np_type :: "entity_type option"

record timestamp_node =
  tn_timestamp :: timestamp
  tn_description :: ustr

record edge_pair =
  ep_source :: uuid
  ep_target :: uuid
  ep_relationship :: ustr
  ep_properties :: "string \<rightharpoonup> ustr"

type_synonym edge_id = "uuid \<times> uuid \<times> ustr"

definition edge_pair_new :: "uuid \<Rightarrow> uuid \<Rightarrow> ustr \<Rightarrow> edge_pair" where
  "edge_pair_new s t r = \<lparr>ep_source = s, ep_target = t, ep_relationship = r, ep_properties = Map.empty\<rparr>"

definition dedup_key :: "edge_pair \<Rightarrow> edge_id" where
  "dedup_key e = (ep_source e, ep_target e, ep_relationship e)"

definition add_property :: "string \<Rightarrow> ustr \<Rightarrow> edge_pair \<Rightarrow> edge_pair" where
  "add_property k v e = e\<lparr>ep_properties := (ep_properties e)(k \<mapsto> v)\<rparr>"

record artifact_producers =
  ap_entities :: "uuid \<rightharpoonup> uuid list"
  ap_edges :: "edge_id \<rightharpoonup> uuid list"

definition push_new :: "'a \<Rightarrow> 'a list \<Rightarrow> 'a list" where
  "push_new x xs = (if x \<in> set xs then xs else xs @ [x])"

definition record_entity :: "uuid \<Rightarrow> uuid \<Rightarrow> artifact_producers \<Rightarrow> artifact_producers" where
  "record_entity e chunk ap =
     ap\<lparr>ap_entities := (ap_entities ap)(e \<mapsto> push_new chunk (or_default (ap_entities ap e) []))\<rparr>"

definition record_edge :: "edge_id \<Rightarrow> uuid \<Rightarrow> artifact_producers \<Rightarrow> artifact_producers" where
  "record_edge k chunk ap =
     ap\<lparr>ap_edges := (ap_edges ap)(k \<mapsto> push_new chunk (or_default (ap_edges ap k) []))\<rparr>"

definition entity_chunks :: "artifact_producers \<Rightarrow> uuid \<Rightarrow> uuid list" where
  "entity_chunks ap e = or_default (ap_entities ap e) []"

definition edge_chunks :: "artifact_producers \<Rightarrow> edge_id \<Rightarrow> uuid list" where
  "edge_chunks ap k = or_default (ap_edges ap k) []"

section \<open>Endpoint resolution\<close>

record resolution_stats =
  rs_attempted :: nat
  rs_by_id :: nat
  rs_by_name :: nat
  rs_by_id_cross :: nat
  rs_by_name_cross :: nat
  rs_max_distance :: nat
  rs_source_missing :: nat
  rs_target_missing :: nat
  rs_ambiguous :: nat

definition stats_default :: resolution_stats where
  "stats_default =
     \<lparr>rs_attempted = 0, rs_by_id = 0, rs_by_name = 0, rs_by_id_cross = 0, rs_by_name_cross = 0,
      rs_max_distance = 0, rs_source_missing = 0, rs_target_missing = 0, rs_ambiguous = 0\<rparr>"

definition dropped :: "resolution_stats \<Rightarrow> nat" where
  "dropped s = rs_source_missing s + rs_target_missing s + rs_ambiguous s"

definition resolved_cross_chunk :: "resolution_stats \<Rightarrow> nat" where
  "resolved_cross_chunk s = rs_by_id_cross s + rs_by_name_cross s"

definition widen_cross_chunk_distance :: "nat \<Rightarrow> nat \<Rightarrow> resolution_stats \<Rightarrow> resolution_stats" where
  "widen_cross_chunk_distance origin position s =
     s\<lparr>rs_max_distance := max (rs_max_distance s) (position - origin)\<rparr>"

definition record_resolved_by_id :: "nat \<Rightarrow> nat \<Rightarrow> resolution_stats \<Rightarrow> resolution_stats" where
  "record_resolved_by_id origin position s =
     (let s = s\<lparr>rs_by_id := rs_by_id s + 1\<rparr> in
      if origin \<noteq> position
      then widen_cross_chunk_distance origin position (s\<lparr>rs_by_id_cross := rs_by_id_cross s + 1\<rparr>)
      else s)"

definition record_resolved_by_name :: "nat \<Rightarrow> nat \<Rightarrow> resolution_stats \<Rightarrow> resolution_stats" where
  "record_resolved_by_name origin position s =
     (let s = s\<lparr>rs_by_name := rs_by_name s + 1\<rparr> in
      if origin \<noteq> position
      then widen_cross_chunk_distance origin position (s\<lparr>rs_by_name_cross := rs_by_name_cross s + 1\<rparr>)
      else s)"

datatype endpoint_resolution = ById uuid nat | ByName uuid nat | Ambiguous | Missing

type_synonym id_registry = "ustr \<rightharpoonup> uuid \<times> nat"
type_synonym alias_registry = "ustr \<rightharpoonup> (uuid \<times> nat) option"

definition register_name_alias ::
    "(ustr \<Rightarrow> ustr) \<Rightarrow> ustr \<Rightarrow> uuid \<Rightarrow> ustr \<Rightarrow> nat \<Rightarrow> alias_registry \<Rightarrow> alias_registry" where
  "register_name_alias normal raw_name entity_id id_key position aliases =
     (let key = normal raw_name in
      if key = [] \<or> key = id_key then aliases
      else case aliases key of
             None \<Rightarrow> aliases(key \<mapsto> Some (entity_id, position))
           | Some None \<Rightarrow> aliases
           | Some (Some (i, _)) \<Rightarrow>
               if i = entity_id then aliases(key \<mapsto> Some (i, position)) else aliases(key \<mapsto> None))"

definition refresh_name_alias_origin ::
    "(ustr \<Rightarrow> ustr) \<Rightarrow> ustr \<Rightarrow> uuid \<Rightarrow> nat \<Rightarrow> alias_registry \<Rightarrow> alias_registry" where
  "refresh_name_alias_origin normal raw_name entity_id position aliases =
     (let key = normal raw_name in
      case aliases key of
        Some (Some (i, _)) \<Rightarrow> if i = entity_id then aliases(key \<mapsto> Some (i, position)) else aliases
      | _ \<Rightarrow> aliases)"

definition resolve_endpoint ::
    "(ustr \<Rightarrow> ustr) \<Rightarrow> id_registry \<Rightarrow> alias_registry \<Rightarrow> ustr \<Rightarrow> endpoint_resolution" where
  "resolve_endpoint normal by_id by_name raw =
     (let key = normal raw in
      case by_id key of
        Some (e, origin) \<Rightarrow> ById e origin
      | None \<Rightarrow>
          (case by_name key of
             Some (Some (e, origin)) \<Rightarrow> ByName e origin
           | Some None \<Rightarrow> Ambiguous
           | None \<Rightarrow> Missing))"

section \<open>Ids of the nodes of one graph\<close>

fun retain_first :: "ustr set \<Rightarrow> kg_node list \<Rightarrow> kg_node list" where
  "retain_first seen [] = []"
| "retain_first seen (n # ns) =
     (if kn_id n \<in> seen then retain_first seen ns else n # retain_first (insert (kn_id n) seen) ns)"

definition without_duplicate_node_ids :: "knowledge_graph \<Rightarrow> knowledge_graph" where
  "without_duplicate_node_ids g = g\<lparr>kg_nodes := retain_first {} (kg_nodes g)\<rparr>"

definition ordinal_key :: "sweep_env \<Rightarrow> kg_node \<Rightarrow> ustr \<times> ustr \<times> ustr" where
  "ordinal_key env n =
     (generate_node_name env (kn_type n), generate_node_name env (kn_description n),
      generate_node_name env (kn_id n))"

definition ordinal_id :: "sweep_env \<Rightarrow> uuid \<Rightarrow> kg_node \<Rightarrow> nat \<Rightarrow> uuid" where
  "ordinal_id env chunk n i =
     data_point_id_for env (ascii ''Entity'') [kn_name n, se_show env chunk, show_nat i]"

definition ids_of_group :: "sweep_env \<Rightarrow> uuid \<Rightarrow> uuid \<Rightarrow> kg_node list \<Rightarrow> (ustr \<times> uuid) list" where
  "ids_of_group env chunk name_based same =
     (case same of
        [only] \<Rightarrow> [(kn_id only, name_based)]
      | _ \<Rightarrow> map (\<lambda>(i, n). (kn_id n, ordinal_id env chunk n (i + 1)))
               (enumerate 0 (sort_key (ordinal_key env) same)))"

definition name_group :: "sweep_env \<Rightarrow> kg_node list \<Rightarrow> uuid \<Rightarrow> kg_node list" where
  "name_group env ns k = filter (\<lambda>n. entity_id_for env (kn_name n) = k) ns"

definition entity_ids_by_node_id :: "sweep_env \<Rightarrow> knowledge_graph \<Rightarrow> uuid \<Rightarrow> ustr \<rightharpoonup> uuid" where
  "entity_ids_by_node_id env g chunk =
     map_of (concat (map (\<lambda>k. ids_of_group env chunk k (name_group env (kg_nodes g) k))
       (remdups (map (\<lambda>n. entity_id_for env (kn_name n)) (kg_nodes g)))))"

definition is_timestamp_type :: "sweep_env \<Rightarrow> ustr \<Rightarrow> bool" where
  "is_timestamp_type env t \<longleftrightarrow> generate_node_name env t = ascii ''timestamp''"

section \<open>The state of a pass\<close>

record expand_args =
  xa_env :: sweep_env
  xa_now :: int
  xa_fresh :: uuid
  xa_dataset :: uuid
  xa_node_sets :: "uuid \<rightharpoonup> json list"
  xa_weights :: "uuid \<rightharpoonup> rat"
  xa_existing :: "ustr set"
  xa_is_loaded :: bool
  xa_subgraph :: "ustr \<Rightarrow> ustr \<Rightarrow> ontology_error + subgraph"
  xa_user_label :: "ustr option"
  xa_task_rank :: "int option"

record expansion_state =
  ex_visited :: "uuid set"
  ex_node_map :: "(ustr \<times> node_pair) list"
  ex_edge_map :: "(edge_id \<times> edge_pair) list"
  ex_claimed :: "(edge_id \<times> edge_pair) list"
  ex_type_map :: "(ustr \<times> entity_type) list"
  ex_producers :: artifact_producers
  ex_by_id :: id_registry
  ex_by_name :: alias_registry
  ex_timestamps :: "(uuid \<times> timestamp_node) list"
  ex_stats :: resolution_stats
  ex_key_mapping :: "ustr \<rightharpoonup> ustr"
  ex_ontology_types :: "(ustr \<times> entity_type) list"
  ex_ontology_entities :: "(ustr \<times> node_pair) list"
  ex_ontology_keys :: "ustr set"
  ex_ontology_edges :: "edge_pair list"

definition expansion_start :: expansion_state where
  "expansion_start =
     \<lparr>ex_visited = {}, ex_node_map = [], ex_edge_map = [], ex_claimed = [], ex_type_map = [],
      ex_producers = \<lparr>ap_entities = Map.empty, ap_edges = Map.empty\<rparr>, ex_by_id = Map.empty,
      ex_by_name = Map.empty, ex_timestamps = [], ex_stats = stats_default,
      ex_key_mapping = Map.empty, ex_ontology_types = [], ex_ontology_entities = [],
      ex_ontology_keys = {}, ex_ontology_edges = []\<rparr>"

definition xa_norm :: "expand_args \<Rightarrow> ustr \<Rightarrow> ustr" where
  "xa_norm args = normalize_identifier (se_lower (xa_env args))"

text \<open>The containers stamped here own no children.\<close>

definition pre_stamp_extraction :: "expand_args \<Rightarrow> data_point \<Rightarrow> uuid set \<Rightarrow> data_point \<times> uuid set" where
  "pre_stamp_extraction args dp visited =
     (case stamp_tree
        \<lparr>pv_pipeline_name = ascii ''cognify_pipeline'', pv_task_name = ascii ''extract_graph_from_data'',
         pv_user_label = xa_user_label args, pv_node_set = None, pv_content_hash = None,
         pv_task_rank = xa_task_rank args\<rparr> (DP dp []) visited of
        (t, vis) \<Rightarrow> (tree_point t, vis))"

definition set_weight :: "rat \<Rightarrow> data_point \<Rightarrow> data_point" where
  "set_weight w dp = dp\<lparr>dp_importance_weight := Some w\<rparr>"

section \<open>Nodes and edges of the ontology\<close>

definition entity_key :: "sweep_env \<Rightarrow> uuid \<Rightarrow> ustr" where
  "entity_key env i = se_show env i @ ascii ''_entity''"

definition type_name_key :: "ustr \<Rightarrow> ustr" where
  "type_name_key name = name @ ascii ''_type''"

definition ontology_class :: "expand_args \<Rightarrow> rat \<Rightarrow> ustr \<Rightarrow> expansion_state \<Rightarrow> expansion_state" where
  "ontology_class args w name st =
     (let env = xa_env args; node_id = entity_type_id_for env name;
          normalized = generate_node_name env name; dedup = type_name_key (se_show env node_id)
      in if map_of (ex_type_map st) (type_name_key normalized) \<noteq> None
            \<or> map_of (ex_ontology_types st) dedup \<noteq> None
            \<or> map_of (ex_node_map st) (entity_key env node_id) \<noteq> None
         then st
         else let et = entity_type_new env (xa_now args) (xa_fresh args) normalized normalized (Some (xa_dataset args));
                  base = set_weight w (set_ontology_valid (xa_now args) True ((et_base et)\<lparr>dp_id := node_id\<rparr>))
              in case pre_stamp_extraction args base (ex_visited st) of
                   (base, visited) \<Rightarrow>
                     st\<lparr>ex_visited := visited,
                        ex_ontology_types := hash_insert dedup (et\<lparr>et_base := base\<rparr>) (ex_ontology_types st)\<rparr>)"

definition ontology_individual :: "expand_args \<Rightarrow> rat \<Rightarrow> ustr \<Rightarrow> expansion_state \<Rightarrow> expansion_state" where
  "ontology_individual args w name st =
     (let env = xa_env args; node_id = entity_id_for env name;
          normalized = generate_node_name env name; dedup = entity_key env node_id
      in if map_of (ex_node_map st) dedup \<noteq> None \<or> map_of (ex_ontology_entities st) dedup \<noteq> None then st
         else let e = entity_new env (xa_now args) (xa_fresh args) normalized None normalized (Some (xa_dataset args));
                  base = set_weight w (set_ontology_valid (xa_now args) True ((en_base e)\<lparr>dp_id := node_id\<rparr>));
                  et = entity_type_new env (xa_now args) (xa_fresh args) (ascii ''OntologyIndividual'') []
                         (Some (xa_dataset args));
                  et_point = (et_base et)\<lparr>dp_id := entity_type_id_for env (ascii ''OntologyIndividual'')\<rparr>
              in case pre_stamp_extraction args base (ex_visited st) of
                   (base, visited) \<Rightarrow>
                     (case pre_stamp_extraction args et_point visited of
                        (et_point, visited) \<Rightarrow>
                          st\<lparr>ex_visited := visited,
                             ex_ontology_entities := hash_insert dedup
                               \<lparr>np_entity = e\<lparr>en_base := base\<rparr>, np_type = Some (et\<lparr>et_base := et_point\<rparr>)\<rparr>
                               (ex_ontology_entities st)\<rparr>))"

definition process_ontology_nodes ::
    "expand_args \<Rightarrow> rat \<Rightarrow> attached_node list \<Rightarrow> expansion_state \<Rightarrow> expansion_state" where
  "process_ontology_nodes args w nodes st =
     foldl (\<lambda>st n. case an_category n of
                      Classes \<Rightarrow> ontology_class args w (an_name n) st
                    | Individuals \<Rightarrow> ontology_individual args w (an_name n) st) st nodes"

definition ontology_endpoint_id :: "sweep_env \<Rightarrow> attached_node list \<Rightarrow> ustr \<Rightarrow> uuid" where
  "ontology_endpoint_id env nodes name =
     (let is_class = map_of (rev (map (\<lambda>n. (generate_edge_name env (an_name n), an_category n = Classes)) nodes))
      in if or_default (is_class (generate_edge_name env name)) False
         then entity_type_id_for env name else entity_id_for env name)"

definition edge_string :: "sweep_env \<Rightarrow> edge_id \<Rightarrow> ustr" where
  "edge_string env k = (case k of (s, t, r) \<Rightarrow> se_show env s @ [0x5F] @ se_show env t @ [0x5F] @ r)"

definition ontology_edge_pair ::
    "expand_args \<Rightarrow> attached_node list \<Rightarrow> expansion_state \<Rightarrow> ontology_edge \<Rightarrow> expansion_state" where
  "ontology_edge_pair args nodes st e =
     (case e of (source, relation, target) \<Rightarrow>
        let env = xa_env args;
            s = ontology_endpoint_id env nodes source; t = ontology_endpoint_id env nodes target;
            rel = generate_edge_name env relation; key = edge_string env (s, t, rel)
        in if key \<in> xa_existing args \<or> key \<in> ex_ontology_keys st then st
           else st\<lparr>ex_ontology_keys := insert key (ex_ontology_keys st),
                   ex_ontology_edges := ex_ontology_edges st @
                     [add_property ''target_node_id'' (se_show env t)
                       (add_property ''source_node_id'' (se_show env s)
                       (add_property ''relationship_name'' rel
                       (add_property ''ontology_valid'' (ascii ''true'') (edge_pair_new s t rel))))]\<rparr>)"

definition process_ontology_edges ::
    "expand_args \<Rightarrow> attached_node list \<Rightarrow> ontology_edge list \<Rightarrow> expansion_state \<Rightarrow> expansion_state" where
  "process_ontology_edges args nodes edges st = foldl (ontology_edge_pair args nodes) st edges"

section \<open>One extracted node\<close>

definition insert_type :: "ustr \<Rightarrow> entity_type \<Rightarrow> expansion_state \<Rightarrow> expansion_state" where
  "insert_type key et st = st\<lparr>ex_type_map := hash_insert key et (ex_type_map st)\<rparr>"

text \<open>The type a node names for the first time, renamed to what the ontology calls it.\<close>

definition canonical_type :: "expand_args \<Rightarrow> ustr \<Rightarrow> entity_type \<Rightarrow> entity_type" where
  "canonical_type args canonical et =
     (let et = mark_ontology_valid (xa_now args) (Some canonical) et
      in et\<lparr>et_base := (et_base et)\<lparr>dp_id := entity_type_id_for (xa_env args) canonical\<rparr>\<rparr>)"

definition new_entity_type ::
    "expand_args \<Rightarrow> rat \<Rightarrow> ustr \<Rightarrow> ustr \<Rightarrow> ustr \<Rightarrow> expansion_state \<Rightarrow> expansion_state" where
  "new_entity_type args w raw_type type_key effective_key st =
     (let env = xa_env args;
          et = entity_type_from_node_type env (xa_now args) (xa_fresh args)
                 (generate_node_name env raw_type) (Some (xa_dataset args))
      in case pre_stamp_extraction args (set_weight w (et_base et)) (ex_visited st) of
           (base, visited) \<Rightarrow>
             let et = et\<lparr>et_base := base\<rparr>; st = st\<lparr>ex_visited := visited\<rparr>
             in if xa_is_loaded args then
                  (case xa_subgraph args raw_type (ascii ''classes'') of
                     Inr (nodes, edges, Some matched) \<Rightarrow>
                       let canonical = generate_node_name env (an_name matched);
                           et = canonical_type args canonical et;
                           new_key = type_name_key canonical;
                           st = (if new_key \<noteq> type_key
                                 then st\<lparr>ex_key_mapping := (ex_key_mapping st)(type_key \<mapsto> new_key)\<rparr> else st);
                           st = process_ontology_nodes args w nodes st;
                           st = process_ontology_edges args (nodes @ [matched]) edges st
                       in insert_type (if new_key \<noteq> type_key then new_key else effective_key) et st
                   | Inr (_, _, None) \<Rightarrow> insert_type effective_key et st
                   | Inl _ \<Rightarrow> insert_type effective_key et st)
                else insert_type effective_key et st)"

definition resolve_entity_type ::
    "expand_args \<Rightarrow> rat \<Rightarrow> ustr \<Rightarrow> expansion_state \<Rightarrow> (entity_type option \<times> expansion_state) option" where
  "resolve_entity_type args w raw_type st =
     (let normalized = generate_node_name (xa_env args) raw_type in
      if trim normalized = [] then Some (None, st)
      else let type_key = type_name_key normalized;
               effective_key = or_default (ex_key_mapping st type_key) type_key;
               st = (if map_of (ex_type_map st) effective_key = None
                     then new_entity_type args w raw_type type_key effective_key st else st);
               resolved_key = or_default (ex_key_mapping st type_key) type_key
           in map_option (\<lambda>et. (Some et, st)) (map_of (ex_type_map st) resolved_key))"

definition add_node_sets :: "json list \<Rightarrow> data_point \<Rightarrow> data_point" where
  "add_node_sets sets dp =
     dp\<lparr>dp_belongs_to_set := Some (foldl (\<lambda>xs s. push_new s xs) (or_default (dp_belongs_to_set dp) []) sets)\<rparr>"

definition create_entity_node ::
    "expand_args \<Rightarrow> kg_node \<Rightarrow> uuid \<Rightarrow> entity_type option \<Rightarrow> uuid \<Rightarrow> rat \<Rightarrow> node_pair" where
  "create_entity_node args n entity_id et chunk w =
     (let env = xa_env args; now = xa_now args;
          e = entity_new env now (xa_fresh args) (generate_node_name env (kn_name n))
                (map_option (\<lambda>t. dp_id (et_base t)) et) (kn_description n) (Some (xa_dataset args));
          base = (en_base e)\<lparr>dp_id := entity_id\<rparr>;
          base = set_metadata now ''original_node_id'' (JStr (kn_id n)) base;
          base = set_metadata now ''chunk_id'' (JStr (se_show env chunk)) base;
          base = set_weight w base;
          base = (case xa_node_sets args chunk of None \<Rightarrow> base | Some sets \<Rightarrow> add_node_sets sets base)
      in \<lparr>np_entity = e\<lparr>en_base := base\<rparr>, np_type = et\<rparr>)"

definition canonical_entity :: "expand_args \<Rightarrow> ustr \<Rightarrow> entity \<Rightarrow> entity" where
  "canonical_entity args canonical e =
     (let now = xa_now args;
          base = set_metadata now ''original_name'' (JStr (en_name e)) (en_base e);
          base = base\<lparr>dp_id := entity_id_for (xa_env args) canonical\<rparr>
      in e\<lparr>en_name := canonical, en_base := set_ontology_valid now True base\<rparr>)"

text \<open>What the ontology says about an individual: its canonical name and the graph around it.\<close>

definition individual_match :: "expand_args \<Rightarrow> ustr \<Rightarrow> (ustr \<times> attached_node list \<times> ontology_edge list) option" where
  "individual_match args name =
     (if xa_is_loaded args then
        (case xa_subgraph args name (ascii ''individuals'') of
           Inr (nodes, edges, Some matched) \<Rightarrow> Some (generate_node_name (xa_env args) (an_name matched), nodes, edges)
         | Inr (_, _, None) \<Rightarrow> None
         | Inl _ \<Rightarrow> None)
      else None)"

definition new_entity ::
    "expand_args \<Rightarrow> rat \<Rightarrow> nat \<Rightarrow> uuid \<Rightarrow> kg_node \<Rightarrow> uuid \<Rightarrow> entity_type option \<Rightarrow> expansion_state \<Rightarrow> expansion_state" where
  "new_entity args w position chunk n entity_id et st =
     (let env = xa_env args; pair = create_entity_node args n entity_id et chunk w
      in case pre_stamp_extraction args (en_base (np_entity pair)) (ex_visited st) of
           (base, visited) \<Rightarrow>
             let e = (np_entity pair)\<lparr>en_base := base\<rparr>;
                 found = individual_match args (kn_name n);
                 e = (case found of None \<Rightarrow> e | Some (canonical, _, _) \<Rightarrow> canonical_entity args canonical e);
                 final = dp_id (en_base e);
                 id_key = xa_norm args (kn_id n);
                 st = st\<lparr>ex_visited := visited,
                         ex_by_name := register_name_alias (xa_norm args) (en_name e) final id_key position
                           (register_name_alias (xa_norm args) (kn_name n) final id_key position (ex_by_name st)),
                         ex_by_id := (ex_by_id st)(id_key \<mapsto> (final, position)),
                         ex_node_map := hash_insert (entity_key env entity_id) (pair\<lparr>np_entity := e\<rparr>) (ex_node_map st)\<rparr>
             in case found of
                  None \<Rightarrow> st
                | Some (_, nodes, edges) \<Rightarrow>
                    process_ontology_edges args nodes edges (process_ontology_nodes args w nodes st))"

text \<open>A declaration of a node id: the first for this entity, or one that moves the origin on.\<close>

definition declare_node_id ::
    "expand_args \<Rightarrow> nat \<Rightarrow> kg_node \<Rightarrow> uuid \<Rightarrow> expansion_state \<Rightarrow> expansion_state" where
  "declare_node_id args position n entity_id st =
     (let id_key = xa_norm args (kn_id n);
          st' = st\<lparr>ex_by_id := (ex_by_id st)(id_key \<mapsto> (entity_id, position))\<rparr>
      in case ex_by_id st id_key of
           Some (e, _) \<Rightarrow>
             if e = entity_id then st'
             else st'\<lparr>ex_by_name := register_name_alias (xa_norm args) (kn_name n) entity_id id_key position (ex_by_name st)\<rparr>
         | None \<Rightarrow>
             st'\<lparr>ex_by_name := register_name_alias (xa_norm args) (kn_name n) entity_id id_key position (ex_by_name st)\<rparr>)"

definition refresh_names :: "expand_args \<Rightarrow> nat \<Rightarrow> ustr list \<Rightarrow> uuid \<Rightarrow> expansion_state \<Rightarrow> expansion_state" where
  "refresh_names args position names entity_id st =
     st\<lparr>ex_by_name := foldl (\<lambda>al name. refresh_name_alias_origin (xa_norm args) name entity_id position al)
         (ex_by_name st) names\<rparr>"

definition expand_entity ::
    "expand_args \<Rightarrow> rat \<Rightarrow> nat \<Rightarrow> uuid \<Rightarrow> (ustr \<rightharpoonup> uuid) \<Rightarrow> kg_node \<Rightarrow> expansion_state \<Rightarrow> expansion_state option" where
  "expand_entity args w position chunk ids n st =
     Option.bind (resolve_entity_type args w (kn_type n) st) (\<lambda>(et, st).
     Option.bind (ids (kn_id n)) (\<lambda>entity_id.
       let key = entity_key (xa_env args) entity_id;
           st = (if map_of (ex_node_map st) key = None
                 then new_entity args w position chunk n entity_id et st else st)
       in map_option (\<lambda>pair.
            let final = dp_id (en_base (np_entity pair));
                st = declare_node_id args position n final st;
                st = refresh_names args position [kn_name n, en_name (np_entity pair)] final st
            in st\<lparr>ex_producers := record_entity final chunk (ex_producers st)\<rparr>)
            (map_of (ex_node_map st) key)))"

definition insert_timestamp ::
    "expand_args \<Rightarrow> rat \<Rightarrow> kg_node \<Rightarrow> timestamp \<Rightarrow> expansion_state \<Rightarrow> expansion_state" where
  "insert_timestamp args w n ts st =
     (let timestamp_id = dp_id (ti_base ts)
      in if map_of (ex_timestamps st) timestamp_id \<noteq> None then st
         else case pre_stamp_extraction args (set_weight w (ti_base ts)) (ex_visited st) of
                (base, visited) \<Rightarrow>
                  st\<lparr>ex_visited := visited,
                     ex_timestamps := ex_timestamps st @
                       [(timestamp_id, \<lparr>tn_timestamp = ts\<lparr>ti_base := base\<rparr>, tn_description = kn_description n\<rparr>)]\<rparr>)"

definition expand_timestamp ::
    "expand_args \<Rightarrow> rat \<Rightarrow> nat \<Rightarrow> uuid \<Rightarrow> kg_node \<Rightarrow> timestamp \<Rightarrow> expansion_state \<Rightarrow> expansion_state" where
  "expand_timestamp args w position chunk n ts st =
     (let timestamp_id = dp_id (ti_base ts);
          st = insert_timestamp args w n ts st;
          id_key = xa_norm args (kn_id n);
          aliases = register_name_alias (xa_norm args) (kn_name n) timestamp_id id_key position (ex_by_name st);
          aliases = (case map_of (ex_timestamps st) timestamp_id of
                       Some t \<Rightarrow> register_name_alias (xa_norm args) (ti_timestamp_str (tn_timestamp t))
                                   timestamp_id id_key position aliases
                     | None \<Rightarrow> aliases);
          known = (case ex_by_id st id_key of Some (e, _) \<Rightarrow> e = timestamp_id | None \<Rightarrow> False)
      in st\<lparr>ex_by_id := (ex_by_id st)(id_key \<mapsto> (timestamp_id, position)),
            ex_by_name := (if known
              then refresh_name_alias_origin (xa_norm args) (kn_name n) timestamp_id position (ex_by_name st)
              else aliases),
            ex_producers := record_entity timestamp_id chunk (ex_producers st)\<rparr>)"

definition expand_node ::
    "expand_args \<Rightarrow> rat \<Rightarrow> nat \<Rightarrow> uuid \<Rightarrow> (ustr \<rightharpoonup> uuid) \<Rightarrow> expansion_state \<Rightarrow> kg_node \<Rightarrow> expansion_state option" where
  "expand_node args w position chunk ids st n =
     (case (if is_timestamp_type (xa_env args) (kn_type n)
            then timestamp_from_text (xa_env args) (xa_now args) (xa_fresh args) (kn_name n) else None) of
        Some ts \<Rightarrow> Some (expand_timestamp args w position chunk n ts st)
      | None \<Rightarrow> expand_entity args w position chunk ids n st)"

fun expand_nodes ::
    "expand_args \<Rightarrow> rat \<Rightarrow> nat \<Rightarrow> uuid \<Rightarrow> (ustr \<rightharpoonup> uuid) \<Rightarrow> kg_node list \<Rightarrow> expansion_state \<Rightarrow> expansion_state option" where
  "expand_nodes args w position chunk ids [] st = Some st"
| "expand_nodes args w position chunk ids (n # ns) st =
     Option.bind (expand_node args w position chunk ids st n) (expand_nodes args w position chunk ids ns)"

section \<open>One extracted edge\<close>

definition edge_fact :: "kg_edge \<Rightarrow> ustr" where
  "edge_fact e = (case ke_description e of None \<Rightarrow> [] | Some d \<Rightarrow> trim d)"

definition extracted_edge_pair :: "sweep_env \<Rightarrow> edge_id \<Rightarrow> kg_edge \<Rightarrow> edge_pair" where
  "extracted_edge_pair env k e =
     (case k of (s, t, r) \<Rightarrow>
        add_property ''edge_text'' (edge_fact e)
          (add_property ''ontology_valid'' (ascii ''false'')
          (add_property ''target_node_id'' (se_show env t)
          (add_property ''source_node_id'' (se_show env s)
          (add_property ''relationship_name'' r (edge_pair_new s t r))))))"

definition count_resolution :: "nat \<Rightarrow> endpoint_resolution \<Rightarrow> resolution_stats \<Rightarrow> resolution_stats" where
  "count_resolution position r s =
     (case r of
        ById _ origin \<Rightarrow> record_resolved_by_id origin position s
      | ByName _ origin \<Rightarrow> record_resolved_by_name origin position s
      | Ambiguous \<Rightarrow> s\<lparr>rs_ambiguous := rs_ambiguous s + 1\<rparr>
      | Missing \<Rightarrow> s)"

definition resolved_entity :: "endpoint_resolution \<Rightarrow> uuid option" where
  "resolved_entity r = (case r of ById e _ \<Rightarrow> Some e | ByName e _ \<Rightarrow> Some e | _ \<Rightarrow> None)"

text \<open>Both ends of an edge, or \<^const>\<open>None\<close> where it is dropped, with the tally. The target is
  looked at only when the source resolved.\<close>

definition resolve_edge ::
    "expand_args \<Rightarrow> nat \<Rightarrow> id_registry \<Rightarrow> alias_registry \<Rightarrow> kg_edge \<Rightarrow> resolution_stats
      \<Rightarrow> (uuid \<times> uuid) option \<times> resolution_stats" where
  "resolve_edge args position by_id by_name e stats =
     (let stats = stats\<lparr>rs_attempted := rs_attempted stats + 1\<rparr>;
          src = resolve_endpoint (xa_norm args) by_id by_name (ke_source e);
          stats = count_resolution position src stats
      in case resolved_entity src of
           None \<Rightarrow> (None, if src = Missing then stats\<lparr>rs_source_missing := rs_source_missing stats + 1\<rparr> else stats)
         | Some s \<Rightarrow>
             (let tgt = resolve_endpoint (xa_norm args) by_id by_name (ke_target e);
                  stats = count_resolution position tgt stats
              in case resolved_entity tgt of
                   None \<Rightarrow> (None, if tgt = Missing then stats\<lparr>rs_target_missing := rs_target_missing stats + 1\<rparr> else stats)
                 | Some t \<Rightarrow> (Some (s, t), stats)))"

text \<open>Timestamps are leaves.\<close>

definition orient :: "(uuid \<Rightarrow> bool) \<Rightarrow> uuid \<times> uuid \<Rightarrow> (uuid \<times> uuid) option" where
  "orient is_timestamp st =
     (case st of (s, t) \<Rightarrow>
        if is_timestamp s \<and> is_timestamp t then None
        else if is_timestamp s then Some (t, s) else Some (s, t))"

definition insert_vacant :: "'k \<Rightarrow> 'v \<Rightarrow> ('k \<times> 'v) list \<Rightarrow> ('k \<times> 'v) list" where
  "insert_vacant k v m = (if map_of m k = None then hash_insert k v m else m)"

definition add_extracted_edge ::
    "expand_args \<Rightarrow> uuid \<Rightarrow> kg_edge \<Rightarrow> uuid \<times> uuid \<Rightarrow> expansion_state \<Rightarrow> expansion_state" where
  "add_extracted_edge args chunk e ends st =
     (let env = xa_env args; key = (fst ends, snd ends, ke_relationship e);
          pair = extracted_edge_pair env key e;
          st = st\<lparr>ex_producers := record_edge key chunk (ex_producers st)\<rparr>
      in if edge_string env key \<in> xa_existing args
         then st\<lparr>ex_claimed := insert_vacant key pair (ex_claimed st)\<rparr>
         else st\<lparr>ex_edge_map := insert_vacant key pair (ex_edge_map st)\<rparr>)"

definition expand_edge ::
    "expand_args \<Rightarrow> nat \<Rightarrow> uuid \<Rightarrow> expansion_state \<Rightarrow> kg_edge \<Rightarrow> expansion_state" where
  "expand_edge args position chunk st e =
     (case resolve_edge args position (ex_by_id st) (ex_by_name st) e (ex_stats st) of
        (found, stats) \<Rightarrow>
          let st = st\<lparr>ex_stats := stats\<rparr> in
          (case Option.bind found (orient (\<lambda>i. map_of (ex_timestamps st) i \<noteq> None)) of
             None \<Rightarrow> st
           | Some ends \<Rightarrow> add_extracted_edge args chunk e ends st))"

section \<open>A pass\<close>

definition expand_graph ::
    "expand_args \<Rightarrow> nat \<Rightarrow> uuid \<times> knowledge_graph \<Rightarrow> expansion_state \<Rightarrow> expansion_state option" where
  "expand_graph args position cg st =
     (case cg of (chunk, graph) \<Rightarrow>
        let w = or_default (xa_weights args chunk) (1 / 2);
            graph = without_duplicate_node_ids graph;
            ids = entity_ids_by_node_id (xa_env args) graph chunk
        in map_option (\<lambda>st. foldl (expand_edge args position chunk) st (kg_edges graph))
             (expand_nodes args w position chunk ids (kg_nodes graph) st))"

fun expand_graphs ::
    "expand_args \<Rightarrow> nat \<Rightarrow> (uuid \<times> knowledge_graph) list \<Rightarrow> expansion_state \<Rightarrow> expansion_state option" where
  "expand_graphs args position [] st = Some st"
| "expand_graphs args position (cg # cgs) st =
     Option.bind (expand_graph args position cg st) (expand_graphs args (Suc position) cgs)"

record expansion =
  xr_nodes :: "node_pair list"
  xr_edges :: "edge_pair list"
  xr_claimed :: "edge_pair list"
  xr_producers :: artifact_producers
  xr_stats :: resolution_stats
  xr_timestamps :: "timestamp_node list"

definition ontology_type_node :: "expand_args \<Rightarrow> entity_type \<Rightarrow> node_pair" where
  "ontology_type_node args et =
     \<lparr>np_entity = entity_from_node (xa_env args) (xa_now args) (xa_fresh args) (et_name et) (et_name et)
        (ascii ''Ontology-derived type: '' @ et_name et) (dp_id (et_base et)) (Some (xa_dataset args)),
      np_type = Some et\<rparr>"

definition expansion_of :: "expand_args \<Rightarrow> expansion_state \<Rightarrow> expansion" where
  "expansion_of args st =
     \<lparr>xr_nodes = map snd (ex_node_map st) @ map (ontology_type_node args \<circ> snd) (ex_ontology_types st)
         @ map snd (ex_ontology_entities st),
      xr_edges = map snd (ex_edge_map st) @ ex_ontology_edges st,
      xr_claimed = map snd (ex_claimed st), xr_producers = ex_producers st, xr_stats = ex_stats st,
      xr_timestamps = map snd (ex_timestamps st)\<rparr>"

definition expand_extracted_graphs ::
    "expand_args \<Rightarrow> (uuid \<times> knowledge_graph) list \<Rightarrow> expansion option" where
  "expand_extracted_graphs args graphs =
     map_option (expansion_of args) (expand_graphs args 0 graphs expansion_start)"

text \<open>The view without timestamps.\<close>

definition timestamp_ids :: "expansion \<Rightarrow> uuid set" where
  "timestamp_ids x = (\<lambda>t. dp_id (ti_base (tn_timestamp t))) ` set (xr_timestamps x)"

definition untimed :: "expansion \<Rightarrow> edge_pair \<Rightarrow> bool" where
  "untimed x e \<longleftrightarrow> ep_source e \<notin> timestamp_ids x \<and> ep_target e \<notin> timestamp_ids x"

definition expand_with_nodes_and_edges_with_stats ::
    "expand_args \<Rightarrow> (uuid \<times> knowledge_graph) list
      \<Rightarrow> (node_pair list \<times> edge_pair list \<times> edge_pair list \<times> artifact_producers \<times> resolution_stats) option" where
  "expand_with_nodes_and_edges_with_stats args graphs =
     map_option (\<lambda>x. (xr_nodes x, filter (untimed x) (xr_edges x), filter (untimed x) (xr_claimed x),
                      xr_producers x, xr_stats x)) (expand_extracted_graphs args graphs)"

definition expand_with_nodes_and_edges ::
    "expand_args \<Rightarrow> (uuid \<times> knowledge_graph) list
      \<Rightarrow> (node_pair list \<times> edge_pair list \<times> edge_pair list \<times> artifact_producers) option" where
  "expand_with_nodes_and_edges args graphs =
     map_option (\<lambda>(ns, es, cs, ps, _). (ns, es, cs, ps)) (expand_with_nodes_and_edges_with_stats args graphs)"

section \<open>Before and after a pass\<close>

definition collect_distinct_candidate_edges :: "sweep_env \<Rightarrow> knowledge_graph list \<Rightarrow> edge_id list" where
  "collect_distinct_candidate_edges env graphs =
     foldl (\<lambda>ks k. push_new k ks) []
       (map (\<lambda>e. (entity_id_for env (ke_source e), entity_id_for env (ke_target e), ke_relationship e))
         (concat (map kg_edges graphs)))"

text \<open>\<open>ask\<close> stands for \<open>has_edges\<close> of the graph database: it returns those of the asked edges that exist, or fails.\<close>

definition retrieve_existing_edges ::
    "sweep_env \<Rightarrow> (edge_id list \<Rightarrow> ustr + edge_id list) \<Rightarrow> knowledge_graph list \<Rightarrow> ustr + ustr set" where
  "retrieve_existing_edges env ask graphs =
     (let asked = collect_distinct_candidate_edges env graphs
      in if asked = [] then Inr {}
         else map_sum id (\<lambda>es. edge_string env ` set es) (ask asked))"

text \<open>Later entries overwrite earlier ones; the order of the result is that of a hash map.\<close>

definition deduplicate_nodes_and_edges ::
    "node_pair list \<Rightarrow> edge_pair list \<Rightarrow> node_pair list \<times> edge_pair list" where
  "deduplicate_nodes_and_edges nodes edges =
     (map snd (foldl (\<lambda>m n. hash_insert (dp_id (en_base (np_entity n))) n m) [] nodes),
      map snd (foldl (\<lambda>m e. hash_insert (dedup_key e) e m) [] edges))"

end
