(* ===== verification/Expand_Props.thy ===== *)
theory Expand_Props
  imports Graph_Expand
begin

text \<open>What an expansion pass guarantees.\<close>

section \<open>What the ontology leaves alone\<close>

definition frame where
  "frame st = (ex_node_map st, ex_edge_map st, ex_claimed st, ex_producers st, ex_by_id st,
     ex_by_name st, ex_timestamps st, ex_stats st)"

definition types where "types st = (ex_type_map st, ex_key_mapping st)"

lemma frame_ontology_class:
  "frame (ontology_class args w name st) = frame st \<and> types (ontology_class args w name st) = types st"
  by (simp add: ontology_class_def Let_def frame_def types_def split: prod.split)

lemma frame_ontology_individual:
  "frame (ontology_individual args w name st) = frame st \<and> types (ontology_individual args w name st) = types st"
  by (simp add: ontology_individual_def Let_def frame_def types_def split: prod.split)

lemma frame_process_nodes:
  "frame (process_ontology_nodes args w nodes st) = frame st
   \<and> types (process_ontology_nodes args w nodes st) = types st"
  unfolding process_ontology_nodes_def
  by (induction nodes arbitrary: st)
    (simp_all add: frame_ontology_class frame_ontology_individual split: node_category.split)

lemma frame_process_edges:
  "frame (process_ontology_edges args nodes edges st) = frame st
   \<and> types (process_ontology_edges args nodes edges st) = types st"
  unfolding process_ontology_edges_def
  by (induction edges arbitrary: st)
    (auto simp: ontology_edge_pair_def Let_def frame_def types_def split: prod.splits)

lemma process_ontology_selectors [simp]:
  "ex_node_map (process_ontology_nodes args w nodes st) = ex_node_map st"
  "ex_type_map (process_ontology_nodes args w nodes st) = ex_type_map st"
  "ex_key_mapping (process_ontology_nodes args w nodes st) = ex_key_mapping st"
  "ex_node_map (process_ontology_edges args nodes edges st) = ex_node_map st"
  "ex_type_map (process_ontology_edges args nodes edges st) = ex_type_map st"
  "ex_key_mapping (process_ontology_edges args nodes edges st) = ex_key_mapping st"
  using frame_process_nodes [of args w nodes st] frame_process_edges [of args nodes edges st]
  by (simp_all add: frame_def types_def)

lemma frame_insert_type [simp]: "frame (insert_type k et st) = frame st"
  by (simp add: insert_type_def frame_def)

lemma frame_updates [simp]:
  "frame (st\<lparr>ex_visited := v\<rparr>) = frame st" "frame (st\<lparr>ex_key_mapping := m\<rparr>) = frame st"
  by (simp_all add: frame_def)

lemma frame_new_entity_type: "frame (new_entity_type args w raw tk ek st) = frame st"
  by (simp add: new_entity_type_def Let_def frame_process_nodes frame_process_edges
      split: prod.split sum.split option.split)

lemma frame_resolve_entity_type:
  "resolve_entity_type args w raw st = Some (et, st') \<Longrightarrow> frame st' = frame st"
  by (auto simp: resolve_entity_type_def Let_def frame_new_entity_type split: if_splits)

section \<open>No lookup fails\<close>

definition types_ok :: "expansion_state \<Rightarrow> bool" where
  "types_ok st \<longleftrightarrow> (\<forall>k v. ex_key_mapping st k = Some v \<longrightarrow> map_of (ex_type_map st) v \<noteq> None)"

lemma types_ok_new_entity_type:
  assumes "types_ok st" "ek = or_default (ex_key_mapping st tk) tk"
  shows "types_ok (new_entity_type args w raw tk ek st)
    \<and> map_of (ex_type_map (new_entity_type args w raw tk ek st))
        (or_default (ex_key_mapping (new_entity_type args w raw tk ek st) tk) tk) \<noteq> None"
  using assms
  by (auto simp: new_entity_type_def Let_def types_ok_def insert_type_def or_default_def
      split: prod.split sum.split option.splits if_splits)

lemma resolve_entity_type_total:
  assumes "types_ok st"
  shows "\<exists>et st'. resolve_entity_type args w raw st = Some (et, st') \<and> types_ok st'"
proof -
  let ?tk = "type_name_key (generate_node_name (xa_env args) raw)"
  let ?ek = "or_default (ex_key_mapping st ?tk) ?tk"
  show ?thesis
    using assms types_ok_new_entity_type [OF assms refl, of args w raw ?tk]
    by (cases "map_of (ex_type_map st) ?ek")
      (auto simp: resolve_entity_type_def Let_def)
qed

lemma ids_of_group_dom: "fst ` set (ids_of_group env chunk k same) = kn_id ` set same"
proof -
  have "map fst (map (\<lambda>(i, n). (kn_id n, f i n)) (enumerate k xs)) = map kn_id xs"
    for f :: "nat \<Rightarrow> kg_node \<Rightarrow> uuid" and xs k
    by (induction xs arbitrary: k) simp_all
  then have "fst ` set (map (\<lambda>(i, n). (kn_id n, ordinal_id env chunk n (i + 1))) (enumerate 0 xs))
      = kn_id ` set xs" for xs
    by (simp only: list.set_map [symmetric])
  note all = this [of "sort_key (ordinal_key env) same"]
  show ?thesis
  proof (cases "\<exists>only. same = [only]")
    case True
    then show ?thesis by (auto simp: ids_of_group_def)
  next
    case False
    then have "ids_of_group env chunk k same = map (\<lambda>(i, n). (kn_id n, ordinal_id env chunk n (i + 1)))
        (enumerate 0 (sort_key (ordinal_key env) same))"
      by (cases same; cases "tl same"; simp add: ids_of_group_def)
    then show ?thesis using all by (simp only: set_sort)
  qed
qed

lemma entity_ids_cover:
  assumes "n \<in> set (kg_nodes g)"
  shows "entity_ids_by_node_id env g chunk (kn_id n) \<noteq> None"
proof -
  let ?k = "entity_id_for env (kn_name n)"
  have "n \<in> set (name_group env (kg_nodes g) ?k)" using assms by (simp add: name_group_def)
  then have "kn_id n \<in> fst ` set (ids_of_group env chunk ?k (name_group env (kg_nodes g) ?k))"
    by (simp add: ids_of_group_dom)
  with assms have "kn_id n \<in> fst ` set (concat (map (\<lambda>k. ids_of_group env chunk k (name_group env (kg_nodes g) k))
      (remdups (map (\<lambda>n. entity_id_for env (kn_name n)) (kg_nodes g)))))"
    by auto
  then show ?thesis unfolding entity_ids_by_node_id_def map_of_eq_None_iff by simp
qed

lemma new_entity_stores:
  "map_of (ex_node_map (new_entity args w pos chunk n i et st)) (entity_key (xa_env args) i) \<noteq> None"
  by (simp add: new_entity_def Let_def split: prod.split option.split)

lemma new_entity_types:
  "types (new_entity args w pos chunk n i et st) = types st"
  by (simp add: new_entity_def Let_def frame_process_nodes frame_process_edges split: prod.split option.split)
    (simp add: types_def)

lemma types_updates [simp]:
  "types (declare_node_id args pos n i st) = types st" "types (refresh_names args pos names i st) = types st"
  "types (st\<lparr>ex_producers := p\<rparr>) = types st" "types (expand_timestamp args w pos chunk n ts st) = types st"
  "types (expand_edge args pos chunk st e) = types st"
  by (simp_all add: types_def declare_node_id_def refresh_names_def expand_timestamp_def insert_timestamp_def
      expand_edge_def add_extracted_edge_def Let_def split: option.split prod.split)

lemma types_ok_types: "types st = types st' \<Longrightarrow> types_ok st = types_ok st'"
  by (simp add: types_def types_ok_def)

lemma expand_node_total:
  assumes "types_ok st" "ids (kn_id n) \<noteq> None"
  shows "\<exists>st'. expand_node args w pos chunk ids st n = Some st' \<and> types_ok st'"
proof -
  obtain et st1 where r: "resolve_entity_type args w (kn_type n) st = Some (et, st1)" "types_ok st1"
    using resolve_entity_type_total [OF assms(1)] by blast
  obtain i where i: "ids (kn_id n) = Some i" using assms(2) by blast
  let ?st2 = "if map_of (ex_node_map st1) (entity_key (xa_env args) i) = None
    then new_entity args w pos chunk n i et st1 else st1"
  obtain pair where pair: "map_of (ex_node_map ?st2) (entity_key (xa_env args) i) = Some pair"
    using new_entity_stores [of args w pos chunk n i et st1] by force
  have "types ?st2 = types st1" by (simp add: new_entity_types)
  then have "\<exists>st'. expand_entity args w pos chunk ids n st = Some st' \<and> types_ok st'"
    using r i pair by (auto simp: expand_entity_def Let_def intro: types_ok_types [THEN iffD2])
  moreover have "types_ok (expand_timestamp args w pos chunk n ts st)" for ts
    using assms(1) types_ok_types [of "expand_timestamp args w pos chunk n ts st" st] by simp
  ultimately show ?thesis by (simp add: expand_node_def split: option.split)
qed

lemma expand_nodes_total:
  assumes "types_ok st" "\<forall>n \<in> set ns. ids (kn_id n) \<noteq> None"
  shows "\<exists>st'. expand_nodes args w pos chunk ids ns st = Some st' \<and> types_ok st'"
  using assms
proof (induction ns arbitrary: st)
  case (Cons n ns)
  then obtain st1 where "expand_node args w pos chunk ids st n = Some st1" "types_ok st1"
    using expand_node_total [of st ids n args w pos chunk] by auto
  with Cons show ?case by simp
qed simp

lemma types_ok_edges: "types (foldl (expand_edge args pos chunk) st es) = types st"
  by (induction es arbitrary: st) simp_all

lemma expand_graphs_total:
  assumes "types_ok st"
  shows "\<exists>st'. expand_graphs args pos cgs st = Some st'"
  using assms
proof (induction cgs arbitrary: pos st)
  case (Cons cg cgs)
  obtain chunk g where cg: "cg = (chunk, g)" by fastforce
  let ?g = "without_duplicate_node_ids g"
  obtain st1 where "expand_nodes args (or_default (xa_weights args chunk) (1 / 2)) pos chunk
      (entity_ids_by_node_id (xa_env args) ?g chunk) (kg_nodes ?g) st = Some st1" "types_ok st1"
    using expand_nodes_total [OF Cons.prems, of "kg_nodes ?g"] entity_ids_cover by blast
  then have "\<exists>st2. expand_graph args pos cg st = Some st2 \<and> types_ok st2"
    using types_ok_types [OF types_ok_edges] by (auto simp: expand_graph_def cg Let_def)
  with Cons.IH show ?case by fastforce
qed simp

text \<open>C13: A pass never panics: each of its three \<open>expect\<close>s (the entity type after it was inserted
  or remapped by the ontology, the id of a node of the graph, the entity after the vacant check)
  finds its entry, whatever graphs were extracted and whatever the ontology answers.\<close>

theorem expansion_never_panics: "\<exists>x. expand_extracted_graphs args graphs = Some x"
  using expand_graphs_total [of expansion_start args 0 graphs]
  by (auto simp: expand_extracted_graphs_def types_ok_def expansion_start_def)

section \<open>Invariants of a pass\<close>

text \<open>A property of the state that every node and every edge keeps; \<open>p\<close> is the number of graphs
  that have been begun.\<close>

locale pass_invariant =
  fixes args :: expand_args and I :: "nat \<Rightarrow> expansion_state \<Rightarrow> bool"
  assumes start: "I 0 expansion_start"
    and enter: "I p st \<Longrightarrow> I (Suc p) st"
    and node: "I (Suc p) st
      \<Longrightarrow> expand_node args w p chunk (entity_ids_by_node_id (xa_env args) g chunk) st n = Some st'
      \<Longrightarrow> I (Suc p) st'"
    and edge: "I (Suc p) st \<Longrightarrow> I (Suc p) (expand_edge args p chunk st e)"
begin

lemma nodes:
  "I (Suc p) st \<Longrightarrow> expand_nodes args w p chunk (entity_ids_by_node_id (xa_env args) g chunk) ns st = Some st'
    \<Longrightarrow> I (Suc p) st'"
proof (induction ns arbitrary: st)
  case (Cons n ns)
  then obtain st1 where st1: "expand_node args w p chunk (entity_ids_by_node_id (xa_env args) g chunk) st n = Some st1"
    "expand_nodes args w p chunk (entity_ids_by_node_id (xa_env args) g chunk) ns st1 = Some st'"
    by (auto simp: bind_eq_Some_conv)
  from node [OF Cons.prems(1) st1(1)] st1(2) show ?case by (rule Cons.IH)
qed simp

lemma edges: "I (Suc p) st \<Longrightarrow> I (Suc p) (foldl (expand_edge args p chunk) st es)"
  by (induction es arbitrary: st) (simp_all add: edge)

lemma graph:
  assumes "I p st" "expand_graph args p cg st = Some st'"
  shows "I (Suc p) st'"
proof -
  obtain chunk g where cg: "cg = (chunk, g)" by fastforce
  let ?g = "without_duplicate_node_ids g"
  obtain st1 where st1: "expand_nodes args (or_default (xa_weights args chunk) (1 / 2)) p chunk
      (entity_ids_by_node_id (xa_env args) ?g chunk) (kg_nodes ?g) st = Some st1"
    and st': "st' = foldl (expand_edge args p chunk) st1 (kg_edges ?g)"
    using assms(2) by (auto simp: expand_graph_def Let_def cg)
  show ?thesis unfolding st' by (rule edges [OF nodes [OF enter [OF assms(1)] st1]])
qed

lemma graphs: "I p st \<Longrightarrow> expand_graphs args p cgs st = Some st' \<Longrightarrow> I (p + length cgs) st'"
proof (induction cgs arbitrary: p st)
  case (Cons cg cgs)
  then obtain st1 where st1: "expand_graph args p cg st = Some st1" "expand_graphs args (Suc p) cgs st1 = Some st'"
    by (auto simp: bind_eq_Some_conv)
  from Cons.IH [OF graph [OF Cons.prems(1) st1(1)] st1(2)] show ?case by simp
qed simp

lemma pass:
  assumes "expand_extracted_graphs args cgs = Some x"
  shows "\<exists>st. x = expansion_of args st \<and> I (length cgs) st"
  using assms graphs [OF start, of cgs] by (auto simp: expand_extracted_graphs_def)

end

section \<open>Ends of edges\<close>

definition point_of :: "node_pair \<Rightarrow> uuid" where
  "point_of p = dp_id (en_base (np_entity p))"

definition node_ids :: "expansion_state \<Rightarrow> uuid set" where
  "node_ids st = (point_of \<circ> snd) ` set (ex_node_map st)"

definition time_ids :: "expansion_state \<Rightarrow> uuid set" where
  "time_ids st = fst ` set (ex_timestamps st)"

definition id_targets :: "id_registry \<Rightarrow> uuid set" where
  "id_targets m = {e. \<exists>k origin. m k = Some (e, origin)}"

definition alias_targets :: "alias_registry \<Rightarrow> uuid set" where
  "alias_targets m = {e. \<exists>k origin. m k = Some (Some (e, origin))}"

definition registered :: "expansion_state \<Rightarrow> uuid set" where
  "registered st = id_targets (ex_by_id st) \<union> alias_targets (ex_by_name st)"

lemma alias_targets_register:
  "alias_targets (register_name_alias normal name e idk pos m) \<subseteq> insert e (alias_targets m)"
  by (auto simp: register_name_alias_def alias_targets_def Let_def split: option.splits if_splits)

lemma alias_targets_refresh:
  "alias_targets (refresh_name_alias_origin normal name e pos m) \<subseteq> alias_targets m"
  by (auto simp: refresh_name_alias_origin_def alias_targets_def Let_def split: option.splits if_splits)

lemma alias_targets_refresh_all:
  "alias_targets (foldl (\<lambda>al name. refresh_name_alias_origin normal name e pos al) m names) \<subseteq> alias_targets m"
proof (induction names arbitrary: m)
  case (Cons name names)
  from order_trans [OF Cons alias_targets_refresh] show ?case by simp
qed simp

lemma id_targets_update: "id_targets (m(k \<mapsto> (e, pos))) \<subseteq> insert e (id_targets m)"
  by (auto simp: id_targets_def split: if_splits)

lemma set_hash_insert_new:
  assumes "map_of m k = None"
  shows "set (hash_insert k v m) = insert (k, v) (set m)"
proof -
  have "filter (\<lambda>(k', _). k' \<noteq> k) m = m"
    using assms by (auto simp: filter_id_conv map_of_eq_None_iff image_iff)
  then show ?thesis by (simp add: hash_insert_def)
qed

text \<open>What a node step does to nodes, timestamps and registries.\<close>

lemma pre_stamp_id [simp]: "dp_id (fst (pre_stamp_extraction args dp visited)) = dp_id dp"
  by (simp add: pre_stamp_extraction_def split: prod.split)

definition final_id :: "expand_args \<Rightarrow> kg_node \<Rightarrow> uuid \<Rightarrow> uuid" where
  "final_id args n i =
     (case individual_match args (kn_name n) of
        None \<Rightarrow> i | Some (canonical, _, _) \<Rightarrow> entity_id_for (xa_env args) canonical)"

lemma point_simps [simp]:
  "dp_id (set_metadata now k v dp) = dp_id dp" "dp_id (set_weight w dp) = dp_id dp"
  "dp_id (add_node_sets js dp) = dp_id dp" "dp_id (set_ontology_valid now b dp) = dp_id dp"
  by (simp_all add: set_metadata_def set_weight_def add_node_sets_def set_ontology_valid_def touch_def)

lemma create_entity_node_id: "dp_id (en_base (np_entity (create_entity_node args n i et chunk w))) = i"
  by (simp add: create_entity_node_def Let_def split: option.split)

lemma canonical_entity_id [simp]:
  "dp_id (en_base (canonical_entity args c e)) = entity_id_for (xa_env args) c"
  by (simp add: canonical_entity_def Let_def)

lemma new_entity_frame:
  "\<exists>pair. point_of pair = final_id args n i
    \<and> frame (new_entity args w pos chunk n i et st)
      = (hash_insert (entity_key (xa_env args) i) pair (ex_node_map st), ex_edge_map st, ex_claimed st,
         ex_producers st, (ex_by_id st)(xa_norm args (kn_id n) \<mapsto> (final_id args n i, pos)),
         register_name_alias (xa_norm args) (en_name (np_entity pair)) (final_id args n i) (xa_norm args (kn_id n)) pos
           (register_name_alias (xa_norm args) (kn_name n) (final_id args n i) (xa_norm args (kn_id n)) pos (ex_by_name st)),
         ex_timestamps st, ex_stats st)"
proof -
  obtain base visited where b: "pre_stamp_extraction args
      (en_base (np_entity (create_entity_node args n i et chunk w))) (ex_visited st) = (base, visited)"
    by fastforce
  have id: "dp_id base = i" using pre_stamp_id [of args _ "ex_visited st"] b create_entity_node_id
    by (metis fst_conv)
  show ?thesis
  proof (cases "individual_match args (kn_name n)")
    case None
    then show ?thesis
      by (intro exI [of _ "(create_entity_node args n i et chunk w)\<lparr>np_entity :=
            (np_entity (create_entity_node args n i et chunk w))\<lparr>en_base := base\<rparr>\<rparr>"])
        (simp add: new_entity_def Let_def b point_of_def id final_id_def frame_def)
  next
    case (Some a)
    then obtain c nodes edges where "individual_match args (kn_name n) = Some (c, nodes, edges)" by (cases a) auto
    then show ?thesis
      by (intro exI [of _ "(create_entity_node args n i et chunk w)\<lparr>np_entity :=
            canonical_entity args c ((np_entity (create_entity_node args n i et chunk w))\<lparr>en_base := base\<rparr>)\<rparr>"])
        (simp add: new_entity_def Let_def b point_of_def id final_id_def frame_process_nodes frame_process_edges,
          simp add: frame_def)
  qed
qed

lemma frame_selectors:
  assumes "frame st' = frame st"
  shows "ex_node_map st' = ex_node_map st" "ex_edge_map st' = ex_edge_map st" "ex_claimed st' = ex_claimed st"
    "ex_producers st' = ex_producers st" "ex_by_id st' = ex_by_id st" "ex_by_name st' = ex_by_name st"
    "ex_timestamps st' = ex_timestamps st" "ex_stats st' = ex_stats st"
  using assms by (simp_all add: frame_def)

definition untouched :: "expansion_state \<Rightarrow> expansion_state \<Rightarrow> bool" where
  "untouched st st' \<longleftrightarrow> ex_edge_map st' = ex_edge_map st \<and> ex_claimed st' = ex_claimed st \<and> ex_stats st' = ex_stats st"

lemma declare_refresh_effect:
  "registered (refresh_names args pos names f (declare_node_id args pos n f st)) \<subseteq> insert f (registered st)"
proof -
  have d: "id_targets (ex_by_id (declare_node_id args pos n f st)) \<subseteq> insert f (id_targets (ex_by_id st))"
    using id_targets_update [of "ex_by_id st" "xa_norm args (kn_id n)" f pos]
    by (simp add: declare_node_id_def Let_def split: option.split prod.split)
  have a: "alias_targets (ex_by_name (declare_node_id args pos n f st)) \<subseteq> insert f (alias_targets (ex_by_name st))"
    using alias_targets_register [of "xa_norm args" "kn_name n" f "xa_norm args (kn_id n)" pos "ex_by_name st"]
    by (auto simp: declare_node_id_def Let_def split: option.split prod.split)
  have "alias_targets (ex_by_name (refresh_names args pos names f (declare_node_id args pos n f st)))
      \<subseteq> alias_targets (ex_by_name (declare_node_id args pos n f st))"
    by (simp add: refresh_names_def alias_targets_refresh_all)
  moreover have "ex_by_id (refresh_names args pos names f st1) = ex_by_id st1" for st1
    by (simp add: refresh_names_def)
  ultimately show ?thesis using d a by (auto simp: registered_def)
qed

lemma declare_refresh_keeps [simp]:
  "ex_node_map (refresh_names args pos names f (declare_node_id args pos n f st)) = ex_node_map st"
  "ex_edge_map (refresh_names args pos names f (declare_node_id args pos n f st)) = ex_edge_map st"
  "ex_claimed (refresh_names args pos names f (declare_node_id args pos n f st)) = ex_claimed st"
  "ex_producers (refresh_names args pos names f (declare_node_id args pos n f st)) = ex_producers st"
  "ex_timestamps (refresh_names args pos names f (declare_node_id args pos n f st)) = ex_timestamps st"
  "ex_stats (refresh_names args pos names f (declare_node_id args pos n f st)) = ex_stats st"
  by (simp_all add: refresh_names_def declare_node_id_def Let_def split: option.split prod.split)

lemma new_entity_effect:
  fixes args :: expand_args and st :: expansion_state
    and w :: rat and pos :: nat and chunk :: uuid and n :: kg_node and i :: uuid and et :: "entity_type option"
  assumes vacant: "map_of (ex_node_map st) (entity_key (xa_env args) i) = None"
  defines "st' \<equiv> new_entity args w pos chunk n i et st"
  shows "\<exists>p. map_of (ex_node_map st') (entity_key (xa_env args) i) = Some p \<and> point_of p = final_id args n i
    \<and> node_ids st' = insert (point_of p) (node_ids st)
    \<and> registered st' \<subseteq> insert (point_of p) (registered st)
    \<and> ex_timestamps st' = ex_timestamps st \<and> ex_producers st' = ex_producers st \<and> untouched st st'"
proof -
  obtain p where p: "point_of p = final_id args n i" and fr: "frame st'
      = (hash_insert (entity_key (xa_env args) i) p (ex_node_map st), ex_edge_map st, ex_claimed st, ex_producers st,
         (ex_by_id st)(xa_norm args (kn_id n) \<mapsto> (final_id args n i, pos)),
         register_name_alias (xa_norm args) (en_name (np_entity p)) (final_id args n i) (xa_norm args (kn_id n)) pos
           (register_name_alias (xa_norm args) (kn_name n) (final_id args n i) (xa_norm args (kn_id n)) pos (ex_by_name st)),
         ex_timestamps st, ex_stats st)"
    using new_entity_frame [of args n i w pos chunk et st] unfolding st'_def by blast
  have "id_targets (ex_by_id st') \<subseteq> insert (point_of p) (id_targets (ex_by_id st))"
    using fr p id_targets_update by (simp add: frame_def)
  moreover have "alias_targets (ex_by_name st') \<subseteq> insert (point_of p) (alias_targets (ex_by_name st))"
    using fr p
      alias_targets_register [of "xa_norm args" "kn_name n" "point_of p" "xa_norm args (kn_id n)" pos "ex_by_name st"]
      alias_targets_register [of "xa_norm args" "en_name (np_entity p)" "point_of p" "xa_norm args (kn_id n)" pos
        "register_name_alias (xa_norm args) (kn_name n) (point_of p) (xa_norm args (kn_id n)) pos (ex_by_name st)"]
    by (auto simp: frame_def)
  moreover have "node_ids st' = insert (point_of p) (node_ids st)"
    using fr set_hash_insert_new [OF vacant, of p] by (simp add: node_ids_def frame_def)
  ultimately show ?thesis using fr p
    by (intro exI [of _ p]) (auto simp: registered_def untouched_def frame_def)
qed

lemma expand_entity_effect:
  assumes "expand_entity args w pos chunk ids n st = Some st'"
  shows "\<exists>f i. ids (kn_id n) = Some i \<and> (f = final_id args n i \<or> f \<in> node_ids st)
    \<and> node_ids st' = insert f (node_ids st) \<and> registered st' \<subseteq> insert f (registered st)
    \<and> ex_timestamps st' = ex_timestamps st \<and> ex_producers st' = record_entity f chunk (ex_producers st)
    \<and> untouched st st'"
proof -
  obtain et st1 i where r: "resolve_entity_type args w (kn_type n) st = Some (et, st1)" and i: "ids (kn_id n) = Some i"
    using assms unfolding expand_entity_def by (auto simp: bind_eq_Some_conv)
  let ?key = "entity_key (xa_env args) i"
  let ?st2 = "if map_of (ex_node_map st1) ?key = None then new_entity args w pos chunk n i et st1 else st1"
  obtain pair where pair: "map_of (ex_node_map ?st2) ?key = Some pair"
    and st': "st' = (refresh_names args pos [kn_name n, en_name (np_entity pair)] (point_of pair)
        (declare_node_id args pos n (point_of pair) ?st2))
          \<lparr>ex_producers := record_entity (point_of pair) chunk (ex_producers ?st2)\<rparr>"
    using assms i r unfolding expand_entity_def by (auto simp: Let_def point_of_def)
  note same = frame_selectors [OF frame_resolve_entity_type [OF r]]
  have st2: "(point_of pair = final_id args n i \<or> point_of pair \<in> node_ids st)
      \<and> node_ids ?st2 = insert (point_of pair) (node_ids st)
      \<and> registered ?st2 \<subseteq> insert (point_of pair) (registered st)
      \<and> ex_timestamps ?st2 = ex_timestamps st \<and> ex_producers ?st2 = ex_producers st \<and> untouched st ?st2"
  proof (cases "map_of (ex_node_map st1) ?key")
    case None
    with new_entity_effect [OF None, of w pos chunk n et] pair same show ?thesis
      by (auto simp: registered_def untouched_def node_ids_def)
  next
    case (Some q)
    then have "point_of pair \<in> node_ids st"
      using pair same(1) by (force simp: node_ids_def dest: map_of_SomeD)
    with Some same show ?thesis by (auto simp: registered_def untouched_def node_ids_def)
  qed
  have "node_ids st' = node_ids ?st2" "registered st' \<subseteq> insert (point_of pair) (registered ?st2)"
    "ex_timestamps st' = ex_timestamps ?st2" "untouched ?st2 st'"
    using declare_refresh_effect [of args pos "[kn_name n, en_name (np_entity pair)]" "point_of pair" n ?st2]
    unfolding st' by (simp_all add: node_ids_def registered_def untouched_def)
  then have "node_ids st' = insert (point_of pair) (node_ids st)"
    "registered st' \<subseteq> insert (point_of pair) (registered st)" "ex_timestamps st' = ex_timestamps st"
    "untouched st st'" "ex_producers st' = record_entity (point_of pair) chunk (ex_producers st)"
    using st2 by (auto simp: untouched_def st')
  with st2 i show ?thesis by blast
qed

lemma insert_timestamp_effect:
  "\<exists>t. dp_id (ti_base (tn_timestamp t)) = dp_id (ti_base ts)
    \<and> ex_timestamps (insert_timestamp args w n ts st)
      = (if map_of (ex_timestamps st) (dp_id (ti_base ts)) = None
         then ex_timestamps st @ [(dp_id (ti_base ts), t)] else ex_timestamps st)
    \<and> ex_node_map (insert_timestamp args w n ts st) = ex_node_map st
    \<and> ex_by_id (insert_timestamp args w n ts st) = ex_by_id st
    \<and> ex_by_name (insert_timestamp args w n ts st) = ex_by_name st
    \<and> ex_producers (insert_timestamp args w n ts st) = ex_producers st
    \<and> untouched st (insert_timestamp args w n ts st)"
proof -
  obtain base visited where b: "pre_stamp_extraction args (set_weight w (ti_base ts)) (ex_visited st) = (base, visited)"
    by fastforce
  then have "dp_id base = dp_id (ti_base ts)"
    using pre_stamp_id [of args "set_weight w (ti_base ts)" "ex_visited st"] by simp
  then show ?thesis
    by (intro exI [of _ "\<lparr>tn_timestamp = ts\<lparr>ti_base := base\<rparr>, tn_description = kn_description n\<rparr>"])
      (simp add: insert_timestamp_def Let_def b untouched_def)
qed

definition times_ok :: "expansion_state \<Rightarrow> bool" where
  "times_ok st \<longleftrightarrow> (\<forall>(i, t) \<in> set (ex_timestamps st). dp_id (ti_base (tn_timestamp t)) = i)"

lemma expand_timestamp_effect:
  fixes args w pos chunk n ts st
  defines "f \<equiv> dp_id (ti_base ts)" and "st' \<equiv> expand_timestamp args w pos chunk n ts st"
  shows "node_ids st' = node_ids st" "time_ids st' = insert f (time_ids st)"
    "registered st' \<subseteq> insert f (registered st)" "times_ok st \<Longrightarrow> times_ok st'"
    "ex_producers st' = record_entity f chunk (ex_producers st)" "untouched st st'"
proof -
  obtain t where t: "dp_id (ti_base (tn_timestamp t)) = f"
    and ins: "ex_timestamps (insert_timestamp args w n ts st)
      = (if map_of (ex_timestamps st) f = None then ex_timestamps st @ [(f, t)] else ex_timestamps st)"
    "ex_node_map (insert_timestamp args w n ts st) = ex_node_map st"
    "ex_by_id (insert_timestamp args w n ts st) = ex_by_id st"
    "ex_by_name (insert_timestamp args w n ts st) = ex_by_name st"
    "ex_producers (insert_timestamp args w n ts st) = ex_producers st"
    "untouched st (insert_timestamp args w n ts st)"
    using insert_timestamp_effect [of ts args w n st] unfolding f_def by blast
  have times: "ex_timestamps st' = ex_timestamps (insert_timestamp args w n ts st)"
    by (simp add: st'_def expand_timestamp_def Let_def)
  show "node_ids st' = node_ids st" "ex_producers st' = record_entity f chunk (ex_producers st)" "untouched st st'"
    using ins(2,5,6) by (simp_all add: st'_def expand_timestamp_def Let_def f_def node_ids_def untouched_def)
  show "time_ids st' = insert f (time_ids st)"
    unfolding time_ids_def times ins(1)
    by (auto simp: image_iff dest: map_of_SomeD)
      (metis fst_conv map_of_SomeD)
  show "times_ok st \<Longrightarrow> times_ok st'"
    using t unfolding times_ok_def times ins(1) by auto
  have "id_targets (ex_by_id st') \<subseteq> insert f (id_targets (ex_by_id st))"
    using id_targets_update ins(3) by (simp add: st'_def expand_timestamp_def Let_def f_def)
  moreover have "alias_targets (ex_by_name st') \<subseteq> insert f (alias_targets (ex_by_name st))"
  proof -
    let ?reg = "\<lambda>name. register_name_alias (xa_norm args) name f (xa_norm args (kn_id n)) pos"
    have "alias_targets (?reg b (?reg a m)) \<subseteq> insert f (alias_targets m)" for a b m
      using alias_targets_register by blast
    then show ?thesis
      using ins(3,4) alias_targets_register [of "xa_norm args" "kn_name n" f "xa_norm args (kn_id n)" pos "ex_by_name st"]
        alias_targets_refresh [of "xa_norm args" "kn_name n" f pos "ex_by_name st"]
      by (simp add: st'_def expand_timestamp_def Let_def f_def split: option.split) blast
  qed
  ultimately show "registered st' \<subseteq> insert f (registered st)" by (auto simp: registered_def)
qed

text \<open>What an edge step does.\<close>

lemma resolved_entity_registered:
  "resolved_entity (resolve_endpoint normal m al raw) = Some e \<Longrightarrow> e \<in> id_targets m \<union> alias_targets al"
  by (auto simp: resolved_entity_def resolve_endpoint_def id_targets_def alias_targets_def Let_def
      split: option.splits prod.splits)

lemma resolve_edge_registered:
  assumes "resolve_edge args pos m al e stats = (Some (s, t), stats')"
  shows "{s, t} \<subseteq> id_targets m \<union> alias_targets al"
  using assms by (auto simp: resolve_edge_def Let_def split: option.splits if_splits
      dest!: resolved_entity_registered)

lemma orient_Some:
  "orient P (s, t) = Some (a, b) \<Longrightarrow> \<not> P a \<and> {a, b} = {s, t}"
  by (auto simp: orient_def split: if_splits)

lemma set_insert_vacant: "set (insert_vacant k v m) \<subseteq> insert (k, v) (set m)"
  by (auto simp: insert_vacant_def hash_insert_def)

lemma known_time: "map_of (ex_timestamps st) i \<noteq> None \<longleftrightarrow> i \<in> time_ids st"
  by (simp add: time_ids_def map_of_eq_None_iff)

lemma extracted_edge_pair_simps [simp]:
  "dedup_key (extracted_edge_pair env k e) = k"
  "ep_properties (extracted_edge_pair env k e) ''ontology_valid'' = Some (ascii ''false'')"
  by (cases k; simp add: extracted_edge_pair_def add_property_def edge_pair_new_def dedup_key_def)+

definition extracted :: "expansion_state \<Rightarrow> (edge_id \<times> edge_pair) set" where
  "extracted st = set (ex_edge_map st) \<union> set (ex_claimed st)"

lemma expand_edge_effect:
  fixes args pos chunk st e
  assumes "registered st \<subseteq> node_ids st \<union> time_ids st"
  defines "st' \<equiv> expand_edge args pos chunk st e"
  shows "node_ids st' = node_ids st \<and> time_ids st' = time_ids st \<and> registered st' = registered st
    \<and> ex_timestamps st' = ex_timestamps st
    \<and> (extracted st' = extracted st \<and> ex_producers st' = ex_producers st
       \<or> (\<exists>a b. a \<in> node_ids st \<and> b \<in> node_ids st \<union> time_ids st \<and>
            (let k = (a, b, ke_relationship e) in
             extracted st' \<subseteq> insert (k, extracted_edge_pair (xa_env args) k e) (extracted st)
             \<and> ex_producers st' = record_edge k chunk (ex_producers st))))"
proof -
  obtain found stats where r: "resolve_edge args pos (ex_by_id st) (ex_by_name st) e (ex_stats st) = (found, stats)"
    by fastforce
  show ?thesis
  proof (cases "Option.bind found (orient (\<lambda>i. map_of (ex_timestamps st) i \<noteq> None))")
    case None
    then show ?thesis
      by (simp add: st'_def expand_edge_def r Let_def node_ids_def time_ids_def registered_def extracted_def)
  next
    case (Some ends)
    obtain a b where ends: "ends = (a, b)" by fastforce
    obtain s t where found: "found = Some (s, t)"
      and o: "orient (\<lambda>i. map_of (ex_timestamps st) i \<noteq> None) (s, t) = Some (a, b)"
      using Some ends by (auto simp: bind_eq_Some_conv)
    have "{s, t} \<subseteq> registered st" using resolve_edge_registered r found by (simp add: registered_def)
    with assms(1) orient_Some [OF o] have ab: "a \<in> node_ids st" "b \<in> node_ids st \<union> time_ids st"
      unfolding known_time by auto
    let ?k = "(a, b, ke_relationship e)"
    have "st' = add_extracted_edge args chunk e (a, b) (st\<lparr>ex_stats := stats\<rparr>)"
      using Some ends by (simp add: st'_def expand_edge_def r Let_def)
    then have "node_ids st' = node_ids st \<and> time_ids st' = time_ids st \<and> registered st' = registered st
      \<and> ex_timestamps st' = ex_timestamps st
      \<and> extracted st' \<subseteq> insert (?k, extracted_edge_pair (xa_env args) ?k e) (extracted st)
      \<and> ex_producers st' = record_edge ?k chunk (ex_producers st)"
      using set_insert_vacant [of ?k "extracted_edge_pair (xa_env args) ?k e" "ex_edge_map st"]
        set_insert_vacant [of ?k "extracted_edge_pair (xa_env args) ?k e" "ex_claimed st"]
      by (auto simp: add_extracted_edge_def Let_def node_ids_def time_ids_def registered_def extracted_def)
    with ab show ?thesis unfolding Let_def by blast
  qed
qed

definition entity_like :: "sweep_env \<Rightarrow> uuid \<Rightarrow> bool" where
  "entity_like env i \<longleftrightarrow> (\<exists>vs. i = data_point_id_for env (ascii ''Entity'') vs)"

definition time_like :: "sweep_env \<Rightarrow> uuid \<Rightarrow> bool" where
  "time_like env i \<longleftrightarrow> (\<exists>vs. i = data_point_id_for env (ascii ''Timestamp'') vs)"

lemma time_not_entity:
  assumes "inj (se_v5 env)" "time_like env i"
  shows "\<not> entity_like env i"
  using assms data_point_ids_of_classes [OF assms(1), of "ascii ''Entity''" "ascii ''Timestamp''"]
  by (auto simp: entity_like_def time_like_def) metis

definition edge_ok :: "expansion_state \<Rightarrow> edge_id \<times> edge_pair \<Rightarrow> bool" where
  "edge_ok st kp \<longleftrightarrow> (case kp of (k, p) \<Rightarrow>
     dedup_key p = k \<and> ep_source p \<in> node_ids st \<and> ep_target p \<in> node_ids st \<union> time_ids st
     \<and> ep_properties p ''ontology_valid'' = Some (ascii ''false'') \<and> edge_chunks (ex_producers st) k \<noteq> [])"

definition ends_ok :: "expand_args \<Rightarrow> expansion_state \<Rightarrow> bool" where
  "ends_ok args st \<longleftrightarrow>
     (\<forall>i \<in> node_ids st. entity_like (xa_env args) i) \<and> (\<forall>i \<in> time_ids st. time_like (xa_env args) i)
     \<and> registered st \<subseteq> node_ids st \<union> time_ids st \<and> times_ok st
     \<and> (\<forall>i \<in> node_ids st \<union> time_ids st. entity_chunks (ex_producers st) i \<noteq> [])
     \<and> (\<forall>kp \<in> extracted st. edge_ok st kp)"

lemma push_new_nonempty [simp]: "push_new x xs \<noteq> []"
  by (auto simp: push_new_def)

lemma producers_simps [simp]:
  "entity_chunks (record_entity e chunk ap) i
    = (if i = e then push_new chunk (entity_chunks ap e) else entity_chunks ap i)"
  "edge_chunks (record_entity e chunk ap) k = edge_chunks ap k"
  "entity_chunks (record_edge k' chunk ap) i = entity_chunks ap i"
  "edge_chunks (record_edge k' chunk ap) k
    = (if k = k' then push_new chunk (edge_chunks ap k') else edge_chunks ap k)"
  by (simp_all add: entity_chunks_def edge_chunks_def record_entity_def record_edge_def or_default_def)

lemma ends_ok_start: "ends_ok args expansion_start"
  by (simp add: ends_ok_def expansion_start_def node_ids_def time_ids_def registered_def id_targets_def
      alias_targets_def times_ok_def extracted_def)

lemma ids_of_group_like:
  assumes "(x, i) \<in> set (ids_of_group env chunk k same)" "entity_like env k"
  shows "entity_like env i"
  using assms by (auto simp: ids_of_group_def ordinal_id_def entity_like_def split: list.splits)

lemma entity_ids_like:
  assumes "entity_ids_by_node_id env g chunk x = Some i"
  shows "entity_like env i"
proof -
  have "entity_like env (entity_id_for env name)" for name
    by (auto simp: entity_like_def entity_id_for_def)
  with assms show ?thesis
    by (auto simp: entity_ids_by_node_id_def dest!: map_of_SomeD) (blast intro: ids_of_group_like)
qed

lemma extracted_untouched: "untouched st st' \<Longrightarrow> extracted st' = extracted st"
  by (simp add: untouched_def extracted_def)

lemma ends_ok_entity:
  assumes "ends_ok args st"
    and "expand_entity args w pos chunk (entity_ids_by_node_id (xa_env args) g chunk') n st = Some st'"
  shows "ends_ok args st'"
proof -
  obtain f i where i: "entity_ids_by_node_id (xa_env args) g chunk' (kn_id n) = Some i"
    and f: "f = final_id args n i \<or> f \<in> node_ids st"
    and e: "node_ids st' = insert f (node_ids st)" "registered st' \<subseteq> insert f (registered st)"
      "ex_timestamps st' = ex_timestamps st" "ex_producers st' = record_entity f chunk (ex_producers st)"
      "untouched st st'"
    using expand_entity_effect [OF assms(2)] by blast
  have "entity_like (xa_env args) (final_id args n i)"
    using entity_ids_like [OF i] by (auto simp: final_id_def entity_id_for_def entity_like_def split: option.split)
  with f assms(1) have "entity_like (xa_env args) f" by (auto simp: ends_ok_def)
  moreover have "time_ids st' = time_ids st" "times_ok st' = times_ok st"
    using e(3) by (simp_all add: time_ids_def times_ok_def)
  ultimately show ?thesis using assms(1) e extracted_untouched [OF e(5)]
    by (auto simp: ends_ok_def edge_ok_def)
qed

lemma ends_ok_timestamp:
  assumes "ends_ok args st" "timestamp_from_text (xa_env args) now fresh name = Some ts"
  shows "ends_ok args (expand_timestamp args w pos chunk n ts st)"
proof -
  have "time_like (xa_env args) (dp_id (ti_base ts))"
    using assms(2) by (auto simp: timestamp_from_text_def timestamp_build_def timestamp_id_for_def time_like_def)
  then show ?thesis
    using assms(1) expand_timestamp_effect [where st = st and args = args and w = w
          and pos = pos and chunk = chunk and n = n and ts = ts]
      extracted_untouched [OF expand_timestamp_effect(6) [where st = st and args = args and w = w
          and pos = pos and chunk = chunk and n = n and ts = ts]]
    by (auto simp: ends_ok_def edge_ok_def)
qed

lemma ends_ok_edge:
  assumes "ends_ok args st"
  shows "ends_ok args (expand_edge args pos chunk st e)"
proof -
  let ?st' = "expand_edge args pos chunk st e"
  have reg: "registered st \<subseteq> node_ids st \<union> time_ids st" using assms by (simp add: ends_ok_def)
  note eff = expand_edge_effect [OF reg, of args pos chunk e]
  then have same: "node_ids ?st' = node_ids st" "time_ids ?st' = time_ids st" "registered ?st' = registered st"
    "times_ok ?st' = times_ok st" by (simp_all add: times_ok_def)
  from eff consider "extracted ?st' = extracted st" "ex_producers ?st' = ex_producers st"
    | a b where "a \<in> node_ids st" "b \<in> node_ids st \<union> time_ids st"
        "extracted ?st' \<subseteq> insert ((a, b, ke_relationship e),
           extracted_edge_pair (xa_env args) (a, b, ke_relationship e) e) (extracted st)"
        "ex_producers ?st' = record_edge (a, b, ke_relationship e) chunk (ex_producers st)"
    unfolding Let_def by blast
  then show ?thesis
  proof cases
    case 1
    then show ?thesis using assms same by (simp add: ends_ok_def edge_ok_def)
  next
    case 2
    let ?k = "(a, b, ke_relationship e)"
    have "ep_source (extracted_edge_pair (xa_env args) ?k e) = a" "ep_target (extracted_edge_pair (xa_env args) ?k e) = b"
      by (simp_all add: extracted_edge_pair_def add_property_def edge_pair_new_def)
    then have "edge_ok ?st' (?k, extracted_edge_pair (xa_env args) ?k e)"
      using 2(1,2,4) same by (simp add: edge_ok_def)
    moreover have "edge_ok ?st' kp" if "edge_ok st kp" for kp
      using that 2(4) same by (auto simp: edge_ok_def split: if_splits)
    ultimately have "\<forall>kp \<in> extracted ?st'. edge_ok ?st' kp"
      using 2(3) assms by (auto simp: ends_ok_def)
    then show ?thesis using assms same 2(4) by (simp add: ends_ok_def)
  qed
qed

lemma ends_ok_node:
  assumes "ends_ok args st"
    and "expand_node args w pos chunk (entity_ids_by_node_id (xa_env args) g chunk') st n = Some st'"
  shows "ends_ok args st'"
  using assms ends_ok_entity ends_ok_timestamp
  by (auto simp: expand_node_def split: option.splits if_splits)

interpretation ends: pass_invariant args "\<lambda>_. ends_ok args" for args
  by unfold_locales (auto simp: ends_ok_start intro: ends_ok_node ends_ok_edge)

text \<open>The edges the ontology adds are marked as such.\<close>

definition ontology_ok :: "expansion_state \<Rightarrow> bool" where
  "ontology_ok st \<longleftrightarrow> (\<forall>e \<in> set (ex_ontology_edges st). ep_properties e ''ontology_valid'' = Some (ascii ''true''))"

lemma ontology_ok_nodes: "ontology_ok (process_ontology_nodes args w nodes st) = ontology_ok st"
proof -
  have "ontology_ok (ontology_class args w name st) = ontology_ok st"
    "ontology_ok (ontology_individual args w name st) = ontology_ok st" for name st
    by (simp_all add: ontology_class_def ontology_individual_def Let_def ontology_ok_def split: prod.split)
  then show ?thesis unfolding process_ontology_nodes_def
    by (induction nodes arbitrary: st) (simp_all split: node_category.split)
qed

lemma ontology_ok_edges: "ontology_ok st \<Longrightarrow> ontology_ok (process_ontology_edges args nodes edges st)"
proof -
  have "ontology_ok (ontology_edge_pair args nodes st e)" if "ontology_ok st" for e st
    using that by (auto simp: ontology_edge_pair_def Let_def ontology_ok_def add_property_def split: prod.splits)
  then show "ontology_ok st \<Longrightarrow> ?thesis" unfolding process_ontology_edges_def
    by (induction edges arbitrary: st) auto
qed

lemma ontology_ok_cong: "ex_ontology_edges st = ex_ontology_edges st' \<Longrightarrow> ontology_ok st = ontology_ok st'"
  by (simp add: ontology_ok_def)

lemma ontology_ok_new_entity_type: "ontology_ok st \<Longrightarrow> ontology_ok (new_entity_type args w raw tk ek st)"
proof -
  have "ontology_ok (insert_type k et st) = ontology_ok st" for k et st
    by (simp add: insert_type_def ontology_ok_def)
  moreover have "ontology_ok (st\<lparr>ex_visited := v\<rparr>) = ontology_ok st"
    "ontology_ok (st\<lparr>ex_key_mapping := m\<rparr>) = ontology_ok st" for st v m
    by (simp_all add: ontology_ok_def)
  ultimately show "ontology_ok st \<Longrightarrow> ?thesis"
    by (simp add: new_entity_type_def Let_def ontology_ok_nodes ontology_ok_edges
        split: prod.split sum.split option.split)
qed

lemma ontology_ok_new_entity: "ontology_ok st \<Longrightarrow> ontology_ok (new_entity args w pos chunk n i et st)"
  by (simp add: new_entity_def Let_def split: prod.split option.split)
    (auto simp: ontology_ok_nodes intro!: ontology_ok_edges, auto simp: ontology_ok_def)

lemma ontology_ok_node:
  assumes "ontology_ok st" "expand_node args w pos chunk ids st n = Some st'"
  shows "ontology_ok st'"
proof -
  have keep: "ontology_ok ((refresh_names args pos names f (declare_node_id args pos n f st1))\<lparr>ex_producers := p\<rparr>)
      = ontology_ok st1" for names f st1 p
    by (rule ontology_ok_cong) (simp add: refresh_names_def declare_node_id_def Let_def split: option.split prod.split)
  have "ontology_ok st1" if "resolve_entity_type args w raw st = Some (et, st1)" for raw et st1
    using that assms(1) by (auto simp: resolve_entity_type_def Let_def ontology_ok_new_entity_type split: if_splits)
  then have "ontology_ok st1" if "expand_entity args w pos chunk ids n st = Some st1" for st1
    using that unfolding expand_entity_def
    by (auto simp: Let_def bind_eq_Some_conv keep ontology_ok_new_entity split: if_splits)
  moreover have "ontology_ok (expand_timestamp args w pos chunk n ts st) = ontology_ok st" for ts
    by (rule ontology_ok_cong)
      (simp add: expand_timestamp_def insert_timestamp_def Let_def split: prod.split)
  ultimately show ?thesis using assms by (auto simp: expand_node_def split: option.splits)
qed

lemma ontology_ok_edge: "ontology_ok (expand_edge args pos chunk st e) = ontology_ok st"
  by (rule ontology_ok_cong) (simp add: expand_edge_def add_extracted_edge_def Let_def split: prod.split option.split)

interpretation onto: pass_invariant args "\<lambda>_. ontology_ok" for args
  by unfold_locales (auto simp: ontology_ok_edge intro: ontology_ok_node, simp add: ontology_ok_def expansion_start_def)

lemma pass_result:
  assumes "expand_extracted_graphs args graphs = Some x"
  shows "\<exists>st. x = expansion_of args st \<and> ends_ok args st \<and> ontology_ok st"
proof -
  obtain st where "expand_graphs args 0 graphs expansion_start = Some st" and x: "x = expansion_of args st"
    using assms by (auto simp: expand_extracted_graphs_def)
  with ends.graphs [OF ends.start] onto.graphs [OF onto.start] show ?thesis by blast
qed

lemma timestamp_ids_of:
  assumes "times_ok st"
  shows "timestamp_ids (expansion_of args st) = time_ids st"
  using assms unfolding timestamp_ids_def expansion_of_def time_ids_def times_ok_def
  by (force simp: image_iff)

text \<open>C12: The graph a pass hands on is closed: every edge that was extracted from a chunk, to be
  written or to be claimed, starts at an entity of the result and ends at an entity or timestamp
  of the result; it never starts at a timestamp (an edge drawn from a timestamp is reversed, one
  between two timestamps dropped), and some chunk is recorded as its producer.\<close>

theorem extracted_edges_are_anchored:
  assumes "expand_extracted_graphs args graphs = Some x" "inj (se_v5 (xa_env args))"
    and "e \<in> set (xr_edges x) \<union> set (xr_claimed x)"
    and "ep_properties e ''ontology_valid'' = Some (ascii ''false'')"
  shows "ep_source e \<in> point_of ` set (xr_nodes x) - timestamp_ids x
    \<and> ep_target e \<in> point_of ` set (xr_nodes x) \<union> timestamp_ids x
    \<and> edge_chunks (xr_producers x) (dedup_key e) \<noteq> []"
proof -
  obtain st where x: "x = expansion_of args st" and ok: "ends_ok args st" "ontology_ok st"
    using pass_result [OF assms(1)] by blast
  have "\<exists>k. (k, e) \<in> extracted st"
    using assms(3,4) ok(2) by (auto simp: x expansion_of_def extracted_def ontology_ok_def) blast+
  then obtain k where k: "edge_ok st (k, e)" using ok(1) by (auto simp: ends_ok_def)
  have nodes: "node_ids st \<subseteq> point_of ` set (xr_nodes x)"
    by (auto simp: x expansion_of_def node_ids_def)
  have "timestamp_ids x = time_ids st"
    unfolding x by (rule timestamp_ids_of) (use ok(1) in \<open>simp add: ends_ok_def\<close>)
  moreover have "node_ids st \<inter> time_ids st = {}"
    using ok(1) time_not_entity [OF assms(2)] by (auto simp: ends_ok_def)
  ultimately show ?thesis using k nodes by (auto simp: edge_ok_def x expansion_of_def)
qed

end
