(* ===== verification/Expand_Equiv.thy ===== *)
theory Expand_Equiv
  imports Expand_Props
begin

text \<open>The tally of a pass, and the part the edges play that are already in the graph.\<close>

section \<open>The tally\<close>

lemma expand_node_untouched:
  assumes "expand_node args w pos chunk ids st n = Some st'"
  shows "untouched st st'"
proof (cases "if is_timestamp_type (xa_env args) (kn_type n)
    then timestamp_from_text (xa_env args) (xa_now args) (xa_fresh args) (kn_name n) else None")
  case None
  with assms have "expand_entity args w pos chunk ids n st = Some st'" by (simp add: expand_node_def)
  from expand_entity_effect [OF this] show ?thesis by blast
next
  case (Some ts)
  with assms show ?thesis by (auto simp: expand_node_def intro: expand_timestamp_effect(6))
qed

text \<open>How one endpoint is counted.\<close>

lemma count_resolution_effect:
  "rs_attempted (count_resolution p r s) = rs_attempted s"
  "rs_by_id (count_resolution p r s) + rs_by_name (count_resolution p r s)
    = rs_by_id s + rs_by_name s + (if resolved_entity r = None then 0 else 1)"
  "dropped (count_resolution p r s) = dropped s + (if r = Ambiguous then 1 else 0)"
  "rs_by_id_cross s \<le> rs_by_id s \<Longrightarrow> rs_by_id_cross (count_resolution p r s) \<le> rs_by_id (count_resolution p r s)"
  "rs_by_name_cross s \<le> rs_by_name s \<Longrightarrow> rs_by_name_cross (count_resolution p r s) \<le> rs_by_name (count_resolution p r s)"
  "rs_max_distance s < Suc p \<or> rs_max_distance s = 0
    \<Longrightarrow> rs_max_distance (count_resolution p r s) < Suc p \<or> rs_max_distance (count_resolution p r s) = 0"
  "(resolved_cross_chunk s = 0 \<longrightarrow> rs_max_distance s = 0)
    \<Longrightarrow> (resolved_cross_chunk (count_resolution p r s) = 0 \<longrightarrow> rs_max_distance (count_resolution p r s) = 0)"
  by (cases r; auto simp: count_resolution_def record_resolved_by_id_def record_resolved_by_name_def Let_def
      widen_cross_chunk_distance_def dropped_def resolved_entity_def resolved_cross_chunk_def)+

lemma resolved_None: "resolved_entity r = None \<longleftrightarrow> r = Ambiguous \<or> r = Missing"
  by (cases r) (auto simp: resolved_entity_def)

definition stats_ok :: "nat \<Rightarrow> resolution_stats \<Rightarrow> bool" where
  "stats_ok p s \<longleftrightarrow>
     2 * rs_attempted s \<le> rs_by_id s + rs_by_name s + 2 * dropped s
     \<and> rs_by_id s + rs_by_name s + dropped s \<le> 2 * rs_attempted s
     \<and> rs_by_id_cross s \<le> rs_by_id s \<and> rs_by_name_cross s \<le> rs_by_name s
     \<and> (rs_max_distance s < p \<or> rs_max_distance s = 0)
     \<and> (resolved_cross_chunk s = 0 \<longrightarrow> rs_max_distance s = 0)"

lemma resolve_edge_stats:
  assumes "resolve_edge args p m al e s = (found, s')"
  shows "rs_attempted s' = rs_attempted s + 1 \<and> dropped s' = dropped s + (if found = None then 1 else 0)
    \<and> (stats_ok (Suc p) s \<longrightarrow> stats_ok (Suc p) s')"
proof -
  let ?s0 = "s\<lparr>rs_attempted := rs_attempted s + 1\<rparr>"
  let ?src = "resolve_endpoint (xa_norm args) m al (ke_source e)"
  let ?tgt = "resolve_endpoint (xa_norm args) m al (ke_target e)"
  let ?s1 = "count_resolution p ?src ?s0" and ?s2 = "count_resolution p ?tgt (count_resolution p ?src ?s0)"
  note eff = count_resolution_effect [where p = p and r = ?src and s = ?s0]
    count_resolution_effect [where p = p and r = ?tgt and s = ?s1]
  consider "?src = Ambiguous" "found = None" "s' = ?s1"
    | "?src = Missing" "found = None" "s' = ?s1\<lparr>rs_source_missing := rs_source_missing ?s1 + 1\<rparr>"
    | "resolved_entity ?src \<noteq> None" "?tgt = Ambiguous" "found = None" "s' = ?s2"
    | "resolved_entity ?src \<noteq> None" "?tgt = Missing" "found = None"
        "s' = ?s2\<lparr>rs_target_missing := rs_target_missing ?s2 + 1\<rparr>"
    | "resolved_entity ?src \<noteq> None" "resolved_entity ?tgt \<noteq> None" "found \<noteq> None" "s' = ?s2"
    using assms resolved_None [of ?src] resolved_None [of ?tgt]
    by (auto simp: resolve_edge_def Let_def split: option.splits if_splits)
  then show ?thesis
    by cases (use eff in \<open>auto simp: stats_ok_def dropped_def resolved_cross_chunk_def resolved_None\<close>)
qed

definition tally_ok :: "nat \<Rightarrow> expansion_state \<Rightarrow> bool" where
  "tally_ok p st \<longleftrightarrow> stats_ok p (ex_stats st)
     \<and> length (ex_edge_map st) + length (ex_claimed st) + dropped (ex_stats st) \<le> rs_attempted (ex_stats st)"

lemma length_insert_vacant: "length (insert_vacant k v m) \<le> Suc (length m)"
  by (simp add: insert_vacant_def hash_insert_def)

lemma expand_edge_stats:
  "\<exists>found. resolve_edge args p (ex_by_id st) (ex_by_name st) e (ex_stats st)
      = (found, ex_stats (expand_edge args p chunk st e))
    \<and> (length (ex_edge_map (expand_edge args p chunk st e)) + length (ex_claimed (expand_edge args p chunk st e))
        \<le> length (ex_edge_map st) + length (ex_claimed st) + (if found = None then 0 else 1))"
proof -
  obtain found stats where r: "resolve_edge args p (ex_by_id st) (ex_by_name st) e (ex_stats st) = (found, stats)"
    by fastforce
  have "length (insert_vacant k v m) + length m' \<le> Suc (length m + length m')"
    "length m' + length (insert_vacant k v m) \<le> Suc (length m' + length m)" for k v and m m' :: "(edge_id \<times> edge_pair) list"
    using length_insert_vacant [of k v m] by simp_all
  then show ?thesis
    using r by (cases found) (auto simp: expand_edge_def add_extracted_edge_def Let_def split: option.split)
qed

lemma tally_ok_edge: "tally_ok (Suc p) st \<Longrightarrow> tally_ok (Suc p) (expand_edge args p chunk st e)"
  using expand_edge_stats [of args p st e chunk] resolve_edge_stats
  by (fastforce simp: tally_ok_def split: if_splits)

interpretation tally: pass_invariant args tally_ok for args
proof unfold_locales
  show "tally_ok 0 expansion_start"
    by (simp add: tally_ok_def stats_ok_def expansion_start_def stats_default_def dropped_def)
next
  fix p w chunk g st n st'
  assume "tally_ok (Suc p) st"
    "expand_node args w p chunk (entity_ids_by_node_id (xa_env args) g chunk) st n = Some st'"
  then show "tally_ok (Suc p) st'"
    using expand_node_untouched by (fastforce simp: tally_ok_def untouched_def)
qed (auto simp: tally_ok_edge, auto simp: tally_ok_def stats_ok_def)

lemma attempted_edges: "rs_attempted (ex_stats (foldl (expand_edge args p chunk) st es)) = rs_attempted (ex_stats st) + length es"
proof (induction es arbitrary: st)
  case (Cons e es)
  have "rs_attempted (ex_stats (expand_edge args p chunk st e)) = rs_attempted (ex_stats st) + 1"
    using expand_edge_stats [of args p st e chunk] resolve_edge_stats by fastforce
  with Cons show ?case by simp
qed simp

lemma stats_nodes: "expand_nodes args w p chunk ids ns st = Some st' \<Longrightarrow> ex_stats st' = ex_stats st"
proof (induction ns arbitrary: st)
  case (Cons n ns)
  then obtain st1 where "expand_node args w p chunk ids st n = Some st1" "expand_nodes args w p chunk ids ns st1 = Some st'"
    by (auto simp: bind_eq_Some_conv)
  with Cons.IH expand_node_untouched show ?case by (fastforce simp: untouched_def)
qed simp

lemma attempted_graphs:
  "expand_graphs args p cgs st = Some st' \<Longrightarrow>
    rs_attempted (ex_stats st') = rs_attempted (ex_stats st) + sum_list (map (\<lambda>cg. length (kg_edges (snd cg))) cgs)"
proof (induction cgs arbitrary: p st)
  case (Cons cg cgs)
  then obtain st1 where st1: "expand_graph args p cg st = Some st1" "expand_graphs args (Suc p) cgs st1 = Some st'"
    by (auto simp: bind_eq_Some_conv)
  have "rs_attempted (ex_stats st1) = rs_attempted (ex_stats st) + length (kg_edges (snd cg))"
    using st1(1) stats_nodes
    by (cases cg) (auto simp: expand_graph_def Let_def attempted_edges without_duplicate_node_ids_def)
  with Cons.IH [OF st1(2)] show ?case by simp
qed simp

text \<open>C19: The tally of a pass accounts for every extracted edge. Each is counted as
  attempted; it is counted as dropped, or both its endpoints are counted as resolved (and one more endpoint
  can be counted for an edge dropped at its target); what was not dropped bounds the extracted
  edges of the result (an edge between two timestamps resolves and goes nowhere); and no resolution reaches back over more chunks than there are.\<close>

theorem tally_accounts_for_every_edge:
  assumes "expand_extracted_graphs args graphs = Some x"
  shows "rs_attempted (xr_stats x) = sum_list (map (\<lambda>cg. length (kg_edges (snd cg))) graphs)
    \<and> length (filter (\<lambda>e. ep_properties e ''ontology_valid'' = Some (ascii ''false'')) (xr_edges x))
        + length (xr_claimed x) + dropped (xr_stats x) \<le> rs_attempted (xr_stats x)
    \<and> 2 * (rs_attempted (xr_stats x) - dropped (xr_stats x)) \<le> rs_by_id (xr_stats x) + rs_by_name (xr_stats x)
    \<and> rs_by_id (xr_stats x) + rs_by_name (xr_stats x) \<le> 2 * rs_attempted (xr_stats x) - dropped (xr_stats x)
    \<and> resolved_cross_chunk (xr_stats x) \<le> rs_by_id (xr_stats x) + rs_by_name (xr_stats x)
    \<and> rs_max_distance (xr_stats x) \<le> length graphs - 1"
proof -
  obtain st where st: "expand_graphs args 0 graphs expansion_start = Some st" and x: "x = expansion_of args st"
    using assms by (auto simp: expand_extracted_graphs_def)
  have tally: "tally_ok (length graphs) st" and onto: "ontology_ok st"
    using tally.graphs [OF tally.start st] onto.graphs [OF onto.start st] by simp_all
  have "filter (\<lambda>e. ep_properties e ''ontology_valid'' = Some (ascii ''false'')) (ex_ontology_edges st) = []"
    using onto by (auto simp: ontology_ok_def filter_empty_conv)
  then have "length (filter (\<lambda>e. ep_properties e ''ontology_valid'' = Some (ascii ''false'')) (xr_edges x))
      \<le> length (ex_edge_map st)"
    by (simp add: x expansion_of_def)
  then show ?thesis using tally attempted_graphs [OF st]
    by (auto simp add: x expansion_of_def tally_ok_def stats_ok_def resolved_cross_chunk_def
        expansion_start_def stats_default_def)
qed

end
