(* ===== verification/Expand_Existing.thy ===== *)
theory Expand_Existing
  imports Expand_Equiv "HOL-Library.Multiset"
begin

text \<open>Two passes over the same graphs, with and without edges that exist already: the pass
  with them is the pass without, with each edge moved to where it belongs afterwards.\<close>

section \<open>Two passes in step\<close>

definition forget :: "expand_args \<Rightarrow> expand_args" where
  "forget args = args\<lparr>xa_existing := {}\<rparr>"

lemma forget_simps [simp]:
  "xa_env (forget args) = xa_env args" "xa_now (forget args) = xa_now args" "xa_fresh (forget args) = xa_fresh args"
  "xa_dataset (forget args) = xa_dataset args" "xa_node_sets (forget args) = xa_node_sets args"
  "xa_weights (forget args) = xa_weights args" "xa_existing (forget args) = {}"
  "xa_is_loaded (forget args) = xa_is_loaded args" "xa_subgraph (forget args) = xa_subgraph args"
  "xa_user_label (forget args) = xa_user_label args" "xa_task_rank (forget args) = xa_task_rank args"
  by (simp_all add: forget_def)

lemma forget_norm [simp]: "xa_norm (forget args) = xa_norm args"
  by (simp add: xa_norm_def [abs_def])

lemma forget_stamp [simp]: "pre_stamp_extraction (forget args) = pre_stamp_extraction args"
  by (intro ext) (simp add: pre_stamp_extraction_def)

lemma forget_create [simp]: "create_entity_node (forget args) = create_entity_node args"
  by (intro ext) (simp only: create_entity_node_def forget_simps)

lemma forget_canonical [simp]:
  "canonical_type (forget args) = canonical_type args" "canonical_entity (forget args) = canonical_entity args"
  by (intro ext, simp only: canonical_type_def forget_simps) (intro ext, simp only: canonical_entity_def forget_simps)

lemma forget_match [simp]: "individual_match (forget args) = individual_match args"
  by (intro ext) (simp only: individual_match_def forget_simps)

lemma forget_class [simp]: "ontology_class (forget args) = ontology_class args"
  by (intro ext) (simp only: ontology_class_def forget_simps forget_stamp)

lemma forget_individual [simp]: "ontology_individual (forget args) = ontology_individual args"
  by (intro ext) (simp only: ontology_individual_def forget_simps forget_stamp)

lemma forget_nodes [simp]: "process_ontology_nodes (forget args) = process_ontology_nodes args"
  by (intro ext) (simp only: process_ontology_nodes_def forget_class forget_individual)

lemma forget_resolve [simp]: "resolve_edge (forget args) = resolve_edge args"
  by (intro ext) (simp only: resolve_edge_def forget_norm)


text \<open>Where the edges of the pass without existing edges would have gone.\<close>

definition existing :: "expand_args \<Rightarrow> edge_id \<Rightarrow> bool" where
  "existing args k \<longleftrightarrow> edge_string (xa_env args) k \<in> xa_existing args"

definition claim :: "expand_args \<Rightarrow> expansion_state \<Rightarrow> expansion_state" where
  "claim args st =
     st\<lparr>ex_edge_map := filter (\<lambda>kp. \<not> existing args (fst kp)) (ex_edge_map st),
        ex_claimed := filter (\<lambda>kp. existing args (fst kp)) (ex_edge_map st),
        ex_ontology_keys := ex_ontology_keys st - xa_existing args,
        ex_ontology_edges := filter (\<lambda>e. \<not> existing args (dedup_key e)) (ex_ontology_edges st)\<rparr>"

lemma claim_selectors [simp]:
  "ex_visited (claim args st) = ex_visited st" "ex_node_map (claim args st) = ex_node_map st"
  "ex_type_map (claim args st) = ex_type_map st" "ex_producers (claim args st) = ex_producers st"
  "ex_by_id (claim args st) = ex_by_id st" "ex_by_name (claim args st) = ex_by_name st"
  "ex_timestamps (claim args st) = ex_timestamps st" "ex_stats (claim args st) = ex_stats st"
  "ex_key_mapping (claim args st) = ex_key_mapping st" "ex_ontology_types (claim args st) = ex_ontology_types st"
  "ex_ontology_entities (claim args st) = ex_ontology_entities st"
  by (simp_all add: claim_def)

lemma claim_updates:
  "claim args (st\<lparr>ex_visited := a\<rparr>) = claim args st\<lparr>ex_visited := a\<rparr>"
  "claim args (st\<lparr>ex_node_map := b\<rparr>) = claim args st\<lparr>ex_node_map := b\<rparr>"
  "claim args (st\<lparr>ex_type_map := c\<rparr>) = claim args st\<lparr>ex_type_map := c\<rparr>"
  "claim args (st\<lparr>ex_producers := d\<rparr>) = claim args st\<lparr>ex_producers := d\<rparr>"
  "claim args (st\<lparr>ex_by_id := e\<rparr>) = claim args st\<lparr>ex_by_id := e\<rparr>"
  "claim args (st\<lparr>ex_by_name := f\<rparr>) = claim args st\<lparr>ex_by_name := f\<rparr>"
  "claim args (st\<lparr>ex_timestamps := g\<rparr>) = claim args st\<lparr>ex_timestamps := g\<rparr>"
  "claim args (st\<lparr>ex_stats := h\<rparr>) = claim args st\<lparr>ex_stats := h\<rparr>"
  "claim args (st\<lparr>ex_key_mapping := i\<rparr>) = claim args st\<lparr>ex_key_mapping := i\<rparr>"
  "claim args (st\<lparr>ex_ontology_types := j\<rparr>) = claim args st\<lparr>ex_ontology_types := j\<rparr>"
  "claim args (st\<lparr>ex_ontology_entities := k\<rparr>) = claim args st\<lparr>ex_ontology_entities := k\<rparr>"
  by (simp_all add: claim_def)

lemma claim_class: "ontology_class args w name (claim a st) = claim a (ontology_class args w name st)"
  by (simp add: ontology_class_def Let_def case_prod_beta claim_updates)

lemma claim_individual: "ontology_individual args w name (claim a st) = claim a (ontology_individual args w name st)"
  by (simp add: ontology_individual_def Let_def case_prod_beta claim_updates)

lemma claim_nodes: "process_ontology_nodes args w nodes (claim a st) = claim a (process_ontology_nodes args w nodes st)"
  unfolding process_ontology_nodes_def
  by (induction nodes arbitrary: st) (simp_all add: claim_class claim_individual split: node_category.split)

lemma dedup_key_simps [simp]:
  "dedup_key (add_property x v p) = dedup_key p" "dedup_key (edge_pair_new s t r) = (s, t, r)"
  by (simp_all add: dedup_key_def add_property_def edge_pair_new_def)

lemma claim_ontology_edge:
  "ontology_edge_pair args nodes (claim args st) e = claim args (ontology_edge_pair (forget args) nodes st e)"
proof -
  obtain s r t where e: "e = (s, r, t)" by (cases e) auto
  show ?thesis
    by (simp add: ontology_edge_pair_def e Let_def) (auto simp: claim_def existing_def insert_Diff_if)
qed

lemma claim_edges:
  "process_ontology_edges args nodes edges (claim args st) = claim args (process_ontology_edges (forget args) nodes edges st)"
  unfolding process_ontology_edges_def
  by (induction edges arbitrary: st) (simp_all add: claim_ontology_edge)

lemma claim_insert_type: "insert_type k et (claim a st) = claim a (insert_type k et st)"
  by (simp add: insert_type_def claim_updates)

lemma claim_new_entity_type:
  "new_entity_type args w raw tk ek (claim args st) = claim args (new_entity_type (forget args) w raw tk ek st)"
  by (simp add: new_entity_type_def Let_def case_prod_beta claim_insert_type [symmetric] claim_nodes [symmetric]
      claim_edges [symmetric] claim_updates split: sum.split option.split)

lemma claim_resolve_entity_type:
  "resolve_entity_type args w raw (claim args st)
    = map_option (map_prod id (claim args)) (resolve_entity_type (forget args) w raw st)"
  by (simp add: resolve_entity_type_def Let_def claim_new_entity_type option.map_comp comp_def)

lemma claim_new_entity:
  "new_entity args w pos chunk n i et (claim args st) = claim args (new_entity (forget args) w pos chunk n i et st)"
  by (simp add: new_entity_def Let_def case_prod_beta claim_nodes [symmetric] claim_edges [symmetric] claim_updates
      split: option.split)

lemma claim_declare: "declare_node_id args pos n i (claim a st) = claim a (declare_node_id args pos n i st)"
  by (simp add: declare_node_id_def Let_def case_prod_beta claim_updates split: option.split)

lemma claim_refresh: "refresh_names args pos names i (claim a st) = claim a (refresh_names args pos names i st)"
  by (simp add: refresh_names_def claim_updates)

lemma forget_declare [simp]:
  "declare_node_id (forget args) = declare_node_id args" "refresh_names (forget args) = refresh_names args"
  by (intro ext, simp only: declare_node_id_def forget_norm) (intro ext, simp only: refresh_names_def forget_norm)

lemma claim_expand_entity:
  "expand_entity args w pos chunk ids n (claim args st)
    = map_option (claim args) (expand_entity (forget args) w pos chunk ids n st)"
proof (cases "resolve_entity_type (forget args) w (kn_type n) st")
  case None
  then show ?thesis by (simp add: expand_entity_def claim_resolve_entity_type)
next
  case (Some a)
  obtain et st1 where a: "a = (et, st1)" by fastforce
  show ?thesis
  proof (cases "ids (kn_id n)")
    case None
    with Some show ?thesis by (simp add: expand_entity_def claim_resolve_entity_type a)
  next
    case (Some i)
    define st2 where "st2 = (if map_of (ex_node_map st1) (entity_key (xa_env args) i) = None
      then new_entity (forget args) w pos chunk n i et st1 else st1)"
    have st2: "(if map_of (ex_node_map (claim args st1)) (entity_key (xa_env args) i) = None
        then new_entity args w pos chunk n i et (claim args st1) else claim args st1) = claim args st2"
      by (simp add: st2_def claim_new_entity)
    show ?thesis
      unfolding expand_entity_def claim_resolve_entity_type
      by (simp only: \<open>resolve_entity_type (forget args) w (kn_type n) st = Some a\<close> a Some option.map map_prod_simp
          bind.bind_lunit split_conv id_apply Let_def st2 st2_def [symmetric] forget_simps forget_declare)
        (simp add: claim_declare claim_refresh claim_updates [symmetric] option.map_comp comp_def)
  qed
qed

lemma claim_timestamp:
  "insert_timestamp args w n ts (claim a st) = claim a (insert_timestamp args w n ts st)"
  by (simp add: insert_timestamp_def Let_def case_prod_beta claim_updates)

lemma forget_timestamp [simp]: "insert_timestamp (forget args) = insert_timestamp args"
  by (intro ext) (simp only: insert_timestamp_def forget_stamp)

lemma claim_expand_timestamp:
  "expand_timestamp args w pos chunk n ts (claim args st) = claim args (expand_timestamp (forget args) w pos chunk n ts st)"
  by (simp only: expand_timestamp_def Let_def forget_norm forget_timestamp claim_timestamp claim_selectors claim_updates)

lemma claim_expand_node:
  "expand_node args w pos chunk ids (claim args st) n = map_option (claim args) (expand_node (forget args) w pos chunk ids st n)"
  by (simp add: expand_node_def claim_expand_entity claim_expand_timestamp split: option.split)

lemma claim_expand_nodes:
  "expand_nodes args w pos chunk ids ns (claim args st) = map_option (claim args) (expand_nodes (forget args) w pos chunk ids ns st)"
proof (induction ns arbitrary: st)
  case (Cons n ns)
  then show ?case
    by (cases "expand_node (forget args) w pos chunk ids st n") (simp_all add: claim_expand_node)
qed simp

lemma map_of_filter_key:
  "map_of (filter (\<lambda>kp. P (fst kp)) m) k = (if P k then map_of m k else None)"
  by (induction m) auto

lemma filter_insert_vacant:
  "filter (\<lambda>kp. P (fst kp)) (insert_vacant k v m)
    = (if P k then insert_vacant k v (filter (\<lambda>kp. P (fst kp)) m) else filter (\<lambda>kp. P (fst kp)) m)"
proof -
  have "filter (\<lambda>(k', _). k' \<noteq> k) m' = m'" if "map_of m' k = None" for m' :: "('a \<times> 'b) list"
    using that by (induction m') (auto split: if_splits)
  then have absent: "hash_insert k v m' = (k, v) # m'" if "map_of m' k = None" for m'
    using that by (simp add: hash_insert_def)
  show ?thesis
    by (simp add: insert_vacant_def map_of_filter_key absent)
qed

lemma claim_add_edge:
  "add_extracted_edge args chunk e ends (claim args st) = claim args (add_extracted_edge (forget args) chunk e ends st)"
proof -
  let ?k = "(fst ends, snd ends, ke_relationship e)"
  note f = filter_insert_vacant [where P = "existing args" and k = ?k]
    filter_insert_vacant [where P = "\<lambda>k. \<not> existing args k" and k = ?k]
  show ?thesis
    by (simp add: add_extracted_edge_def Let_def claim_def f existing_def [symmetric])
qed

lemma claim_expand_edge:
  "expand_edge args pos chunk (claim args st) e = claim args (expand_edge (forget args) pos chunk st e)"
  by (simp add: expand_edge_def Let_def case_prod_beta claim_updates [symmetric] claim_add_edge split: option.split)

lemma claim_expand_edges:
  "foldl (expand_edge args pos chunk) (claim args st) es = claim args (foldl (expand_edge (forget args) pos chunk) st es)"
  by (induction es arbitrary: st) (simp_all add: claim_expand_edge)

lemma claim_expand_graph:
  "expand_graph args pos cg (claim args st) = map_option (claim args) (expand_graph (forget args) pos cg st)"
  by (simp add: expand_graph_def Let_def case_prod_beta claim_expand_nodes claim_expand_edges option.map_comp comp_def)

lemma claim_expand_graphs:
  "expand_graphs args pos cgs (claim args st) = map_option (claim args) (expand_graphs (forget args) pos cgs st)"
proof (induction cgs arbitrary: pos st)
  case (Cons cg cgs)
  then show ?case by (cases "expand_graph (forget args) pos cg st") (simp_all add: claim_expand_graph)
qed simp

lemma forget_ontology_type [simp]: "ontology_type_node (forget args) = ontology_type_node args"
  by (intro ext) (simp only: ontology_type_node_def forget_simps)

text \<open>The pass ends by draining its hash maps, in whatever order they have: what the code may return
  where the model returns \<open>x\<close>.\<close>

definition in_any_order :: "expansion \<Rightarrow> expansion \<Rightarrow> bool" where
  "in_any_order x y \<longleftrightarrow>
     mset (xr_nodes y) = mset (xr_nodes x) \<and> mset (xr_edges y) = mset (xr_edges x) \<and>
     mset (xr_claimed y) = mset (xr_claimed x) \<and>
     xr_producers y = xr_producers x \<and> xr_stats y = xr_stats x \<and> xr_timestamps y = xr_timestamps x"

lemma existing_edges_are_moved:
  assumes "expand_extracted_graphs (args\<lparr>xa_existing := {}\<rparr>) graphs = Some fresh"
  shows "\<exists>x. expand_extracted_graphs args graphs = Some x
    \<and> xr_nodes x = xr_nodes fresh \<and> xr_timestamps x = xr_timestamps fresh
    \<and> xr_producers x = xr_producers fresh \<and> xr_stats x = xr_stats fresh
    \<and> xr_edges x = filter (\<lambda>e. edge_string (xa_env args) (dedup_key e) \<notin> xa_existing args) (xr_edges fresh)
    \<and> xr_claimed x = filter (\<lambda>e. edge_string (xa_env args) (dedup_key e) \<in> xa_existing args
         \<and> ep_properties e ''ontology_valid'' = Some (ascii ''false'')) (xr_edges fresh)"
proof -
  obtain st where st: "expand_graphs (forget args) 0 graphs expansion_start = Some st"
    and fresh: "fresh = expansion_of (forget args) st"
    using assms by (auto simp: expand_extracted_graphs_def forget_def)
  have ok: "ends_ok (forget args) st" "ontology_ok st"
    using ends.graphs [OF ends.start st] onto.graphs [OF onto.start st] by simp_all
  have "claim args expansion_start = expansion_start"
    by (simp add: claim_def expansion_start_def)
  then have "expand_extracted_graphs args graphs = Some (expansion_of args (claim args st))"
    using claim_expand_graphs [of args 0 graphs expansion_start] st by (simp add: expand_extracted_graphs_def)
  moreover have kept: "dedup_key (snd kp) = fst kp \<and> ep_properties (snd kp) ''ontology_valid'' = Some (ascii ''false'')"
    if "kp \<in> set (ex_edge_map st)" for kp
  proof -
    have "edge_ok st kp" using ok(1) that by (simp add: ends_ok_def extracted_def)
    then show ?thesis by (simp add: edge_ok_def case_prod_beta)
  qed
  have "map snd (filter (\<lambda>kp. \<not> existing args (fst kp)) (ex_edge_map st))
      = filter (\<lambda>e. \<not> existing args (dedup_key e)) (map snd (ex_edge_map st))"
    using kept by (auto simp: filter_map intro!: arg_cong [where f = "map snd"] filter_cong)
  moreover have "map snd (filter (\<lambda>kp. existing args (fst kp)) (ex_edge_map st))
      = filter (\<lambda>e. existing args (dedup_key e) \<and> ep_properties e ''ontology_valid'' = Some (ascii ''false''))
          (map snd (ex_edge_map st))"
    using kept by (auto simp: filter_map intro!: arg_cong [where f = "map snd"] filter_cong)
  moreover have "filter (\<lambda>e. existing args (dedup_key e) \<and> ep_properties e ''ontology_valid'' = Some (ascii ''false''))
      (ex_ontology_edges st) = []"
    using ok(2) by (auto simp: ontology_ok_def filter_empty_conv)
  ultimately show ?thesis
    unfolding fresh existing_def [symmetric] by (simp add: expansion_of_def claim_def)
qed

text \<open>C11: What is in the graph already changes nothing but where edges go. A pass that knows the existing
  edges and a pass that knows none, over the same graphs and with the same clock, whatever the order in
  which either drains its hash maps: the nodes are the same, up to that order, and the timestamps, producers
  and tally are equal; of the edges of the pass that knows none the other writes exactly those that do not
  exist, and claims, without writing them, exactly the extracted ones that do.\<close>

theorem existing_edges_are_claimed_not_rewritten:
  assumes "expand_extracted_graphs (args\<lparr>xa_existing := {}\<rparr>) graphs = Some fresh0" and "in_any_order fresh0 fresh"
  shows "\<exists>x0. expand_extracted_graphs args graphs = Some x0 \<and> (\<forall>x. in_any_order x0 x \<longrightarrow>
      mset (xr_nodes x) = mset (xr_nodes fresh) \<and> xr_timestamps x = xr_timestamps fresh
    \<and> xr_producers x = xr_producers fresh \<and> xr_stats x = xr_stats fresh
    \<and> mset (xr_edges x) =
        {#e \<in># mset (xr_edges fresh). edge_string (xa_env args) (dedup_key e) \<notin> xa_existing args#}
    \<and> mset (xr_claimed x) =
        {#e \<in># mset (xr_edges fresh). edge_string (xa_env args) (dedup_key e) \<in> xa_existing args
          \<and> ep_properties e ''ontology_valid'' = Some (ascii ''false'')#})"
  using existing_edges_are_moved [OF assms(1)] assms(2)
  by (auto simp: in_any_order_def simp flip: mset_filter)

end
