(* ===== verification/Expand_Ids.thy ===== *)
theory Expand_Ids
  imports "HOL-Library.Multiset" Expand_Props
begin

text \<open>The entity ids of one extracted graph.\<close>

section \<open>Groups of nodes with one name\<close>

lemma map_fst_enumerate:
  "map fst (map (\<lambda>(i, n). (kn_id n, f i n)) (enumerate k xs)) = map kn_id xs"
  by (induction xs arbitrary: k) simp_all

lemma ids_of_group_cases:
  "ids_of_group env chunk k same
    = (if length same = 1 then map (\<lambda>n. (kn_id n, k)) same
       else map (\<lambda>(i, n). (kn_id n, ordinal_id env chunk n (i + 1))) (enumerate 0 (sort_key (ordinal_key env) same)))"
  by (auto simp: ids_of_group_def split: list.split)

lemma ids_of_group_fst:
  "map fst (ids_of_group env chunk k same)
    = map kn_id (if length same = 1 then same else sort_key (ordinal_key env) same)"
  unfolding ids_of_group_cases
  by (cases "length same = 1") (simp_all only: if_True if_False map_fst_enumerate, simp_all add: comp_def)

lemma ids_of_group_mset:
  assumes "mset same' = mset same" "inj_on (ordinal_key env) (set same)"
  shows "ids_of_group env chunk k same' = ids_of_group env chunk k same"
proof (cases "length same = 1")
  case True
  then obtain n where "same = [n]" by (cases same) auto
  with assms(1) show ?thesis by simp
next
  case False
  moreover have "length same' = length same" using mset_eq_length [OF assms(1)] .
  moreover have "sort_key (ordinal_key env) same' = sort_key (ordinal_key env) same"
    by (rule sort_key_inj_key_eq) (use assms in \<open>simp_all flip: set_mset_mset\<close>)
  ultimately show ?thesis by (simp add: ids_of_group_cases)
qed

definition named_ids :: "sweep_env \<Rightarrow> uuid \<Rightarrow> kg_node list \<Rightarrow> (ustr \<times> uuid) list" where
  "named_ids env chunk ns = concat (map (\<lambda>k. ids_of_group env chunk k (name_group env ns k))
     (remdups (map (\<lambda>n. entity_id_for env (kn_name n)) ns)))"

lemma distinct_concat_keys:
  assumes "distinct ks" "\<And>k. distinct (map fst (F k))" "\<And>k k'. k \<noteq> k' \<Longrightarrow> fst ` set (F k) \<inter> fst ` set (F k') = {}"
  shows "distinct (map fst (concat (map F ks)))"
  using assms(1)
proof (induction ks)
  case (Cons k ks)
  then have "fst ` set (F k) \<inter> fst ` set (F k') = {}" if "k' \<in> set ks" for k'
    using that assms(3) [of k k'] by auto
  with Cons assms(2) show ?case by (auto simp: map_concat)
qed simp

lemma named_ids_distinct:
  assumes "distinct (map kn_id ns)"
  shows "distinct (map fst (named_ids env chunk ns))"
  unfolding named_ids_def
proof (rule distinct_concat_keys)
  fix k
  have "distinct (map kn_id (name_group env ns k))"
    using assms by (simp add: name_group_def distinct_map_filter)
  then show "distinct (map fst (ids_of_group env chunk k (name_group env ns k)))"
    by (simp add: ids_of_group_fst distinct_map)
next
  fix k k' :: uuid
  assume "k \<noteq> k'"
  moreover have "inj_on kn_id (set ns)" using assms by (simp add: distinct_map)
  ultimately show "fst ` set (ids_of_group env chunk k (name_group env ns k))
      \<inter> fst ` set (ids_of_group env chunk k' (name_group env ns k')) = {}"
    unfolding ids_of_group_dom by (auto simp: name_group_def inj_on_def)
qed simp

text \<open>C20: The ids given to the entities of one extracted graph do not depend on the order in which
  the model listed its nodes, even where several nodes share a name, as long as no two nodes have the same
  id (of a repeated id the first declaration counts, so there the order matters) and no two agree in type,
  description and id up to normalisation.\<close>

theorem entity_ids_ignore_node_order:
  assumes "mset (kg_nodes g') = mset (kg_nodes g)" "distinct (map kn_id (kg_nodes g))"
    and "inj_on (ordinal_key env) (set (kg_nodes g))"
  shows "entity_ids_by_node_id env g' chunk = entity_ids_by_node_id env g chunk"
proof -
  have nodes: "set (kg_nodes g') = set (kg_nodes g)" using mset_eq_setD [OF assms(1)] .
  have "distinct (map kn_id (kg_nodes g'))"
    using assms(1,2) by (metis mset_eq_imp_distinct_iff mset_map)
  moreover have "ids_of_group env chunk k (name_group env (kg_nodes g') k)
      = ids_of_group env chunk k (name_group env (kg_nodes g) k)" for k
    by (rule ids_of_group_mset) (use assms(1,3) in \<open>auto simp: name_group_def intro: inj_on_subset\<close>)
  then have "set (named_ids env chunk (kg_nodes g')) = set (named_ids env chunk (kg_nodes g))"
    by (simp add: named_ids_def nodes)
  ultimately show ?thesis
    using assms(2) map_of_inject_set [of "named_ids env chunk (kg_nodes g')" "named_ids env chunk (kg_nodes g)"]
    by (simp add: entity_ids_by_node_id_def named_ids_def [symmetric] named_ids_distinct)
qed

end
