(* ===== verification/Expand_Sample.thy ===== *)
theory Expand_Sample
  imports Expand_Existing Expand_Ids "HOL-Library.Countable"
begin

text \<open>A small pass: two people, one edge.\<close>

definition sample_expand_env :: sweep_env where
  "sample_expand_env = \<lparr>se_v5 = to_nat, se_show = (\<lambda>n. [n]), se_lower = id\<rparr>"

definition sample_expand_args :: "ustr set \<Rightarrow> expand_args" where
  "sample_expand_args known =
     \<lparr>xa_env = sample_expand_env, xa_now = 0, xa_fresh = 0, xa_dataset = 0, xa_node_sets = Map.empty,
      xa_weights = Map.empty, xa_existing = known, xa_is_loaded = False,
      xa_subgraph = (\<lambda>_ _. Inr ([], [], None)), xa_user_label = None, xa_task_rank = None\<rparr>"

definition sample_kg_node :: "string \<Rightarrow> string \<Rightarrow> kg_node" where
  "sample_kg_node i name = \<lparr>kn_id = ascii i, kn_name = ascii name, kn_type = [], kn_description = []\<rparr>"

definition sample_kg :: knowledge_graph where
  "sample_kg =
     \<lparr>kg_nodes = [sample_kg_node ''a'' ''ann'', sample_kg_node ''b'' ''bob''],
      kg_edges = [\<lparr>ke_source = ascii ''a'', ke_target = ascii ''b'', ke_relationship = ascii ''knows'',
                   ke_description = None\<rparr>]\<rparr>"

definition sample_ann :: uuid where "sample_ann = entity_id_for sample_expand_env (ascii ''ann'')"
definition sample_bob :: uuid where "sample_bob = entity_id_for sample_expand_env (ascii ''bob'')"

lemma sample_env_simps [simp]:
  "se_v5 sample_expand_env = to_nat" "se_show sample_expand_env = (\<lambda>n. [n])" "se_lower sample_expand_env = id"
  by (simp_all add: sample_expand_env_def)

lemma sample_args_simps [simp]:
  "xa_env (sample_expand_args E) = sample_expand_env" "xa_existing (sample_expand_args E) = E"
  "xa_is_loaded (sample_expand_args E) = False" "xa_weights (sample_expand_args E) = Map.empty"
  "xa_node_sets (sample_expand_args E) = Map.empty"
  "xa_norm (sample_expand_args E) s = normalize_identifier id s"
  by (simp_all add: sample_expand_args_def xa_norm_def)

lemma sample_person_ids: "sample_ann \<noteq> sample_bob"
  by (simp add: sample_ann_def sample_bob_def entity_id_for_def data_point_id_for_def normalize_identifier_def)

lemma sample_entity_ids:
  "entity_ids_by_node_id sample_expand_env (without_duplicate_node_ids sample_kg) chunk
    = [ascii ''b'' \<mapsto> sample_bob, ascii ''a'' \<mapsto> sample_ann]"
  using sample_person_ids
  by (simp add: entity_ids_by_node_id_def without_duplicate_node_ids_def sample_kg_def sample_kg_node_def
      sample_ann_def sample_bob_def name_group_def ids_of_group_def fun_eq_iff)

lemma sample_create [simp]:
  "dp_id (en_base (np_entity (create_entity_node args n i et chunk w))) = i"
  "en_name (np_entity (create_entity_node (sample_expand_args E) n i et chunk w)) = generate_node_name sample_expand_env (kn_name n)"
  by (simp_all add: create_entity_node_id) (simp add: create_entity_node_def Let_def entity_new_def)

definition stamped_pair :: "expand_args \<Rightarrow> node_pair \<Rightarrow> uuid set \<Rightarrow> node_pair" where
  "stamped_pair args p v = p\<lparr>np_entity := (np_entity p)\<lparr>en_base := fst (pre_stamp_extraction args (en_base (np_entity p)) v)\<rparr>\<rparr>"

lemma sample_new_entity:
  "new_entity (sample_expand_args E) w pos chunk n i et st
    = (let pair = create_entity_node (sample_expand_args E) n i et chunk w;
           key = normalize_identifier id (kn_id n); name = generate_node_name sample_expand_env (kn_name n) in
       st\<lparr>ex_visited := snd (pre_stamp_extraction (sample_expand_args E) (en_base (np_entity pair)) (ex_visited st)),
          ex_by_name := register_name_alias (xa_norm (sample_expand_args E)) name i key pos
            (register_name_alias (xa_norm (sample_expand_args E)) (kn_name n) i key pos (ex_by_name st)),
          ex_by_id := (ex_by_id st)(key \<mapsto> (i, pos)),
          ex_node_map := hash_insert (entity_key sample_expand_env i)
            (stamped_pair (sample_expand_args E) pair (ex_visited st)) (ex_node_map st)\<rparr>)"
  by (simp add: new_entity_def Let_def individual_match_def stamped_pair_def case_prod_beta)

lemma stamped_pair_simps [simp]:
  "point_of (stamped_pair args p v) = dp_id (en_base (np_entity p))"
  "dp_id (en_base (np_entity (stamped_pair args p v))) = dp_id (en_base (np_entity p))"
  "en_name (np_entity (stamped_pair args p v)) = en_name (np_entity p)"
  by (simp_all add: stamped_pair_def point_of_def)

lemma sample_type: "resolve_entity_type args w [] st = Some (None, st)" if "se_lower (xa_env args) = id"
  using that by (simp add: resolve_entity_type_def generate_node_name_def trim_def)

lemma sample_kg_simps [simp]:
  "kg_nodes (without_duplicate_node_ids sample_kg) = [sample_kg_node ''a'' ''ann'', sample_kg_node ''b'' ''bob'']"
  "kg_edges (without_duplicate_node_ids sample_kg) = kg_edges sample_kg"
  "kn_id (sample_kg_node i name) = ascii i" "kn_name (sample_kg_node i name) = ascii name"
  "kn_type (sample_kg_node i name) = []" "kn_description (sample_kg_node i name) = []"
  by (simp_all add: without_duplicate_node_ids_def sample_kg_def sample_kg_node_def)

lemma sample_edges:
  "kg_edges sample_kg = [e] \<Longrightarrow> ke_source e = ascii ''a'' \<and> ke_target e = ascii ''b'' \<and> ke_relationship e = ascii ''knows''"
  "\<exists>e. kg_edges sample_kg = [e]"
  by (auto simp: sample_kg_def)

lemma sample_pass:
  "\<exists>st e. kg_edges sample_kg = [e]
     \<and> expand_graphs (sample_expand_args E) 0 [(7, sample_kg)] expansion_start = Some st
     \<and> (let k = (sample_ann, sample_bob, ascii ''knows''); p = (k, extracted_edge_pair sample_expand_env k e)
        in if edge_string sample_expand_env k \<in> E then ex_claimed st = [p] \<and> ex_edge_map st = []
           else ex_edge_map st = [p] \<and> ex_claimed st = [])
     \<and> ex_ontology_edges st = [] \<and> ex_timestamps st = []"
proof -
  obtain e where e: "kg_edges sample_kg = [e]" "ke_source e = ascii ''a''" "ke_target e = ascii ''b''"
    "ke_relationship e = ascii ''knows''"
    using sample_edges by blast
  show ?thesis
    using sample_person_ids e
    by (simp add: expand_graph_def Let_def sample_entity_ids expand_node_def is_timestamp_type_def generate_node_name_def
      expansion_start_def expand_entity_def sample_type
      sample_new_entity entity_key_def declare_node_id_def refresh_names_def normalize_identifier_def
      register_name_alias_def refresh_name_alias_origin_def expand_edge_def resolve_edge_def resolve_endpoint_def
      resolved_entity_def orient_def add_extracted_edge_def insert_vacant_def hash_insert_def)
qed

section \<open>The properties on the sample\<close>

definition sample_edge_id :: edge_id where
  "sample_edge_id = (sample_ann, sample_bob, ascii ''knows'')"

lemma sample_expansion:
  "\<exists>x p. expand_extracted_graphs (sample_expand_args E) [(7, sample_kg)] = Some x
     \<and> dedup_key p = sample_edge_id \<and> ep_properties p ''ontology_valid'' = Some (ascii ''false'')
     \<and> (if edge_string sample_expand_env sample_edge_id \<in> E then xr_edges x = [] \<and> xr_claimed x = [p]
        else xr_edges x = [p] \<and> xr_claimed x = [])"
proof -
  obtain st e where st: "expand_graphs (sample_expand_args E) 0 [(7, sample_kg)] expansion_start = Some st"
    and maps: "if edge_string sample_expand_env sample_edge_id \<in> E
      then ex_claimed st = [(sample_edge_id, extracted_edge_pair sample_expand_env sample_edge_id e)] \<and> ex_edge_map st = []
      else ex_edge_map st = [(sample_edge_id, extracted_edge_pair sample_expand_env sample_edge_id e)] \<and> ex_claimed st = []"
    and quiet: "ex_ontology_edges st = []"
    using sample_pass [of E] by (auto simp: Let_def sample_edge_id_def split: if_splits)
  show ?thesis
    by (intro exI [of _ "expansion_of (sample_expand_args E) st"]
        exI [of _ "extracted_edge_pair sample_expand_env sample_edge_id e"])
      (use st maps quiet in \<open>simp add: expand_extracted_graphs_def expansion_of_def split: if_splits\<close>)
qed

theorem extracted_edges_are_anchored_witness:
  "\<exists>x e. expand_extracted_graphs (sample_expand_args {}) [(7, sample_kg)] = Some x \<and> e \<in> set (xr_edges x)
     \<and> dedup_key e = sample_edge_id
     \<and> ep_source e \<in> point_of ` set (xr_nodes x) - timestamp_ids x
     \<and> ep_target e \<in> point_of ` set (xr_nodes x) \<union> timestamp_ids x
     \<and> edge_chunks (xr_producers x) (dedup_key e) \<noteq> []"
proof -
  obtain x e where x: "expand_extracted_graphs (sample_expand_args {}) [(7, sample_kg)] = Some x"
    and e: "dedup_key e = sample_edge_id" "ep_properties e ''ontology_valid'' = Some (ascii ''false'')" "xr_edges x = [e]"
    using sample_expansion [of "{}"] by auto
  have "inj (se_v5 (xa_env (sample_expand_args {})))" by simp
  from extracted_edges_are_anchored [OF x this _ e(2)] x e(1,3) show ?thesis
    by (intro exI [of _ x] exI [of _ e]) simp
qed

theorem tally_accounts_for_every_edge_witness:
  "\<exists>x. expand_extracted_graphs (sample_expand_args {}) [(7, sample_kg)] = Some x
     \<and> rs_attempted (xr_stats x) = 1 \<and> dropped (xr_stats x) = 0
     \<and> rs_by_id (xr_stats x) + rs_by_name (xr_stats x) = 2 \<and> rs_max_distance (xr_stats x) = 0"
proof -
  obtain x e where x: "expand_extracted_graphs (sample_expand_args {}) [(7, sample_kg)] = Some x"
    and e: "ep_properties e ''ontology_valid'' = Some (ascii ''false'')" "xr_edges x = [e]" "xr_claimed x = []"
    using sample_expansion [of "{}"] by auto
  have "length (kg_edges sample_kg) = 1" by (simp add: sample_kg_def)
  with tally_accounts_for_every_edge [OF x] e have "rs_attempted (xr_stats x) = 1" "dropped (xr_stats x) = 0"
    "rs_by_id (xr_stats x) + rs_by_name (xr_stats x) = 2" "rs_max_distance (xr_stats x) = 0"
    by auto
  with x show ?thesis by blast
qed

theorem existing_edges_are_claimed_not_rewritten_witness:
  "\<exists>x. expand_extracted_graphs (sample_expand_args {edge_string sample_expand_env sample_edge_id}) [(7, sample_kg)] = Some x
     \<and> xr_edges x = [] \<and> image_mset dedup_key (mset (xr_claimed x)) = {#sample_edge_id#}"
proof -
  let ?args = "sample_expand_args {edge_string sample_expand_env sample_edge_id}"
  have none: "?args\<lparr>xa_existing := {}\<rparr> = sample_expand_args {}" by (simp add: sample_expand_args_def)
  obtain x e where x: "expand_extracted_graphs (?args\<lparr>xa_existing := {}\<rparr>) [(7, sample_kg)] = Some x"
    and e: "dedup_key e = sample_edge_id" "ep_properties e ''ontology_valid'' = Some (ascii ''false'')" "xr_edges x = [e]"
    using sample_expansion [of "{}"] unfolding none by auto
  have "in_any_order x x" by (simp add: in_any_order_def)
  from existing_edges_are_claimed_not_rewritten [OF x this] e show ?thesis by (fastforce simp: in_any_order_def)
qed

text \<open>Entities have ids of their names, but the existing edges are looked up under ids of the node
  ids: where the model gave nodes ids that are not their names, an edge that exists is not found.\<close>

lemma existing_edge_is_not_asked_for:
  assumes "\<And>asked es. ask asked = Inr es \<Longrightarrow> set es \<subseteq> set asked"
    and "retrieve_existing_edges sample_expand_env ask [sample_kg] = Inr found"
  shows "edge_string sample_expand_env sample_edge_id \<notin> found"
proof -
  let ?k = "(entity_id_for sample_expand_env (ascii ''a''), entity_id_for sample_expand_env (ascii ''b''), ascii ''knows'')"
  have asked: "collect_distinct_candidate_edges sample_expand_env [sample_kg] = [?k]"
    by (simp add: collect_distinct_candidate_edges_def sample_kg_def push_new_def)
  then obtain es where es: "ask [?k] = Inr es" "found = edge_string sample_expand_env ` set es"
    using assms(2) by (cases "ask [?k]") (auto simp: retrieve_existing_edges_def)
  have "sample_ann \<noteq> entity_id_for sample_expand_env (ascii ''a'')"
    by (simp add: sample_ann_def entity_id_for_def data_point_id_for_def normalize_identifier_def)
  moreover have "set es \<subseteq> {?k}" using assms(1) [OF es(1)] by simp
  ultimately show ?thesis unfolding es(2)
    by (auto simp: edge_string_def sample_edge_id_def)
qed

definition sample_twins :: "bool \<Rightarrow> knowledge_graph" where
  "sample_twins swapped =
     (let a = sample_kg_node ''a'' ''ann''; b = sample_kg_node ''b'' ''ann''
      in \<lparr>kg_nodes = (if swapped then [b, a] else [a, b]), kg_edges = []\<rparr>)"

theorem entity_ids_ignore_node_order_witness:
  "entity_ids_by_node_id sample_expand_env (sample_twins True) 7 = entity_ids_by_node_id sample_expand_env (sample_twins False) 7"
proof (rule entity_ids_ignore_node_order)
  show "mset (kg_nodes (sample_twins True)) = mset (kg_nodes (sample_twins False))"
    by (simp add: sample_twins_def Let_def)
  show "distinct (map kn_id (kg_nodes (sample_twins False)))"
    by (simp add: sample_twins_def Let_def)
  show "inj_on (ordinal_key sample_expand_env) (set (kg_nodes (sample_twins False)))"
    by (auto simp: sample_twins_def Let_def ordinal_key_def generate_node_name_def)
qed

end
