(* ===== verification/Spec2Isabelle.thy ===== *)
theory Spec2Isabelle
  imports Text_Chunker Pipeline_Refine Registry_Props Dataset_Locks Run_Listing Recovery Cognify_Props Pacing
    Ontology_Files Prov_Stamp Timestamp_Forms Expand_Sample
begin

text \<open>
  A model of the core of cognee-rs: the Rust program that turns documents into a knowledge graph
  with vector indexes (``cognify''), and keeps, rolls back, lists and repeats the runs that do
  so. The definitions are translated from the sources under \<open>src/crates\<close>; each theory names
  the files it models in its first text block, and keeps the names of the code where they are
  free.

  \<^bold>\<open>How the program works, and where its parts are.\<close>

  \<^item> \<^bold>\<open>Chunking\<close> (\<open>crates/chunking\<close>). A text becomes words (\<open>Chunk_Word\<close>), sentences
    (\<open>Chunk_Sentence\<close>), paragraphs (\<open>Chunk_Paragraph\<close>) and document chunks (\<open>Text_Chunker\<close>,
    with the row chunker for tables). \<open>Token_Counter\<close> has the counters and their selection.
  \<^item> \<^bold>\<open>The executor\<close> (\<open>crates/core\<close>). \<open>Pipeline_Exec\<close> runs a list of tasks over the inputs,
    sequentially or concurrently, with batches, sentinels, retries (\<open>Retry\<close>), progress tokens
    (\<open>Progress\<close>), cancellation, provenance and events to watchers. \<open>Run_Registry\<close> keeps the
    runs of a process, \<open>Run_Trail\<close> relates the events to the rows the watchers write, and
    \<open>Dataset_Locks\<close> serialises the tasks that touch a dataset.
  \<^item> \<^bold>\<open>Runs in the database\<close> (\<open>crates/database\<close>). \<open>Run_Store\<close> is the table of runs with its
    JSON payload (\<open>Run_Info\<close>, \<open>Sanitize\<close>), \<open>Run_Listing\<close> the listing with filters and pages,
    \<open>Run_Claims\<close> the exclusive claims, \<open>Qualification\<close> the gate that decides whether a dataset
    may be processed again, \<open>Completion_Markers\<close> the per-item markers, \<open>Ledger\<close> the rows that
    say which run owns which node and edge.
  \<^item> \<^bold>\<open>Policy and rollback\<close> (\<open>crates/cognify\<close>, \<open>crates/delete\<close>). \<open>Failure_Policy\<close> decides
    what a failed item means, \<open>Rollback\<close> what is swept and what is marked when a run ends,
    \<open>Sweep\<close> removes the artifacts of a run from the graph and vector stores
    (\<open>Artifact_Stores\<close>), \<open>Recovery\<close> does so at startup for the runs a killed process left.
  \<^item> \<^bold>\<open>The cognify run\<close> (\<open>crates/cognify/src/tasks.rs\<close>). \<open>Cognify_Config\<close> and \<open>Cognify_Run\<close>
    compose all of these: gate, claim, markers, executor, policy and release.
  \<^item> \<^bold>\<open>Services around it\<close>. \<open>Pacing\<close> (\<open>crates/utils/src/pacing.rs\<close>) holds back requests to
    the providers; \<open>Ontology_Match\<close>, \<open>Ontology\<close> and \<open>Ontology_Files\<close> (\<open>crates/ontology\<close>)
    match entities against an RDF graph, extract the part of it around a match, and keep the
    files of the users.
  \<^item> \<^bold>\<open>Data points\<close> (\<open>crates/models\<close>, \<open>crates/utils/src/id_generation.rs\<close>). \<open>Data_Points\<close> has the records,
    constructors and deterministic ids, \<open>Documents\<close> the classification of data items, and
    \<open>Prov_Stamp\<close> the stamping of provenance; \<open>code_hooks\<close> there are the hooks the executor
    calls. \<open>Timestamps\<close> parses time strings to periods, \<open>Timestamp_Forms\<close> shows that their
    normalized form is read back.
  \<^item> \<^bold>\<open>Graph expansion\<close> (\<open>crates/cognify/src/graph_integration\<close>). \<open>Graph_Expand\<close> turns the graphs
    extracted from chunks into entities, types, timestamps and edges with deterministic ids, asks
    the ontology for canonical names, resolves the ends of edges, and sorts out the edges that
    exist already. \<open>Expand_Props\<close> has the invariants of a pass, \<open>Expand_Equiv\<close> its tally,
    \<open>Expand_Existing\<close> what existing edges change, \<open>Expand_Ids\<close> the ids of nodes that share a
    name, \<open>Expand_Sample\<close> a small pass.

  \<^bold>\<open>State and operations.\<close> A struct is a record and an enum a datatype, with the constructors of
  the code; an operation is a function that takes the state and returns it with its result. A
  \<open>Result\<close> is a sum whose left side is the error, so every early return is a branch. Texts are
  lists of code points and offsets count characters. Mutexes, atomics and await points are
  explicit steps where two tasks can meet (\<open>Dataset_Locks\<close>, \<open>Run_Claims\<close>, \<open>Registry_Props\<close>:
  step relations and their reachable states); elsewhere an operation is one step. Rust's floats
  are exact rationals. Machine integers keep their width where the code can reach it, with
  saturation written out.

  What is not under \<open>src\<close> is a parameter: the hash of \<open>uuid5\<close>, fresh ids, the clock, Unicode
  lower case and alphabetic classes, the tokenizers, the language model, \<open>join_all\<close> of the futures
  crate (of which a property asks, where it needs to, that it only runs the items and gives their
  results in order; how it interleaves them is left open), and the databases, whose statements
  succeed or fail as a fault record says. A watcher's row may be lost, as the code logs such a
  failure and goes on; a delete of artifacts may stop half-way; and the future of a cognify call
  may be dropped where it waits.

  \<^bold>\<open>What the lemmas show.\<close>

  \<^item> Chunkers: concatenating the chunks gives the text back, chunks keep to the budget, and each
    level refines the one below it (a partition of its pieces).
  \<^item> Executor: a run is refused without an event, or its events open it and close it, except after
    a panic or with a task of weight zero; a pipeline of pure tasks is a flat map, over one input
    or many, whatever the concurrency; retries are a function of the outcomes.
  \<^item> Runs: two processes never hold a claim at once, the last row of a run's trail
    that was written decides whether the next one may start, listing in parts equals one
    statement, markers are read back.
  \<^item> Rollback: what other rows claim stays, what the run alone owns goes, a sweep that failed
    half-way can be repeated, recovery touches the orphans only.
  \<^item> Registry: the slot of a background run is given back only by an abort, an inline run of the
    same id or the shutdown, which then writes an errored row for it.
  \<^item> Cognify: a claim is given back unless a task panics, the future is dropped or the release
    fails; a concurrent run is refused without a trace; a failure blocks the next call only by a row
    that could not be written; repeating a success does nothing.
  \<^item> Services: the rate of paced requests is bounded over every window, the ontology search ends
    after one step per reachable node and returns exactly what is reachable, uploads are read
    back.
  \<^item> Data points: stamping keeps every value's type and fields, fills in what is missing along
    the tree, and the first complete stamp is final.
  \<^item> Timestamps: two periods overlap exactly where they have an instant in common, and the
    normalized form of a time is parsed to the same period.
  \<^item> Graph expansion: no lookup of a pass fails, every extracted edge runs from an entity of the
    result to an entity or timestamp of it, the tally accounts for every edge, existing edges are
    claimed and never written, and ids do not depend on the order of nodes.

  \<^bold>\<open>Interfaces.\<close> Each is a locale, interpreted on the model's own operations in the theory of
  its provider: \<open>token_counter\<close> and \<open>monotone_token_counter\<close> (what the chunkers need of a
  counter; the word counter), \<open>exec_relation\<close> (a relation on executor states closed under the
  executor's moves; the event log and the progress), \<open>run_recorder\<close> (what a watcher appends for
  an event; the database watcher and the registry's scoped watcher), \<open>artifact_stores\<close> (what the
  sweep needs of the stores; the stores in memory, and a copy of them that breaks off),
  \<open>row_order\<close> (the sort of a listing; by creation time), \<open>matching_strategy\<close> (a match is a
  candidate; the fuzzy strategy), \<open>pass_invariant\<close> (a property of the state that every node and edge of an
  expansion keeps; the ends of edges, the marks of ontology edges, the tally).

  \<^bold>\<open>Termination.\<close> No function takes fuel. Loops over lists are structural or have a measure (the
  word scanner, the splitting of strings, the executor's recursion over its tasks, the matching
  blocks); the search of \<open>Ontology\<close> is a \<open>while_option\<close> whose end is a theorem.

  \<^bold>\<open>Not modelled.\<close> Adapters of providers and databases, prompts, bindings, the command line,
  telemetry, visualization and file loaders are environment. The bodies of the cognify tasks are
  parameters of the executor. The retrievers of \<open>crates/search\<close> rank what the databases return and
  prompt a language model; sessions, memify and the deletion by user request combine statements
  of the stores with the parts above; the add pipeline of \<open>crates/ingestion\<close> is loaders of files
  and pages. None of them is modelled.
\<close>

end
